(* ===== verification/Prelude.thy ===== *)
theory Prelude
  imports Main "HOL-Library.Char_ord" "HOL-Library.List_Lexorder" "HOL-Library.Product_Lexorder"
begin

text \<open>
  What every component of the gateway shares: Go strings as byte lists, the parts of the
  \<open>strings\<close>, \<open>slices\<close>, \<open>unicode\<close>, \<open>utf8\<close>, \<open>hex\<close> and \<open>time\<close> packages the source uses, and
  the length-prefixed framing that the audit trail, the definition signer and the tool
  quarantine hash or sign.

  A Go string is a sequence of bytes, and an Isabelle \<^typ>\<open>char\<close> is a byte, so a Go string and
  a Go byte slice are both \<^typ>\<open>string\<close>; length counts bytes, as \<open>len\<close> does. An
  association list stands for a Go map whose keys it lists in some iteration order. The
  order on strings (\<^theory_text>\<open>List_Lexorder\<close> over \<^theory_text>\<open>Char_ord\<close>) is Go's byte-wise order, so
  \<^term>\<open>sort\<close> is \<open>slices.Sort\<close>.
\<close>

section \<open>Collections of the development\<close>

named_theorems go_strings \<open>facts about the string functions\<close>
named_theorems framing \<open>cancellation rules of the length-prefixed encodings\<close>

section \<open>Lists, options and sums\<close>

fun first_some :: "('a \<Rightarrow> 'b option) \<Rightarrow> 'a list \<Rightarrow> 'b option" where
  "first_some f [] = None"
| "first_some f (x # xs) = (case f x of Some y \<Rightarrow> Some y | None \<Rightarrow> first_some f xs)"

lemma first_some_SomeD: "first_some f xs = Some y \<Longrightarrow> \<exists>x\<in>set xs. f x = Some y"
  by (induction xs) (auto split: option.splits)

lemma find_map_of_key:
  "distinct (map k xs) \<Longrightarrow> x \<in> set xs \<Longrightarrow> find (\<lambda>y. k y = k x) xs = Some x"
proof (induction xs)
  case Nil
  then show ?case by simp
next
  case (Cons a xs)
  show ?case
  proof (cases "a = x")
    case True
    then show ?thesis by simp
  next
    case False
    with Cons.prems have "x \<in> set xs" "k a \<noteq> k x" by auto
    with Cons show ?thesis by simp
  qed
qed

lemma find_SomeD: "find P xs = Some x \<Longrightarrow> x \<in> set xs \<and> P x"
  by (induction xs) (auto split: if_splits)

lemma find_NoneD: "find P xs = None \<Longrightarrow> x \<in> set xs \<Longrightarrow> \<not> P x"
  by (induction xs) (auto split: if_splits)

lemma list_all_iff_ball [simp]: "list_all P xs \<longleftrightarrow> (\<forall>x\<in>set xs. P x)"
  by (simp add: list_all_iff)

lemma list_ex_iff_bex [simp]: "list_ex P xs \<longleftrightarrow> (\<exists>x\<in>set xs. P x)"
  by (simp add: list_ex_iff)

section \<open>strings: prefixes, cuts and trimming\<close>

text \<open>\<open>strings.CutPrefix\<close>: the remainder after the prefix, when it is there.\<close>

fun cut_prefix :: "string \<Rightarrow> string \<Rightarrow> string option" where
  "cut_prefix [] s = Some s"
| "cut_prefix (x # xs) [] = None"
| "cut_prefix (x # xs) (y # ys) = (if x = y then cut_prefix xs ys else None)"

lemma cut_prefix_iff [go_strings]: "cut_prefix p s = Some r \<longleftrightarrow> s = p @ r"
  by (induction p s rule: cut_prefix.induct) auto

lemma cut_prefix_append [simp]: "cut_prefix p (p @ r) = Some r"
  by (simp add: cut_prefix_iff)

lemma cut_prefix_None_iff [go_strings]: "cut_prefix p s = None \<longleftrightarrow> (\<forall>r. s \<noteq> p @ r)"
  by (metis cut_prefix_iff not_Some_eq)

definition has_prefix :: "string \<Rightarrow> string \<Rightarrow> bool" where
  "has_prefix s p = (cut_prefix p s \<noteq> None)"

text \<open>\<open>strings.Cut\<close> at a one-byte separator: the first occurrence splits the string.\<close>

fun cut_at :: "char \<Rightarrow> string \<Rightarrow> (string \<times> string) option" where
  "cut_at c [] = None"
| "cut_at c (x # xs) =
     (if x = c then Some ([], xs)
      else (case cut_at c xs of None \<Rightarrow> None | Some (a, b) \<Rightarrow> Some (x # a, b)))"

lemma cut_at_iff [go_strings]: "cut_at c s = Some (a, b) \<longleftrightarrow> s = a @ c # b \<and> c \<notin> set a"
proof (induction s arbitrary: a b)
  case Nil
  then show ?case by simp
next
  case (Cons x xs)
  have "cut_at c (x # xs) = Some (a, b) \<longleftrightarrow>
      (if x = c then a = [] \<and> b = xs else \<exists>a'. a = x # a' \<and> cut_at c xs = Some (a', b))"
    by (auto split: option.splits)
  then show ?case by (cases a) (auto simp: Cons.IH)
qed

lemma cut_at_None_iff [go_strings]: "cut_at c s = None \<longleftrightarrow> c \<notin> set s"
  by (induction s) (auto split: option.splits)

text \<open>
  The code points \<open>unicode.IsSpace\<close> accepts, each in its UTF-8 encoding: tab, line feed,
  vertical tab, form feed, carriage return, space, U+0085, U+00A0, U+1680, U+2000 to U+200A,
  U+2028, U+2029, U+202F, U+205F and U+3000. \<open>strings.TrimSpace\<close> removes these from both ends.
  No encoding is a proper suffix of another rune's encoding, so removing a rune from the end is
  removing its bytes.
\<close>

definition space_tokens :: "string list" where
  "space_tokens =
     [[CHR 0x09], [CHR 0x0A], [CHR 0x0B], [CHR 0x0C], [CHR 0x0D], [CHR 0x20],
      [CHR 0xC2, CHR 0x85], [CHR 0xC2, CHR 0xA0], [CHR 0xE1, CHR 0x9A, CHR 0x80],
      [CHR 0xE2, CHR 0x80, CHR 0x80], [CHR 0xE2, CHR 0x80, CHR 0x81],
      [CHR 0xE2, CHR 0x80, CHR 0x82], [CHR 0xE2, CHR 0x80, CHR 0x83],
      [CHR 0xE2, CHR 0x80, CHR 0x84], [CHR 0xE2, CHR 0x80, CHR 0x85],
      [CHR 0xE2, CHR 0x80, CHR 0x86], [CHR 0xE2, CHR 0x80, CHR 0x87],
      [CHR 0xE2, CHR 0x80, CHR 0x88], [CHR 0xE2, CHR 0x80, CHR 0x89],
      [CHR 0xE2, CHR 0x80, CHR 0x8A], [CHR 0xE2, CHR 0x80, CHR 0xA8],
      [CHR 0xE2, CHR 0x80, CHR 0xA9], [CHR 0xE2, CHR 0x80, CHR 0xAF],
      [CHR 0xE2, CHR 0x81, CHR 0x9F], [CHR 0xE3, CHR 0x80, CHR 0x80]]"

definition cut_token :: "string list \<Rightarrow> string \<Rightarrow> string option" where
  "cut_token toks s = first_some (\<lambda>t. if t = [] then None else cut_prefix t s) toks"

lemma cut_token_shorter: "cut_token toks s = Some r \<Longrightarrow> length r < length s"
  by (auto simp: cut_token_def cut_prefix_iff dest!: first_some_SomeD split: if_splits)

function strip_tokens :: "string list \<Rightarrow> string \<Rightarrow> string" where
  "strip_tokens toks s =
     (case cut_token toks s of None \<Rightarrow> s | Some r \<Rightarrow> strip_tokens toks r)"
  by pat_completeness auto
termination
  by (relation "measure (\<lambda>(toks, s). length s)") (auto dest: cut_token_shorter)

declare strip_tokens.simps [simp del]

definition trim_left :: "string \<Rightarrow> string" where
  "trim_left s = strip_tokens space_tokens s"

definition trim_right :: "string \<Rightarrow> string" where
  "trim_right s = rev (strip_tokens (map rev space_tokens) (rev s))"

definition trim_space :: "string \<Rightarrow> string" where
  "trim_space s = trim_right (trim_left s)"

text \<open>A string is blank when trimming leaves nothing, and trimmed when it changes nothing.\<close>

definition blank :: "string \<Rightarrow> bool" where
  "blank s = (trim_space s = [])"

definition trimmed :: "string \<Rightarrow> bool" where
  "trimmed s = (trim_space s = s)"

lemma strip_tokens_Nil [simp]: "strip_tokens toks [] = []"
proof (cases "cut_token toks []")
  case None
  then show ?thesis by (simp add: strip_tokens.simps)
next
  case (Some r)
  then have "length r < length ([]::string)" by (rule cut_token_shorter)
  then show ?thesis by simp
qed

lemma trim_space_Nil [simp]: "trim_space [] = []"
  by (simp add: trim_space_def trim_left_def trim_right_def)

lemma blank_Nil [simp]: "blank []"
  by (simp add: blank_def)

lemma trimmed_blankD: "trimmed s \<Longrightarrow> blank s \<Longrightarrow> s = []"
  by (simp add: trimmed_def blank_def)

lemma not_blank_nonempty: "\<not> blank s \<Longrightarrow> s \<noteq> []"
  by auto

text \<open>What trimming removes is made of the bytes of the trimmed tokens.\<close>

lemma strip_tokens_suffix:
  "\<exists>p. s = p @ strip_tokens toks s \<and> set p \<subseteq> set (concat toks)"
proof (induction toks s rule: strip_tokens.induct)
  case (1 toks s)
  show ?case
  proof (cases "cut_token toks s")
    case None
    then show ?thesis by (simp add: strip_tokens.simps [of toks s])
  next
    case (Some r)
    then obtain t where t: "t \<in> set toks" "s = t @ r"
      by (auto simp: cut_token_def cut_prefix_iff dest!: first_some_SomeD split: if_splits)
    from "1.IH" [OF Some] obtain p where "r = p @ strip_tokens toks r" "set p \<subseteq> set (concat toks)" by blast
    moreover have "strip_tokens toks s = strip_tokens toks r"
      using Some by (simp add: strip_tokens.simps [of toks s])
    ultimately show ?thesis using t by (intro exI [of _ "t @ p"]) auto
  qed
qed

lemma blank_bytes:
  assumes "blank s"
  shows "set s \<subseteq> set (concat space_tokens)"
proof -
  obtain p where p: "s = p @ trim_left s" "set p \<subseteq> set (concat space_tokens)"
    unfolding trim_left_def using strip_tokens_suffix by blast
  obtain q where "rev (trim_left s) = q @ strip_tokens (map rev space_tokens) (rev (trim_left s))"
    and q: "set q \<subseteq> set (concat (map rev space_tokens))"
    using strip_tokens_suffix by blast
  moreover have "strip_tokens (map rev space_tokens) (rev (trim_left s)) = []"
    using assms by (simp add: blank_def trim_space_def trim_right_def)
  ultimately have "set (trim_left s) = set q" by (metis append_Nil2 set_rev)
  moreover have "set (concat (map rev space_tokens)) = set (concat space_tokens)" by simp
  ultimately have "set (trim_left s) \<subseteq> set (concat space_tokens)" using q by simp
  moreover have "set s = set p \<union> set (trim_left s)" using arg_cong [OF p(1), of set] by simp
  ultimately show ?thesis using p(2) by simp
qed

section \<open>Byte encodings\<close>

text \<open>\<open>binary.BigEndian\<close>: the value in \<open>k\<close> bytes, most significant first, modulo \<open>256 ^ k\<close>.\<close>

fun be_bytes :: "nat \<Rightarrow> nat \<Rightarrow> string" where
  "be_bytes 0 n = []"
| "be_bytes (Suc k) n = be_bytes k (n div 256) @ [char_of (n mod 256)]"

definition be64 :: "nat \<Rightarrow> string" where
  "be64 n = be_bytes 8 n"

lemma length_be_bytes [simp]: "length (be_bytes k n) = k"
  by (induction k arbitrary: n) auto

lemma length_be64 [simp]: "length (be64 n) = 8"
  by (simp add: be64_def)

lemma char_of_byte_inject:
  "(m::nat) < 256 \<Longrightarrow> n < 256 \<Longrightarrow> char_of m = (char_of n :: char) \<Longrightarrow> m = n"
  by (metis of_char_of mod_less)

lemma be_bytes_inject:
  "m < 256 ^ k \<Longrightarrow> n < 256 ^ k \<Longrightarrow> be_bytes k m = be_bytes k n \<Longrightarrow> m = n"
proof (induction k arbitrary: m n)
  case 0
  then show ?case by simp
next
  case (Suc k)
  from Suc.prems(3) have hi: "be_bytes k (m div 256) = be_bytes k (n div 256)"
    and lo: "char_of (m mod 256) = (char_of (n mod 256) :: char)" by auto
  have "m div 256 < 256 ^ k" "n div 256 < 256 ^ k"
    using Suc.prems(1,2) by (simp_all add: less_mult_imp_div_less mult.commute)
  with Suc.IH hi have "m div 256 = n div 256" by blast
  moreover from lo have "m mod 256 = n mod 256"
    by (intro char_of_byte_inject) auto
  ultimately show ?case by (metis div_mult_mod_eq)
qed

lemma be64_inject: "m < 2 ^ 64 \<Longrightarrow> n < 2 ^ 64 \<Longrightarrow> be64 m = be64 n \<Longrightarrow> m = n"
  unfolding be64_def by (rule be_bytes_inject [where k = 8]) simp_all

text \<open>\<open>hex.EncodeToString\<close>.\<close>

definition hex_digit :: "nat \<Rightarrow> char" where
  "hex_digit n = ''0123456789abcdef'' ! n"

fun hex_encode :: "string \<Rightarrow> string" where
  "hex_encode [] = []"
| "hex_encode (c # cs) =
     hex_digit ((of_char c :: nat) div 16) # hex_digit ((of_char c :: nat) mod 16) # hex_encode cs"

lemma hex_digit_inject:
  assumes "m < 16" "n < 16" "hex_digit m = hex_digit n"
  shows "m = n"
proof -
  have "distinct ''0123456789abcdef''" by simp
  moreover have "length ''0123456789abcdef'' = 16" by simp
  ultimately show ?thesis
    using assms unfolding hex_digit_def by (metis nth_eq_iff_index_eq)
qed

lemma of_char_bound: "(of_char c :: nat) < 256"
  using of_char_mod_256 [of c] by (metis mod_less_divisor zero_less_numeral)

lemma hex_byte_inject:
  fixes c d :: char
  assumes "hex_digit ((of_char c :: nat) div 16) = hex_digit ((of_char d :: nat) div 16)"
    and "hex_digit ((of_char c :: nat) mod 16) = hex_digit ((of_char d :: nat) mod 16)"
  shows "c = d"
proof -
  have "(of_char c :: nat) div 16 < 16" "(of_char d :: nat) div 16 < 16"
    using of_char_bound [of c] of_char_bound [of d] by (simp_all add: div_less_iff_less_mult)
  with assms(1) have "(of_char c :: nat) div 16 = of_char d div 16"
    by (rule hex_digit_inject [rotated 2])
  moreover from assms(2) have "(of_char c :: nat) mod 16 = of_char d mod 16"
    by (intro hex_digit_inject) auto
  ultimately have "(of_char c :: nat) = of_char d"
    by (metis div_mult_mod_eq)
  then show ?thesis by simp
qed

lemma hex_encode_inject: "hex_encode xs = hex_encode ys \<longleftrightarrow> xs = ys"
proof (induction xs arbitrary: ys)
  case Nil
  show ?case by (cases ys) auto
next
  case (Cons x xs)
  show ?case
    by (cases ys) (auto simp: Cons.IH dest: hex_byte_inject)
qed

lemma hex_encode_Nil_iff [simp]: "hex_encode xs = [] \<longleftrightarrow> xs = []"
  by (cases xs) auto

section \<open>Transactions\<close>

text \<open>
  What \<open>database/sql\<close> gives the stores: a transaction begins, its statements run on the state they
  see, and the state is replaced only by a commit that succeeds; every early return rolls back.
  A statement either fails or returns its answer with the next state.
\<close>

type_synonym ('db, 'e, 'a) tx = "'db \<Rightarrow> 'e + ('a \<times> 'db)"

definition tx_return :: "'a \<Rightarrow> ('db, 'e, 'a) tx" where
  "tx_return x db = Inr (x, db)"

definition tx_fail :: "'e \<Rightarrow> ('db, 'e, 'a) tx" where
  "tx_fail e db = Inl e"

definition tx_bind :: "('db, 'e, 'a) tx \<Rightarrow> ('a \<Rightarrow> ('db, 'e, 'b) tx) \<Rightarrow> ('db, 'e, 'b) tx" where
  "tx_bind m f db = (case m db of Inl e \<Rightarrow> Inl e | Inr (x, db') \<Rightarrow> f x db')"

text \<open>A statement that the database may refuse to run at all.\<close>

definition tx_stmt :: "bool \<Rightarrow> 'e \<Rightarrow> ('db, 'e, 'a) tx \<Rightarrow> ('db, 'e, 'a) tx" where
  "tx_stmt broken e m db = (if broken then Inl e else m db)"

definition tx_lift :: "'e + 'a \<Rightarrow> ('db, 'e, 'a) tx" where
  "tx_lift r db = (case r of Inl e \<Rightarrow> Inl e | Inr x \<Rightarrow> Inr (x, db))"

definition transact :: "bool \<Rightarrow> bool \<Rightarrow> 'e \<Rightarrow> ('db, 'e, 'a) tx \<Rightarrow> 'db \<Rightarrow> ('e + 'a) \<times> 'db" where
  "transact no_begin no_commit e body db =
     (if no_begin then (Inl e, db)
      else case body db of
        Inl e' \<Rightarrow> (Inl e', db)
      | Inr (x, db') \<Rightarrow> if no_commit then (Inl e, db) else (Inr x, db'))"

named_theorems tx_defs \<open>the transaction combinators, unfolded\<close>

lemmas tx_unfold [tx_defs] =
  tx_return_def tx_fail_def tx_bind_def tx_stmt_def tx_lift_def

lemma transact_Inl: "transact b c e body db = (Inl e', db') \<Longrightarrow> db' = db"
  by (auto simp: transact_def split: if_splits sum.splits)

lemma transact_Inr:
  "transact b c e body db = (Inr x, db') \<longleftrightarrow> \<not> b \<and> \<not> c \<and> body db = Inr (x, db')"
  by (auto simp: transact_def split: if_splits sum.splits prod.splits)

lemma transact_cases:
  "snd (transact b c e body db) = db
   \<or> (\<exists>x. transact b c e body db = (Inr x, snd (transact b c e body db))
        \<and> body db = Inr (x, snd (transact b c e body db)))"
  by (auto simp: transact_def split: sum.splits prod.splits)

lemma tx_bind_Inr:
  "tx_bind m f db = Inr (y, db'') \<longleftrightarrow> (\<exists>x db'. m db = Inr (x, db') \<and> f x db' = Inr (y, db''))"
  by (auto simp: tx_bind_def split: sum.splits)

lemma tx_stmt_Inr: "tx_stmt b e m db = Inr r \<longleftrightarrow> \<not> b \<and> m db = Inr r"
  by (simp add: tx_stmt_def)

lemma tx_return_Inr: "tx_return x db = Inr (y, db') \<longleftrightarrow> y = x \<and> db' = db"
  by (auto simp: tx_return_def)

lemma tx_lift_Inr: "tx_lift r db = Inr (y, db') \<longleftrightarrow> r = Inr y \<and> db' = db"
  by (auto simp: tx_lift_def split: sum.splits)

lemma tx_fail_Inr: "tx_fail e db \<noteq> Inr r"
  by (simp add: tx_fail_def)

lemmas tx_Inr = tx_bind_Inr tx_stmt_Inr tx_return_Inr tx_lift_Inr tx_fail_Inr

section \<open>Invariants of components\<close>

text \<open>
  The contract every stateful component states once: whatever operation runs next, the invariant
  is kept. Whole runs follow.
\<close>

locale invariant_kept =
  fixes step :: "'s \<Rightarrow> 'o \<Rightarrow> 's" and inv :: "'s \<Rightarrow> bool"
  assumes step_inv: "inv s \<Longrightarrow> inv (step s a)"
begin

lemma run_inv: "inv s \<Longrightarrow> inv (foldl step s ops)"
  by (induction ops arbitrary: s) (auto intro: step_inv)

end

text \<open>\<open>strconv.Itoa\<close>.\<close>

definition digit_of :: "nat \<Rightarrow> char" where
  "digit_of n = ''0123456789'' ! n"

function itoa :: "nat \<Rightarrow> string" where
  "itoa n = (if n < 10 then [digit_of n] else itoa (n div 10) @ [digit_of (n mod 10)])"
  by pat_completeness auto
termination
  by (relation "measure id") auto

declare itoa.simps [simp del]

definition itoa_int :: "int \<Rightarrow> string" where
  "itoa_int n = (if n < 0 then CHR ''-'' # itoa (nat (- n)) else itoa (nat n))"

end
