(* ===== verification/Access.thy ===== *)
theory Access
  imports Prelude
begin

text \<open>
  Model of \<open>internal/access/access.go\<close>: identities, roles with their flat list and
  per-backend grants, the validation a role and a group mapping pass before a policy is built,
  and the questions the request path asks a policy. A Go map is an association list in
  iteration order (the keys of \<open>r_grants\<close> are distinct in a Go map, \<open>go_role\<close>); values are
  copied, so the clones of \<open>NewPolicy\<close> and \<open>RolesFor\<close> are the values themselves.

  The locale \<open>call_policy\<close> is what the gateway relies on: a list filter that agrees with the call
  gate and a class-aware question that is never wider than the call gate. It is interpreted
  on the policies of this file.
\<close>

section \<open>Data\<close>

record identity =
  id_subject :: string
  id_name :: string
  id_groups :: "string list"

definition grant_all :: string where
  "grant_all = ''*''"

definition name_separator :: char where
  "name_separator = CHR ''.''"

record role =
  r_name :: string
  r_tools :: "string list"
  r_grants :: "(string \<times> string list) list"
  r_nonread :: bool

text \<open>The zero value of the struct, which indexing a Go map with an absent key yields.\<close>

definition zero_role :: role where
  "zero_role = \<lparr>r_name = [], r_tools = [], r_grants = [], r_nonread = False\<rparr>"

definition go_role :: "role \<Rightarrow> bool" where
  "go_role r = distinct (map fst (r_grants r))"

section \<open>What a role allows\<close>

definition allows_explicitly :: "role \<Rightarrow> string \<Rightarrow> bool" where
  "allows_explicitly r tool = (tool \<in> set (r_tools r))"

fun grants_allow :: "(string \<times> string list) list \<Rightarrow> string \<Rightarrow> bool" where
  "grants_allow [] tool = False"
| "grants_allow ((backend, ids) # gs) tool =
     (case cut_prefix (backend @ [name_separator]) tool of
        None \<Rightarrow> grants_allow gs tool
      | Some rest \<Rightarrow>
          if rest = [] then grants_allow gs tool
          else if grant_all \<in> set ids \<or> rest \<in> set ids then True
          else grants_allow gs tool)"

definition allows :: "role \<Rightarrow> string \<Rightarrow> bool" where
  "allows r tool = (if tool \<in> set (r_tools r) then True else grants_allow (r_grants r) tool)"

lemma grants_allow_iff:
  "grants_allow gs tool \<longleftrightarrow>
     (\<exists>(backend, ids)\<in>set gs. \<exists>rest. tool = backend @ name_separator # rest \<and> rest \<noteq> []
        \<and> (grant_all \<in> set ids \<or> rest \<in> set ids))"
  by (induction gs tool rule: grants_allow.induct)
    (auto simp: go_strings split: option.splits)

section \<open>Validation of a role\<close>

datatype policy_problem =
    RoleNameUntrimmed string
  | RoleNameEmpty
  | ToolUntrimmed string string
  | ToolEmpty string
  | GrantBackendEmpty string
  | GrantBackendUntrimmed string string
  | GrantBackendWildcard string
  | GrantBackendSeparator string string
  | GrantAllNotAlone string string nat string
  | GrantIdEmpty string string
  | GrantIdUntrimmed string string string
  | GrantIdSeparator string string string
  | GrantIdDuplicate string string string

definition plural :: "nat \<Rightarrow> string \<Rightarrow> string \<Rightarrow> string" where
  "plural n one many = (if n = 1 then one else many)"

definition grant_backend_problems :: "string \<Rightarrow> string \<Rightarrow> policy_problem list" where
  "grant_backend_problems rn backend =
     (if trim_space backend = [] then [GrantBackendEmpty rn]
      else if backend \<noteq> trim_space backend then [GrantBackendUntrimmed rn backend]
      else if backend = grant_all then [GrantBackendWildcard rn]
      else if name_separator \<in> set backend then [GrantBackendSeparator rn backend]
      else [])"

fun grant_id_problems ::
  "string \<Rightarrow> string \<Rightarrow> string set \<Rightarrow> string list \<Rightarrow> policy_problem list" where
  "grant_id_problems rn backend seen [] = []"
| "grant_id_problems rn backend seen (i # ids) =
     (if trim_space i = [] then GrantIdEmpty rn backend # grant_id_problems rn backend seen ids
      else if i \<noteq> trim_space i then
        GrantIdUntrimmed rn backend i # grant_id_problems rn backend seen ids
      else if i = grant_all then grant_id_problems rn backend seen ids
      else if name_separator \<in> set i then
        GrantIdSeparator rn backend i # grant_id_problems rn backend seen ids
      else (if i \<in> seen then [GrantIdDuplicate rn backend i] else [])
        @ grant_id_problems rn backend (insert i seen) ids)"

definition grant_problems :: "string \<Rightarrow> string \<Rightarrow> string list \<Rightarrow> policy_problem list" where
  "grant_problems rn backend ids =
     grant_backend_problems rn backend
     @ (if grant_all \<in> set ids \<and> length ids > 1
        then [GrantAllNotAlone rn backend (length ids - 1) (plural (length ids - 1) ''y'' ''ies'')]
        else [])
     @ grant_id_problems rn backend {} ids"

definition grant_of :: "(string \<times> string list) list \<Rightarrow> string \<Rightarrow> string list" where
  "grant_of gs backend = (case map_of gs backend of None \<Rightarrow> [] | Some ids \<Rightarrow> ids)"

definition validate_grants :: "role \<Rightarrow> policy_problem list" where
  "validate_grants r =
     concat (map (\<lambda>backend. grant_problems (r_name r) backend (grant_of (r_grants r) backend))
       (sort (map fst (r_grants r))))"

definition tool_problems :: "string \<Rightarrow> string \<Rightarrow> policy_problem list" where
  "tool_problems rn tool =
     (if tool \<noteq> trim_space tool then [ToolUntrimmed rn tool] else [])
     @ (if trim_space tool = [] then [ToolEmpty rn] else [])"

definition validate_role :: "role \<Rightarrow> policy_problem list" where
  "validate_role r =
     (if r_name r \<noteq> trim_space (r_name r) then [RoleNameUntrimmed (r_name r)] else [])
     @ (if trim_space (r_name r) = [] then [RoleNameEmpty] else [])
     @ concat (map (tool_problems (r_name r)) (r_tools r))
     @ validate_grants r"

section \<open>Policies\<close>

datatype policy_error =
    RoleInvalid "policy_problem list"
  | DuplicateRole string
  | GroupEmpty
  | GroupUntrimmed string
  | NoSuchRole string string

record policy =
  p_roles :: "string \<rightharpoonup> role"
  p_group_to_role :: "string \<rightharpoonup> string"

definition validate_group_name :: "string \<Rightarrow> policy_error option" where
  "validate_group_name g =
     (if trim_space g = [] then Some GroupEmpty
      else if g \<noteq> trim_space g then Some (GroupUntrimmed g)
      else None)"

fun index_roles :: "role list \<Rightarrow> (string \<rightharpoonup> role) \<Rightarrow> policy_error + (string \<rightharpoonup> role)" where
  "index_roles [] by_name = Inr by_name"
| "index_roles (r # rs) by_name =
     (if validate_role r \<noteq> [] then Inl (RoleInvalid (validate_role r))
      else if by_name (r_name r) \<noteq> None then Inl (DuplicateRole (r_name r))
      else index_roles rs (by_name(r_name r \<mapsto> r)))"

fun index_groups ::
  "(string \<rightharpoonup> role) \<Rightarrow> (string \<times> string) list \<Rightarrow> (string \<rightharpoonup> string)
     \<Rightarrow> policy_error + (string \<rightharpoonup> string)" where
  "index_groups by_name [] m = Inr m"
| "index_groups by_name ((g, rn) # gs) m =
     (case validate_group_name g of
        Some e \<Rightarrow> Inl e
      | None \<Rightarrow>
          if by_name rn = None then Inl (NoSuchRole g rn)
          else index_groups by_name gs (m(g \<mapsto> rn)))"

definition new_policy :: "role list \<Rightarrow> (string \<times> string) list \<Rightarrow> policy_error + policy" where
  "new_policy roles group_to_role =
     (case index_roles roles Map.empty of
        Inl e \<Rightarrow> Inl e
      | Inr by_name \<Rightarrow>
          (case index_groups by_name group_to_role Map.empty of
             Inl e \<Rightarrow> Inl e
           | Inr m \<Rightarrow> Inr \<lparr>p_roles = by_name, p_group_to_role = m\<rparr>))"

fun role_names :: "policy \<Rightarrow> string list \<Rightarrow> string list \<Rightarrow> string list" where
  "role_names p [] names = names"
| "role_names p (g # gs) names =
     (case p_group_to_role p g of
        Some rn \<Rightarrow> if rn \<notin> set names then role_names p gs (names @ [rn]) else role_names p gs names
      | None \<Rightarrow> role_names p gs names)"

definition role_at :: "policy \<Rightarrow> string \<Rightarrow> role" where
  "role_at p n = (case p_roles p n of None \<Rightarrow> zero_role | Some r \<Rightarrow> r)"

definition roles_for :: "policy \<Rightarrow> identity \<Rightarrow> role list" where
  "roles_for p i = map (role_at p) (sort (role_names p (id_groups i) []))"

definition authorize :: "policy \<Rightarrow> identity \<Rightarrow> string \<Rightarrow> bool" where
  "authorize p i tool = list_ex (\<lambda>r. allows r tool) (roles_for p i)"

definition authorize_nonread :: "policy \<Rightarrow> identity \<Rightarrow> string \<Rightarrow> bool" where
  "authorize_nonread p i tool =
     list_ex (\<lambda>r. r_nonread r \<and> allows_explicitly r tool) (roles_for p i)"

fun collect_allowed :: "role list \<Rightarrow> string list \<Rightarrow> string list \<Rightarrow> string list" where
  "collect_allowed roles [] out = out"
| "collect_allowed roles (tool # tools) out =
     (if tool \<in> set out then collect_allowed roles tools out
      else if list_ex (\<lambda>r. allows r tool) roles then collect_allowed roles tools (out @ [tool])
      else collect_allowed roles tools out)"

definition allowed_tools :: "policy \<Rightarrow> identity \<Rightarrow> string list \<Rightarrow> string list" where
  "allowed_tools p i advertised = sort (collect_allowed (roles_for p i) advertised [])"

section \<open>Resource identifiers\<close>

text \<open>
  The parts of \<open>net/url\<close>'s result that are read. Parsing is an argument: \<open>parse raw\<close> is
  \<open>url.Parse(raw)\<close>, \<open>None\<close> its error.
\<close>

record url =
  u_scheme :: string
  u_host :: string
  u_hostname :: string
  u_fragment :: string
  u_raw_query :: string

datatype resource_error =
  NotAURI | NotAbsolute | HasFragment | HasQuery | InsecureResourceIdentifier

text \<open>\<open>strings.ToLower\<close> on the bytes that matter here: ASCII letters.\<close>

definition ascii_lower :: "char \<Rightarrow> char" where
  "ascii_lower c =
     (if CHR ''A'' \<le> c \<and> c \<le> CHR ''Z'' then char_of ((of_char c :: nat) + 32) else c)"

definition is_loopback_host :: "string \<Rightarrow> bool" where
  "is_loopback_host host =
     (if map ascii_lower host \<in> {''localhost'', ''127.0.0.1'', ''::1''} then True
      else has_prefix host ''127.'')"

definition resource_identifier ::
  "(string \<Rightarrow> url option) \<Rightarrow> string \<Rightarrow> bool \<Rightarrow> resource_error + url" where
  "resource_identifier parse raw allow_insecure =
     (case parse raw of
        None \<Rightarrow> Inl NotAURI
      | Some u \<Rightarrow>
          if u_scheme u = [] \<or> u_host u = [] then Inl NotAbsolute
          else if u_fragment u \<noteq> [] \<or> CHR ''#'' \<in> set raw then Inl HasFragment
          else if u_raw_query u \<noteq> [] then Inl HasQuery
          else if u_scheme u \<noteq> ''https'' \<and> \<not> allow_insecure \<and> \<not> is_loopback_host (u_hostname u)
          then Inl InsecureResourceIdentifier
          else Inr u)"

section \<open>What validation establishes\<close>

text \<open>The shape of a role that passes \<open>ValidateRole\<close>.\<close>

definition wf_grant :: "string \<Rightarrow> string list \<Rightarrow> bool" where
  "wf_grant backend ids =
     (backend \<noteq> [] \<and> trimmed backend \<and> backend \<noteq> grant_all \<and> name_separator \<notin> set backend
      \<and> (grant_all \<in> set ids \<longrightarrow> ids = [grant_all]) \<and> distinct ids
      \<and> list_all (\<lambda>i. i \<noteq> [] \<and> trimmed i \<and> name_separator \<notin> set i) ids)"

definition wf_role :: "role \<Rightarrow> bool" where
  "wf_role r =
     (r_name r \<noteq> [] \<and> trimmed (r_name r)
      \<and> list_all (\<lambda>t. t \<noteq> [] \<and> trimmed t) (r_tools r)
      \<and> list_all (\<lambda>(b, ids). wf_grant b ids) (r_grants r))"

lemma separator_neq_grant_all [simp]: "name_separator \<notin> set grant_all"
  by (simp add: name_separator_def grant_all_def)

lemma trim_grant_all [simp]: "trim_space grant_all = grant_all"
  by code_simp

lemma grant_backend_problems_Nil:
  "grant_backend_problems rn b = [] \<longleftrightarrow>
     b \<noteq> [] \<and> trimmed b \<and> b \<noteq> grant_all \<and> name_separator \<notin> set b"
  by (auto simp: grant_backend_problems_def trimmed_def)

lemma grant_id_problems_Nil:
  "grant_id_problems rn b seen ids = [] \<longleftrightarrow>
     (\<forall>i\<in>set ids. i \<noteq> [] \<and> trimmed i \<and> name_separator \<notin> set i)
     \<and> distinct (filter (\<lambda>i. i \<noteq> grant_all) ids) \<and> (set ids - {grant_all}) \<inter> seen = {}"
  by (induction rn b seen ids rule: grant_id_problems.induct)
    (auto simp: trimmed_def split: if_splits)

lemma grant_problems_Nil: "grant_problems rn b ids = [] \<longleftrightarrow> wf_grant b ids"
proof (cases "grant_all \<in> set ids \<and> length ids > 1")
  case True
  then have "ids \<noteq> [grant_all]" by auto
  with True show ?thesis by (simp add: grant_problems_def wf_grant_def)
next
  case False
  then have "grant_all \<in> set ids \<longleftrightarrow> ids = [grant_all]"
    by (cases ids) auto
  moreover have "grant_all \<notin> set ids \<Longrightarrow> filter (\<lambda>i. i \<noteq> grant_all) ids = ids"
    by (auto simp: filter_id_conv)
  ultimately show ?thesis
    using False
    by (auto simp: grant_problems_def wf_grant_def grant_backend_problems_Nil
        grant_id_problems_Nil trimmed_def)
qed

lemma validate_grants_Nil:
  assumes "go_role r"
  shows "validate_grants r = [] \<longleftrightarrow> list_all (\<lambda>(b, ids). wf_grant b ids) (r_grants r)"
  using assms
  by (auto simp: validate_grants_def grant_of_def grant_problems_Nil go_role_def
      dest: map_of_is_SomeI split: option.splits)

lemma validate_role_Nil:
  assumes "go_role r"
  shows "validate_role r = [] \<longleftrightarrow> wf_role r"
  using validate_grants_Nil [OF assms]
  by (auto simp: validate_role_def wf_role_def tool_problems_def trimmed_def split: if_splits)

section \<open>Building a policy\<close>

definition roles_by_name :: "role list \<Rightarrow> string \<rightharpoonup> role" where
  "roles_by_name rs = map_of (map (\<lambda>r. (r_name r, r)) rs)"

lemma roles_by_name_None: "roles_by_name rs n = None \<longleftrightarrow> n \<notin> r_name ` set rs"
  by (auto simp: roles_by_name_def map_of_eq_None_iff image_image)

lemma roles_by_name_SomeD: "roles_by_name rs n = Some r \<Longrightarrow> r \<in> set rs \<and> r_name r = n"
  by (auto simp: roles_by_name_def dest: map_of_SomeD)

lemma roles_by_name_Cons: "roles_by_name (r # rs) = (roles_by_name rs)(r_name r \<mapsto> r)"
  by (simp add: roles_by_name_def)

lemma index_roles_iff:
  "index_roles rs m = Inr m' \<longleftrightarrow>
     (\<forall>r\<in>set rs. validate_role r = [] \<and> m (r_name r) = None) \<and> distinct (map r_name rs)
     \<and> m' = m ++ roles_by_name rs"
proof (induction rs m rule: index_roles.induct)
  case (1 m)
  then show ?case by (auto simp: roles_by_name_def)
next
  case (2 r rs m)
  have "m(r_name r \<mapsto> r) ++ roles_by_name rs = m ++ roles_by_name (r # rs)"
    if "r_name r \<notin> r_name ` set rs"
    using that by (simp add: map_add_upd_left domIff roles_by_name_None roles_by_name_Cons)
  then have upd: "distinct (map r_name (r # rs)) \<Longrightarrow>
      m(r_name r \<mapsto> r) ++ roles_by_name rs = m ++ roles_by_name (r # rs)" by simp
  show ?case
  proof (cases "validate_role r = [] \<and> m (r_name r) = None")
    case True
    then have "index_roles (r # rs) m = Inr m' \<longleftrightarrow>
        (\<forall>x\<in>set rs. validate_role x = [] \<and> (m(r_name r \<mapsto> r)) (r_name x) = None)
        \<and> distinct (map r_name rs) \<and> m' = m(r_name r \<mapsto> r) ++ roles_by_name rs"
      using 2 by (simp del: fun_upd_apply)
    also have "\<dots> \<longleftrightarrow> (\<forall>x\<in>set (r # rs). validate_role x = [] \<and> m (r_name x) = None)
        \<and> distinct (map r_name (r # rs)) \<and> m' = m(r_name r \<mapsto> r) ++ roles_by_name rs"
      using True by (auto simp: rev_image_eqI)
    finally show ?thesis using upd by metis
  next
    case False
    then show ?thesis by auto
  qed
qed

lemma validate_group_name_None: "validate_group_name g = None \<longleftrightarrow> g \<noteq> [] \<and> trimmed g"
  by (auto simp: validate_group_name_def trimmed_def)

lemma index_groups_iff:
  assumes "distinct (map fst gs)"
  shows "index_groups by_name gs m = Inr m' \<longleftrightarrow>
     (\<forall>(g, rn)\<in>set gs. g \<noteq> [] \<and> trimmed g \<and> by_name rn \<noteq> None) \<and> m' = m ++ map_of gs"
  using assms
proof (induction by_name gs m rule: index_groups.induct)
  case (1 by_name m)
  then show ?case by auto
next
  case (2 by_name g rn gs m)
  from "2.prems" have "map_of gs g = None" by (simp add: map_of_eq_None_iff)
  then have "m(g \<mapsto> rn) ++ map_of gs = m ++ map_of ((g, rn) # gs)"
    by (simp add: map_add_upd_left domIff)
  moreover have "index_groups by_name gs (m(g \<mapsto> rn)) = Inr m' \<longleftrightarrow>
      (\<forall>(g, rn)\<in>set gs. g \<noteq> [] \<and> trimmed g \<and> by_name rn \<noteq> None) \<and> m' = m(g \<mapsto> rn) ++ map_of gs"
    if "validate_group_name g = None" "by_name rn \<noteq> None"
    using 2 that by (simp del: fun_upd_apply)
  ultimately show ?case
    using validate_group_name_None [of g] by (auto simp del: fun_upd_apply split: option.split)
qed

lemma new_policy_Inr_iff:
  assumes "distinct (map fst g2r)"
  shows "new_policy roles g2r = Inr p \<longleftrightarrow>
     (\<forall>r\<in>set roles. validate_role r = []) \<and> distinct (map r_name roles)
     \<and> (\<forall>(g, rn)\<in>set g2r. g \<noteq> [] \<and> trimmed g \<and> rn \<in> r_name ` set roles)
     \<and> p = \<lparr>p_roles = roles_by_name roles, p_group_to_role = map_of g2r\<rparr>"
proof (cases "index_roles roles Map.empty")
  case (Inl e)
  then have "\<not> (\<exists>m. index_roles roles Map.empty = Inr m)" by simp
  then have "\<not> ((\<forall>r\<in>set roles. validate_role r = []) \<and> distinct (map r_name roles))"
    by (simp add: index_roles_iff)
  with Inl show ?thesis by (auto simp: new_policy_def)
next
  case (Inr by_name)
  then have by_name: "(\<forall>r\<in>set roles. validate_role r = []) \<and> distinct (map r_name roles)"
    "by_name = roles_by_name roles"
    by (simp_all add: index_roles_iff)
  then have g: "index_groups by_name g2r Map.empty = Inr m \<longleftrightarrow>
      (\<forall>(g, rn)\<in>set g2r. g \<noteq> [] \<and> trimmed g \<and> rn \<in> r_name ` set roles) \<and> m = map_of g2r" for m
    using index_groups_iff [OF assms, of "roles_by_name roles" Map.empty m]
    by (simp add: roles_by_name_None)
  show ?thesis
  proof (cases "index_groups by_name g2r Map.empty")
    case (Inl e)
    with g [of "map_of g2r"] Inr show ?thesis by (simp add: new_policy_def)
  next
    case (Inr m)
    with g [of m] \<open>index_roles roles Map.empty = Inr by_name\<close> by_name show ?thesis
      by (auto simp: new_policy_def)
  qed
qed

section \<open>Asking a policy\<close>

lemma set_role_names:
  "set (role_names p gs names) = set names \<union> {rn. \<exists>g\<in>set gs. p_group_to_role p g = Some rn}"
  by (induction p gs names rule: role_names.induct) (auto split: option.splits)

lemma set_roles_for:
  "set (roles_for p i) = {role_at p rn |rn. \<exists>g\<in>set (id_groups i). p_group_to_role p g = Some rn}"
  by (auto simp: roles_for_def set_role_names)

text \<open>A policy as \<open>NewPolicy\<close> returns it: every mapped group names a role, which is well formed.\<close>

definition built :: "policy \<Rightarrow> bool" where
  "built p = (\<exists>roles g2r. list_all go_role roles \<and> distinct (map fst g2r)
     \<and> new_policy roles g2r = Inr p)"

lemma built_role_at:
  assumes "built p" "p_group_to_role p g = Some rn"
  shows "p_roles p rn = Some (role_at p rn) \<and> r_name (role_at p rn) = rn
    \<and> wf_role (role_at p rn) \<and> go_role (role_at p rn)"
proof -
  from assms(1) obtain roles g2r where b: "\<forall>r\<in>set roles. go_role r" "distinct (map fst g2r)"
    "new_policy roles g2r = Inr p" by (auto simp: built_def)
  then have wf: "\<forall>r\<in>set roles. validate_role r = []" "p_roles p = roles_by_name roles"
    "\<forall>(g, rn)\<in>set g2r. rn \<in> r_name ` set roles" "p_group_to_role p = map_of g2r"
    by (auto simp: new_policy_Inr_iff)
  with assms(2) have "rn \<in> r_name ` set roles" by (auto dest: map_of_SomeD)
  then obtain r where "roles_by_name roles rn = Some r"
    by (meson not_None_eq roles_by_name_None)
  moreover from this have "r \<in> set roles" "r_name r = rn" using roles_by_name_SomeD by auto
  ultimately show ?thesis
    using wf b(1) validate_role_Nil by (auto simp: role_at_def)
qed

lemma authorize_iff:
  "authorize p i tool \<longleftrightarrow>
     (\<exists>g\<in>set (id_groups i). \<exists>rn. p_group_to_role p g = Some rn \<and> allows (role_at p rn) tool)"
  by (auto simp: authorize_def set_roles_for)

lemma authorize_nonread_iff:
  "authorize_nonread p i tool \<longleftrightarrow>
     (\<exists>g\<in>set (id_groups i). \<exists>rn. p_group_to_role p g = Some rn
        \<and> r_nonread (role_at p rn) \<and> tool \<in> set (r_tools (role_at p rn)))"
  by (auto simp: authorize_nonread_def allows_explicitly_def set_roles_for)

lemma collect_allowed_spec:
  "distinct out \<Longrightarrow> distinct (collect_allowed roles ts out)
     \<and> set (collect_allowed roles ts out)
         = set out \<union> {t \<in> set ts. \<exists>r\<in>set roles. allows r t}"
  by (induction roles ts out rule: collect_allowed.induct) auto

section \<open>The interface to the gateway\<close>

locale call_policy =
  fixes may_call may_act :: "'p \<Rightarrow> 'i \<Rightarrow> string \<Rightarrow> bool"
    and visible_to :: "'p \<Rightarrow> 'i \<Rightarrow> string list \<Rightarrow> string list"
  assumes act_narrower: "may_act p i t \<Longrightarrow> may_call p i t"
    and visible_set: "set (visible_to p i ts) = {t \<in> set ts. may_call p i t}"
    and visible_sorted: "sorted (visible_to p i ts)"
    and visible_distinct: "distinct (visible_to p i ts)"
begin

lemma visible_callable: "t \<in> set (visible_to p i ts) \<longleftrightarrow> t \<in> set ts \<and> may_call p i t"
  by (simp add: visible_set)

lemma visible_again: "visible_to p i (visible_to p i ts) = visible_to p i ts"
  by (rule sorted_distinct_set_unique) (auto simp: visible_sorted visible_distinct visible_set)

lemma visible_order_irrelevant: "set ts = set us \<Longrightarrow> visible_to p i ts = visible_to p i us"
  by (rule sorted_distinct_set_unique) (auto simp: visible_sorted visible_distinct visible_set)

end

interpretation policy: call_policy authorize authorize_nonread allowed_tools
proof
  fix p i t ts
  show "authorize p i t" if "authorize_nonread p i t"
    using that unfolding authorize_iff authorize_nonread_iff allows_def by fastforce
  show "set (allowed_tools p i ts) = {t \<in> set ts. authorize p i t}"
    using collect_allowed_spec [of "[]" "roles_for p i" ts]
    by (auto simp: allowed_tools_def authorize_def)
  show "sorted (allowed_tools p i ts)" by (simp add: allowed_tools_def)
  show "distinct (allowed_tools p i ts)"
    using collect_allowed_spec [of "[]" "roles_for p i" ts] by (simp add: allowed_tools_def)
qed

section \<open>Properties\<close>

text \<open>
  (NewPolicy) a policy is built exactly when every role is well formed (trimmed non-empty name and tools,
  grants keyed by separator-free trimmed names other than the wildcard, a wildcard standing
  alone, no id twice), role names are distinct, and every mapped group is a trimmed non-empty name that
  leads to a defined role; what is built holds exactly those roles and that mapping.
\<close>
theorem new_policy_succeeds_iff:
  assumes "list_all go_role roles" "distinct (map fst g2r)"
  shows "new_policy roles g2r = Inr p \<longleftrightarrow>
     list_all wf_role roles \<and> distinct (map r_name roles)
     \<and> (\<forall>(g, rn)\<in>set g2r. g \<noteq> [] \<and> trimmed g \<and> rn \<in> r_name ` set roles)
     \<and> p = \<lparr>p_roles = roles_by_name roles, p_group_to_role = map_of g2r\<rparr>"
  using new_policy_Inr_iff [OF assms(2)] assms(1) validate_role_Nil by auto

definition sample_role :: role where
  "sample_role = \<lparr>r_name = ''triage'', r_tools = [''casemgmt.close''],
     r_grants = [(''threatintel'', [''*'']), (''casemgmt'', [''list'', ''get''])], r_nonread = True\<rparr>"

definition sample_groups :: "(string \<times> string) list" where
  "sample_groups = [(''soc'', ''triage'')]"

definition sample_policy :: policy where
  "sample_policy = \<lparr>p_roles = roles_by_name [sample_role], p_group_to_role = map_of sample_groups\<rparr>"

lemma sample_role_wf: "wf_role sample_role"
  by code_simp

theorem new_policy_succeeds_iff_witness: "new_policy [sample_role] sample_groups = Inr sample_policy"
proof -
  have "list_all go_role [sample_role]" "distinct (map fst sample_groups)"
    by (simp_all add: go_role_def sample_role_def sample_groups_def)
  moreover have "trimmed ''soc''" by code_simp
  ultimately show ?thesis
    by (subst new_policy_succeeds_iff)
      (simp_all add: sample_role_wf sample_policy_def sample_groups_def
        sample_role_wf [unfolded sample_role_def] sample_role_def)
qed

text \<open>
  (AllowedTools) the filtered tool list is sorted, has no duplicates, and holds exactly the advertised
  names the call gate lets this identity call: nothing listed is uncallable and nothing callable
  is hidden.
\<close>
theorem allowed_tools_exact:
  "sorted (allowed_tools p i advertised) \<and> distinct (allowed_tools p i advertised)
   \<and> set (allowed_tools p i advertised) = {t \<in> set advertised. authorize p i t}"
  by (simp add: policy.visible_sorted policy.visible_distinct policy.visible_set)

text \<open>
  (AuthorizeNonRead) the class-aware question succeeds exactly when one role the caller holds is both marked and
  names the tool in its flat list; a wildcard grant never satisfies it, and it never lets
  through a call the ordinary gate refuses.
\<close>
theorem authorize_nonread_exact:
  "(authorize_nonread p i tool \<longleftrightarrow>
      (\<exists>r\<in>set (roles_for p i). r_nonread r \<and> tool \<in> set (r_tools r)))
   \<and> {t. authorize_nonread p i t} \<subseteq> {t. authorize p i t}"
proof -
  have "{t. authorize_nonread p i t} \<subseteq> {t. authorize p i t}"
    using policy.act_narrower by blast
  then show ?thesis by (simp add: authorize_nonread_def allows_explicitly_def)
qed

text \<open>
  (Authorize, RolesFor) on a policy \<open>NewPolicy\<close> built, resolving groups never yields the zero role: every role an identity holds is a
  validated role the policy defines under its own name, and an identity with no mapped group is
  refused every tool.
\<close>
theorem roles_for_defined:
  assumes "built p"
  shows "(\<forall>r\<in>set (roles_for p i). p_roles p (r_name r) = Some r \<and> wf_role r)
    \<and> ((\<forall>g\<in>set (id_groups i). p_group_to_role p g = None) \<longrightarrow> \<not> authorize p i tool)"
  using built_role_at [OF assms] by (auto simp: set_roles_for authorize_iff)

theorem roles_for_defined_witness:
  "\<not> authorize sample_policy \<lparr>id_subject = ''s'', id_name = [], id_groups = [''other'']\<rparr> ''casemgmt.get''"
proof -
  have "new_policy [sample_role] sample_groups = Inr sample_policy"
    by (subst new_policy_Inr_iff)
      (simp_all add: sample_policy_def sample_groups_def sample_role_def roles_by_name_def
        validate_role_Nil sample_role_wf [unfolded sample_role_def] go_role_def,
       code_simp)
  then have "built sample_policy"
    unfolding built_def by (intro exI [of _ "[sample_role]"] exI [of _ sample_groups])
      (simp add: go_role_def sample_role_def sample_groups_def)
  then show ?thesis
    using roles_for_defined [of sample_policy "\<lparr>id_subject = ''s'', id_name = [], id_groups = [''other'']\<rparr>"]
    by (simp add: sample_policy_def sample_groups_def)
qed

end
