(* ===== verification/Gotime.thy ===== *)
theory Gotime
  imports Prelude
begin

text \<open>
  What the source uses of \<open>time.Time\<close>: an instant, counted in nanoseconds from Go's zero time
  (1 January of year 1, UTC), and the offset from UTC its location has there. Durations are
  integers of nanoseconds. Rendering a time as text is an argument of the definitions that
  store it.
\<close>

record gotime =
  g_ns :: int
  g_off :: int

type_synonym layout = "gotime \<Rightarrow> string"

definition is_zero :: "gotime \<Rightarrow> bool" where
  "is_zero t = (g_ns t = 0)"

definition utc :: "gotime \<Rightarrow> gotime" where
  "utc t = t\<lparr>g_off := 0\<rparr>"

definition after_time :: "gotime \<Rightarrow> gotime \<Rightarrow> bool" where
  "after_time t u = (g_ns u < g_ns t)"

definition add_time :: "gotime \<Rightarrow> int \<Rightarrow> gotime" where
  "add_time t d = t\<lparr>g_ns := g_ns t + d\<rparr>"

definition sub_time :: "gotime \<Rightarrow> gotime \<Rightarrow> int" where
  "sub_time t u = g_ns t - g_ns u"

definition trunc_time :: "gotime \<Rightarrow> int \<Rightarrow> gotime" where
  "trunc_time t d = (if d \<le> 0 then t else t\<lparr>g_ns := g_ns t - g_ns t mod d\<rparr>)"

lemmas gotime_defs = is_zero_def utc_def after_time_def add_time_def sub_time_def trunc_time_def

lemma trunc_time_ns: "0 < d \<Longrightarrow> g_ns (trunc_time t d) = d * (g_ns t div d)"
  by (simp add: trunc_time_def minus_mod_eq_mult_div)

lemma trunc_time_bounds:
  "0 < d \<Longrightarrow> g_ns (trunc_time t d) \<le> g_ns t \<and> g_ns t < g_ns (trunc_time t d) + d"
  by (simp add: trunc_time_def)

text \<open>An interval of one window's length meets at most two windows.\<close>

lemma two_windows:
  fixes x t0 d :: int
  assumes "0 < d" "t0 \<le> x" "x < t0 + d"
  shows "x div d = t0 div d \<or> x div d = t0 div d + 1"
proof -
  have "t0 div d \<le> x div d" using assms by (simp add: zdiv_mono1)
  moreover have "x div d \<le> (t0 + d) div d" using assms by (simp add: zdiv_mono1)
  moreover have "(t0 + d) div d = t0 div d + 1" using assms(1) div_add_self2 [of d t0] by linarith
  ultimately show ?thesis by linarith
qed

end
