(* ===== verification/Visible.thy ===== *)
theory Visible
  imports Prelude
begin

text \<open>
  Model of \<open>internal/visible/visible.go\<close> and of the \<open>utf8\<close> decoding it rests on. The Unicode
  category tables are an argument: \<open>tbl r\<close> says that the code point \<open>r\<close>, from U+0080 on, is not
  graphic, is private use, is a space separator, a variation selector or another default-ignorable code
  point. The rules below U+0080 are the source's own.
\<close>

section \<open>utf8\<close>

abbreviation byte :: "char \<Rightarrow> nat" where
  "byte c \<equiv> of_char c"

definition rune_error :: nat where
  "rune_error = 0xFFFD"

definition cont :: "char \<Rightarrow> bool" where
  "cont c = (0x80 \<le> byte c \<and> byte c \<le> 0xBF)"

text \<open>\<open>utf8.DecodeRuneInString\<close> on a non-empty string: the rune and its size, or the error rune and 1.\<close>

definition decode2 :: "nat \<Rightarrow> string \<Rightarrow> nat \<times> nat" where
  "decode2 x cs =
     (case cs of
        b # _ \<Rightarrow> if cont b then ((x - 0xC0) * 64 + (byte b - 0x80), 2) else (rune_error, 1)
      | _ \<Rightarrow> (rune_error, 1))"

definition decode3 :: "nat \<Rightarrow> nat \<Rightarrow> nat \<Rightarrow> string \<Rightarrow> nat \<times> nat" where
  "decode3 x lo hi cs =
     (case cs of
        b # c # _ \<Rightarrow>
          if lo \<le> byte b \<and> byte b \<le> hi \<and> cont c
          then ((x - 0xE0) * 4096 + (byte b - 0x80) * 64 + (byte c - 0x80), 3) else (rune_error, 1)
      | _ \<Rightarrow> (rune_error, 1))"

definition decode4 :: "nat \<Rightarrow> nat \<Rightarrow> nat \<Rightarrow> string \<Rightarrow> nat \<times> nat" where
  "decode4 x lo hi cs =
     (case cs of
        b # c # d # _ \<Rightarrow>
          if lo \<le> byte b \<and> byte b \<le> hi \<and> cont c \<and> cont d
          then ((x - 0xF0) * 262144 + (byte b - 0x80) * 4096 + (byte c - 0x80) * 64 + (byte d - 0x80), 4)
          else (rune_error, 1)
      | _ \<Rightarrow> (rune_error, 1))"

definition decode_lead :: "nat \<Rightarrow> string \<Rightarrow> nat \<times> nat" where
  "decode_lead x cs =
     (if x < 0x80 then (x, 1)
      else if x < 0xC2 then (rune_error, 1)
      else if x < 0xE0 then decode2 x cs
      else if x = 0xE0 then decode3 x 0xA0 0xBF cs
      else if x = 0xED then decode3 x 0x80 0x9F cs
      else if x < 0xF0 then decode3 x 0x80 0xBF cs
      else if x = 0xF0 then decode4 x 0x90 0xBF cs
      else if x < 0xF4 then decode4 x 0x80 0xBF cs
      else if x = 0xF4 then decode4 x 0x80 0x8F cs
      else (rune_error, 1))"

fun decode_rune :: "string \<Rightarrow> nat \<times> nat" where
  "decode_rune [] = (rune_error, 0)"
| "decode_rune (a # cs) = decode_lead (byte a) cs"

text \<open>\<open>utf8.RuneStart\<close>: not a continuation byte.\<close>

definition rune_start :: "char \<Rightarrow> bool" where
  "rune_start c = (\<not> cont c)"

lemmas decode_defs = decode2_def decode3_def decode4_def decode_lead_def

lemma decode_rune_size: "s \<noteq> [] \<Longrightarrow> 1 \<le> snd (decode_rune s) \<and> snd (decode_rune s) \<le> length s"
proof (cases s)
  case (Cons a cs)
  have "1 \<le> snd (decode_lead x cs) \<and> snd (decode_lead x cs) \<le> Suc (length cs)" for x
    unfolding decode_defs by (auto split: list.splits)
  then show ?thesis using Cons by simp
qed simp

lemma decode_rune_pos [simp]: "s \<noteq> [] \<Longrightarrow> 0 < snd (decode_rune s)"
  using decode_rune_size by fastforce

section \<open>visible\<close>

definition hides :: "(nat \<Rightarrow> bool) \<Rightarrow> nat \<Rightarrow> bool" where
  "hides tbl r =
     (if r = 0x20 then False
      else if r < 0x20 \<or> r = 0x7F then True
      else if r < 0x7F then False
      else tbl r)"

text \<open>What both loops ask of the bytes at the current offset.\<close>

definition invisible :: "(nat \<Rightarrow> bool) \<Rightarrow> string \<Rightarrow> bool" where
  "invisible tbl s = (case decode_rune s of (r, sz) \<Rightarrow> r = rune_error \<and> sz = 1 \<or> hides tbl r)"

function hidden :: "(nat \<Rightarrow> bool) \<Rightarrow> string \<Rightarrow> nat" where
  "hidden tbl s =
     (if s = [] then 0
      else (if invisible tbl s then 1 else 0) + hidden tbl (drop (snd (decode_rune s)) s))"
  by pat_completeness auto
termination
  by (relation "measure (\<lambda>(tbl, s). length s)") auto

text \<open>\<open>utf8.ValidString\<close>.\<close>

function valid_utf8 :: "string \<Rightarrow> bool" where
  "valid_utf8 s =
     (if s = [] then True
      else if decode_rune s = (rune_error, 1) then False
      else valid_utf8 (drop (snd (decode_rune s)) s))"
  by pat_completeness auto
termination
  by (relation "measure length") auto

definition hex_upper :: "nat \<Rightarrow> char" where
  "hex_upper n = ''0123456789ABCDEF'' ! (n mod 16)"

fun hex_digits :: "nat \<Rightarrow> string" where
  "hex_digits n = (if n < 16 then [hex_upper n] else hex_digits (n div 16) @ [hex_upper n])"

definition pad_hex :: "nat \<Rightarrow> nat \<Rightarrow> string" where
  "pad_hex w n = replicate (w - length (hex_digits n)) (CHR ''0'') @ hex_digits n"

definition escaped_rune :: "(nat \<Rightarrow> bool) \<Rightarrow> string \<Rightarrow> string" where
  "escaped_rune tbl s =
     (case decode_rune s of (r, sz) \<Rightarrow>
        if r = rune_error \<and> sz = 1 then CHR 0x5C # ''x{'' @ pad_hex 2 (byte (hd s)) @ ''}''
        else if hides tbl r then CHR 0x5C # ''u{'' @ pad_hex 4 r @ ''}''
        else take sz s)"

function escape_all :: "(nat \<Rightarrow> bool) \<Rightarrow> string \<Rightarrow> string" where
  "escape_all tbl s =
     (if s = [] then []
      else escaped_rune tbl s @ escape_all tbl (drop (snd (decode_rune s)) s))"
  by pat_completeness auto
termination
  by (relation "measure (\<lambda>(tbl, s). length s)") auto

definition escape :: "(nat \<Rightarrow> bool) \<Rightarrow> string \<Rightarrow> string" where
  "escape tbl s = (if hidden tbl s = 0 then s else escape_all tbl s)"

declare hidden.simps [simp del] valid_utf8.simps [simp del] escape_all.simps [simp del] hex_digits.simps [simp del]

section \<open>Text made of visible runes\<close>

text \<open>One visible rune: its bytes decode to it whatever follows.\<close>

definition visible_rune :: "(nat \<Rightarrow> bool) \<Rightarrow> string \<Rightarrow> bool" where
  "visible_rune tbl t =
     (t \<noteq> [] \<and> \<not> invisible tbl t \<and> snd (decode_rune t) = length t)"

definition clean :: "(nat \<Rightarrow> bool) \<Rightarrow> string \<Rightarrow> bool" where
  "clean tbl s = (\<exists>ts. s = concat ts \<and> (\<forall>t\<in>set ts. visible_rune tbl t))"

text \<open>The decoder looks at no byte past the rune it returns, and those it looks at are continuations.\<close>

definition stable :: "(string \<Rightarrow> nat \<times> nat) \<Rightarrow> bool" where
  "stable f = (\<forall>cs r n. f cs = (r, n) \<longrightarrow> r = rune_error \<and> n = 1
     \<or> 2 \<le> n \<and> n - 1 \<le> length cs \<and> (\<forall>rest. f (take (n - 1) cs @ rest) = (r, n))
        \<and> (\<forall>c\<in>set (take (n - 1) cs). cont c))"

lemma stable_decode2: "stable (decode2 x)"
  by (auto simp: stable_def decode2_def split: list.splits if_splits)

lemma stable_decode3: "0x80 \<le> lo \<Longrightarrow> hi \<le> 0xBF \<Longrightarrow> stable (decode3 x lo hi)"
  by (auto simp: stable_def decode3_def cont_def split: list.splits if_splits)

lemma stable_decode4: "0x80 \<le> lo \<Longrightarrow> hi \<le> 0xBF \<Longrightarrow> stable (decode4 x lo hi)"
  by (auto simp: stable_def decode4_def cont_def split: list.splits if_splits)

lemma stable_error: "stable (\<lambda>_. (rune_error, 1))"
  by (simp add: stable_def)

lemma stable_decode_lead:
  assumes "0x80 \<le> x"
  shows "stable (decode_lead x)"
proof -
  have "decode_lead x =
     (if x < 0xC2 then (\<lambda>_. (rune_error, 1))
      else if x < 0xE0 then decode2 x
      else if x = 0xE0 then decode3 x 0xA0 0xBF
      else if x = 0xED then decode3 x 0x80 0x9F
      else if x < 0xF0 then decode3 x 0x80 0xBF
      else if x = 0xF0 then decode4 x 0x90 0xBF
      else if x < 0xF4 then decode4 x 0x80 0xBF
      else if x = 0xF4 then decode4 x 0x80 0x8F
      else (\<lambda>_. (rune_error, 1)))"
    using assms by (auto simp: decode_lead_def fun_eq_iff)
  then show ?thesis
    by (simp add: stable_decode2 stable_decode3 stable_decode4 stable_error [simplified])
qed

lemma decode_lead_cases:
  assumes "decode_lead x cs = (r, n)" "\<not> (r = rune_error \<and> n = 1)"
  shows "n = 1 \<and> x < 0x80 \<and> r = x
    \<or> 0x80 \<le> x \<and> 2 \<le> n \<and> n - 1 \<le> length cs
      \<and> (\<forall>rest. decode_lead x (take (n - 1) cs @ rest) = (r, n)) \<and> (\<forall>c\<in>set (take (n - 1) cs). cont c)"
proof (cases "x < 0x80")
  case True
  with assms show ?thesis by (simp add: decode_lead_def)
next
  case False
  with stable_decode_lead [of x] assms show ?thesis unfolding stable_def by force
qed

lemma decode_take_append:
  assumes "s \<noteq> []" "decode_rune s = (r, n)" "\<not> (r = rune_error \<and> n = 1)"
  shows "decode_rune (take n s @ rest) = (r, n)"
proof -
  obtain a cs where s: "s = a # cs" using assms(1) by (cases s) auto
  with assms have "decode_lead (byte a) cs = (r, n)" by simp
  from decode_lead_cases [OF this assms(3)] s show ?thesis
    by (cases n) (auto simp: decode_lead_def)
qed

lemma decode_prefix:
  assumes "t \<noteq> []" "decode_rune t = (r, length t)" "\<not> (r = rune_error \<and> length t = 1)"
  shows "decode_rune (t @ rest) = (r, length t)"
  using decode_take_append [OF assms] by simp

lemma decode_take:
  assumes "s \<noteq> []" "decode_rune s = (r, n)" "\<not> (r = rune_error \<and> n = 1)"
  shows "decode_rune (take n s) = (r, n)"
  using decode_take_append [OF assms, of "[]"] by simp

lemma visible_rune_decode:
  assumes "visible_rune tbl t"
  shows "decode_rune (t @ rest) = decode_rune t"
proof (cases "decode_rune t")
  case (Pair r n)
  with assms have "n = length t" "t \<noteq> []" "\<not> (r = rune_error \<and> length t = 1)"
    by (auto simp: visible_rune_def invisible_def)
  with Pair decode_prefix [of t r rest] show ?thesis by simp
qed

lemma hidden_append_rune:
  assumes "visible_rune tbl t"
  shows "hidden tbl (t @ rest) = hidden tbl rest"
proof -
  have d: "decode_rune (t @ rest) = decode_rune t" using assms by (rule visible_rune_decode)
  then have "\<not> invisible tbl (t @ rest)" "snd (decode_rune (t @ rest)) = length t" "t \<noteq> []"
    using assms by (simp_all add: visible_rune_def invisible_def)
  then show ?thesis by (subst hidden.simps) simp
qed

lemma clean_hidden: "clean tbl s \<Longrightarrow> hidden tbl s = 0"
proof -
  assume "clean tbl s"
  then obtain ts where s: "s = concat ts" "\<forall>t\<in>set ts. visible_rune tbl t" by (auto simp: clean_def)
  from s(2) have "hidden tbl (concat ts) = 0"
    by (induction ts) (simp_all add: hidden_append_rune hidden.simps [of tbl "[]"])
  with s show "hidden tbl s = 0" by simp
qed

lemma clean_append: "clean tbl s \<Longrightarrow> clean tbl t \<Longrightarrow> clean tbl (s @ t)"
  unfolding clean_def by (metis Un_iff concat_append set_append)

lemma clean_Nil: "clean tbl []"
  unfolding clean_def by (rule exI [of _ "[]"]) simp

lemma clean_rune: "visible_rune tbl t \<Longrightarrow> clean tbl t"
  unfolding clean_def by (rule exI [of _ "[t]"]) simp

lemma clean_ascii:
  assumes "\<forall>c\<in>set s. 0x20 \<le> byte c \<and> byte c < 0x7F"
  shows "clean tbl s"
proof -
  have "visible_rune tbl [c]" if "c \<in> set s" for c
    using assms that by (auto simp: visible_rune_def invisible_def decode_lead_def hides_def rune_error_def)
  then show ?thesis
    unfolding clean_def by (intro exI [of _ "map (\<lambda>c. [c]) s"]) (auto simp: concat_map_singleton)
qed

lemma visible_head:
  assumes "s \<noteq> []" "\<not> invisible tbl s"
  shows "visible_rune tbl (take (snd (decode_rune s)) s)"
proof (cases "decode_rune s")
  case (Pair r n)
  with assms have ok: "\<not> (r = rune_error \<and> n = 1)" "\<not> hides tbl r" by (auto simp: invisible_def)
  have "decode_rune (take n s) = (r, n)" using decode_take [OF assms(1) Pair ok(1)] .
  moreover have "1 \<le> n" "n \<le> length s" using decode_rune_size [OF assms(1)] Pair by auto
  ultimately show ?thesis using Pair ok assms(1) by (auto simp: visible_rune_def invisible_def)
qed

lemma hidden_clean: "hidden tbl s = 0 \<Longrightarrow> clean tbl s"
proof (induction tbl s rule: hidden.induct)
  case (1 tbl s)
  show ?case
  proof (cases "s = []")
    case True
    then show ?thesis by (simp add: clean_Nil)
  next
    case False
    with "1.prems" have v: "\<not> invisible tbl s" and rest: "hidden tbl (drop (snd (decode_rune s)) s) = 0"
      by (simp_all add: hidden.simps [of tbl s] split: if_splits)
    have "clean tbl (take (snd (decode_rune s)) s @ drop (snd (decode_rune s)) s)"
      using clean_append [OF clean_rune [OF visible_head [OF False v]] "1.IH" [OF False rest]] .
    then show ?thesis by simp
  qed
qed

lemma hidden_valid: "hidden tbl s = 0 \<Longrightarrow> valid_utf8 s"
proof (induction tbl s rule: hidden.induct)
  case (1 tbl s)
  show ?case
  proof (cases "s = []")
    case False
    with "1.prems" have "\<not> invisible tbl s" "hidden tbl (drop (snd (decode_rune s)) s) = 0"
      by (simp_all add: hidden.simps [of tbl s] split: if_splits)
    with "1.IH" False show ?thesis
      by (subst valid_utf8.simps) (auto simp: invisible_def)
  qed (simp add: valid_utf8.simps)
qed

lemma hidden_0_iff: "hidden tbl s = 0 \<longleftrightarrow> clean tbl s"
  using clean_hidden hidden_clean by blast

lemma hex_upper_ascii: "0x20 \<le> byte (hex_upper n) \<and> byte (hex_upper n) < 0x7F"
proof -
  have "hex_upper n \<in> set ''0123456789ABCDEF''"
    unfolding hex_upper_def by (rule nth_mem) simp
  then show ?thesis by auto
qed

lemma hex_digits_ascii: "c \<in> set (hex_digits n) \<Longrightarrow> 0x20 \<le> byte c \<and> byte c < 0x7F"
proof (induction n rule: hex_digits.induct)
  case (1 n)
  then show ?case
    using hex_upper_ascii [of n] by (auto simp: hex_digits.simps [of n] split: if_splits)
qed

lemma pad_hex_ascii: "c \<in> set (pad_hex w n) \<Longrightarrow> 0x20 \<le> byte c \<and> byte c < 0x7F"
  using hex_digits_ascii by (auto simp: pad_hex_def)

lemma escaped_rune_clean:
  assumes "s \<noteq> []"
  shows "clean tbl (escaped_rune tbl s)"
proof (cases "invisible tbl s")
  case True
  then show ?thesis
    unfolding escaped_rune_def invisible_def
    by (auto split: prod.splits intro!: clean_ascii dest: pad_hex_ascii)
next
  case False
  then have "escaped_rune tbl s = take (snd (decode_rune s)) s"
    by (auto simp: escaped_rune_def invisible_def split: prod.splits)
  then show ?thesis using visible_head [OF assms False] by (simp add: clean_rune)
qed

lemma escape_all_clean: "clean tbl (escape_all tbl s)"
proof (induction tbl s rule: escape_all.induct)
  case (1 tbl s)
  then show ?case
    by (subst escape_all.simps) (simp add: clean_Nil clean_append escaped_rune_clean)
qed

lemma escape_clean: "clean tbl (escape tbl s)"
  by (simp add: escape_def escape_all_clean hidden_clean)

section \<open>Cutting on a rune boundary\<close>

text \<open>Inside a visible rune every byte but the first is a continuation byte.\<close>

lemma visible_rune_bytes:
  assumes "visible_rune tbl t"
  shows "rune_start (hd t) \<and> (\<forall>i. 0 < i \<longrightarrow> i < length t \<longrightarrow> \<not> rune_start (t ! i))"
proof -
  obtain a cs where t: "t = a # cs" using assms by (cases t) (auto simp: visible_rune_def)
  obtain r n where d: "decode_lead (byte a) cs = (r, n)" by fastforce
  with assms have n: "n = Suc (length cs)" "\<not> (r = rune_error \<and> n = 1)"
    by (auto simp: t visible_rune_def invisible_def)
  from decode_lead_cases [OF d n(2)] n(1) have cs: "\<forall>c\<in>set cs. cont c" by auto
  have a: "\<not> cont a"
    using d n by (auto simp: decode_lead_def cont_def split: if_splits)
  from cs
  have "cont (t ! i)" if "0 < i" "i < length t" for i
    using that t by (cases i) auto
  with a show ?thesis by (simp add: t rune_start_def)
qed

lemma clean_take:
  assumes "clean tbl s" "n < length s" "rune_start (s ! n)"
  shows "clean tbl (take n s)"
proof -
  from assms(1) obtain ts where "s = concat ts" "\<forall>t\<in>set ts. visible_rune tbl t" by (auto simp: clean_def)
  then show ?thesis using assms(2,3)
  proof (induction ts arbitrary: s n)
    case Nil
    then show ?case by simp
  next
    case (Cons t ts)
    show ?case
    proof (cases "n < length t")
      case True
      with Cons.prems have "rune_start (t ! n)" by (simp add: nth_append)
      with visible_rune_bytes [of tbl t] Cons.prems(2) True have "n = 0" by (cases n) auto
      then show ?thesis by (simp add: clean_Nil)
    next
      case False
      have "clean tbl (take (n - length t) (concat ts))"
        using Cons.prems False by (intro Cons.IH [OF refl]) (auto simp: nth_append)
      moreover have "clean tbl t" using Cons.prems(2) by (simp add: clean_rune)
      ultimately show ?thesis
        using Cons.prems(1) False clean_append by (simp add: clean_append)
    qed
  qed
qed

end
