(* ===== verification/Blocklist.thy ===== *)
theory Blocklist
  imports Gotime Visible
begin

text \<open>
  Model of \<open>internal/access/block.go\<close> and \<open>internal/access/sqlite/sqlite.go\<close>: the kill switch of one subject. The table is a
  list of rows in insertion order, with \<open>subject\<close> as its primary key; both time columns are text. The handle carries what the
  \<open>time\<close> package does with the two layouts: rendering and parsing of \<open>blocked_at\<close> (RFC 3339) and of \<open>blocked_until\<close> (fixed
  width). A statement the database refuses is the argument \<open>broken\<close>; the clock is the argument \<open>now\<close>.

  The locale \<open>block_store\<close> is the promise the gateway relies on, and the interpretation \<open>blocks\<close> discharges it for the table.
\<close>

section \<open>Blocks\<close>

record block =
  b_subject :: string
  b_reason :: string
  b_by :: string
  b_at :: gotime
  b_until :: gotime

definition active_at :: "block \<Rightarrow> gotime \<Rightarrow> bool" where
  "active_at b t = (is_zero (b_until b) \<or> after_time (b_until b) t)"

definition max_block_text :: nat where
  "max_block_text = 256"

text \<open>\<open>strings.IndexFunc\<close> asked whether it finds anything, and \<open>unicode.IsControl\<close>.\<close>

function any_rune :: "(nat \<Rightarrow> bool) \<Rightarrow> string \<Rightarrow> bool" where
  "any_rune p s =
     (if s = [] then False
      else if p (fst (decode_rune s)) then True
      else any_rune p (drop (snd (decode_rune s)) s))"
  by pat_completeness auto
termination
  by (relation "measure (\<lambda>(p, s). length s)") auto

declare any_rune.simps [simp del]

definition is_control :: "nat \<Rightarrow> bool" where
  "is_control r = (r \<le> 0x1F \<or> 0x7F \<le> r \<and> r \<le> 0x9F)"

datatype block_problem =
    SubjectEmpty
  | SubjectSpaced string
  | SubjectLong
  | SubjectControl string
  | SubjectFormat string
  | ReasonLong
  | ReasonControl
  | NoAuthor
  | NoTime
  | EndsBeforeStart

text \<open>\<open>cf\<close> is the Unicode category Cf.\<close>

definition validate_subject :: "(nat \<Rightarrow> bool) \<Rightarrow> string \<Rightarrow> block_problem option" where
  "validate_subject cf subject =
     (if subject = [] then Some SubjectEmpty
      else if trim_space subject \<noteq> subject then Some (SubjectSpaced subject)
      else if max_block_text < length subject then Some SubjectLong
      else if any_rune is_control subject then Some (SubjectControl subject)
      else if any_rune cf subject then Some (SubjectFormat subject)
      else None)"

definition validate_block :: "(nat \<Rightarrow> bool) \<Rightarrow> block \<Rightarrow> block_problem list" where
  "validate_block cf b =
     (case validate_subject cf (b_subject b) of Some e \<Rightarrow> [e] | None \<Rightarrow> [])
     @ (if max_block_text < length (b_reason b) then [ReasonLong] else [])
     @ (if any_rune is_control (b_reason b) then [ReasonControl] else [])
     @ (if trim_space (b_by b) = [] then [NoAuthor] else [])
     @ (if is_zero (b_at b) then [NoTime] else [])
     @ (if \<not> is_zero (b_until b) \<and> \<not> after_time (b_until b) (b_at b) then [EndsBeforeStart] else [])"

section \<open>The table\<close>

record brow =
  r_subject :: string
  r_reason :: string
  r_by :: string
  r_at :: string
  r_until :: string

record bstore =
  bs_at :: layout
  bs_parse_at :: "string \<Rightarrow> gotime option"
  bs_until :: layout
  bs_parse_until :: "string \<Rightarrow> gotime option"
  bs_rows :: "brow list"

datatype block_error =
    BlockInvalid "block_problem list"
  | BlockSql
  | BlockUnreadable string
  | BlockNoEnd

definition format_until :: "bstore \<Rightarrow> gotime \<Rightarrow> string" where
  "format_until st t = (if is_zero t then [] else bs_until st (utc t))"

definition row_on :: "bstore \<Rightarrow> string \<Rightarrow> brow option" where
  "row_on st subject = find (\<lambda>r. r_subject r = subject) (bs_rows st)"

definition blocked :: "bool \<Rightarrow> gotime \<Rightarrow> string \<Rightarrow> bstore \<Rightarrow> block_error + bool" where
  "blocked broken now subject st =
     (if broken then Inl BlockSql
      else case row_on st subject of
        None \<Rightarrow> Inr False
      | Some r \<Rightarrow>
          if r_until r = [] then Inr True
          else case bs_parse_until st (r_until r) of
            None \<Rightarrow> Inr True
          | Some end_time \<Rightarrow> Inr (after_time end_time now))"

definition row_of_block :: "bstore \<Rightarrow> block \<Rightarrow> brow" where
  "row_of_block st b =
     \<lparr>r_subject = b_subject b, r_reason = b_reason b, r_by = b_by b,
      r_at = bs_at st (utc (b_at b)), r_until = format_until st (b_until b)\<rparr>"

text \<open>The statement both placements run: the number of rows it affected and the table after it.\<close>

definition upsert_block :: "gotime \<Rightarrow> block \<Rightarrow> bstore \<Rightarrow> nat \<times> bstore" where
  "upsert_block now b st =
     (case row_on st (b_subject b) of
        None \<Rightarrow> (1, st\<lparr>bs_rows := bs_rows st @ [row_of_block st b]\<rparr>)
      | Some old \<Rightarrow>
          if r_until old \<noteq> [] \<and> r_until old \<le> format_until st now
          then (1, st\<lparr>bs_rows := map (\<lambda>r. if r_subject r = b_subject b then row_of_block st b else r) (bs_rows st)\<rparr>)
          else (0, st))"

definition block_subject :: "(nat \<Rightarrow> bool) \<Rightarrow> bool \<Rightarrow> gotime \<Rightarrow> block \<Rightarrow> bstore \<Rightarrow> (block_error + bool) \<times> bstore" where
  "block_subject cf broken now b st =
     (if validate_block cf b \<noteq> [] then (Inl (BlockInvalid (validate_block cf b)), st)
      else if broken then (Inl BlockSql, st)
      else case upsert_block now b st of (n, st') \<Rightarrow> (Inr (n = 1), st'))"

definition read_block :: "bstore \<Rightarrow> brow \<Rightarrow> block_error + block" where
  "read_block st r =
     (case bs_parse_at st (r_at r) of
        None \<Rightarrow> Inl (BlockUnreadable (r_subject r))
      | Some at_time \<Rightarrow>
          if r_until r = []
          then Inr \<lparr>b_subject = r_subject r, b_reason = r_reason r, b_by = r_by r, b_at = at_time,
                    b_until = \<lparr>g_ns = 0, g_off = 0\<rparr>\<rparr>
          else case bs_parse_until st (r_until r) of
            None \<Rightarrow> Inl (BlockUnreadable (r_subject r))
          | Some end_time \<Rightarrow>
              Inr \<lparr>b_subject = r_subject r, b_reason = r_reason r, b_by = r_by r, b_at = at_time,
                   b_until = end_time\<rparr>)"

definition old_block :: "bstore \<Rightarrow> string \<Rightarrow> block_error + block option" where
  "old_block st subject =
     (case row_on st subject of
        None \<Rightarrow> Inr None
      | Some r \<Rightarrow> (case read_block st r of Inl e \<Rightarrow> Inl e | Inr old \<Rightarrow> Inr (Some old)))"

datatype bstmt = BBegin | BSelect | BExec | BCommit

definition block_replacing ::
  "(nat \<Rightarrow> bool) \<Rightarrow> (bstmt \<Rightarrow> bool) \<Rightarrow> gotime \<Rightarrow> block \<Rightarrow> bstore \<Rightarrow> (block_error + (bool \<times> block option)) \<times> bstore" where
  "block_replacing cf fault now b st =
     (if validate_block cf b \<noteq> [] then (Inl (BlockInvalid (validate_block cf b)), st)
      else transact (fault BBegin) (fault BCommit) BlockSql
        (tx_bind
          (tx_stmt (fault BSelect) BlockSql
            (\<lambda>st. tx_lift (old_block st (b_subject b)) st))
          (\<lambda>old. tx_bind
            (tx_stmt (fault BExec) BlockSql (\<lambda>st. Inr (upsert_block now b st)))
            (\<lambda>n. tx_return (if n \<noteq> 1 then (False, None) else (True, old)))))
        st)"

definition unblock :: "bool \<Rightarrow> string \<Rightarrow> bstore \<Rightarrow> (block_error + bool) \<times> bstore" where
  "unblock broken subject st =
     (if broken then (Inl BlockSql, st)
      else (Inr (length (filter (\<lambda>r. r_subject r = subject) (bs_rows st)) = 1),
            st\<lparr>bs_rows := filter (\<lambda>r. r_subject r \<noteq> subject) (bs_rows st)\<rparr>))"

fun read_blocks :: "bstore \<Rightarrow> brow list \<Rightarrow> block_error + block list" where
  "read_blocks st [] = Inr []"
| "read_blocks st (r # rs) =
     (case read_block st r of
        Inl e \<Rightarrow> Inl e
      | Inr b \<Rightarrow> (case read_blocks st rs of Inl e \<Rightarrow> Inl e | Inr bs \<Rightarrow> Inr (b # bs)))"

definition blocks :: "bool \<Rightarrow> bstore \<Rightarrow> block_error + block list" where
  "blocks broken st =
     (if broken then Inl BlockSql
      else read_blocks st (sort_key (\<lambda>r. (r_at r, r_subject r)) (bs_rows st)))"

definition expired :: "bool \<Rightarrow> gotime \<Rightarrow> bstore \<Rightarrow> block_error + block list" where
  "expired broken now st =
     (case blocks broken st of
        Inl e \<Rightarrow> Inl e
      | Inr all \<Rightarrow> Inr (sort_key (\<lambda>b. g_ns (b_until b)) (filter (\<lambda>b. \<not> active_at b now) all)))"

definition remove_expired ::
  "bool \<Rightarrow> gotime \<Rightarrow> string \<Rightarrow> gotime \<Rightarrow> bstore \<Rightarrow> (block_error + bool) \<times> bstore" where
  "remove_expired broken now subject until_time st =
     (if is_zero until_time then (Inl BlockNoEnd, st)
      else if broken then (Inl BlockSql, st)
      else let gone = (\<lambda>r. r_subject r = subject \<and> r_until r = format_until st until_time
                           \<and> r_until r \<le> format_until st now)
           in (Inr (length (filter gone (bs_rows st)) = 1),
               st\<lparr>bs_rows := filter (\<lambda>r. \<not> gone r) (bs_rows st)\<rparr>))"

section \<open>The contract\<close>

text \<open>
  Instants the fixed-width layout renders: after Go's zero time and before the year 10000. For these the text is not empty, parses
  back, and compares as the instants do.
\<close>

definition datable :: "gotime \<Rightarrow> bool" where
  "datable t = (0 < g_ns t \<and> g_ns t < 3652059 * 86400 * 1000000000)"

definition end_text :: "bstore \<Rightarrow> bool" where
  "end_text st =
     ((\<forall>t. datable t \<longrightarrow> bs_until st (utc t) \<noteq> [] \<and> bs_parse_until st (bs_until st (utc t)) = Some (utc t))
      \<and> (\<forall>t u. datable t \<longrightarrow> datable u \<longrightarrow> (bs_until st (utc t) \<le> bs_until st (utc u) \<longleftrightarrow> g_ns t \<le> g_ns u)))"

definition row_ok :: "bstore \<Rightarrow> brow \<Rightarrow> bool" where
  "row_ok st r = (r_until r = [] \<or> (\<exists>t. datable t \<and> r_until r = bs_until st (utc t)))"

definition bs_ready :: "bstore \<Rightarrow> bool" where
  "bs_ready st = (end_text st \<and> distinct (map r_subject (bs_rows st)) \<and> list_all (row_ok st) (bs_rows st))"

datatype block_op =
    OpBlock block
  | OpUnblock string
  | OpSweep string gotime

locale block_store =
  fixes ready :: "'db \<Rightarrow> bool"
    and holds :: "gotime \<Rightarrow> string \<Rightarrow> 'db \<Rightarrow> bool"
    and place :: "gotime \<Rightarrow> block \<Rightarrow> 'db \<Rightarrow> bool \<times> 'db"
    and lift :: "string \<Rightarrow> 'db \<Rightarrow> 'db"
    and sweep :: "gotime \<Rightarrow> string \<Rightarrow> gotime \<Rightarrow> 'db \<Rightarrow> 'db"
    and valid :: "block \<Rightarrow> bool"
  assumes place_ready: "ready db \<Longrightarrow> datable now \<Longrightarrow> valid b \<Longrightarrow> ready (snd (place now b db))"
    and lift_ready: "ready db \<Longrightarrow> ready (lift s db)"
    and sweep_ready: "ready db \<Longrightarrow> ready (sweep now s u db)"
    and place_kept: "ready db \<Longrightarrow> datable now \<Longrightarrow> valid b \<Longrightarrow> holds now (b_subject b) db
      \<Longrightarrow> place now b db = (False, db)"
    and place_new: "ready db \<Longrightarrow> datable now \<Longrightarrow> valid b \<Longrightarrow> \<not> holds now (b_subject b) db
      \<Longrightarrow> fst (place now b db) \<and> holds t (b_subject b) (snd (place now b db)) = active_at b t"
    and place_other: "s \<noteq> b_subject b \<Longrightarrow> holds t s (snd (place now b db)) = holds t s db"
    and lift_one: "ready db \<Longrightarrow> \<not> holds t s (lift s db)"
    and lift_other: "ready db \<Longrightarrow> s' \<noteq> s \<Longrightarrow> holds t s' (lift s db) = holds t s' db"
    and sweep_holds: "ready db \<Longrightarrow> datable now \<Longrightarrow> datable u \<Longrightarrow> g_ns now \<le> g_ns t
      \<Longrightarrow> holds t s' (sweep now s u db) = holds t s' db"
    and holds_before: "ready db \<Longrightarrow> holds t s db \<Longrightarrow> g_ns t' \<le> g_ns t \<Longrightarrow> holds t' s db"
begin

fun act :: "'db \<Rightarrow> gotime \<times> block_op \<Rightarrow> 'db" where
  "act db (now, OpBlock b) = snd (place now b db)"
| "act db (now, OpUnblock s) = lift s db"
| "act db (now, OpSweep s u) = sweep now s u db"

fun sound_op :: "gotime \<Rightarrow> string \<Rightarrow> gotime \<times> block_op \<Rightarrow> bool" where
  "sound_op t s (now, OpBlock b) = (datable now \<and> g_ns now \<le> g_ns t \<and> valid b)"
| "sound_op t s (now, OpUnblock s') = (s' \<noteq> s)"
| "sound_op t s (now, OpSweep s' u) = (datable now \<and> g_ns now \<le> g_ns t \<and> datable u)"

lemma act_holds:
  assumes "ready db" "holds t s db" "sound_op t s op"
  shows "ready (act db op) \<and> holds t s (act db op)"
proof (cases "(db, op)" rule: act.cases)
  case (1 db now b)
  with assms have "holds now s db" "datable now" "valid b" using holds_before by auto
  with 1 assms show ?thesis using place_ready place_kept place_other by (cases "s = b_subject b") auto
next
  case (2 db now s')
  with assms show ?thesis using lift_ready lift_other by auto
next
  case (3 db now s' u)
  with assms show ?thesis using sweep_ready sweep_holds by auto
qed

lemma stays_blocked:
  "ready db \<Longrightarrow> holds t s db \<Longrightarrow> \<forall>op\<in>set ops. sound_op t s op \<Longrightarrow> holds t s (foldl act db ops)"
  by (induction ops arbitrary: db) (use act_holds in auto)

end

section \<open>The table keeps the contract\<close>

definition holds_at :: "gotime \<Rightarrow> string \<Rightarrow> bstore \<Rightarrow> bool" where
  "holds_at t s st = (blocked False t s st = Inr True)"

definition placed_block :: "(nat \<Rightarrow> bool) \<Rightarrow> gotime \<Rightarrow> block \<Rightarrow> bstore \<Rightarrow> bool \<times> bstore" where
  "placed_block cf now b st = (case block_subject cf False now b st of (r, st') \<Rightarrow> (r = Inr True, st'))"

definition valid_block :: "(nat \<Rightarrow> bool) \<Rightarrow> block \<Rightarrow> bool" where
  "valid_block cf b = (validate_block cf b = [] \<and> (is_zero (b_until b) \<or> datable (b_until b)))"

lemma end_textD:
  "end_text st \<Longrightarrow> datable t \<Longrightarrow> bs_until st (utc t) \<noteq> []"
  "end_text st \<Longrightarrow> datable t \<Longrightarrow> bs_parse_until st (bs_until st (utc t)) = Some (utc t)"
  "end_text st \<Longrightarrow> datable t \<Longrightarrow> datable u \<Longrightarrow> bs_until st (utc t) \<le> bs_until st (utc u) \<longleftrightarrow> g_ns t \<le> g_ns u"
  by (simp_all add: end_text_def)

lemma datable_not_zero [simp]: "datable t \<Longrightarrow> \<not> is_zero t"
  by (simp add: datable_def is_zero_def)

lemma format_until_datable [simp]: "datable t \<Longrightarrow> format_until st t = bs_until st (utc t)"
  by (simp add: format_until_def)

text \<open>What one row says about an instant, and that the table's answer is that of the subject's row.\<close>

definition row_holds :: "bstore \<Rightarrow> gotime \<Rightarrow> brow \<Rightarrow> bool" where
  "row_holds st t r =
     (r_until r = [] \<or> (case bs_parse_until st (r_until r) of None \<Rightarrow> True | Some e \<Rightarrow> after_time e t))"

lemma holds_at_row: "holds_at t s st \<longleftrightarrow> (\<exists>r. row_on st s = Some r \<and> row_holds st t r)"
  by (auto simp: holds_at_def blocked_def row_holds_def split: option.splits)

lemma row_holds_rows [simp]: "row_holds (st\<lparr>bs_rows := rs\<rparr>) = row_holds st"
  by (simp add: row_holds_def fun_eq_iff)

lemma row_ok_rows [simp]: "row_ok (st\<lparr>bs_rows := rs\<rparr>) = row_ok st" "end_text (st\<lparr>bs_rows := rs\<rparr>) = end_text st"
  by (simp_all add: row_ok_def end_text_def fun_eq_iff)

lemma row_holds_before: "row_holds st t r \<Longrightarrow> g_ns t' \<le> g_ns t \<Longrightarrow> row_holds st t' r"
  by (auto simp: row_holds_def after_time_def split: option.splits)

lemma row_of_block_holds:
  assumes "end_text st" "is_zero (b_until b) \<or> datable (b_until b)"
  shows "row_ok st (row_of_block st b)" "row_holds st t (row_of_block st b) = active_at b t"
proof -
  show ok: "row_ok st (row_of_block st b)"
    using assms(2) by (auto simp: row_ok_def row_of_block_def format_until_def)
  show "row_holds st t (row_of_block st b) = active_at b t"
  proof (cases "is_zero (b_until b)")
    case True
    then show ?thesis by (simp add: row_holds_def row_of_block_def format_until_def active_at_def)
  next
    case False
    with assms end_textD(1,2) [of st "b_until b"] show ?thesis
      by (simp add: row_holds_def row_of_block_def active_at_def after_time_def utc_def)
  qed
qed

text \<open>The \<open>WHERE\<close> clause of the placement replaces exactly the rows that no longer hold.\<close>

lemma ended_iff:
  assumes "end_text st" "row_ok st r" "datable now"
  shows "r_until r \<noteq> [] \<and> r_until r \<le> format_until st now \<longleftrightarrow> \<not> row_holds st now r"
proof (cases "r_until r = []")
  case True
  then show ?thesis by (simp add: row_holds_def)
next
  case False
  with assms(2) obtain e where e: "datable e" "r_until r = bs_until st (utc e)" by (auto simp: row_ok_def)
  then have "row_holds st now r \<longleftrightarrow> g_ns now < g_ns e"
    using end_textD(1,2) [OF assms(1) e(1)] by (simp add: row_holds_def after_time_def utc_def)
  with e False assms show ?thesis by (simp add: end_textD(3) linorder_not_less)
qed

lemma row_on_ok: "bs_ready st \<Longrightarrow> row_on st s = Some r \<Longrightarrow> row_ok st r \<and> r_subject r = s"
  by (auto simp: bs_ready_def row_on_def dest!: find_SomeD)

lemma row_on_append:
  "row_on (st\<lparr>bs_rows := bs_rows st @ [r]\<rparr>) s =
     (case row_on st s of None \<Rightarrow> if r_subject r = s then Some r else None | Some x \<Rightarrow> Some x)"
proof -
  have "find P (xs @ [r]) = (case find P xs of None \<Rightarrow> if P r then Some r else None | Some x \<Rightarrow> Some x)"
    for P and xs :: "brow list" by (induction xs) auto
  then show ?thesis by (simp add: row_on_def)
qed

lemma row_on_replace:
  assumes "r_subject new = s0"
  shows "row_on (st\<lparr>bs_rows := map (\<lambda>r. if r_subject r = s0 then new else r) (bs_rows st)\<rparr>) s =
     (if s = s0 then map_option (\<lambda>_. new) (row_on st s) else row_on st s)"
proof -
  have "find (\<lambda>r. r_subject r = s) (map (\<lambda>r. if r_subject r = s0 then new else r) xs) =
     (if s = s0 then map_option (\<lambda>_. new) (find (\<lambda>r. r_subject r = s) xs) else find (\<lambda>r. r_subject r = s) xs)"
    for xs using assms by (induction xs) auto
  then show ?thesis by (simp add: row_on_def)
qed

lemma row_on_filter:
  assumes "distinct (map r_subject (bs_rows st))"
  shows "row_on (st\<lparr>bs_rows := filter P (bs_rows st)\<rparr>) s =
     (case row_on st s of None \<Rightarrow> None | Some r \<Rightarrow> if P r then Some r else None)"
proof -
  have "distinct (map r_subject xs) \<Longrightarrow> find (\<lambda>r. r_subject r = s) (filter P xs) =
     (case find (\<lambda>r. r_subject r = s) xs of None \<Rightarrow> None | Some r \<Rightarrow> if P r then Some r else None)" for xs
  proof (induction xs)
    case (Cons x xs)
    moreover have "find (\<lambda>r. r_subject r = s) xs = None" if "r_subject x = s"
      using Cons.prems that by (auto simp: find_None_iff image_iff)
    ultimately show ?case by (auto split: option.splits)
  qed simp
  with assms show ?thesis by (simp add: row_on_def)
qed

lemma ready_filter: "bs_ready st \<Longrightarrow> bs_ready (st\<lparr>bs_rows := filter P (bs_rows st)\<rparr>)"
  by (simp add: bs_ready_def distinct_map_filter)

lemma upsert_block_cases:
  assumes "bs_ready st" "datable now"
  shows "upsert_block now b st =
     (if holds_at now (b_subject b) st then (0, st)
      else (1, st\<lparr>bs_rows := case row_on st (b_subject b) of
               None \<Rightarrow> bs_rows st @ [row_of_block st b]
             | Some _ \<Rightarrow> map (\<lambda>r. if r_subject r = b_subject b then row_of_block st b else r) (bs_rows st)\<rparr>))"
proof (cases "row_on st (b_subject b)")
  case None
  then show ?thesis by (simp add: upsert_block_def holds_at_row)
next
  case (Some old)
  with row_on_ok [OF assms(1) Some] assms have "r_until old \<noteq> [] \<and> r_until old \<le> format_until st now
      \<longleftrightarrow> \<not> row_holds st now old" by (intro ended_iff) (simp_all add: bs_ready_def)
  with Some show ?thesis by (simp add: upsert_block_def holds_at_row)
qed

lemma row_of_block_subject [simp]: "r_subject (row_of_block st b) = b_subject b"
  by (simp add: row_of_block_def)

lemma upsert_block_ready:
  assumes "bs_ready st" "datable now" "is_zero (b_until b) \<or> datable (b_until b)"
  shows "bs_ready (snd (upsert_block now b st))"
proof (cases "row_on st (b_subject b)")
  case None
  then have "b_subject b \<notin> r_subject ` set (bs_rows st)" by (auto simp: row_on_def find_None_iff)
  with None assms row_of_block_holds(1) [OF _ assms(3)] show ?thesis
    by (auto simp: upsert_block_def bs_ready_def)
next
  case (Some old)
  have "map r_subject (map (\<lambda>r. if r_subject r = b_subject b then row_of_block st b else r) rs) = map r_subject rs"
    for rs by (simp add: row_of_block_def)
  with Some assms row_of_block_holds(1) [OF _ assms(3), of st] show ?thesis
    by (auto simp: upsert_block_def bs_ready_def simp del: map_map)
qed

lemma upsert_block_other:
  "s \<noteq> b_subject b \<Longrightarrow> holds_at t s (snd (upsert_block now b st)) = holds_at t s st"
  by (auto simp: upsert_block_def holds_at_row row_on_append row_on_replace split: option.splits)

lemma upsert_block_new:
  assumes "bs_ready st" "datable now" "is_zero (b_until b) \<or> datable (b_until b)" "\<not> holds_at now (b_subject b) st"
  shows "holds_at t (b_subject b) (snd (upsert_block now b st)) = active_at b t"
proof -
  have "end_text st" using assms(1) by (simp add: bs_ready_def)
  then have "row_holds st t (row_of_block st b) = active_at b t" by (rule row_of_block_holds(2) [OF _ assms(3)])
  then show ?thesis
    unfolding upsert_block_cases [OF assms(1,2)] if_not_P [OF assms(4)]
    by (cases "row_on st (b_subject b)") (simp_all add: holds_at_row row_on_append row_on_replace)
qed

lemma remove_expired_holds:
  assumes "bs_ready st" "datable now" "datable u" "g_ns now \<le> g_ns t"
  shows "holds_at t s' (snd (remove_expired broken now s u st)) = holds_at t s' st"
proof -
  have "\<not> row_holds st t r"
    if r: "row_on st s' = Some r" and gone: "r_until r = bs_until st (utc u)" "r_until r \<le> format_until st now" for r
  proof -
    have ready: "end_text st" using assms(1) by (simp add: bs_ready_def)
    with gone(1) assms(3) have "r_until r \<noteq> []" by (simp add: end_textD(1))
    with gone(2) have "\<not> row_holds st now r"
      using row_on_ok [OF assms(1) r] by (simp add: ended_iff [OF ready _ assms(2), symmetric])
    with assms(4) show ?thesis using row_holds_before by blast
  qed
  then show ?thesis
    using assms(1,3)
    by (auto simp: remove_expired_def holds_at_row row_on_filter bs_ready_def Let_def split: option.splits)
qed

lemma unblock_holds:
  assumes "bs_ready st"
  shows "holds_at t s' (snd (unblock False s st)) \<longleftrightarrow> s' \<noteq> s \<and> holds_at t s' st"
  using assms row_on_ok [OF assms, of s']
  by (auto simp: unblock_def holds_at_row row_on_filter bs_ready_def split: option.splits)

lemma placed_block_valid:
  "valid_block cf b \<Longrightarrow> placed_block cf now b st = (fst (upsert_block now b st) = 1, snd (upsert_block now b st))"
  by (simp add: placed_block_def block_subject_def valid_block_def split: prod.splits)

interpretation blocks: block_store bs_ready holds_at "placed_block cf" "\<lambda>s st. snd (unblock False s st)"
    "\<lambda>now s u st. snd (remove_expired False now s u st)" "valid_block cf"
  for cf
proof
  fix st :: bstore and now t t' u :: gotime and b :: block and s s' :: string
  show "bs_ready (snd (placed_block cf now b st))" if "bs_ready st" "datable now" "valid_block cf b"
    using that upsert_block_ready by (simp add: placed_block_valid) (simp add: valid_block_def)
  show "bs_ready (snd (unblock False s st))" if "bs_ready st" using that by (simp add: unblock_def ready_filter)
  show "bs_ready (snd (remove_expired False now s u st))" if "bs_ready st"
    using that by (simp add: remove_expired_def ready_filter Let_def)
  show "placed_block cf now b st = (False, st)"
    if "bs_ready st" "datable now" "valid_block cf b" "holds_at now (b_subject b) st"
    using that by (simp add: placed_block_valid upsert_block_cases)
  show "fst (placed_block cf now b st) \<and> holds_at t (b_subject b) (snd (placed_block cf now b st)) = active_at b t"
    if "bs_ready st" "datable now" "valid_block cf b" "\<not> holds_at now (b_subject b) st"
    using that upsert_block_new [of st now b t]
    by (simp add: placed_block_valid upsert_block_cases) (simp add: valid_block_def)
  show "holds_at t s (snd (placed_block cf now b st)) = holds_at t s st" if "s \<noteq> b_subject b"
    using that by (simp add: placed_block_def block_subject_def upsert_block_other split: prod.splits)
      (metis upsert_block_other snd_conv)
  show "\<not> holds_at t s (snd (unblock False s st))" if "bs_ready st" using that by (simp add: unblock_holds)
  show "holds_at t s' (snd (unblock False s st)) = holds_at t s' st" if "bs_ready st" "s' \<noteq> s"
    using that by (simp add: unblock_holds)
  show "holds_at t s' (snd (remove_expired False now s u st)) = holds_at t s' st"
    if "bs_ready st" "datable now" "datable u" "g_ns now \<le> g_ns t" using that by (rule remove_expired_holds)
  show "holds_at t' s st" if "bs_ready st" "holds_at t s st" "g_ns t' \<le> g_ns t"
    using that row_holds_before by (auto simp: holds_at_row)
qed

section \<open>Properties\<close>

text \<open>Operators and the sweep, in any order, each on a database that may refuse the statement.\<close>

fun block_step :: "(nat \<Rightarrow> bool) \<Rightarrow> bstore \<Rightarrow> bool \<times> gotime \<times> block_op \<Rightarrow> bstore" where
  "block_step cf st (broken, now, OpBlock b) = snd (block_subject cf broken now b st)"
| "block_step cf st (broken, now, OpUnblock s) = snd (unblock broken s st)"
| "block_step cf st (broken, now, OpSweep s u) = snd (remove_expired broken now s u st)"

fun keeps_block :: "gotime \<Rightarrow> string \<Rightarrow> bool \<times> gotime \<times> block_op \<Rightarrow> bool" where
  "keeps_block t s (broken, now, OpBlock b) =
     (datable now \<and> g_ns now \<le> g_ns t \<and> (is_zero (b_until b) \<or> datable (b_until b)))"
| "keeps_block t s (broken, now, OpUnblock s') = (s' \<noteq> s)"
| "keeps_block t s (broken, now, OpSweep s' u) = (datable now \<and> g_ns now \<le> g_ns t \<and> datable u)"

lemma working_database:
  "snd (block_subject cf broken now b st) \<noteq> st \<Longrightarrow>
     snd (block_subject cf broken now b st) = snd (placed_block cf now b st) \<and> validate_block cf b = []"
  "snd (unblock broken s st) \<noteq> st \<Longrightarrow> snd (unblock broken s st) = snd (unblock False s st)"
  "snd (remove_expired broken now s u st) \<noteq> st \<Longrightarrow>
     snd (remove_expired broken now s u st) = snd (remove_expired False now s u st)"
  by (auto simp: block_subject_def placed_block_def unblock_def remove_expired_def split: if_splits prod.splits)

lemma block_step_act:
  assumes "keeps_block t s op" "bs_ready st" "holds_at t s st"
  shows "bs_ready (block_step cf st op) \<and> holds_at t s (block_step cf st op)"
proof (cases op)
  case (fields broken now bop)
  show ?thesis
  proof (cases "block_step cf st op = st")
    case True
    with assms show ?thesis by simp
  next
    case changed: False
    have "block_step cf st op = blocks.act cf st (now, bop) \<and> blocks.sound_op cf t s (now, bop)"
      using assms(1) changed fields
      by (cases bop) (auto simp: valid_block_def dest: working_database)
    with blocks.act_holds [OF assms(2,3)] show ?thesis by metis
  qed
qed

lemma block_run:
  "bs_ready st \<Longrightarrow> holds_at t s st \<Longrightarrow> \<forall>op\<in>set ops. keeps_block t s op \<Longrightarrow> holds_at t s (foldl (block_step cf) st ops)"
proof (induction ops arbitrary: st)
  case (Cons op ops)
  with block_step_act [of t s op st cf] show ?case by simp
qed simp

lemma old_block_read:
  assumes "bs_ready st" "\<forall>r\<in>set (bs_rows st). bs_parse_at st (r_at r) \<noteq> None"
  shows "\<exists>old. old_block st s = Inr old
    \<and> (\<forall>x. old = Some x \<and> \<not> holds_at now s st \<longrightarrow> b_subject x = s \<and> \<not> active_at x now)"
proof (cases "row_on st s")
  case (Some r)
  have ends: "end_text st" using assms(1) by (simp add: bs_ready_def)
  from Some have "r \<in> set (bs_rows st)" "r_subject r = s" by (auto simp: row_on_def dest: find_SomeD)
  with assms(2) obtain a where a: "bs_parse_at st (r_at r) = Some a" by blast
  show ?thesis
  proof (cases "r_until r = []")
    case True
    with Some a show ?thesis by (simp add: old_block_def read_block_def holds_at_row row_holds_def)
  next
    case False
    with row_on_ok [OF assms(1) Some] obtain e where e: "datable e" "r_until r = bs_until st (utc e)"
      by (auto simp: row_ok_def)
    with Some a False \<open>r_subject r = s\<close> end_textD(1,2) [OF ends e(1)] show ?thesis
      by (simp add: old_block_def read_block_def holds_at_row row_holds_def active_at_def is_zero_def utc_def datable_def)
  qed
qed (simp add: old_block_def)

lemma blocked_holds: "blocked False t s st = Inr (holds_at t s st)"
  by (auto simp: holds_at_def blocked_def split: option.splits)

lemma placed_block_stays:
  assumes "bs_ready st" "datable now" "validate_block cf b = []" "is_zero (b_until b) \<or> datable (b_until b)"
    and "\<not> holds_at now (b_subject b) st" "active_at b t"
    and "\<forall>op\<in>set ops. keeps_block t (b_subject b) op"
  shows "blocked False t (b_subject b) (foldl (block_step cf) (snd (block_subject cf False now b st)) ops) = Inr True"
proof -
  have v: "valid_block cf b" using assms(3,4) by (simp add: valid_block_def)
  have placed: "snd (placed_block cf now b st) = snd (block_subject cf False now b st)"
    by (simp add: placed_block_def split: prod.splits)
  have "bs_ready (snd (block_subject cf False now b st)) \<and> holds_at t (b_subject b) (snd (block_subject cf False now b st))"
    using blocks.place_ready [OF assms(1,2) v] blocks.place_new [OF assms(1,2) v assms(5), of t] assms(6) placed by simp
  with block_run assms(7) have "holds_at t (b_subject b) (foldl (block_step cf) (snd (block_subject cf False now b st)) ops)"
    by blast
  then show ?thesis by (simp add: blocked_holds)
qed

text \<open>
  (safety) the kill switch stays on. Once a valid block on a subject is placed, a request at any later instant its end has not reached finds the
  subject blocked, whatever other blocks, lifts of other subjects and sweeps of expired rows ran in between, at clocks that do not pass that instant.
\<close>
theorem block_holds_until_end:
  assumes "bs_ready st" "datable now" "validate_block cf b = []" "is_zero (b_until b) \<or> datable (b_until b)"
    and "\<not> holds_at now (b_subject b) st" "active_at b t"
    and "\<forall>op\<in>set ops. keeps_block t (b_subject b) op"
  shows "blocked False t (b_subject b) (foldl (block_step cf) (snd (block_subject cf False now b st)) ops) = Inr True"
  using assms by (rule placed_block_stays)

definition sample_bstore :: bstore where
  "sample_bstore = \<lparr>bs_at = (\<lambda>t. replicate (nat (g_ns t)) CHR ''x''), bs_parse_at = (\<lambda>s. Some \<lparr>g_ns = int (length s), g_off = 0\<rparr>),
     bs_until = (\<lambda>t. replicate (nat (g_ns t)) CHR ''x''), bs_parse_until = (\<lambda>s. Some \<lparr>g_ns = int (length s), g_off = 0\<rparr>),
     bs_rows = []\<rparr>"

definition sample_block :: block where
  "sample_block = \<lparr>b_subject = ''ana'', b_reason = ''left'', b_by = ''op'', b_at = \<lparr>g_ns = 5, g_off = 0\<rparr>,
     b_until = \<lparr>g_ns = 9, g_off = 0\<rparr>\<rparr>"

lemma replicate_le_iff: "replicate m (c::char) \<le> replicate n c \<longleftrightarrow> m \<le> n"
proof (induction m arbitrary: n)
  case (Suc m)
  then show ?case by (cases n) auto
qed simp

lemma sample_bstore_ready: "bs_ready (sample_bstore\<lparr>bs_rows := []\<rparr>)"
  by (auto simp: bs_ready_def end_text_def sample_bstore_def datable_def utc_def replicate_le_iff nat_le_eq_zle)

lemma sample_block_valid: "validate_block (\<lambda>_. False) sample_block = []" by code_simp

theorem block_holds_until_end_witness:
  "blocked False \<lparr>g_ns = 8, g_off = 0\<rparr> ''ana''
     (foldl (block_step (\<lambda>_. False)) (snd (block_subject (\<lambda>_. False) False \<lparr>g_ns = 5, g_off = 0\<rparr> sample_block sample_bstore))
        [(False, \<lparr>g_ns = 6, g_off = 0\<rparr>, OpUnblock ''bob''), (False, \<lparr>g_ns = 7, g_off = 0\<rparr>, OpSweep ''ana'' \<lparr>g_ns = 9, g_off = 0\<rparr>)])
   = Inr True"
proof -
  have "bs_ready sample_bstore" using sample_bstore_ready by (simp add: sample_bstore_def)
  moreover have "\<not> holds_at \<lparr>g_ns = 5, g_off = 0\<rparr> (b_subject sample_block) sample_bstore" by code_simp
  moreover have "b_subject sample_block = ''ana''" by (simp add: sample_block_def)
  ultimately show ?thesis
    using block_holds_until_end [where b = sample_block and st = sample_bstore and cf = "\<lambda>_. False"
        and now = "\<lparr>g_ns = 5, g_off = 0\<rparr>" and t = "\<lparr>g_ns = 8, g_off = 0\<rparr>"
        and ops = "[(False, \<lparr>g_ns = 6, g_off = 0\<rparr>, OpUnblock ''bob''), (False, \<lparr>g_ns = 7, g_off = 0\<rparr>, OpSweep ''ana'' \<lparr>g_ns = 9, g_off = 0\<rparr>)]"]
      sample_block_valid
    by (simp add: datable_def sample_block_def active_at_def after_time_def is_zero_def)
qed

text \<open>
  (functional) re-blocking keeps the first block. On a table this adapter wrote, a valid block is placed exactly when the subject is not blocked at
  that instant; otherwise nothing changes, so the first author and time stay on record. A placed block answers for its subject from then on by its own
  end, no other subject is affected, and the variant that reports what it replaced leaves the same table and reports an ended block or none.
\<close>
theorem block_placed_exactly_when_free:
  assumes "bs_ready st" "datable now" "validate_block cf b = []" "is_zero (b_until b) \<or> datable (b_until b)"
    and "\<forall>r\<in>set (bs_rows st). bs_parse_at st (r_at r) \<noteq> None"
  shows "fst (block_subject cf False now b st) = Inr (\<not> holds_at now (b_subject b) st)
    \<and> (holds_at now (b_subject b) st \<longrightarrow> snd (block_subject cf False now b st) = st)
    \<and> (\<not> holds_at now (b_subject b) st \<longrightarrow>
        (\<forall>t. blocked False t (b_subject b) (snd (block_subject cf False now b st)) = Inr (active_at b t)))
    \<and> (\<forall>t s. s \<noteq> b_subject b \<longrightarrow> blocked False t s (snd (block_subject cf False now b st)) = blocked False t s st)
    \<and> (\<exists>replaced. block_replacing cf (\<lambda>_. False) now b st =
          (Inr (\<not> holds_at now (b_subject b) st, replaced), snd (block_subject cf False now b st))
        \<and> (\<forall>old. replaced = Some old \<longrightarrow> b_subject old = b_subject b \<and> \<not> active_at old now))"
proof -
  define held where "held = holds_at now (b_subject b) st"
  obtain st' where up: "upsert_block now b st = (if held then 0 else 1, st')"
    by (cases held) (simp_all add: upsert_block_cases [OF assms(1,2)] held_def)
  have sub: "block_subject cf False now b st = (Inr (\<not> held), st')"
    using assms(3) up by (cases held) (simp_all add: block_subject_def)
  obtain old where old: "old_block st (b_subject b) = Inr old"
    "\<forall>x. old = Some x \<and> \<not> held \<longrightarrow> b_subject x = b_subject b \<and> \<not> active_at x now"
    unfolding held_def using old_block_read [OF assms(1,5)] by blast
  have r: "block_replacing cf (\<lambda>_. False) now b st = (Inr (\<not> held, if held then None else old), st')"
    by (simp only: block_replacing_def assms(3) simp_thms if_False tx_unfold transact_def old(1) sum.case prod.case up) simp
  have n: "blocked False t (b_subject b) st' = Inr (active_at b t)" if "\<not> held" for t
    using upsert_block_new [OF assms(1,2,4), of t] that up by (simp add: blocked_holds held_def)
  have o: "blocked False t s st' = blocked False t s st" if "s \<noteq> b_subject b" for t s
    using upsert_block_other [OF that, of t now st] up by (simp add: blocked_holds)
  have k: "st' = st" if held
    using that up by (simp add: upsert_block_cases [OF assms(1,2)] held_def)
  show ?thesis
    unfolding sub fst_conv snd_conv held_def [symmetric]
  proof (intro conjI)
    have "\<forall>x. (if held then None else old) = Some x \<longrightarrow> b_subject x = b_subject b \<and> \<not> active_at x now"
      using old(2) by (cases held) (simp_all only: if_True if_False option.distinct simp_thms)
    with r show "\<exists>replaced. block_replacing cf (\<lambda>_. False) now b st = (Inr (\<not> held, replaced), st')
      \<and> (\<forall>old. replaced = Some old \<longrightarrow> b_subject old = b_subject b \<and> \<not> active_at old now)" by blast
  qed (blast intro: n o k)+
qed

theorem block_placed_exactly_when_free_witness:
  "fst (block_subject (\<lambda>_. False) False \<lparr>g_ns = 5, g_off = 0\<rparr> sample_block sample_bstore) = Inr True"
proof -
  have "bs_ready sample_bstore" using sample_bstore_ready by (simp add: sample_bstore_def)
  moreover have "\<not> holds_at \<lparr>g_ns = 5, g_off = 0\<rparr> (b_subject sample_block) sample_bstore" by code_simp
  ultimately show ?thesis
    using block_placed_exactly_when_free [where b = sample_block and st = sample_bstore and cf = "\<lambda>_. False"
        and now = "\<lparr>g_ns = 5, g_off = 0\<rparr>"] sample_block_valid
    by (simp add: datable_def sample_block_def sample_bstore_def)
qed

lemma filter_unique_key:
  "distinct (map k xs) \<Longrightarrow> x \<in> set xs \<Longrightarrow> P x \<Longrightarrow> filter (\<lambda>y. k y = k x \<and> P y) xs = [x]"
proof (induction xs)
  case (Cons a xs)
  show ?case
  proof (cases "a = x")
    case True
    with Cons.prems have "\<forall>y\<in>set xs. k y \<noteq> k x" by (metis distinct.simps(2) image_eqI list.simps(9) set_map)
    with True Cons.prems show ?thesis by (simp add: filter_empty_conv)
  next
    case False
    with Cons show ?thesis by (auto simp: rev_image_eqI)
  qed
qed simp

lemma read_blocks_set:
  "read_blocks st rs = Inr bs \<Longrightarrow> b \<in> set bs \<Longrightarrow> \<exists>r\<in>set rs. read_block st r = Inr b"
  by (induction rs arbitrary: bs) (auto split: sum.splits)

lemma read_blocks_all:
  "read_blocks st rs = Inr bs \<Longrightarrow> r \<in> set rs \<Longrightarrow> \<exists>b\<in>set bs. read_block st r = Inr b"
  by (induction rs arbitrary: bs) (auto split: sum.splits)

lemma read_block_until:
  assumes "end_text st" "row_ok st r" "read_block st r = Inr b"
  shows "b_subject b = r_subject r" "row_holds st t r = active_at b t"
    "\<not> is_zero (b_until b) \<Longrightarrow> datable (b_until b) \<and> r_until r = bs_until st (utc (b_until b))"
proof -
  show "b_subject b = r_subject r" using assms(3) by (auto simp: read_block_def split: option.splits if_splits)
  have "row_holds st t r = active_at b t \<and> (\<not> is_zero (b_until b) \<longrightarrow>
      datable (b_until b) \<and> r_until r = bs_until st (utc (b_until b)))"
  proof (cases "r_until r = []")
    case True
    with assms(3) show ?thesis
      by (auto simp: read_block_def row_holds_def active_at_def is_zero_def split: option.splits)
  next
    case False
    with assms(2) obtain e where e: "datable e" "r_until r = bs_until st (utc e)" by (auto simp: row_ok_def)
    with False assms(3) end_textD(2) [OF assms(1) e(1)] have "b_until b = utc e"
      by (auto simp: read_block_def split: option.splits)
    with e False end_textD(2) [OF assms(1) e(1)] show ?thesis
      by (auto simp: row_holds_def active_at_def is_zero_def utc_def datable_def)
  qed
  then show "row_holds st t r = active_at b t"
    "\<not> is_zero (b_until b) \<Longrightarrow> datable (b_until b) \<and> r_until r = bs_until st (utc (b_until b))" by blast+
qed

text \<open>
  (safety) the expiry round lists the blocks that have ended, all of them and nothing else, and removing what it lists changes no answer of the
  admission check from that instant on: a row that still holds, or one placed again since, is never removed.
\<close>
theorem expiry_round_harmless:
  assumes "bs_ready st" "datable now" "expired False now st = Inr bs" "b \<in> set bs"
  shows "\<not> active_at b now \<and> \<not> holds_at now (b_subject b) st
    \<and> (\<forall>r\<in>set (bs_rows st). \<not> row_holds st now r \<longrightarrow> (\<exists>x\<in>set bs. b_subject x = r_subject r))
    \<and> fst (remove_expired False now (b_subject b) (b_until b) st) = Inr True
    \<and> (\<forall>t s. g_ns now \<le> g_ns t \<longrightarrow>
        blocked False t s (snd (remove_expired False now (b_subject b) (b_until b) st)) = blocked False t s st)"
proof -
  have ends: "end_text st" and dist: "distinct (map r_subject (bs_rows st))" using assms(1) by (simp_all add: bs_ready_def)
  from assms(3) obtain all where all: "read_blocks st (sort_key (\<lambda>r. (r_at r, r_subject r)) (bs_rows st)) = Inr all"
    and bs: "set bs = {b \<in> set all. \<not> active_at b now}" by (auto simp: expired_def blocks_def split: sum.splits)
  from assms(4) bs have b: "b \<in> set all" "\<not> active_at b now" by simp_all
  from read_blocks_set [OF all b(1)] obtain r where r: "r \<in> set (bs_rows st)" "read_block st r = Inr b" by auto
  have ok: "row_ok st x" if "x \<in> set (bs_rows st)" for x using that assms(1) by (simp add: bs_ready_def)
  note rb = read_block_until [OF ends ok [OF r(1)] r(2)]
  have u: "datable (b_until b)" "r_until r = bs_until st (utc (b_until b))" using rb(3) b(2) by (auto simp: active_at_def)
  have row: "row_on st (b_subject b) = Some r"
    using find_map_of_key [OF dist r(1)] rb(1) by (simp add: row_on_def)
  have "\<not> row_holds st now r" using rb(2) b(2) by simp
  then have le: "r_until r \<le> bs_until st (utc now)"
    using ended_iff [OF ends ok [OF r(1)] assms(2)] assms(2) by simp
  have "filter (\<lambda>x. r_subject x = b_subject b \<and> r_until x = bs_until st (utc (b_until b)) \<and> r_until x \<le> bs_until st (utc now))
      (bs_rows st) = [r]"
    using filter_unique_key [OF dist r(1)] rb(1) u(2) le by auto
  then have "fst (remove_expired False now (b_subject b) (b_until b) st) = Inr True"
    using u(1) assms(2) by (simp add: remove_expired_def)
  moreover have "\<exists>x\<in>set bs. b_subject x = r_subject q" if "q \<in> set (bs_rows st)" "\<not> row_holds st now q" for q
    using read_blocks_all [OF all, of q] that read_block_until(1,2) [OF ends ok [OF that(1)]] bs by force
  moreover have "\<not> holds_at now (b_subject b) st" using row \<open>\<not> row_holds st now r\<close> by (simp add: holds_at_row)
  moreover have "blocked False t s (snd (remove_expired False now (b_subject b) (b_until b) st)) = blocked False t s st"
    if "g_ns now \<le> g_ns t" for t s
    using remove_expired_holds [OF assms(1,2) u(1) that] by (simp add: blocked_holds)
  ultimately show ?thesis using b(2) by blast
qed

theorem expiry_round_harmless_witness:
  "fst (remove_expired False \<lparr>g_ns = 20, g_off = 0\<rparr> ''ana'' \<lparr>g_ns = 9, g_off = 0\<rparr>
      (snd (upsert_block \<lparr>g_ns = 5, g_off = 0\<rparr> sample_block sample_bstore))) = Inr True"
proof -
  let ?st = "snd (upsert_block \<lparr>g_ns = 5, g_off = 0\<rparr> sample_block sample_bstore)"
  have "bs_ready sample_bstore" using sample_bstore_ready by (simp add: sample_bstore_def)
  then have "bs_ready ?st" by (rule upsert_block_ready) (simp_all add: datable_def sample_block_def)
  moreover have "expired False \<lparr>g_ns = 20, g_off = 0\<rparr> ?st = Inr [sample_block]" by code_simp
  ultimately show ?thesis
    using expiry_round_harmless [where st = ?st and now = "\<lparr>g_ns = 20, g_off = 0\<rparr>" and bs = "[sample_block]" and b = sample_block]
    by (simp add: datable_def) (simp add: sample_block_def)
qed

end
