(* ===== verification/Framing.thy ===== *)
theory Framing
  imports Prelude
begin

text \<open>
  The length-prefixed encoding that three components hash or sign: the audit chain
  (\<open>internal/audit/audit.go\<close>, \<open>Canonical\<close>), the definition signer
  (\<open>internal/signer/signer.go\<close>, \<open>Canonical\<close>) and the tool fingerprint
  (\<open>internal/quarantine/quarantine.go\<close>, \<open>Hash\<close>). Each of the three has its own copy of the
  routine; \<open>append_field\<close>, \<open>append_count\<close> and \<open>write_field\<close> are those copies.

  The interface the three rely on is the locale \<open>prefix_code\<close>: an encoding whose
  image can be followed by anything without becoming ambiguous. It is interpreted on a single
  field and on a counted list of fields, which are the two shapes the source writes.
\<close>

section \<open>The routines\<close>

definition append_field :: "string \<Rightarrow> string \<Rightarrow> string" where
  "append_field buf v = (buf @ be64 (length v)) @ v"

definition append_count :: "string \<Rightarrow> nat \<Rightarrow> string" where
  "append_count buf n = buf @ be64 n"

text \<open>The running digest of \<open>hash.Hash\<close> is a function of the bytes written so far.\<close>

definition write_field :: "string \<Rightarrow> string \<Rightarrow> string" where
  "write_field h b = (h @ be64 (length b)) @ b"

text \<open>Lengths a Go string or slice can have: an \<open>int\<close>, hence below \<open>2 ^ 64\<close>.\<close>

definition fits64 :: "'a list \<Rightarrow> bool" where
  "fits64 s = (length s < 2 ^ 64)"

section \<open>The shapes\<close>

definition field :: "string \<Rightarrow> string" where
  "field v = be64 (length v) @ v"

definition field_list :: "string list \<Rightarrow> string" where
  "field_list vs = be64 (length vs) @ concat (map field vs)"

definition fits_all :: "string list \<Rightarrow> bool" where
  "fits_all vs = (fits64 vs \<and> list_all fits64 vs)"

lemma append_field_eq [framing]: "append_field buf v = buf @ field v"
  by (simp add: append_field_def field_def)

lemma write_field_eq [framing]: "write_field buf v = buf @ field v"
  by (simp add: write_field_def field_def)

lemma foldl_append_field [framing]:
  "foldl append_field buf vs = buf @ concat (map field vs)"
  by (induction vs arbitrary: buf) (simp_all add: append_field_eq)

lemma append_count_fields [framing]:
  "foldl append_field (append_count buf (length vs)) vs = buf @ field_list vs"
  by (simp add: foldl_append_field append_count_def field_list_def)

section \<open>Prefix codes\<close>

locale prefix_code =
  fixes enc :: "'a \<Rightarrow> string" and ok :: "'a \<Rightarrow> bool"
  assumes cancel: "ok x \<Longrightarrow> ok y \<Longrightarrow> enc x @ r = enc y @ s \<Longrightarrow> x = y \<and> r = s"
begin

lemma append_iff: "ok x \<Longrightarrow> ok y \<Longrightarrow> enc x @ r = enc y @ s \<longleftrightarrow> x = y \<and> r = s"
  using cancel by blast

lemma inject: "ok x \<Longrightarrow> ok y \<Longrightarrow> enc x = enc y \<longleftrightarrow> x = y"
  using cancel [of x y "[]" "[]"] by auto

lemma concat_cancel:
  assumes "length xs = length ys" "list_all ok xs" "list_all ok ys"
    and "concat (map enc xs) @ r = concat (map enc ys) @ s"
  shows "xs = ys \<and> r = s"
  using assms
proof (induction xs ys arbitrary: r s rule: list_induct2)
  case Nil
  then show ?case by simp
next
  case (Cons x xs y ys)
  from Cons.prems have "enc x @ concat (map enc xs) @ r = enc y @ concat (map enc ys) @ s"
    by simp
  moreover have "ok x" "ok y" using Cons.prems by auto
  ultimately have "x = y" and tl: "concat (map enc xs) @ r = concat (map enc ys) @ s"
    using cancel by blast+
  moreover have "xs = ys \<and> r = s"
    using Cons.prems(1,2) by (intro Cons.IH tl) simp_all
  ultimately show ?case by simp
qed

end

lemma be64_append_cancel:
  "m < 2 ^ 64 \<Longrightarrow> n < 2 ^ 64 \<Longrightarrow> be64 m @ r = be64 n @ s \<Longrightarrow> m = n \<and> r = s"
  using be64_inject [of m n] by simp

interpretation field: prefix_code field fits64
proof
  fix x y r s
  assume "fits64 (x::string)" "fits64 (y::string)" "field x @ r = field y @ s"
  then have "length x = length y \<and> x @ r = y @ s"
    unfolding field_def fits64_def by (intro be64_append_cancel) simp_all
  then show "x = y \<and> r = s" by (metis append_eq_append_conv)
qed

interpretation counted: prefix_code field_list fits_all
proof
  fix x y r s
  assume ok: "fits_all x" "fits_all y" and eq: "field_list x @ r = field_list y @ s"
  then have "length x = length y \<and> concat (map field x) @ r = concat (map field y) @ s"
    unfolding field_list_def fits_all_def fits64_def
    by (intro be64_append_cancel) auto
  with ok show "x = y \<and> r = s"
    unfolding fits_all_def using field.concat_cancel by blast
qed

lemmas field_cancel [framing] = field.append_iff counted.append_iff field.inject counted.inject

lemma fits64_short [simp]: "length s < 256 \<Longrightarrow> fits64 s"
  by (simp add: fits64_def)

text \<open>A digest of 32 bytes rendered in hex always fits.\<close>

lemma length_hex_encode [simp]: "length (hex_encode xs) = 2 * length xs"
  by (induction xs) auto

section \<open>Digests\<close>

text \<open>
  SHA-256 is an argument of the definitions that hash. The one fact used about it is that it returns
  32 bytes; what rests on collision resistance names the collision.
\<close>

type_synonym digest = "string \<Rightarrow> string"

definition digest32 :: "digest \<Rightarrow> bool" where
  "digest32 H = (\<forall>x. length (H x) = 32)"

definition collision :: "digest \<Rightarrow> bool" where
  "collision H = (\<exists>x y. x \<noteq> y \<and> H x = H y)"

text \<open>A stand-in on which the examples are evaluated.\<close>

definition sample_digest :: digest where
  "sample_digest x = replicate 31 (CHR ''a'') @ [char_of (length x)]"

lemma sample_digest32: "digest32 sample_digest"
  by (simp add: digest32_def sample_digest_def)

end
