(* ===== verification/Quarantine.thy ===== *)
theory Quarantine
  imports Framing
begin

text \<open>
  Model of \<open>internal/quarantine/quarantine.go\<close>: the fingerprint of a tool definition, the
  quarantine state of one tool with its transitions, and the review set a bulk approval names.

  \<open>Status\<close> and \<open>Class\<close> are open string types in the source and stay strings here. Times are
  instants. SHA-256 is the argument \<open>H\<close>; that it returns 32 bytes is the only fact used about it
  (\<open>digest32\<close>), and statements that rest on collision resistance name the collision.
\<close>

section \<open>Fingerprints\<close>

record tool_identity =
  ti_name :: string
  ti_description :: string
  ti_input_schema :: string
  ti_output_schema :: string

definition hash_domain_tag :: string where
  "hash_domain_tag = ''mcp-gateway/quarantine/tool-identity/v1''"

definition hash_domain_tag_output :: string where
  "hash_domain_tag_output = ''mcp-gateway/quarantine/tool-identity/v2-output''"

definition identity_bytes :: "tool_identity \<Rightarrow> string" where
  "identity_bytes t =
     (let h = [];
          h = (if ti_output_schema t = [] then write_field h hash_domain_tag
               else write_field h hash_domain_tag_output);
          h = write_field h (ti_name t);
          h = write_field h (ti_description t);
          h = write_field h (ti_input_schema t)
      in if ti_output_schema t \<noteq> [] then write_field h (ti_output_schema t) else h)"

definition tool_hash :: "digest \<Rightarrow> tool_identity \<Rightarrow> string" where
  "tool_hash H t = hex_encode (H (identity_bytes t))"

section \<open>States of a tool\<close>

definition status_pending :: string where "status_pending = ''pending''"
definition status_approved :: string where "status_approved = ''approved''"
definition status_changed :: string where "status_changed = ''changed''"

definition status_valid :: "string \<Rightarrow> bool" where
  "status_valid s = (s = status_pending \<or> s = status_approved \<or> s = status_changed)"

definition class_safe :: string where "class_safe = []"
definition class_sensitive :: string where "class_sensitive = ''sensitive''"

definition class_valid :: "string \<Rightarrow> bool" where
  "class_valid c = (c = class_safe \<or> c = class_sensitive)"

record tool =
  t_server :: string
  t_tool :: string
  t_status :: string
  t_approved :: string
  t_observed :: string
  t_class :: string
  t_cleared :: string
  t_first_seen :: int
  t_updated :: int

datatype qerror =
    ErrInvalidStatus | ErrInvalidClass | ErrNotFound | ErrNotApproved | ErrNotSensitive
  | ErrFingerprintMoved | ErrReviewSetMoved | ErrReviewSetEmpty | ErrChangedIsNotRevocable
  | ErrDefinitionNotKept | ErrDefinitionMismatch | ErrSQL

definition approved_as_advertised :: "tool \<Rightarrow> bool" where
  "approved_as_advertised t =
     (t_status t = status_approved \<and> t_approved t \<noteq> [] \<and> t_observed t = t_approved t)"

definition usable :: "tool \<Rightarrow> bool" where
  "usable t =
     (if \<not> approved_as_advertised t then False
      else if t_class t \<noteq> class_safe then t_cleared t \<noteq> [] \<and> t_cleared t = t_approved t
      else True)"

definition new_tool :: "string \<Rightarrow> string \<Rightarrow> string \<Rightarrow> string \<Rightarrow> int \<Rightarrow> tool" where
  "new_tool server name observed class now =
     \<lparr>t_server = server, t_tool = name, t_status = status_pending, t_approved = [],
      t_observed = observed, t_class = class, t_cleared = [], t_first_seen = now, t_updated = now\<rparr>"

definition observed :: "tool \<Rightarrow> string \<Rightarrow> string \<Rightarrow> int \<Rightarrow> qerror + tool" where
  "observed t h class now =
     (if \<not> status_valid (t_status t) then Inl ErrInvalidStatus
      else if \<not> class_valid class then Inl ErrInvalidClass
      else
        let next = t\<lparr>t_observed := h, t_class := class, t_updated := now\<rparr>
        in Inr (if t_status t = status_approved \<and> h \<noteq> t_approved t
                then next\<lparr>t_status := status_changed\<rparr> else next))"

datatype event = EventNone | EventFirstSeen | EventChanged

definition event_of :: "tool \<Rightarrow> tool \<Rightarrow> event" where
  "event_of before after =
     (if t_status before = status_approved \<and> t_status after = status_changed
      then EventChanged else EventNone)"

record observation =
  o_tool :: tool
  o_event :: event

definition approved :: "tool \<Rightarrow> int \<Rightarrow> tool" where
  "approved t now =
     (let next = t\<lparr>t_status := status_approved, t_approved := t_observed t\<rparr>;
          next = (if t_approved next \<noteq> t_approved t then next\<lparr>t_cleared := []\<rparr> else next)
      in next\<lparr>t_updated := now\<rparr>)"

definition cleared :: "tool \<Rightarrow> int \<Rightarrow> qerror + tool" where
  "cleared t now =
     (if \<not> class_valid (t_class t) then Inl ErrInvalidClass
      else if t_class t = class_safe then Inl ErrNotSensitive
      else if t_status t \<noteq> status_approved \<or> t_approved t = [] then Inl ErrNotApproved
      else Inr (t\<lparr>t_cleared := t_approved t, t_updated := now\<rparr>))"

definition approved_fingerprint :: "tool \<Rightarrow> string \<Rightarrow> int \<Rightarrow> qerror + tool" where
  "approved_fingerprint t reviewed now =
     (if t_observed t \<noteq> reviewed then Inl ErrFingerprintMoved else Inr (approved t now))"

definition revoked :: "tool \<Rightarrow> int \<Rightarrow> qerror + tool" where
  "revoked t now =
     (if \<not> status_valid (t_status t) then Inl ErrInvalidStatus
      else if t_status t = status_changed then Inl ErrChangedIsNotRevocable
      else Inr (t\<lparr>t_status := status_pending, t_approved := [], t_cleared := [],
                   t_updated := now\<rparr>))"

section \<open>Review sets\<close>

definition needs_review :: "tool \<Rightarrow> bool" where
  "needs_review t = (t_status t \<noteq> status_approved)"

definition manifest_domain_tag :: string where
  "manifest_domain_tag = ''mcp-gateway/quarantine/review-set/v1''"

definition review_set :: "tool list \<Rightarrow> tool list" where
  "review_set tools = sort_key t_tool (filter needs_review tools)"

definition manifest_entry :: "tool \<Rightarrow> string list" where
  "manifest_entry t = [t_tool t, t_status t, t_observed t, t_approved t]"

definition write_entry :: "string \<Rightarrow> tool \<Rightarrow> string" where
  "write_entry h t = foldl write_field h (manifest_entry t)"

definition manifest_bytes :: "string \<Rightarrow> tool list \<Rightarrow> string" where
  "manifest_bytes server ts =
     foldl write_entry
       (write_field (write_field (write_field [] manifest_domain_tag) server)
         (be64 (length (sort_key t_tool ts))))
       (sort_key t_tool ts)"

definition manifest :: "digest \<Rightarrow> string \<Rightarrow> tool list \<Rightarrow> string" where
  "manifest H server ts = hex_encode (H (manifest_bytes server ts))"

record approval =
  ap_before :: tool
  ap_after :: tool

fun approve_each :: "tool list \<Rightarrow> int \<Rightarrow> qerror + approval list" where
  "approve_each [] now = Inr []"
| "approve_each (t # ts) now =
     (case approved_fingerprint t (t_observed t) now of
        Inl e \<Rightarrow> Inl e
      | Inr after \<Rightarrow>
          (case approve_each ts now of
             Inl e \<Rightarrow> Inl e
           | Inr out \<Rightarrow> Inr (\<lparr>ap_before = t, ap_after = after\<rparr> # out)))"

definition approved_set ::
  "digest \<Rightarrow> string \<Rightarrow> tool list \<Rightarrow> string \<Rightarrow> int \<Rightarrow> qerror + approval list" where
  "approved_set H server tools mf now =
     (if list_ex (\<lambda>t. \<not> status_valid (t_status t)) tools then Inl ErrInvalidStatus
      else
        let rset = review_set (filter (\<lambda>t. t_server t = server) tools)
        in if rset = [] then Inl ErrReviewSetEmpty
           else if manifest H server rset \<noteq> mf then Inl ErrReviewSetMoved
           else approve_each rset now)"

section \<open>Facts\<close>

lemmas status_defs = status_pending_def status_approved_def status_changed_def
lemmas class_defs = class_safe_def class_sensitive_def

lemma status_distinct [simp]:
  "status_pending \<noteq> status_approved" "status_approved \<noteq> status_pending"
  "status_pending \<noteq> status_changed" "status_changed \<noteq> status_pending"
  "status_approved \<noteq> status_changed" "status_changed \<noteq> status_approved"
  by (simp_all add: status_defs)

lemma class_distinct [simp]: "class_safe \<noteq> class_sensitive" "class_sensitive \<noteq> class_safe"
  by (simp_all add: class_defs)

lemma status_valid_simps [simp]:
  "status_valid status_pending" "status_valid status_approved" "status_valid status_changed"
  by (simp_all add: status_valid_def)

lemma tool_hash_nonempty: "digest32 H \<Longrightarrow> tool_hash H t \<noteq> []"
  by (metis digest32_def hex_encode_Nil_iff list.size(3) tool_hash_def zero_neq_numeral)

lemma approve_each_eq:
  "approve_each ts now = Inr (map (\<lambda>t. \<lparr>ap_before = t, ap_after = approved t now\<rparr>) ts)"
  by (induction ts) (simp_all add: approved_fingerprint_def)

lemma approved_simps [simp]:
  "t_server (approved t now) = t_server t" "t_tool (approved t now) = t_tool t"
  "t_status (approved t now) = status_approved" "t_approved (approved t now) = t_observed t"
  "t_observed (approved t now) = t_observed t" "t_class (approved t now) = t_class t"
  "t_first_seen (approved t now) = t_first_seen t" "t_updated (approved t now) = now"
  by (simp_all add: approved_def Let_def)

lemma approved_set_Inr:
  "approved_set H server tools mf now = Inr aps \<longleftrightarrow>
     (\<forall>t\<in>set tools. status_valid (t_status t))
     \<and> (let s = review_set (filter (\<lambda>t. t_server t = server) tools) in
          s \<noteq> [] \<and> manifest H server s = mf
          \<and> aps = map (\<lambda>t. \<lparr>ap_before = t, ap_after = approved t now\<rparr>) s)"
  by (auto simp: approved_set_def Let_def approve_each_eq)

subsection \<open>The bytes under a fingerprint and a manifest\<close>

definition identity_fits :: "tool_identity \<Rightarrow> bool" where
  "identity_fits t =
     (fits64 (ti_name t) \<and> fits64 (ti_description t) \<and> fits64 (ti_input_schema t)
      \<and> fits64 (ti_output_schema t))"

lemma identity_bytes_eq:
  "identity_bytes t =
     (if ti_output_schema t = []
      then field hash_domain_tag @ field (ti_name t) @ field (ti_description t) @ field (ti_input_schema t)
      else field hash_domain_tag_output @ field (ti_name t) @ field (ti_description t)
        @ field (ti_input_schema t) @ field (ti_output_schema t))"
  by (simp add: identity_bytes_def write_field_eq Let_def)

lemma hash_tags [simp]:
  "fits64 hash_domain_tag" "fits64 hash_domain_tag_output"
  "hash_domain_tag \<noteq> hash_domain_tag_output" "hash_domain_tag_output \<noteq> hash_domain_tag"
  by (simp_all add: fits64_def hash_domain_tag_def hash_domain_tag_output_def)

lemma identity_bytes_inject:
  assumes "identity_fits a" "identity_fits b"
  shows "identity_bytes a = identity_bytes b \<longleftrightarrow> a = b"
proof
  assume "identity_bytes a = identity_bytes b"
  then have "ti_name a = ti_name b \<and> ti_description a = ti_description b
      \<and> ti_input_schema a = ti_input_schema b \<and> ti_output_schema a = ti_output_schema b"
    using assms unfolding identity_fits_def identity_bytes_eq
    by (auto simp: field_cancel split: if_splits)
  then show "a = b" by (simp add: tool_identity.equality)
qed simp

lemma foldl_write_field: "foldl write_field h vs = h @ concat (map field vs)"
  by (induction vs arbitrary: h) (simp_all add: write_field_eq)

lemma foldl_entries:
  "foldl write_entry h ts = h @ concat (map field (concat (map manifest_entry ts)))"
  by (induction ts arbitrary: h) (simp_all add: foldl_write_field write_entry_def)

lemma manifest_bytes_eq:
  "manifest_bytes server ts =
     field manifest_domain_tag @ field server @ field (be64 (length ts))
     @ concat (map field (concat (map manifest_entry (sort_key t_tool ts))))"
  by (simp add: manifest_bytes_def Let_def foldl_entries write_field_eq)

lemma length_entries: "length (concat (map manifest_entry ts)) = 4 * length ts"
  by (induction ts) (simp_all add: manifest_entry_def)

lemma concat_entries_inject:
  "concat (map manifest_entry ts) = concat (map manifest_entry us) \<longleftrightarrow>
     map manifest_entry ts = map manifest_entry us"
proof (induction ts arbitrary: us)
  case Nil
  then show ?case by (cases us) (auto simp: manifest_entry_def)
next
  case (Cons t ts)
  then show ?case by (cases us) (auto simp: manifest_entry_def)
qed

definition set_fits :: "tool list \<Rightarrow> bool" where
  "set_fits ts = (fits64 ts \<and> list_all (\<lambda>t. list_all fits64 (manifest_entry t)) ts)"

lemma manifest_bytes_inject:
  assumes fits: "fits64 s1" "fits64 s2" "set_fits ts" "set_fits us"
    and eq: "manifest_bytes s1 ts = manifest_bytes s2 us"
  shows "s1 = s2 \<and> map manifest_entry (sort_key t_tool ts) = map manifest_entry (sort_key t_tool us)"
proof -
  let ?f = "\<lambda>ts. concat (map manifest_entry (sort_key t_tool ts))"
  have short: "fits64 manifest_domain_tag" "fits64 (be64 n)" for n
    by (simp_all add: manifest_domain_tag_def)
  from eq have "s1 = s2" and n: "be64 (length ts) = be64 (length us)"
    and tail: "concat (map field (?f ts)) @ [] = concat (map field (?f us)) @ []"
    using fits(1,2) short by (auto simp: manifest_bytes_eq field_cancel)
  from n fits have "length ts = length us"
    by (intro be64_inject) (simp_all add: set_fits_def fits64_def)
  then have "length (?f ts) = length (?f us)" by (simp add: length_entries)
  moreover have "list_all fits64 (?f ts)" "list_all fits64 (?f us)"
    using fits(3,4) by (auto simp: set_fits_def)
  ultimately have "?f ts = ?f us"
    using field.concat_cancel tail by blast
  with \<open>s1 = s2\<close> show ?thesis by (simp add: concat_entries_inject)
qed

end
