(* ===== verification/Quarantine_Store.thy ===== *)
theory Quarantine_Store
  imports Quarantine
begin

text \<open>
  Model of \<open>internal/quarantine/sqlite/sqlite.go\<close>: the two tables, the row helpers and the
  operations of \<open>quarantine.Store\<close>, each one transaction. \<open>fault\<close> says which statements the
  database refuses; an operation that fails at any point leaves the tables as they were.

  A row's timestamps are kept as instants (the source writes and re-reads them in one fixed
  layout). The two triggers never fire: no statement here updates \<open>tool_definitions\<close> and each
  deletion carries the trigger's own condition.
\<close>

section \<open>Tables and statements\<close>

record qstore =
  qs_tools :: "tool list"
  qs_defs :: "(string \<times> tool_identity \<times> int) list"

datatype qstmt =
    SBegin | SCommit | SGet string string | SList string | SInsert string string
  | SUpdate string string | SKeep string | SPrune string | SDelete string | SOrphans

type_synonym 'a qtx = "(qstore, qerror, 'a) tx"
type_synonym qfault = "qstmt \<Rightarrow> bool"

definition tool_key :: "tool \<Rightarrow> string \<times> string" where
  "tool_key t = (t_server t, t_tool t)"

definition row :: "qstore \<Rightarrow> string \<Rightarrow> string \<Rightarrow> tool option" where
  "row st server name = find (\<lambda>t. tool_key t = (server, name)) (qs_tools st)"

definition referenced :: "qstore \<Rightarrow> string \<Rightarrow> bool" where
  "referenced st h = list_ex (\<lambda>t. t_approved t = h \<or> t_observed t = h) (qs_tools st)"

fun prune_definitions :: "qfault \<Rightarrow> string list \<Rightarrow> unit qtx" where
  "prune_definitions fault [] = tx_return ()"
| "prune_definitions fault (h # hs) =
     (if h = [] then prune_definitions fault hs
      else tx_bind
        (tx_stmt (fault (SPrune h)) ErrSQL
          (\<lambda>st. Inr ((), st\<lparr>qs_defs := filter (\<lambda>(h', _). \<not> (h' = h \<and> \<not> referenced st h')) (qs_defs st)\<rparr>)))
        (\<lambda>_. prune_definitions fault hs))"

definition keep_definition :: "qfault \<Rightarrow> string \<Rightarrow> tool_identity \<Rightarrow> int \<Rightarrow> unit qtx" where
  "keep_definition fault h t now =
     tx_stmt (fault (SKeep h)) ErrSQL
       (\<lambda>st. Inr ((), if h \<in> fst ` set (qs_defs st) then st
                      else st\<lparr>qs_defs := qs_defs st @ [(h, t, now)]\<rparr>))"

definition scan_tool :: "tool \<Rightarrow> qerror + tool" where
  "scan_tool t =
     (if \<not> status_valid (t_status t) then Inl ErrInvalidStatus
      else if \<not> class_valid (t_class t) then Inl ErrInvalidClass
      else Inr t)"

fun scan_tools :: "tool list \<Rightarrow> qerror + tool list" where
  "scan_tools [] = Inr []"
| "scan_tools (t # ts) =
     (case scan_tool t of
        Inl e \<Rightarrow> Inl e
      | Inr t' \<Rightarrow> (case scan_tools ts of Inl e \<Rightarrow> Inl e | Inr ts' \<Rightarrow> Inr (t' # ts')))"

definition get_row :: "qfault \<Rightarrow> string \<Rightarrow> string \<Rightarrow> tool qtx" where
  "get_row fault server name =
     tx_stmt (fault (SGet server name)) ErrSQL
       (\<lambda>st. case row st server name of
               None \<Rightarrow> Inl ErrNotFound
             | Some t \<Rightarrow> (case scan_tool t of Inl e \<Rightarrow> Inl e | Inr t' \<Rightarrow> Inr (t', st)))"

definition list_rows :: "qfault \<Rightarrow> string \<Rightarrow> tool list qtx" where
  "list_rows fault server =
     tx_stmt (fault (SList server)) ErrSQL
       (\<lambda>st. case scan_tools (sort_key tool_key
               (filter (\<lambda>t. server = [] \<or> t_server t = server) (qs_tools st))) of
               Inl e \<Rightarrow> Inl e
             | Inr ts \<Rightarrow> Inr (ts, st))"

text \<open>The primary key is \<open>(server_name, tool_name)\<close>.\<close>

definition insert_row :: "qfault \<Rightarrow> tool \<Rightarrow> unit qtx" where
  "insert_row fault t =
     tx_stmt (fault (SInsert (t_server t) (t_tool t))) ErrSQL
       (\<lambda>st. if tool_key t \<in> tool_key ` set (qs_tools st) then Inl ErrSQL
             else Inr ((), st\<lparr>qs_tools := qs_tools st @ [t]\<rparr>))"

definition write_cols :: "tool \<Rightarrow> tool \<Rightarrow> tool" where
  "write_cols t r =
     (if tool_key r = tool_key t
      then r\<lparr>t_status := t_status t, t_approved := t_approved t, t_observed := t_observed t,
             t_class := t_class t, t_cleared := t_cleared t, t_updated := t_updated t\<rparr>
      else r)"

definition update_row :: "qfault \<Rightarrow> tool \<Rightarrow> unit qtx" where
  "update_row fault t =
     tx_stmt (fault (SUpdate (t_server t) (t_tool t))) ErrSQL
       (\<lambda>st. if tool_key t \<notin> tool_key ` set (qs_tools st) then Inl ErrNotFound
             else Inr ((), st\<lparr>qs_tools := map (write_cols t) (qs_tools st)\<rparr>))"

section \<open>Operations\<close>

definition observe_known :: "qfault \<Rightarrow> tool \<Rightarrow> string \<Rightarrow> string \<Rightarrow> int \<Rightarrow> observation qtx" where
  "observe_known fault prev h class now =
     tx_bind (tx_lift (observed prev h class now)) (\<lambda>next.
     tx_bind (update_row fault next) (\<lambda>_.
     tx_bind (prune_definitions fault [t_observed prev, t_approved prev]) (\<lambda>_.
     tx_return \<lparr>o_tool = next, o_event = event_of prev next\<rparr>)))"

definition observe_first ::
  "qfault \<Rightarrow> string \<Rightarrow> string \<Rightarrow> string \<Rightarrow> string \<Rightarrow> int \<Rightarrow> observation qtx" where
  "observe_first fault server name h class now =
     tx_bind (insert_row fault (new_tool server name h class now)) (\<lambda>_.
     tx_return \<lparr>o_tool = new_tool server name h class now, o_event = EventFirstSeen\<rparr>)"

definition observe_body ::
  "qfault \<Rightarrow> string \<Rightarrow> tool_identity \<Rightarrow> string \<Rightarrow> string \<Rightarrow> int \<Rightarrow> observation qtx" where
  "observe_body fault server t h class now =
     tx_bind (keep_definition fault h t now) (\<lambda>_ st.
       case get_row fault server (ti_name t) st of
         Inr (prev, st') \<Rightarrow> observe_known fault prev h class now st'
       | Inl ErrNotFound \<Rightarrow> observe_first fault server (ti_name t) h class now st
       | Inl e \<Rightarrow> Inl e)"

definition observe ::
  "digest \<Rightarrow> qfault \<Rightarrow> int \<Rightarrow> string \<Rightarrow> tool_identity \<Rightarrow> string \<Rightarrow> qstore
     \<Rightarrow> (qerror + observation) \<times> qstore" where
  "observe H fault now server t class st =
     (if \<not> class_valid class then (Inl ErrInvalidClass, st)
      else transact (fault SBegin) (fault SCommit) ErrSQL
        (observe_body fault server t (tool_hash H t) class now) st)"

definition definition_of :: "digest \<Rightarrow> string \<Rightarrow> qstore \<Rightarrow> qerror + tool_identity" where
  "definition_of H h st =
     (case find (\<lambda>r. fst r = h) (qs_defs st) of
        None \<Rightarrow> Inl ErrDefinitionNotKept
      | Some (_, t, _) \<Rightarrow> if tool_hash H t \<noteq> h then Inl ErrDefinitionMismatch else Inr t)"

definition approve_body ::
  "qfault \<Rightarrow> string \<Rightarrow> string \<Rightarrow> (tool \<Rightarrow> qerror + tool) \<Rightarrow> tool qtx" where
  "approve_body fault server name transition =
     tx_bind (get_row fault server name) (\<lambda>prev.
     tx_bind (tx_lift (transition prev)) (\<lambda>next.
     tx_bind (update_row fault next) (\<lambda>_.
     tx_bind (prune_definitions fault [t_approved prev, t_observed prev]) (\<lambda>_.
     tx_return next))))"

definition approve_with ::
  "qfault \<Rightarrow> string \<Rightarrow> string \<Rightarrow> (tool \<Rightarrow> qerror + tool) \<Rightarrow> qstore \<Rightarrow> (qerror + tool) \<times> qstore" where
  "approve_with fault server name transition =
     transact (fault SBegin) (fault SCommit) ErrSQL (approve_body fault server name transition)"

definition approve ::
  "qfault \<Rightarrow> int \<Rightarrow> string \<Rightarrow> string \<Rightarrow> qstore \<Rightarrow> (qerror + tool) \<times> qstore" where
  "approve fault now server name = approve_with fault server name (\<lambda>prev. Inr (approved prev now))"

definition approve_fingerprint ::
  "qfault \<Rightarrow> int \<Rightarrow> string \<Rightarrow> string \<Rightarrow> string \<Rightarrow> qstore \<Rightarrow> (qerror + tool) \<times> qstore" where
  "approve_fingerprint fault now server name reviewed =
     approve_with fault server name (\<lambda>prev. approved_fingerprint prev reviewed now)"

fun write_approvals :: "qfault \<Rightarrow> approval list \<Rightarrow> unit qtx" where
  "write_approvals fault [] = tx_return ()"
| "write_approvals fault (a # as) =
     tx_bind (update_row fault (ap_after a)) (\<lambda>_.
     tx_bind (prune_definitions fault [t_approved (ap_before a), t_observed (ap_before a)]) (\<lambda>_.
     write_approvals fault as))"

definition approve_review_set ::
  "digest \<Rightarrow> qfault \<Rightarrow> int \<Rightarrow> string \<Rightarrow> string \<Rightarrow> qstore \<Rightarrow> (qerror + approval list) \<times> qstore" where
  "approve_review_set H fault now server mf =
     transact (fault SBegin) (fault SCommit) ErrSQL
       (tx_bind (list_rows fault server) (\<lambda>tools.
        tx_bind (tx_lift (approved_set H server tools mf now)) (\<lambda>approvals.
        tx_bind (write_approvals fault approvals) (\<lambda>_.
        tx_return approvals))))"

definition clear ::
  "qfault \<Rightarrow> int \<Rightarrow> string \<Rightarrow> string \<Rightarrow> qstore \<Rightarrow> (qerror + tool) \<times> qstore" where
  "clear fault now server name =
     transact (fault SBegin) (fault SCommit) ErrSQL
       (tx_bind (get_row fault server name) (\<lambda>prev.
        tx_bind (tx_lift (cleared prev now)) (\<lambda>next.
        tx_bind (update_row fault next) (\<lambda>_.
        tx_return next))))"

definition revoke ::
  "qfault \<Rightarrow> int \<Rightarrow> string \<Rightarrow> string \<Rightarrow> qstore \<Rightarrow> (qerror + tool) \<times> qstore" where
  "revoke fault now server name =
     transact (fault SBegin) (fault SCommit) ErrSQL
       (tx_bind (get_row fault server name) (\<lambda>prev.
        tx_bind (tx_lift (revoked prev now)) (\<lambda>next.
        tx_bind (update_row fault next) (\<lambda>_.
        tx_bind (prune_definitions fault [t_approved prev, t_observed prev]) (\<lambda>_.
        tx_return next)))))"

definition forget_body :: "qfault \<Rightarrow> string \<Rightarrow> nat qtx" where
  "forget_body fault server =
     tx_bind (tx_stmt (fault (SDelete server)) ErrSQL
       (\<lambda>st. Inr (length (filter (\<lambda>t. t_server t = server) (qs_tools st)),
               st\<lparr>qs_tools := filter (\<lambda>t. t_server t \<noteq> server) (qs_tools st)\<rparr>))) (\<lambda>n.
     tx_bind (tx_stmt (fault SOrphans) ErrSQL
       (\<lambda>st. Inr ((), st\<lparr>qs_defs := filter (\<lambda>(h, _). referenced st h) (qs_defs st)\<rparr>))) (\<lambda>_.
     tx_return n))"

definition forget :: "qfault \<Rightarrow> string \<Rightarrow> qstore \<Rightarrow> (qerror + nat) \<times> qstore" where
  "forget fault server =
     transact (fault SBegin) (fault SCommit) ErrSQL (forget_body fault server)"

definition get_tool :: "qfault \<Rightarrow> string \<Rightarrow> string \<Rightarrow> qstore \<Rightarrow> qerror + tool" where
  "get_tool fault server name st =
     (case get_row fault server name st of Inl e \<Rightarrow> Inl e | Inr (t, _) \<Rightarrow> Inr t)"

definition list_tools :: "qfault \<Rightarrow> string \<Rightarrow> qstore \<Rightarrow> qerror + tool list" where
  "list_tools fault server st =
     (case list_rows fault server st of Inl e \<Rightarrow> Inl e | Inr (ts, _) \<Rightarrow> Inr ts)"

section \<open>The invariant\<close>

definition tool_ok :: "tool \<Rightarrow> bool" where
  "tool_ok t =
     (status_valid (t_status t) \<and> class_valid (t_class t)
      \<and> (t_status t = status_pending \<longleftrightarrow> t_approved t = [])
      \<and> (t_status t = status_approved \<longrightarrow> t_observed t = t_approved t)
      \<and> (t_cleared t = [] \<or> t_cleared t = t_approved t)
      \<and> t_observed t \<noteq> [])"

definition keys_ok :: "qstore \<Rightarrow> bool" where
  "keys_ok st = distinct (map tool_key (qs_tools st))"

definition defs_ok :: "digest \<Rightarrow> qstore \<Rightarrow> bool" where
  "defs_ok H st = (distinct (map fst (qs_defs st))
     \<and> list_all (\<lambda>(h, t, _). h = tool_hash H t) (qs_defs st))"

definition kept :: "qstore \<Rightarrow> bool" where
  "kept st = list_all (\<lambda>t. t_observed t \<in> fst ` set (qs_defs st)
     \<and> (t_approved t \<noteq> [] \<longrightarrow> t_approved t \<in> fst ` set (qs_defs st))) (qs_tools st)"

definition tight :: "string set \<Rightarrow> qstore \<Rightarrow> bool" where
  "tight extra st = (\<forall>h\<in>fst ` set (qs_defs st). referenced st h \<or> h \<in> extra)"

definition qs_inv :: "digest \<Rightarrow> qstore \<Rightarrow> bool" where
  "qs_inv H st =
     (keys_ok st \<and> list_all tool_ok (qs_tools st) \<and> defs_ok H st \<and> kept st \<and> tight {} st)"

definition empty_qstore :: qstore where
  "empty_qstore = \<lparr>qs_tools = [], qs_defs = []\<rparr>"

section \<open>Transitions keep a tool well formed\<close>

lemma new_tool_ok: "class_valid class \<Longrightarrow> h \<noteq> [] \<Longrightarrow> tool_ok (new_tool server name h class now)"
  by (simp add: tool_ok_def new_tool_def)

lemma observed_Inr:
  assumes "observed t h class now = Inr next"
  shows "tool_key next = tool_key t" "t_first_seen next = t_first_seen t"
    "t_approved next = t_approved t" "t_cleared next = t_cleared t" "t_observed next = h"
    "t_class next = class" "class_valid class"
    "t_status next = (if t_status t = status_approved \<and> h \<noteq> t_approved t then status_changed
       else t_status t)"
  using assms by (auto simp: observed_def Let_def tool_key_def split: if_splits)

lemma observed_ok:
  assumes "observed t h class now = Inr next" "tool_ok t" "h \<noteq> []"
  shows "tool_ok next"
  using assms(2,3) observed_Inr [OF assms(1)] by (auto simp: tool_ok_def)

lemma approved_ok: "tool_ok t \<Longrightarrow> tool_ok (approved t now)"
  by (auto simp: tool_ok_def approved_def Let_def)

lemma approved_key [simp]: "tool_key (approved t now) = tool_key t"
  by (simp add: tool_key_def)

lemma cleared_Inr:
  "cleared t now = Inr next \<longleftrightarrow>
     class_valid (t_class t) \<and> t_class t \<noteq> class_safe \<and> t_status t = status_approved
     \<and> t_approved t \<noteq> [] \<and> next = t\<lparr>t_cleared := t_approved t, t_updated := now\<rparr>"
  by (auto simp: cleared_def)

lemma revoked_Inr:
  "revoked t now = Inr next \<longleftrightarrow>
     status_valid (t_status t) \<and> t_status t \<noteq> status_changed
     \<and> next = t\<lparr>t_status := status_pending, t_approved := [], t_cleared := [], t_updated := now\<rparr>"
  by (auto simp: revoked_def)

section \<open>What the statements do to the tables\<close>

definition replace_row :: "tool \<Rightarrow> qstore \<Rightarrow> qstore" where
  "replace_row t st =
     st\<lparr>qs_tools := map (\<lambda>r. if tool_key r = tool_key t then t else r) (qs_tools st)\<rparr>"

definition pruned :: "string list \<Rightarrow> qstore \<Rightarrow> qstore" where
  "pruned hs st =
     st\<lparr>qs_defs := filter (\<lambda>(h, _). referenced st h \<or> h = [] \<or> h \<notin> set hs) (qs_defs st)\<rparr>"

lemma referenced_defs [simp]: "referenced (st\<lparr>qs_defs := d\<rparr>) h = referenced st h"
  by (simp add: referenced_def)

lemma row_defs [simp]: "row (st\<lparr>qs_defs := d\<rparr>) s n = row st s n"
  by (simp add: row_def)

lemma row_pruned [simp]: "row (pruned hs st) s n = row st s n"
  by (simp add: pruned_def)

lemma pruned_Nil [simp]: "pruned [] st = st"
  by (simp add: pruned_def)

lemma pruned_Cons:
  "pruned hs (st\<lparr>qs_defs := filter (\<lambda>(h', _). \<not> (h' = h \<and> \<not> referenced st h')) (qs_defs st)\<rparr>)
     = pruned (h # hs) st" if "h \<noteq> []"
  using that by (auto simp: pruned_def intro!: qstore.equality filter_cong)

lemma prune_definitions_Inr:
  "prune_definitions fault hs st = Inr ((), st') \<Longrightarrow> st' = pruned hs st"
proof (induction hs arbitrary: st)
  case Nil
  then show ?case by (simp add: tx_Inr)
next
  case (Cons h hs)
  show ?case
  proof (cases "h = []")
    case True
    with Cons have "st' = pruned hs st" by simp
    with True show ?thesis by (auto simp: pruned_def intro!: qstore.equality filter_cong)
  next
    case False
    with Cons.prems have "prune_definitions fault hs
        (st\<lparr>qs_defs := filter (\<lambda>(h', _). \<not> (h' = h \<and> \<not> referenced st h')) (qs_defs st)\<rparr>)
        = Inr ((), st')"
      by (auto simp: tx_Inr)
    from Cons.IH [OF this] show ?thesis by (simp only: pruned_Cons [OF False])
  qed
qed

declare prune_definitions.simps [simp del]

lemma row_Some: "row st s n = Some t \<Longrightarrow> t \<in> set (qs_tools st) \<and> tool_key t = (s, n)"
  by (auto simp: row_def dest: find_SomeD)

lemma row_unique:
  assumes "keys_ok st" "r \<in> set (qs_tools st)" "tool_key r = (s, n)"
  shows "row st s n = Some r"
  using find_map_of_key [of tool_key "qs_tools st" r] assms by (simp add: row_def keys_ok_def)

lemma row_None: "row st s n = None \<longleftrightarrow> (s, n) \<notin> tool_key ` set (qs_tools st)"
  by (auto simp: row_def find_None_iff image_iff)

lemma get_row_Inr:
  "get_row fault s n st = Inr (t, st') \<longleftrightarrow>
     \<not> fault (SGet s n) \<and> st' = st \<and> row st s n = Some t
     \<and> status_valid (t_status t) \<and> class_valid (t_class t)"
  by (auto simp: get_row_def tx_stmt_def scan_tool_def split: option.splits sum.splits if_splits)

lemma write_cols_self:
  assumes "keys_ok st" "row st s n = Some prev" "tool_key next = tool_key prev"
    "t_first_seen next = t_first_seen prev"
  shows "map (write_cols next) (qs_tools st) = qs_tools (replace_row next st)"
proof -
  have "write_cols next r = (if tool_key r = tool_key next then next else r)"
    if "r \<in> set (qs_tools st)" for r
  proof (cases "tool_key r = tool_key next")
    case True
    with assms have "tool_key r = (s, n)" using row_Some by metis
    with row_unique [OF assms(1) that] assms(2) have "r = prev" by simp
    with assms show ?thesis by (auto simp: write_cols_def tool_key_def intro!: tool.equality)
  qed (simp add: write_cols_def)
  then show ?thesis by (simp add: replace_row_def)
qed

lemma update_row_Inr:
  assumes "keys_ok st" "row st s n = Some prev" "tool_key next = tool_key prev"
    "t_first_seen next = t_first_seen prev" "update_row fault next st = Inr ((), st')"
  shows "st' = replace_row next st"
  using assms(5) write_cols_self [OF assms(1-4)]
  by (auto simp: update_row_def tx_Inr replace_row_def split: if_splits intro!: qstore.equality)

lemma map_key_replace [simp]:
  "map tool_key (qs_tools (replace_row t st)) = map tool_key (qs_tools st)"
  by (simp add: replace_row_def comp_def cong: map_cong)

lemma row_replace:
  "row (replace_row t st) s n =
     (if tool_key t = (s, n) then (if row st s n = None then None else Some t) else row st s n)"
proof -
  have "find (\<lambda>r. tool_key r = (s, n)) (map (\<lambda>r. if tool_key r = tool_key t then t else r) ts) =
      (if tool_key t = (s, n)
       then (if find (\<lambda>r. tool_key r = (s, n)) ts = None then None else Some t)
       else find (\<lambda>r. tool_key r = (s, n)) ts)" for ts
    by (induction ts) auto
  then show ?thesis by (simp add: row_def replace_row_def)
qed

section \<open>Every operation keeps the invariant\<close>

lemma kept_pruned:
  assumes "kept st"
  shows "kept (pruned hs st)"
proof -
  have "h \<in> fst ` set (qs_defs (pruned hs st))"
    if "h \<in> fst ` set (qs_defs st)" "referenced st h" for h
    using that by (force simp: pruned_def)
  with assms show ?thesis
    by (auto simp: kept_def pruned_def referenced_def)
qed

lemma tight_pruned:
  assumes "tight (set hs) st" "\<forall>h\<in>fst ` set (qs_defs st). h \<noteq> []"
  shows "tight {} (pruned hs st)"
  using assms by (fastforce simp: tight_def pruned_def)

lemma defs_ok_pruned: "defs_ok H st \<Longrightarrow> defs_ok H (pruned hs st)"
  by (auto simp: defs_ok_def pruned_def distinct_map_filter)

lemma defs_nonempty: "digest32 H \<Longrightarrow> defs_ok H st \<Longrightarrow> h \<in> fst ` set (qs_defs st) \<Longrightarrow> h \<noteq> []"
  by (auto simp: defs_ok_def tool_hash_nonempty)

lemma replace_inv:
  assumes H: "digest32 H" "keys_ok st" "\<forall>t\<in>set (qs_tools st). tool_ok t" "defs_ok H st" "kept st"
    and tight: "tight extra st" "extra \<subseteq> {t_observed next}"
    and prev: "row st s n = Some prev" "tool_key next = tool_key prev" "tool_ok next"
    and defs: "t_observed next \<in> fst ` set (qs_defs st)"
      "t_approved next \<noteq> [] \<Longrightarrow> t_approved next \<in> fst ` set (qs_defs st)"
    and hs: "{t_observed prev, t_approved prev} \<subseteq> set hs \<union> {t_observed next, t_approved next}"
  shows "qs_inv H (pruned hs (replace_row next st))"
proof -
  let ?st = "replace_row next st"
  have next_in: "next \<in> set (qs_tools ?st)"
    using row_Some [OF prev(1)] prev(2) by (force simp: replace_row_def)
  have in_st: "r \<in> set (qs_tools ?st) \<Longrightarrow> r = next \<or> r \<in> set (qs_tools st)" for r
    by (auto simp: replace_row_def)
  have same: "qs_defs ?st = qs_defs st" by (simp add: replace_row_def)
  have "referenced ?st h \<or> h \<in> set hs" if ref: "referenced st h" for h
  proof -
    from ref obtain r where r: "r \<in> set (qs_tools st)" "t_approved r = h \<or> t_observed r = h"
      by (auto simp: referenced_def)
    show ?thesis
    proof (cases "tool_key r = tool_key next")
      case True
      with r prev(1,2) row_unique [OF H(2) r(1)] have "r = prev"
        using row_Some by fastforce
      with r hs next_in show ?thesis by (auto simp: referenced_def)
    next
      case False
      with r(1) have "r \<in> set (qs_tools ?st)" by (force simp: replace_row_def)
      with r show ?thesis by (auto simp: referenced_def)
    qed
  qed
  moreover have "referenced ?st (t_observed next)" using next_in by (auto simp: referenced_def)
  ultimately have "tight (set hs) ?st"
    using tight same unfolding tight_def by (metis (no_types, lifting) singletonD subsetD)
  moreover have "kept ?st"
    using H(5) defs in_st by (auto simp: kept_def same)
  moreover have "defs_ok H ?st" using H(4) by (simp add: defs_ok_def same)
  moreover have "keys_ok ?st" using H(2) by (simp add: keys_ok_def)
  moreover have "\<forall>t\<in>set (qs_tools ?st). tool_ok t" using H(3) prev(3) in_st by auto
  moreover have "qs_tools (pruned hs ?st) = qs_tools ?st" by (simp add: pruned_def)
  ultimately show ?thesis
    using defs_nonempty [OF H(1)] kept_pruned tight_pruned defs_ok_pruned
    by (simp add: qs_inv_def keys_ok_def)
qed

subsection \<open>Observe\<close>

definition with_definition :: "string \<Rightarrow> tool_identity \<Rightarrow> int \<Rightarrow> qstore \<Rightarrow> qstore" where
  "with_definition h t now st =
     (if h \<in> fst ` set (qs_defs st) then st else st\<lparr>qs_defs := qs_defs st @ [(h, t, now)]\<rparr>)"

lemma with_definition_tools [simp]: "qs_tools (with_definition h t now st) = qs_tools st"
  by (simp add: with_definition_def)

lemma row_with_definition [simp]: "row (with_definition h t now st) s n = row st s n"
  by (simp add: row_def)

lemma with_definition_ok:
  assumes "qs_inv H st"
  shows "keys_ok (with_definition (tool_hash H t) t now st)"
    "\<forall>r\<in>set (qs_tools (with_definition (tool_hash H t) t now st)). tool_ok r"
    "defs_ok H (with_definition (tool_hash H t) t now st)"
    "kept (with_definition (tool_hash H t) t now st)"
    "tight {tool_hash H t} (with_definition (tool_hash H t) t now st)"
    "tool_hash H t \<in> fst ` set (qs_defs (with_definition (tool_hash H t) t now st))"
  using assms
  by (auto simp: qs_inv_def keys_ok_def defs_ok_def kept_def tight_def with_definition_def
      referenced_def image_iff)

lemma observe_Inr:
  assumes inv: "qs_inv H st" and obs: "observe H fault now server t class st = (Inr ob, st')"
  shows "class_valid class \<and>
    (case row st server (ti_name t) of
       None \<Rightarrow> o_tool ob = new_tool server (ti_name t) (tool_hash H t) class now
         \<and> o_event ob = EventFirstSeen
         \<and> st' = (with_definition (tool_hash H t) t now st)\<lparr>qs_tools := qs_tools st @ [o_tool ob]\<rparr>
     | Some prev \<Rightarrow> observed prev (tool_hash H t) class now = Inr (o_tool ob)
         \<and> o_event ob = event_of prev (o_tool ob)
         \<and> st' = pruned [t_observed prev, t_approved prev]
             (replace_row (o_tool ob) (with_definition (tool_hash H t) t now st)))"
proof -
  let ?h = "tool_hash H t" and ?st = "with_definition (tool_hash H t) t now st"
  from obs have cl: "class_valid class"
    and body: "observe_body fault server t ?h class now st = Inr (ob, st')"
    by (auto simp: observe_def transact_Inr split: if_splits)
  have keep: "(if ?h \<in> fst ` set (qs_defs st) then st
      else st\<lparr>qs_defs := qs_defs st @ [(?h, t, now)]\<rparr>) = ?st"
    by (simp add: with_definition_def)
  show ?thesis
  proof (cases "row st server (ti_name t)")
    case None
    then have "get_row fault server (ti_name t) ?st = Inl ErrSQL
        \<or> get_row fault server (ti_name t) ?st = Inl ErrNotFound"
      by (simp add: get_row_def tx_stmt_def)
    with body have "observe_first fault server (ti_name t) ?h class now ?st = Inr (ob, st')"
      by (auto simp: observe_body_def tx_bind_Inr keep_definition_def tx_stmt_Inr keep)
    with None cl show ?thesis
      by (auto simp: observe_first_def insert_row_def tx_Inr split: if_splits)
  next
    case (Some prev)
    have "prev \<in> set (qs_tools st)" using Some row_Some by blast
    with inv have "scan_tool prev = Inr prev"
      by (auto simp: qs_inv_def tool_ok_def scan_tool_def)
    with body Some have "observe_known fault prev ?h class now ?st = Inr (ob, st')"
      by (auto simp: observe_body_def tx_bind_Inr keep_definition_def tx_stmt_Inr keep
          get_row_def tx_stmt_def split: if_splits)
    then have ob: "observed prev ?h class now = Inr (o_tool ob)" "o_event ob = event_of prev (o_tool ob)"
      and upd: "\<exists>st2. update_row fault (o_tool ob) ?st = Inr ((), st2)
        \<and> prune_definitions fault [t_observed prev, t_approved prev] st2 = Inr ((), st')"
      by (auto simp: observe_known_def tx_Inr simp del: prune_definitions.simps)
    from upd obtain st2 where st2: "update_row fault (o_tool ob) ?st = Inr ((), st2)"
      "prune_definitions fault [t_observed prev, t_approved prev] st2 = Inr ((), st')" by blast
    have "st2 = replace_row (o_tool ob) ?st"
      using update_row_Inr [OF with_definition_ok(1) [OF inv] _ _ _ st2(1)] Some
        observed_Inr(1,2) [OF ob(1)] by simp
    with st2(2) cl ob Some show ?thesis by (auto dest: prune_definitions_Inr)
  qed
qed

lemma observe_inv:
  assumes inv: "qs_inv H st" and H: "digest32 H"
  shows "qs_inv H (snd (observe H fault now server t class st))"
proof (cases "observe H fault now server t class st")
  case (Pair res st')
  show ?thesis
  proof (cases res)
    case (Inl e)
    with Pair inv show ?thesis
      by (auto simp: observe_def split: if_splits dest: transact_Inl)
  next
    case (Inr ob)
    let ?h = "tool_hash H t" and ?st = "with_definition (tool_hash H t) t now st"
    note ok = with_definition_ok [OF inv, of t now]
    have h: "?h \<noteq> []" using H by (rule tool_hash_nonempty)
    note o = observe_Inr [OF inv Pair [unfolded Inr]]
    show ?thesis
    proof (cases "row st server (ti_name t)")
      case None
      let ?n = "new_tool server (ti_name t) ?h class now"
      from None o have st': "st' = ?st\<lparr>qs_tools := qs_tools st @ [?n]\<rparr>" and cl: "class_valid class"
        by auto
      have fields: "t_observed ?n = ?h" "t_approved ?n = []" "tool_key ?n = (server, ti_name t)"
        by (simp_all add: new_tool_def tool_key_def)
      have "keys_ok st'" using ok(1) None fields by (simp add: keys_ok_def st' row_None)
      moreover have "\<forall>r\<in>set (qs_tools st'). tool_ok r"
        using ok(2) new_tool_ok [OF cl h] by (auto simp: st')
      moreover have "defs_ok H st'" "kept st'" "tight {} st'"
        using ok(3-6) fields by (auto simp: defs_ok_def kept_def tight_def referenced_def st')
      ultimately show ?thesis using Pair by (simp add: qs_inv_def)
    next
      case (Some prev)
      with o have ob: "observed prev ?h class now = Inr (o_tool ob)"
        and st': "st' = pruned [t_observed prev, t_approved prev] (replace_row (o_tool ob) ?st)"
        by auto
      have prev: "prev \<in> set (qs_tools st)" "tool_ok prev"
        using Some row_Some inv by (auto simp: qs_inv_def)
      note f = observed_Inr [OF ob]
      have "qs_inv H st'"
        unfolding st'
      proof (rule replace_inv [OF H ok(1,2,3,4,5)])
        show "row ?st server (ti_name t) = Some prev" using Some by simp
        show "tool_ok (o_tool ob)" using observed_ok [OF ob prev(2) h] .
        show "t_approved (o_tool ob) \<in> fst ` set (qs_defs ?st)" if "t_approved (o_tool ob) \<noteq> []"
          using ok(4) prev(1) that f(3) by (auto simp: kept_def)
      qed (use ok(6) f in auto)
      with Pair show ?thesis by simp
    qed
  qed
qed

subsection \<open>Approvals, clearance, revocation, deregistration\<close>

definition keeps_identity :: "(tool \<Rightarrow> qerror + tool) \<Rightarrow> bool" where
  "keeps_identity tr = (\<forall>prev next. tr prev = Inr next \<longrightarrow>
     tool_key next = tool_key prev \<and> t_first_seen next = t_first_seen prev
     \<and> t_observed next = t_observed prev
     \<and> (t_approved next = [] \<or> t_approved next = t_approved prev \<or> t_approved next = t_observed prev)
     \<and> (tool_ok prev \<longrightarrow> tool_ok next))"

lemma approve_keeps: "keeps_identity (\<lambda>prev. Inr (approved prev now))"
  by (simp add: keeps_identity_def approved_ok)

lemma approve_fingerprint_keeps: "keeps_identity (\<lambda>prev. approved_fingerprint prev h now)"
  by (simp add: keeps_identity_def approved_fingerprint_def approved_ok)

lemma clear_keeps: "keeps_identity (\<lambda>prev. cleared prev now)"
  by (auto simp: keeps_identity_def cleared_Inr tool_key_def tool_ok_def)

lemma revoke_keeps: "keeps_identity (\<lambda>prev. revoked prev now)"
  by (auto simp: keeps_identity_def revoked_Inr tool_key_def tool_ok_def)

lemmas transitions_keep = approve_keeps approve_fingerprint_keeps clear_keeps revoke_keeps

lemma revoke_eq: "revoke fault now server name = approve_with fault server name (\<lambda>prev. revoked prev now)"
  by (simp add: revoke_def approve_with_def approve_body_def)

lemma approve_with_Inr:
  assumes inv: "qs_inv H st" and tr: "keeps_identity tr"
    and run: "approve_with fault s n tr st = (Inr next, st')"
  shows "\<exists>prev. row st s n = Some prev \<and> tr prev = Inr next
    \<and> st' = pruned [t_approved prev, t_observed prev] (replace_row next st)"
proof -
  from run obtain prev st2 where prev: "row st s n = Some prev" "tr prev = Inr next"
    and st2: "update_row fault next st = Inr ((), st2)"
      "prune_definitions fault [t_approved prev, t_observed prev] st2 = Inr ((), st')"
    by (auto simp: approve_with_def transact_Inr approve_body_def tx_Inr get_row_Inr
        simp del: prune_definitions.simps)
  then have "st2 = replace_row next st"
    using update_row_Inr [OF _ prev(1) _ _ st2(1)] inv tr by (auto simp: qs_inv_def keeps_identity_def)
  with prev st2(2) show ?thesis by (auto dest: prune_definitions_Inr)
qed

lemma clear_Inr:
  assumes inv: "qs_inv H st" and run: "clear fault now s n st = (Inr next, st')"
  shows "\<exists>prev. row st s n = Some prev \<and> cleared prev now = Inr next \<and> st' = replace_row next st"
proof -
  from run obtain prev where prev: "row st s n = Some prev" "cleared prev now = Inr next"
    and st2: "update_row fault next st = Inr ((), st')"
    by (auto simp: clear_def transact_Inr tx_Inr get_row_Inr)
  then have "st' = replace_row next st"
    using update_row_Inr [OF _ prev(1) _ _ st2(1)] inv clear_keeps
    by (auto simp: qs_inv_def keeps_identity_def)
  with prev show ?thesis by auto
qed

lemma transition_inv:
  assumes inv: "qs_inv H st" and H: "digest32 H" and tr: "keeps_identity tr"
    and prev: "row st s n = Some prev" "tr prev = Inr next"
    and hs: "{t_approved prev} \<subseteq> set hs \<union> {t_observed next, t_approved next}"
  shows "qs_inv H (pruned hs (replace_row next st))"
proof -
  have in_st: "prev \<in> set (qs_tools st)" and ok: "tool_ok prev"
    using row_Some [OF prev(1)] inv by (auto simp: qs_inv_def)
  have n: "tool_key next = tool_key prev" "t_observed next = t_observed prev" "tool_ok next"
    "t_approved next = [] \<or> t_approved next = t_approved prev \<or> t_approved next = t_observed prev"
    using tr prev(2) ok by (auto simp: keeps_identity_def)
  have st: "keys_ok st" "\<forall>t\<in>set (qs_tools st). tool_ok t" "defs_ok H st" "kept st" "tight {} st"
    using inv by (simp_all add: qs_inv_def)
  show ?thesis
  proof (rule replace_inv [OF H st _ prev(1) n(1,3)])
    show "t_observed next \<in> fst ` set (qs_defs st)"
      using st(4) in_st n(2) by (auto simp: kept_def)
    show "t_approved next \<in> fst ` set (qs_defs st)" if "t_approved next \<noteq> []"
      using st(4) in_st n(4) that by (auto simp: kept_def)
  qed (use hs n in auto)
qed

lemma approve_with_inv:
  assumes "qs_inv H st" "digest32 H" "keeps_identity tr"
  shows "qs_inv H (snd (approve_with fault s n tr st))"
proof (cases "approve_with fault s n tr st")
  case (Pair res st')
  show ?thesis
  proof (cases res)
    case (Inl e)
    with Pair assms show ?thesis by (auto simp: approve_with_def dest: transact_Inl)
  next
    case (Inr nx)
    from approve_with_Inr [OF assms(1,3) Pair [unfolded Inr]] transition_inv [OF assms] Pair
    show ?thesis by fastforce
  qed
qed

lemma clear_inv:
  assumes "qs_inv H st" "digest32 H"
  shows "qs_inv H (snd (clear fault now s n st))"
proof (cases "clear fault now s n st")
  case (Pair res st')
  show ?thesis
  proof (cases res)
    case (Inl e)
    with Pair assms show ?thesis by (auto simp: clear_def dest: transact_Inl)
  next
    case (Inr nx)
    from clear_Inr [OF assms(1) Pair [unfolded Inr]] obtain prev where
      prev: "row st s n = Some prev" "cleared prev now = Inr nx" "st' = replace_row nx st" by blast
    then have "t_approved nx = t_approved prev" by (auto simp: cleared_Inr)
    with transition_inv [OF assms clear_keeps prev(1,2), of "[]"] Pair prev(3) show ?thesis by simp
  qed
qed

lemma forget_inv:
  assumes "qs_inv H st"
  shows "qs_inv H (snd (forget fault s st))"
proof (cases "forget fault s st")
  case (Pair res st')
  show ?thesis
  proof (cases res)
    case (Inl e)
    with Pair assms show ?thesis by (auto simp: forget_def dest: transact_Inl)
  next
    case (Inr k)
    let ?ts = "filter (\<lambda>t. t_server t \<noteq> s) (qs_tools st)"
    let ?st = "st\<lparr>qs_tools := ?ts\<rparr>"
    from Pair Inr have st': "st' = ?st\<lparr>qs_defs := filter (\<lambda>(h, _). referenced ?st h) (qs_defs st)\<rparr>"
      by (auto simp: forget_def transact_Inr forget_body_def tx_Inr)
    have rest: "keys_ok st'" "defs_ok H st'" "\<forall>t\<in>set (qs_tools st'). tool_ok t" "tight {} st'"
      using assms by (auto simp: qs_inv_def keys_ok_def defs_ok_def st' distinct_map_filter tight_def)
    have "h \<in> fst ` set (qs_defs st')"
      if "h \<in> fst ` set (qs_defs st)" "referenced ?st h" for h
      using that by (force simp: st')
    moreover have "x \<in> set (qs_tools st) \<and> referenced ?st (t_observed x) \<and> referenced ?st (t_approved x)"
      if "x \<in> set (qs_tools st')" for x
      using that by (auto simp: st' referenced_def)
    ultimately have "kept st'" using assms by (simp add: qs_inv_def kept_def)
    with rest show ?thesis using Pair by (simp add: qs_inv_def)
  qed
qed

end
