(* ===== verification/Quarantine_History.thy ===== *)
theory Quarantine_History
  imports Quarantine_Store
begin

text \<open>
  The quarantine as a machine: sequences of store operations (with the faults the database throws at
  them), the trail of what each returned, and what a usable tool implies about that
  trail. The store invariant is interpreted as the \<open>invariant_kept\<close> contract, so every run from
  the empty store satisfies it.
\<close>

section \<open>Bulk approval\<close>

lemma scan_tools_Inr: "scan_tools ts = Inr us \<Longrightarrow> us = ts"
  by (induction ts arbitrary: us) (auto simp: scan_tool_def split: sum.splits if_splits)

lemma list_rows_Inr:
  "list_rows fault server st = Inr (ts, st') \<Longrightarrow> st' = st
     \<and> ts = sort_key tool_key (filter (\<lambda>t. server = [] \<or> t_server t = server) (qs_tools st))"
  by (auto simp: list_rows_def tx_Inr split: sum.splits dest: scan_tools_Inr)

definition approval_at :: "approval list \<Rightarrow> string \<Rightarrow> string \<Rightarrow> approval option" where
  "approval_at aps s n = find (\<lambda>a. tool_key (ap_before a) = (s, n)) aps"

lemma write_approvals_effect:
  assumes "qs_inv H st" "digest32 H" "write_approvals fault aps st = Inr ((), st')"
    and "\<forall>a\<in>set aps. row st (t_server (ap_before a)) (t_tool (ap_before a)) = Some (ap_before a)
           \<and> ap_after a = approved (ap_before a) now"
    and "distinct (map (tool_key \<circ> ap_before) aps)"
  shows "qs_inv H st' \<and> (\<forall>s n. row st' s n =
    (case approval_at aps s n of Some a \<Rightarrow> Some (ap_after a) | None \<Rightarrow> row st s n))"
  using assms
proof (induction aps arbitrary: st)
  case Nil
  then show ?case by (simp add: approval_at_def tx_Inr)
next
  case (Cons a aps)
  let ?b = "ap_before a" and ?n = "ap_after a"
  let ?st = "pruned [t_approved ?b, t_observed ?b] (replace_row ?n st)"
  have b: "row st (t_server ?b) (t_tool ?b) = Some ?b" "?n = approved ?b now" using Cons.prems(4) by auto
  from Cons.prems(3) obtain st1 st2 where u: "update_row fault ?n st = Inr ((), st1)"
    "prune_definitions fault [t_approved ?b, t_observed ?b] st1 = Inr ((), st2)"
    "write_approvals fault aps st2 = Inr ((), st')"
    by (auto simp: tx_Inr)
  have "st1 = replace_row ?n st"
    using update_row_Inr [OF _ b(1) _ _ u(1)] Cons.prems(1) b(2) by (auto simp: qs_inv_def)
  with u(2) have st2: "st2 = ?st" by (auto dest: prune_definitions_Inr)
  have inv: "qs_inv H st2"
    unfolding st2 using b(2)
    by (intro transition_inv [OF Cons.prems(1,2) approve_keeps [of now] b(1)]) auto
  have key: "tool_key ?n = (t_server ?b, t_tool ?b)" using b(2) by (simp add: tool_key_def)
  have row2: "row st2 s n = (if (s, n) = tool_key ?b then Some ?n else row st s n)" for s n
    using b by (auto simp: st2 row_replace tool_key_def)
  have "\<forall>c\<in>set aps. row st2 (t_server (ap_before c)) (t_tool (ap_before c)) = Some (ap_before c)
      \<and> ap_after c = approved (ap_before c) now"
  proof
    fix c assume c: "c \<in> set aps"
    with Cons.prems(5) have "tool_key (ap_before c) \<noteq> tool_key ?b" by (auto simp: image_iff)
    with c Cons.prems(4) show "row st2 (t_server (ap_before c)) (t_tool (ap_before c)) = Some (ap_before c)
      \<and> ap_after c = approved (ap_before c) now"
      by (auto simp: row2 tool_key_def)
  qed
  from Cons.IH [OF inv Cons.prems(2) u(3) this] Cons.prems(5)
  have ih: "qs_inv H st'" "\<And>s n. row st' s n =
      (case approval_at aps s n of Some a \<Rightarrow> Some (ap_after a) | None \<Rightarrow> row st2 s n)" by auto
  have "approval_at aps (t_server ?b) (t_tool ?b) = None"
    using Cons.prems(5) by (auto simp: approval_at_def find_None_iff tool_key_def image_iff)
  with ih show ?case
    by (auto simp: approval_at_def row2 tool_key_def split: option.splits)
qed

lemma approve_review_set_Inr:
  assumes inv: "qs_inv H st" and H: "digest32 H"
    and run: "approve_review_set H fault now server mf st = (Inr aps, st')"
  shows "qs_inv H st'
    \<and> aps = map (\<lambda>t. \<lparr>ap_before = t, ap_after = approved t now\<rparr>)
        (review_set (filter (\<lambda>t. t_server t = server) (sort_key tool_key (qs_tools st))))
    \<and> manifest H server (review_set (filter (\<lambda>t. t_server t = server) (sort_key tool_key (qs_tools st)))) = mf
    \<and> aps \<noteq> []
    \<and> (\<forall>s n. row st' s n =
        (case approval_at aps s n of Some a \<Rightarrow> Some (ap_after a) | None \<Rightarrow> row st s n))"
proof -
  let ?l = "sort_key tool_key (filter (\<lambda>t. server = [] \<or> t_server t = server) (qs_tools st))"
  let ?set = "review_set (filter (\<lambda>t. t_server t = server) (sort_key tool_key (qs_tools st)))"
  have mine: "filter (\<lambda>t. t_server t = server) ?l = filter (\<lambda>t. t_server t = server) (sort_key tool_key (qs_tools st))"
    by (simp add: filter_sort) (metis (mono_tags, lifting))
  from run have "approved_set H server ?l mf now = Inr aps"
    and w: "write_approvals fault aps st = Inr ((), st')"
    by (auto simp: approve_review_set_def transact_Inr tx_Inr dest!: list_rows_Inr)
  then have aps: "aps = map (\<lambda>t. \<lparr>ap_before = t, ap_after = approved t now\<rparr>) ?set"
    "manifest H server ?set = mf" "?set \<noteq> []"
    by (auto simp: approved_set_Inr Let_def mine)
  have keys: "distinct (map tool_key (qs_tools st))" using inv by (simp add: qs_inv_def keys_ok_def)
  have "distinct (map tool_key ?set)"
    using keys by (auto simp: review_set_def distinct_map inj_on_def)
  moreover have "map (tool_key \<circ> ap_before) aps = map tool_key ?set" by (simp add: aps)
  ultimately have d: "distinct (map (tool_key \<circ> ap_before) aps)" by simp
  have "\<forall>a\<in>set aps. row st (t_server (ap_before a)) (t_tool (ap_before a)) = Some (ap_before a)
      \<and> ap_after a = approved (ap_before a) now"
  proof
    fix a assume "a \<in> set aps"
    then have "ap_before a \<in> set (qs_tools st)" "ap_after a = approved (ap_before a) now"
      by (auto simp: aps review_set_def)
    then show "row st (t_server (ap_before a)) (t_tool (ap_before a)) = Some (ap_before a)
      \<and> ap_after a = approved (ap_before a) now"
      using row_unique [of st "ap_before a"] inv by (simp add: qs_inv_def tool_key_def)
  qed
  from write_approvals_effect [OF inv H w this d] aps show ?thesis by simp
qed

lemma approve_review_set_inv:
  assumes "qs_inv H st" "digest32 H"
  shows "qs_inv H (snd (approve_review_set H fault now server mf st))"
proof (cases "approve_review_set H fault now server mf st")
  case (Pair res st')
  show ?thesis
  proof (cases res)
    case (Inl e)
    with Pair assms show ?thesis by (auto simp: approve_review_set_def dest: transact_Inl)
  next
    case (Inr aps)
    with approve_review_set_Inr [OF assms] Pair show ?thesis by fastforce
  qed
qed

section \<open>Runs\<close>

datatype qop =
    QObserve string tool_identity string
  | QApprove string string
  | QApproveFingerprint string string string
  | QApproveSet string string
  | QClear string string
  | QRevoke string string
  | QForget string

datatype qresult =
    RObserved "qerror + observation"
  | RTool "qerror + tool"
  | RSet "qerror + approval list"
  | RCount "qerror + nat"

type_synonym qcall = "qfault \<times> int \<times> qop"

fun qexec :: "digest \<Rightarrow> qstore \<Rightarrow> qcall \<Rightarrow> qresult \<times> qstore" where
  "qexec H st (fault, now, QObserve s t c) = map_prod RObserved id (observe H fault now s t c st)"
| "qexec H st (fault, now, QApprove s n) = map_prod RTool id (approve fault now s n st)"
| "qexec H st (fault, now, QApproveFingerprint s n h) =
     map_prod RTool id (approve_fingerprint fault now s n h st)"
| "qexec H st (fault, now, QApproveSet s m) = map_prod RSet id (approve_review_set H fault now s m st)"
| "qexec H st (fault, now, QClear s n) = map_prod RTool id (clear fault now s n st)"
| "qexec H st (fault, now, QRevoke s n) = map_prod RTool id (revoke fault now s n st)"
| "qexec H st (fault, now, QForget s) = map_prod RCount id (forget fault s st)"

definition qstep :: "digest \<Rightarrow> qstore \<Rightarrow> qcall \<Rightarrow> qstore" where
  "qstep H st c = snd (qexec H st c)"

definition checked_inv :: "digest \<Rightarrow> qstore \<Rightarrow> bool" where
  "checked_inv H st = (digest32 H \<longrightarrow> qs_inv H st)"

interpretation qstore: invariant_kept "qstep H" "checked_inv H" for H
proof
  fix st and c :: qcall
  assume "checked_inv H st"
  then have *: "qs_inv H st" if "digest32 H" using that by (simp add: checked_inv_def)
  obtain fault now op where c: "c = (fault, now, op)" by (cases c) auto
  have "qs_inv H (snd (qexec H st c))" if H: "digest32 H"
    unfolding c
    by (cases op) (simp_all add: observe_inv approve_def approve_fingerprint_def revoke_eq
        approve_with_inv clear_inv forget_inv approve_review_set_inv transitions_keep H *)
  then show "checked_inv H (qstep H st c)" by (simp add: checked_inv_def qstep_def)
qed

lemma empty_qstore_inv: "qs_inv H empty_qstore"
  by (simp add: qs_inv_def empty_qstore_def keys_ok_def defs_ok_def kept_def tight_def)

lemma runs_keep_inv: "digest32 H \<Longrightarrow> qs_inv H (foldl (qstep H) empty_qstore calls)"
  using qstore.run_inv [of H empty_qstore calls] by (simp add: checked_inv_def empty_qstore_inv)

section \<open>What each operation does to one tool\<close>

type_synonym qevent = "qop \<times> qresult"

text \<open>An operation that put an approval of fingerprint \<open>h\<close> on a tool.\<close>

fun vets :: "qevent \<Rightarrow> string \<Rightarrow> string \<Rightarrow> string \<Rightarrow> bool" where
  "vets (QApprove s' n', RTool (Inr t)) s n h = ((s', n') = (s, n) \<and> t_approved t = h)"
| "vets (QApproveFingerprint s' n' r, RTool (Inr t)) s n h =
     ((s', n') = (s, n) \<and> t_approved t = h \<and> r = h)"
| "vets (QApproveSet s' m, RSet (Inr aps)) s n h =
     list_ex (\<lambda>a. tool_key (ap_after a) = (s, n) \<and> t_approved (ap_after a) = h) aps"
| "vets _ s n h = False"

text \<open>An operation that cleared a tool at fingerprint \<open>h\<close> to act.\<close>

fun clears :: "qevent \<Rightarrow> string \<Rightarrow> string \<Rightarrow> string \<Rightarrow> bool" where
  "clears (QClear s' n', RTool (Inr t)) s n h = ((s', n') = (s, n) \<and> t_approved t = h)"
| "clears _ s n h = False"

text \<open>An operation after which trust in the tool is withdrawn.\<close>

fun withdraws :: "qevent \<Rightarrow> string \<Rightarrow> string \<Rightarrow> bool" where
  "withdraws (QRevoke s' n', RTool (Inr t)) s n = ((s', n') = (s, n))"
| "withdraws (QForget s', RCount (Inr k)) s n = (s' = s)"
| "withdraws _ s n = False"

text \<open>Discovery seeing a definition whose fingerprint is not \<open>h\<close>.\<close>

fun differs :: "digest \<Rightarrow> qevent \<Rightarrow> string \<Rightarrow> string \<Rightarrow> string \<Rightarrow> bool" where
  "differs H (QObserve s' t c, RObserved (Inr ob)) s n h =
     ((s', ti_name t) = (s, n) \<and> tool_hash H t \<noteq> h)"
| "differs H _ s n h = False"

inductive row_step ::
  "digest \<Rightarrow> qevent \<Rightarrow> string \<Rightarrow> string \<Rightarrow> tool option \<Rightarrow> tool option \<Rightarrow> bool"
  for H ev s n where
  untouched: "\<not> withdraws ev s n \<Longrightarrow> (\<And>h. \<not> differs H ev s n h) \<Longrightarrow> row_step H ev s n r r"
| vetted: "vets ev s n (t_observed r) \<Longrightarrow> \<not> withdraws ev s n \<Longrightarrow> (\<And>h. \<not> differs H ev s n h)
    \<Longrightarrow> row_step H ev s n (Some r) (Some (approved r now))"
| first: "row_step H ev s n None (Some (new_tool s n h c now))"
| seen: "observed r h c now = Inr r' \<Longrightarrow> (\<And>h'. differs H ev s n h' \<longleftrightarrow> h \<noteq> h')
    \<Longrightarrow> \<not> withdraws ev s n \<Longrightarrow> row_step H ev s n (Some r) (Some r')"
| clearance: "cleared r now = Inr r' \<Longrightarrow> clears ev s n (t_approved r) \<Longrightarrow> \<not> withdraws ev s n
    \<Longrightarrow> (\<And>h. \<not> differs H ev s n h) \<Longrightarrow> row_step H ev s n (Some r) (Some r')"
| revocation: "revoked r now = Inr r' \<Longrightarrow> row_step H ev s n (Some r) (Some r')"
| forgotten: "row_step H ev s n r None"

lemma row_append:
  "row (st\<lparr>qs_tools := qs_tools st @ [t]\<rparr>) s n =
     (case row st s n of Some r \<Rightarrow> Some r | None \<Rightarrow> if tool_key t = (s, n) then Some t else None)"
proof -
  have "find P (ts @ [t]) = (case find P ts of Some r \<Rightarrow> Some r | None \<Rightarrow> if P t then Some t else None)"
    for P and ts :: "tool list"
    by (induction ts) auto
  then show ?thesis by (simp add: row_def)
qed

lemma observe_step:
  assumes "qs_inv H st" "observe H fault now s' t c st = (res, st')"
  shows "row_step H (QObserve s' t c, RObserved res) s n (row st s n) (row st' s n)"
proof (cases res)
  case (Inl e)
  with assms(2) have "st' = st"
    by (auto simp: observe_def split: if_splits dest: transact_Inl)
  with Inl show ?thesis by (auto intro: row_step.untouched)
next
  case (Inr ob)
  note o = observe_Inr [OF assms(1) assms(2) [unfolded Inr]]
  let ?h = "tool_hash H t"
  have r1: "row (with_definition ?h t now st) s n = row st s n" by simp
  show ?thesis
  proof (cases "row st s' (ti_name t)")
    case None
    with o have st': "st' = (with_definition ?h t now st)\<lparr>qs_tools :=
        qs_tools (with_definition ?h t now st) @ [new_tool s' (ti_name t) ?h c now]\<rparr>" by simp
    show ?thesis
    proof (cases "(s, n) = (s', ti_name t)")
      case True
      then have "row st' s n = Some (new_tool s n ?h c now)"
        using None unfolding st' row_append by (simp add: new_tool_def tool_key_def)
      with True None show ?thesis by (auto intro: row_step.first)
    next
      case False
      then have "row st' s n = row st s n"
        unfolding st' row_append by (auto simp: new_tool_def tool_key_def split: option.splits)
      with False Inr show ?thesis by (auto intro!: row_step.untouched)
    qed
  next
    case (Some prev)
    with o have ob: "observed prev ?h c now = Inr (o_tool ob)"
      and st': "row st' s n = row (replace_row (o_tool ob) (with_definition ?h t now st)) s n" by auto
    have key: "tool_key (o_tool ob) = (s', ti_name t)"
      using observed_Inr(1) [OF ob] row_Some [OF Some] by simp
    show ?thesis
    proof (cases "(s, n) = (s', ti_name t)")
      case True
      with st' key Some have "row st' s n = Some (o_tool ob)" by (simp add: row_replace)
      with True Some ob Inr show ?thesis by (auto intro!: row_step.seen)
    next
      case False
      with st' key have "row st' s n = row st s n" by (auto simp: row_replace)
      with False Inr show ?thesis by (auto intro!: row_step.untouched)
    qed
  qed
qed

text \<open>The operations on one named tool share a shape: the row of that name moves, the rest stay.\<close>

lemma one_row_effect:
  assumes "row st s' n' = Some prev" "tool_key nx = tool_key prev"
  shows "row (pruned hs (replace_row nx st)) s n = (if (s, n) = (s', n') then Some nx else row st s n)"
  using assms row_Some [OF assms(1)] by (auto simp: row_replace)

lemma approve_with_step:
  assumes inv: "qs_inv H st" and tr: "keeps_identity tr"
    and run: "approve_with fault s' n' tr st = (res, st')"
    and other: "\<And>e h. res = Inl e \<or> (s, n) \<noteq> (s', n') \<Longrightarrow> \<not> withdraws (op, RTool res) s n \<and> \<not> differs H (op, RTool res) s n h"
    and this_row: "\<And>r r'. res = Inr r' \<Longrightarrow> (s, n) = (s', n') \<Longrightarrow> tr r = Inr r' \<Longrightarrow> row_step H (op, RTool res) s n (Some r) (Some r')"
  shows "row_step H (op, RTool res) s n (row st s n) (row st' s n)"
proof (cases res)
  case (Inl e)
  with run have "st' = st" by (auto simp: approve_with_def dest: transact_Inl)
  with Inl other show ?thesis by (auto intro: row_step.untouched)
next
  case (Inr nx)
  from approve_with_Inr [OF inv tr run [unfolded Inr]] obtain prev where
    prev: "row st s' n' = Some prev" "tr prev = Inr nx"
      "st' = pruned [t_approved prev, t_observed prev] (replace_row nx st)" by blast
  have "tool_key nx = tool_key prev" using tr prev(2) by (auto simp: keeps_identity_def)
  note eff = one_row_effect [OF prev(1) this, of "[t_approved prev, t_observed prev]" s n]
  show ?thesis
  proof (cases "(s, n) = (s', n')")
    case True
    with eff prev this_row [OF Inr True prev(2)] show ?thesis by auto
  next
    case False
    with eff prev(3) have "row st' s n = row st s n" by auto
    with False other show ?thesis by (auto intro: row_step.untouched)
  qed
qed

lemma clear_step:
  assumes inv: "qs_inv H st" and run: "clear fault now s' n' st = (res, st')"
  shows "row_step H (QClear s' n', RTool res) s n (row st s n) (row st' s n)"
proof (cases res)
  case (Inl e)
  with run have "st' = st" by (auto simp: clear_def dest: transact_Inl)
  then show ?thesis by (auto intro: row_step.untouched)
next
  case (Inr nx)
  from clear_Inr [OF inv run [unfolded Inr]] obtain prev where
    prev: "row st s' n' = Some prev" "cleared prev now = Inr nx" "st' = replace_row nx st" by blast
  have key: "tool_key nx = tool_key prev" "t_approved nx = t_approved prev"
    using prev(2) by (auto simp: cleared_Inr tool_key_def)
  from one_row_effect [OF prev(1) key(1), of "[]" s n] prev Inr key
  show ?thesis by (auto intro: row_step.untouched row_step.clearance)
qed

lemma approve_review_set_step:
  assumes inv: "qs_inv H st" and H: "digest32 H"
    and run: "approve_review_set H fault now s' m st = (res, st')"
  shows "row_step H (QApproveSet s' m, RSet res) s n (row st s n) (row st' s n)"
proof (cases res)
  case (Inl e)
  with run have "st' = st" by (auto simp: approve_review_set_def dest: transact_Inl)
  then show ?thesis by (auto intro: row_step.untouched)
next
  case (Inr aps)
  note a = approve_review_set_Inr [OF inv H run [unfolded Inr]]
  show ?thesis
  proof (cases "approval_at aps s n")
    case None
    with a have "row st' s n = row st s n" by simp
    then show ?thesis by (auto intro: row_step.untouched)
  next
    case (Some ap)
    then have ap: "ap \<in> set aps" "tool_key (ap_before ap) = (s, n)"
      by (auto simp: approval_at_def dest: find_SomeD)
    with a have "ap_after ap = approved (ap_before ap) now" "ap_before ap \<in> set (qs_tools st)"
      by (auto simp: review_set_def)
    moreover from this ap inv have "row st s n = Some (ap_before ap)"
      using row_unique by (auto simp: qs_inv_def)
    moreover have "row st' s n = Some (ap_after ap)" using a Some by simp
    ultimately show ?thesis
      using ap Inr by (auto intro!: row_step.vetted bexI [of _ ap])
  qed
qed

lemma forget_step:
  assumes "forget fault s' st = (res, st')"
  shows "row_step H (QForget s', RCount res) s n (row st s n) (row st' s n)"
proof (cases res)
  case (Inl e)
  with assms have "st' = st" by (auto simp: forget_def dest: transact_Inl)
  with Inl show ?thesis by (auto intro: row_step.untouched)
next
  case (Inr k)
  have "find (\<lambda>t. tool_key t = (s, n)) (filter (\<lambda>t. t_server t \<noteq> s') ts) =
      (if s = s' then None else find (\<lambda>t. tool_key t = (s, n)) ts)" for ts
    by (induction ts) (auto simp: tool_key_def)
  with assms Inr have "row st' s n = (if s = s' then None else row st s n)"
    by (auto simp: forget_def transact_Inr forget_body_def tx_Inr row_def)
  with Inr show ?thesis by (auto intro: row_step.untouched row_step.forgotten)
qed

lemma map_prod_Pair_iff: "map_prod f id p = (a, b) \<longleftrightarrow> (\<exists>r. p = (r, b) \<and> a = f r)"
  by (cases p) auto

lemma qexec_row_step:
  assumes "qs_inv H st" "digest32 H" "qexec H st (fault, now, op) = (res, st')"
  shows "row_step H (op, res) s n (row st s n) (row st' s n)"
proof (cases op)
  case (QApprove s' n')
  with assms obtain r where r: "approve_with fault s' n' (\<lambda>prev. Inr (approved prev now)) st = (r, st')" "res = RTool r"
    by (auto simp: approve_def map_prod_Pair_iff)
  show ?thesis unfolding QApprove r(2)
    by (rule approve_with_step [OF assms(1) approve_keeps r(1)]) (auto intro!: row_step.vetted)
next
  case (QApproveFingerprint s' n' h)
  with assms obtain r where r: "approve_with fault s' n' (\<lambda>prev. approved_fingerprint prev h now) st = (r, st')" "res = RTool r"
    by (auto simp: approve_fingerprint_def map_prod_Pair_iff)
  show ?thesis unfolding QApproveFingerprint r(2)
    by (rule approve_with_step [OF assms(1) approve_fingerprint_keeps r(1)])
      (auto simp: approved_fingerprint_def split: if_splits intro!: row_step.vetted)
next
  case (QRevoke s' n')
  with assms obtain r where r: "approve_with fault s' n' (\<lambda>prev. revoked prev now) st = (r, st')" "res = RTool r"
    by (auto simp: revoke_eq map_prod_Pair_iff)
  show ?thesis unfolding QRevoke r(2)
    by (rule approve_with_step [OF assms(1) revoke_keeps r(1)]; cases r;
        auto intro: row_step.revocation)
qed (use assms in \<open>auto simp: map_prod_Pair_iff intro: observe_step clear_step approve_review_set_step forget_step\<close>)

section \<open>Trails\<close>

definition qtrace :: "digest \<Rightarrow> qcall list \<Rightarrow> qevent list \<times> qstore" where
  "qtrace H calls =
     foldl (\<lambda>(es, st) c. case qexec H st c of (r, st') \<Rightarrow> (es @ [(snd (snd c), r)], st'))
       ([], empty_qstore) calls"

lemma qtrace_Nil [simp]: "qtrace H [] = ([], empty_qstore)"
  by (simp add: qtrace_def)

lemma qtrace_snoc [simp]:
  "qtrace H (calls @ [c]) =
     (case qtrace H calls of (es, st) \<Rightarrow>
        case qexec H st c of (r, st') \<Rightarrow> (es @ [(snd (snd c), r)], st'))"
  by (simp add: qtrace_def split_def)

lemma snd_qtrace: "snd (qtrace H calls) = foldl (qstep H) empty_qstore calls"
  by (induction calls rule: rev_induct) (auto simp: qstep_def split: prod.splits)

lemma qtrace_inv: "digest32 H \<Longrightarrow> qtrace H calls = (es, st) \<Longrightarrow> qs_inv H st"
  using runs_keep_inv [of H calls] snd_qtrace [of H calls] by simp

text \<open>The fingerprint was approved, and since then nothing else was seen and nothing was withdrawn.\<close>

definition settled :: "digest \<Rightarrow> qevent list \<Rightarrow> string \<Rightarrow> string \<Rightarrow> string \<Rightarrow> bool" where
  "settled H es s n h = (\<exists>pre e post. es = pre @ e # post \<and> vets e s n h
     \<and> (\<forall>x\<in>set post. \<not> withdraws x s n \<and> \<not> differs H x s n h))"

text \<open>The fingerprint was cleared to act, and since then trust was not withdrawn.\<close>

definition cleared_since :: "qevent list \<Rightarrow> string \<Rightarrow> string \<Rightarrow> string \<Rightarrow> bool" where
  "cleared_since es s n h = (\<exists>pre e post. es = pre @ e # post \<and> clears e s n h
     \<and> (\<forall>x\<in>set post. \<not> withdraws x s n))"

lemma settled_now: "vets e s n h \<Longrightarrow> settled H (es @ [e]) s n h"
  unfolding settled_def by (intro exI [of _ es] exI [of _ e] exI [of _ "[]"]) simp

lemma settled_still:
  assumes "settled H es s n h" "\<not> withdraws e s n" "\<not> differs H e s n h"
  shows "settled H (es @ [e]) s n h"
proof -
  from assms(1) obtain pre v post where "es = pre @ v # post" "vets v s n h"
    "\<forall>x\<in>set post. \<not> withdraws x s n \<and> \<not> differs H x s n h" by (auto simp: settled_def)
  with assms(2,3) show ?thesis
    unfolding settled_def by (intro exI [of _ pre] exI [of _ v] exI [of _ "post @ [e]"]) auto
qed

lemma cleared_since_now: "clears e s n h \<Longrightarrow> cleared_since (es @ [e]) s n h"
  unfolding cleared_since_def by (intro exI [of _ es] exI [of _ e] exI [of _ "[]"]) simp

lemma cleared_since_still:
  assumes "cleared_since es s n h" "\<not> withdraws e s n"
  shows "cleared_since (es @ [e]) s n h"
proof -
  from assms(1) obtain pre v post where "es = pre @ v # post" "clears v s n h"
    "\<forall>x\<in>set post. \<not> withdraws x s n" by (auto simp: cleared_since_def)
  with assms(2) show ?thesis
    unfolding cleared_since_def by (intro exI [of _ pre] exI [of _ v] exI [of _ "post @ [e]"]) auto
qed

definition accounted :: "digest \<Rightarrow> qevent list \<Rightarrow> string \<Rightarrow> string \<Rightarrow> tool \<Rightarrow> bool" where
  "accounted H es s n r =
     ((t_status r = status_approved \<longrightarrow> settled H es s n (t_approved r))
      \<and> (t_cleared r \<noteq> [] \<longrightarrow> cleared_since es s n (t_cleared r)))"

lemma row_step_accounted:
  assumes "row_step H e s n r0 r1" "\<forall>r. r0 = Some r \<longrightarrow> accounted H es s n r" "r1 = Some r'"
  shows "accounted H (es @ [e]) s n r'"
  using assms
proof (cases rule: row_step.cases)
  case untouched
  with assms show ?thesis
    by (auto simp: accounted_def intro: settled_still cleared_since_still)
next
  case (vetted r now)
  have "settled H (es @ [e]) s n (t_observed r)" using vetted(3) by (rule settled_now)
  with vetted(1,2,4) assms(2,3) show ?thesis
    by (auto simp: accounted_def approved_def Let_def intro: cleared_since_still)
next
  case (first h c now)
  with assms show ?thesis by (auto simp: accounted_def new_tool_def)
next
  case (seen r h c now r2)
  with assms observed_Inr [OF seen(3)] show ?thesis
    by (auto simp: accounted_def intro!: settled_still cleared_since_still split: if_splits)
next
  case (clearance r now r2)
  have "cleared_since (es @ [e]) s n (t_approved r)" using clearance(4) by (rule cleared_since_now)
  with clearance assms(2,3) show ?thesis
    by (auto simp: accounted_def cleared_Inr intro: settled_still)
next
  case (revocation r now r2)
  with assms show ?thesis by (auto simp: accounted_def revoked_Inr)
next
  case forgotten
  with assms show ?thesis by simp
qed

lemma qtrace_accounted:
  assumes "digest32 H"
  shows "qtrace H calls = (es, st) \<Longrightarrow> row st s n = Some r \<Longrightarrow> accounted H es s n r"
proof (induction calls arbitrary: es st r rule: rev_induct)
  case Nil
  then show ?case by (auto simp: empty_qstore_def row_def)
next
  case (snoc c calls)
  obtain es0 st0 where 0: "qtrace H calls = (es0, st0)" by fastforce
  obtain fault now op where c: "c = (fault, now, op)" by (cases c) auto
  obtain res where res: "qexec H st0 (fault, now, op) = (res, st)" and es: "es = es0 @ [(op, res)]"
    using snoc.prems 0 c by (auto split: prod.splits)
  have "row_step H (op, res) s n (row st0 s n) (row st s n)"
    using qexec_row_step [OF qtrace_inv [OF assms 0] assms res] .
  then show ?case
    unfolding es by (rule row_step_accounted) (use snoc.IH [OF 0] snoc.prems in auto)
qed

section \<open>Properties\<close>

definition sample_identity :: tool_identity where
  "sample_identity = \<lparr>ti_name = ''list'', ti_description = ''d'', ti_input_schema = ''{}'', ti_output_schema = []\<rparr>"

definition sample_calls :: "qcall list" where
  "sample_calls =
     [(\<lambda>_. False, 1, QObserve ''casemgmt'' sample_identity class_sensitive),
      (\<lambda>_. False, 2, QApprove ''casemgmt'' ''list''),
      (\<lambda>_. False, 3, QClear ''casemgmt'' ''list''),
      (\<lambda>_. False, 4, QObserve ''casemgmt'' sample_identity class_sensitive)]"

text \<open>
  C3 (Usable, over every sequence of store operations): a tool the gateway may serve was approved by an operator at exactly the
  fingerprint last observed, and after that approval no discovery saw another definition of it, nobody revoked it
  and its server was not forgotten; a tool that can act was, besides, cleared at that same fingerprint with no
  later withdrawal. It holds whatever statements the database refuses on the way.
\<close>
theorem usable_has_provenance:
  assumes "digest32 H" "qtrace H calls = (es, st)" "row st s n = Some r" "usable r"
  shows "settled H es s n (t_observed r)
    \<and> (t_class r \<noteq> class_safe \<longrightarrow> cleared_since es s n (t_observed r))"
proof -
  have "accounted H es s n r" using qtrace_accounted [OF assms(1-3)] .
  with assms(4) show ?thesis
    by (auto simp: accounted_def usable_def approved_as_advertised_def split: if_splits)
qed

theorem usable_has_provenance_witness:
  "settled sample_digest (fst (qtrace sample_digest sample_calls)) ''casemgmt'' ''list''
     (tool_hash sample_digest sample_identity)
   \<and> cleared_since (fst (qtrace sample_digest sample_calls)) ''casemgmt'' ''list''
     (tool_hash sample_digest sample_identity)"
proof -
  have "case row (snd (qtrace sample_digest sample_calls)) ''casemgmt'' ''list'' of
      None \<Rightarrow> False
    | Some r \<Rightarrow> usable r \<and> t_observed r = tool_hash sample_digest sample_identity \<and> t_class r \<noteq> class_safe"
    by code_simp
  then obtain r where r: "row (snd (qtrace sample_digest sample_calls)) ''casemgmt'' ''list'' = Some r"
      "usable r" "t_observed r = tool_hash sample_digest sample_identity" "t_class r \<noteq> class_safe"
    by (auto split: option.splits)
  from usable_has_provenance [OF sample_digest32 prod.collapse [symmetric] r(1,2)] r(3,4)
  show ?thesis by simp
qed

text \<open>
  C37 (quarantine store): whatever operations run, in whatever order and with whatever database failures,
  the tables stay consistent: one row per (server, tool), a baseline exactly on the tools that were approved,
  an approved row always showing its approved fingerprint, a clearance only of the current baseline; every stored definition hashes to its
  key and is referenced, every fingerprint has its definition, and so at most two definitions per tool are
  kept.
\<close>
theorem quarantine_store_invariant:
  assumes "digest32 H"
  shows "qs_inv H (foldl (qstep H) empty_qstore calls)
    \<and> length (qs_defs (foldl (qstep H) empty_qstore calls))
        \<le> 2 * length (qs_tools (foldl (qstep H) empty_qstore calls))"
proof -
  let ?st = "foldl (qstep H) empty_qstore calls"
  have inv: "qs_inv H ?st" using assms by (rule runs_keep_inv)
  let ?refs = "map t_approved (qs_tools ?st) @ map t_observed (qs_tools ?st)"
  have "fst ` set (qs_defs ?st) \<subseteq> set ?refs"
    using inv by (fastforce simp: qs_inv_def tight_def referenced_def)
  then have "card (fst ` set (qs_defs ?st)) \<le> length ?refs"
    by (meson List.finite_set card_length card_mono le_trans)
  moreover have "card (fst ` set (qs_defs ?st)) = length (qs_defs ?st)"
    using inv distinct_card [of "map fst (qs_defs ?st)"] by (simp add: qs_inv_def defs_ok_def)
  ultimately show ?thesis using inv by simp
qed

theorem quarantine_store_invariant_witness:
  "qs_inv sample_digest (foldl (qstep sample_digest) empty_qstore sample_calls)"
  using quarantine_store_invariant [OF sample_digest32] by blast

text \<open>
  (Hash) two tool definitions with the same fingerprint are the same definition, name, description, input
  schema and output schema byte for byte, unless they exhibit a SHA-256 collision. In particular no shifting of bytes
  between fields, and no dropping of an output schema, keeps a fingerprint.
\<close>
theorem tool_hash_unambiguous:
  assumes "identity_fits a" "identity_fits b" "tool_hash H a = tool_hash H b"
  shows "a = b \<or> (identity_bytes a \<noteq> identity_bytes b \<and> H (identity_bytes a) = H (identity_bytes b))"
  using assms by (auto simp: tool_hash_def hex_encode_inject identity_bytes_inject)

theorem tool_hash_unambiguous_witness:
  "identity_bytes \<lparr>ti_name = ''ab'', ti_description = ''c'', ti_input_schema = [], ti_output_schema = []\<rparr>
   \<noteq> identity_bytes \<lparr>ti_name = ''a'', ti_description = ''bc'', ti_input_schema = [], ti_output_schema = []\<rparr>"
  using tool_hash_unambiguous [of "\<lparr>ti_name = ''ab'', ti_description = ''c'', ti_input_schema = [], ti_output_schema = []\<rparr>"
      "\<lparr>ti_name = ''a'', ti_description = ''bc'', ti_input_schema = [], ti_output_schema = []\<rparr>" sample_digest]
  by (auto simp: identity_fits_def tool_hash_def)

text \<open>
  (ApproveReviewSet) when a bulk approval under the manifest of the set an operator was shown succeeds, the tools it
  approves are exactly the shown ones, each with the status, fingerprint and baseline shown, and every one of them
  ends approved at its shown fingerprint while every other row stays as it was; or the two sets exhibit a digest collision.
\<close>
theorem review_set_approves_what_was_shown:
  assumes "qs_inv H st" "digest32 H" "fits64 server" "set_fits shown" "set_fits (qs_tools st)"
    and "approve_review_set H fault now server (manifest H server shown) st = (Inr aps, st')"
  shows "(map manifest_entry (map ap_before aps) = map manifest_entry (sort_key t_tool shown)
      \<and> (\<forall>s n. row st' s n = (case approval_at aps s n of
             Some a \<Rightarrow> Some (approved (ap_before a) now) | None \<Rightarrow> row st s n)))
    \<or> (\<exists>x y. x \<noteq> y \<and> H x = H y)"
proof -
  let ?set = "review_set (filter (\<lambda>t. t_server t = server) (sort_key tool_key (qs_tools st)))"
  note a = approve_review_set_Inr [OF assms(1,2,6)]
  have before: "map ap_before aps = ?set" using a by (simp add: comp_def)
  have "length ?set \<le> length (qs_tools st)"
    unfolding review_set_def by (metis (no_types, lifting) le_trans length_filter_le length_sort)
  moreover have "set ?set \<subseteq> set (qs_tools st)" by (auto simp: review_set_def)
  ultimately have fits: "set_fits ?set"
    using assms(5) by (auto simp: set_fits_def fits64_def)
  have rows: "row st' s n = (case approval_at aps s n of
      Some a \<Rightarrow> Some (approved (ap_before a) now) | None \<Rightarrow> row st s n)" for s n
    using a by (auto simp: approval_at_def split: option.splits dest!: find_SomeD)
  have sorted: "sort_key t_tool ?set = ?set" by (simp add: review_set_def sort_key_id_if_sorted)
  show ?thesis
  proof (cases "manifest_bytes server ?set = manifest_bytes server shown")
    case True
    with manifest_bytes_inject [OF assms(3,3) fits assms(4)] rows show ?thesis
      by (simp add: before sorted)
  next
    case False
    moreover have "H (manifest_bytes server ?set) = H (manifest_bytes server shown)"
      using a by (simp add: manifest_def hex_encode_inject)
    ultimately show ?thesis by blast
  qed
qed

definition sample_pending :: qstore where
  "sample_pending = foldl (qstep sample_digest) empty_qstore
     [(\<lambda>_. False, 1, QObserve ''casemgmt'' sample_identity class_safe)]"

theorem review_set_approves_what_was_shown_witness:
  "\<exists>aps st'. approve_review_set sample_digest (\<lambda>_. False) 2 ''casemgmt''
      (manifest sample_digest ''casemgmt'' (qs_tools sample_pending)) sample_pending = (Inr aps, st')
    \<and> ((map manifest_entry (map ap_before aps) = map manifest_entry (sort_key t_tool (qs_tools sample_pending))
          \<and> (\<forall>s n. row st' s n = (case approval_at aps s n of
             Some a \<Rightarrow> Some (approved (ap_before a) 2) | None \<Rightarrow> row sample_pending s n)))
       \<or> (\<exists>x y. x \<noteq> y \<and> sample_digest x = sample_digest y))"
proof -
  let ?run = "approve_review_set sample_digest (\<lambda>_. False) 2 ''casemgmt''
      (manifest sample_digest ''casemgmt'' (qs_tools sample_pending)) sample_pending"
  let ?aps = "map (\<lambda>t. \<lparr>ap_before = t, ap_after = approved t 2\<rparr>) (qs_tools sample_pending)"
  have listed: "list_rows (\<lambda>_. False) ''casemgmt'' sample_pending = Inr (qs_tools sample_pending, sample_pending)
      \<and> review_set (filter (\<lambda>t. t_server t = ''casemgmt'') (qs_tools sample_pending)) = qs_tools sample_pending
      \<and> qs_tools sample_pending \<noteq> [] \<and> list_all (\<lambda>t. status_valid (t_status t)) (qs_tools sample_pending)"
    by code_simp
  have "case write_approvals (\<lambda>_. False) ?aps sample_pending of Inr _ \<Rightarrow> True | _ \<Rightarrow> False"
    by code_simp
  with listed obtain aps st' where run: "?run = (Inr aps, st')"
    by (auto simp: approve_review_set_def transact_def tx_unfold approved_set_def approve_each_eq
        Let_def split: sum.splits)
  have "length (qs_tools sample_pending) < 256
      \<and> list_all (\<lambda>t. list_all (\<lambda>x. length x < 256) (manifest_entry t)) (qs_tools sample_pending)"
    by code_simp
  then have fits: "set_fits (qs_tools sample_pending)" by (simp add: set_fits_def)
  have "qs_inv sample_digest sample_pending"
    unfolding sample_pending_def using sample_digest32 by (rule runs_keep_inv)
  then show ?thesis
    using review_set_approves_what_was_shown [OF _ sample_digest32 _ fits fits run] run by auto
qed

text \<open>
  (Observe) discovery never makes a tool servable that an operator had not approved as it now is. After any successful
  observation a usable tool had been approved before at the very fingerprint just observed, and it was usable already unless the
  observation reclassed it as safe; an approved tool seen with another definition is unusable at once and the
  change is reported.
\<close>
theorem observe_never_widens:
  assumes "qs_inv H st" "observe H fault now server t class st = (Inr ob, st')"
  shows "(usable (o_tool ob) \<longrightarrow> (\<exists>prev. row st server (ti_name t) = Some prev
      \<and> approved_as_advertised prev \<and> t_approved prev = tool_hash H t
      \<and> (usable prev \<or> class = class_safe)))
    \<and> (\<forall>prev. row st server (ti_name t) = Some prev \<longrightarrow> t_status prev = status_approved
        \<longrightarrow> t_approved prev \<noteq> tool_hash H t \<longrightarrow> \<not> usable (o_tool ob) \<and> o_event ob = EventChanged)
    \<and> row st' server (ti_name t) = Some (o_tool ob)"
proof (cases "row st server (ti_name t)")
  case None
  note o = observe_Inr [OF assms]
  from None o have st': "st' = (with_definition (tool_hash H t) t now st)\<lparr>qs_tools :=
        qs_tools (with_definition (tool_hash H t) t now st) @ [o_tool ob]\<rparr>" by simp
  from None have "row st' server (ti_name t) = Some (o_tool ob)"
    using o unfolding st' row_append by (simp add: new_tool_def tool_key_def)
  with None o show ?thesis
    by (auto simp: usable_def approved_as_advertised_def new_tool_def)
next
  case (Some prev)
  note o = observe_Inr [OF assms]
  from Some o have ob: "observed prev (tool_hash H t) class now = Inr (o_tool ob)"
    "o_event ob = event_of prev (o_tool ob)"
    and st': "row st' server (ti_name t) = row (replace_row (o_tool ob) st) server (ti_name t)"
    by (auto simp: row_replace)
  note f = observed_Inr [OF ob(1)]
  have ok: "tool_ok prev" and key: "tool_key prev = (server, ti_name t)"
    using row_Some [OF Some] assms(1) by (auto simp: qs_inv_def)
  have "row st' server (ti_name t) = Some (o_tool ob)"
    using st' f(1) key Some by (simp add: row_replace)
  moreover have "approved_as_advertised prev \<and> t_approved prev = tool_hash H t
      \<and> (usable prev \<or> class = class_safe)" if u: "usable (o_tool ob)"
  proof -
    have adv: "approved_as_advertised (o_tool ob)" using u by (simp add: usable_def split: if_splits)
    then have st: "t_status prev = status_approved" "t_approved prev = tool_hash H t"
      using f by (auto simp: approved_as_advertised_def split: if_splits)
    moreover have "approved_as_advertised prev"
      using st adv ok f(3) by (simp add: approved_as_advertised_def tool_ok_def)
    moreover have "class \<noteq> class_safe \<Longrightarrow> usable prev"
      using u f(3,4,6) \<open>approved_as_advertised prev\<close> by (auto simp: usable_def split: if_splits)
    ultimately show ?thesis by blast
  qed
  moreover have "\<not> usable (o_tool ob) \<and> o_event ob = EventChanged"
    if "t_status prev = status_approved" "t_approved prev \<noteq> tool_hash H t"
    using that f(8) ob(2) by (simp add: usable_def approved_as_advertised_def event_of_def)
  ultimately show ?thesis using Some by simp
qed

theorem observe_never_widens_witness:
  "\<exists>ob st'. observe sample_digest (\<lambda>_. False) 5 ''casemgmt'' (sample_identity\<lparr>ti_description := ''do evil''\<rparr>) class_sensitive
      (foldl (qstep sample_digest) empty_qstore sample_calls) = (Inr ob, st')
    \<and> \<not> usable (o_tool ob) \<and> o_event ob = EventChanged"
proof -
  let ?st = "foldl (qstep sample_digest) empty_qstore sample_calls"
  let ?t = "sample_identity\<lparr>ti_description := ''do evil''\<rparr>"
  have run: "case observe sample_digest (\<lambda>_. False) 5 ''casemgmt'' ?t class_sensitive ?st of
      (Inr _, _) \<Rightarrow> True | _ \<Rightarrow> False" by code_simp
  have prev: "case row ?st ''casemgmt'' (ti_name ?t) of None \<Rightarrow> False
      | Some r \<Rightarrow> t_status r = status_approved \<and> t_approved r \<noteq> tool_hash sample_digest ?t" by code_simp
  from run obtain ob st' where
    ob: "observe sample_digest (\<lambda>_. False) 5 ''casemgmt'' ?t class_sensitive ?st = (Inr ob, st')"
    by (auto split: prod.splits sum.splits)
  have "qs_inv sample_digest ?st" using sample_digest32 by (rule runs_keep_inv)
  from observe_never_widens [OF this ob] prev ob show ?thesis
    by (auto split: option.splits)
qed

end
