(* ===== verification/Quota.thy ===== *)
theory Quota
  imports Gotime
begin

text \<open>
  Model of \<open>internal/quota/quota.go\<close> and \<open>self.go\<close>: declared accounts, the plan that indexes them by
  tool, charges and reservations, and the gate the request path asks. The store is an
  argument of the gate; the locale \<open>quota_store\<close> states what \<open>quota.Store\<close> promises, and the
  bounds on what an analyst can spend are proved there once. \<open>Quota_Store\<close> interprets it
  on the SQLite adapter.
\<close>

section \<open>Accounts\<close>

record provider =
  pv_name :: string
  pv_upstream :: string
  pv_limit :: int
  pv_window :: int
  pv_tools :: "string list"

datatype provider_problem =
    ProviderNameUntrimmed string | ProviderNameEmpty | ProviderNoUpstream string
  | ProviderLimit string int | ProviderWindow string int | ProviderNoTools string
  | ProviderToolEmpty string | ProviderToolTwice string string

fun provider_tool_problems :: "string \<Rightarrow> string set \<Rightarrow> string list \<Rightarrow> provider_problem list" where
  "provider_tool_problems name seen [] = []"
| "provider_tool_problems name seen (tool # tools) =
     (if trim_space tool = [] then ProviderToolEmpty name # provider_tool_problems name seen tools
      else if tool \<in> seen then ProviderToolTwice name tool # provider_tool_problems name seen tools
      else provider_tool_problems name (insert tool seen) tools)"

definition provider_validate :: "provider \<Rightarrow> provider_problem list" where
  "provider_validate p =
     (if pv_name p \<noteq> trim_space (pv_name p) then [ProviderNameUntrimmed (pv_name p)] else [])
     @ (if trim_space (pv_name p) = [] then [ProviderNameEmpty] else [])
     @ (if trim_space (pv_upstream p) = [] then [ProviderNoUpstream (pv_name p)] else [])
     @ (if pv_limit p \<le> 0 then [ProviderLimit (pv_name p) (pv_limit p)] else [])
     @ (if pv_window p \<le> 0 then [ProviderWindow (pv_name p) (pv_window p)] else [])
     @ (if pv_tools p = [] then [ProviderNoTools (pv_name p)] else [])
     @ provider_tool_problems (pv_name p) {} (pv_tools p)"

definition window_start :: "provider \<Rightarrow> gotime \<Rightarrow> gotime" where
  "window_start p t = trunc_time (utc t) (pv_window p)"

section \<open>Charges\<close>

record charge =
  ch_provider :: string
  ch_limit :: int
  ch_start :: gotime
  ch_end :: gotime

definition fits :: "charge \<Rightarrow> int \<Rightarrow> bool" where
  "fits c used = (used \<le> ch_limit c)"

definition charge_window :: "charge \<Rightarrow> int" where
  "charge_window c = sub_time (ch_end c) (ch_start c)"

datatype reservation_problem =
    ChargeProviderEmpty | ChargeLimit string int | ChargeZeroStart string
  | ChargeOffset string | ChargeEnd string
  | NoAnalyst | NoCharges | ChargedTwice string

definition charge_validate :: "charge \<Rightarrow> reservation_problem list" where
  "charge_validate c =
     (if trim_space (ch_provider c) = [] then [ChargeProviderEmpty] else [])
     @ (if ch_limit c \<le> 0 then [ChargeLimit (ch_provider c) (ch_limit c)] else [])
     @ (if is_zero (ch_start c) then [ChargeZeroStart (ch_provider c)] else [])
     @ (if g_off (ch_start c) \<noteq> 0 then [ChargeOffset (ch_provider c)] else [])
     @ (if \<not> after_time (ch_end c) (ch_start c) then [ChargeEnd (ch_provider c)] else [])"

text \<open>The typed refusal: the declared policy and the window's end, never a count.\<close>

record exhausted_error =
  ex_provider :: string
  ex_limit :: int
  ex_window :: int
  ex_resets :: gotime

definition exhausted :: "charge \<Rightarrow> exhausted_error" where
  "exhausted c = \<lparr>ex_provider = ch_provider c, ex_limit = ch_limit c, ex_window = charge_window c,
     ex_resets = utc (ch_end c)\<rparr>"

section \<open>Plans\<close>

record plan =
  pl_providers :: "provider list"
  pl_by_tool :: "string \<rightharpoonup> provider list"
  pl_free :: "string list"

datatype plan_error =
    ProviderInvalid "provider_problem list" | DuplicateProvider string
  | FreeToolEmpty | DuplicateFreeTool string | FreeAndCharged string

fun collect_providers :: "provider list \<Rightarrow> string set \<Rightarrow> provider list \<Rightarrow> plan_error + provider list" where
  "collect_providers [] names acc = Inr acc"
| "collect_providers (p # ps) names acc =
     (if provider_validate p \<noteq> [] then Inl (ProviderInvalid (provider_validate p))
      else if pv_name p \<in> names then Inl (DuplicateProvider (pv_name p))
      else collect_providers ps (insert (pv_name p) names) (acc @ [p]))"

definition index_tool :: "provider \<Rightarrow> (string \<rightharpoonup> provider list) \<Rightarrow> string \<Rightarrow> (string \<rightharpoonup> provider list)" where
  "index_tool p m tool =
     m(tool \<mapsto> (case m tool of None \<Rightarrow> [] | Some ps \<Rightarrow> ps) @ [p])"

definition index_provider :: "(string \<rightharpoonup> provider list) \<Rightarrow> provider \<Rightarrow> (string \<rightharpoonup> provider list)" where
  "index_provider m p = foldl (index_tool p) m (pv_tools p)"

fun collect_free ::
  "(string \<rightharpoonup> provider list) \<Rightarrow> string list \<Rightarrow> string list \<Rightarrow> plan_error + string list" where
  "collect_free by_tool [] free = Inr free"
| "collect_free by_tool (tool # tools) free =
     (let name = trim_space tool in
      if name = [] then Inl FreeToolEmpty
      else if name \<in> set free then Inl (DuplicateFreeTool name)
      else if by_tool name \<noteq> None then Inl (FreeAndCharged name)
      else collect_free by_tool tools (free @ [name]))"

definition new_plan :: "provider list \<Rightarrow> string list \<Rightarrow> plan_error + plan" where
  "new_plan providers free_tools =
     (case collect_providers providers {} [] of
        Inl e \<Rightarrow> Inl e
      | Inr ps \<Rightarrow>
          let sorted_ps = sort_key pv_name ps;
              by_tool = foldl index_provider Map.empty sorted_ps
          in case collect_free by_tool free_tools [] of
               Inl e \<Rightarrow> Inl e
             | Inr free \<Rightarrow> Inr \<lparr>pl_providers = sorted_ps, pl_by_tool = by_tool, pl_free = free\<rparr>)"

definition is_declared :: "plan \<Rightarrow> string \<Rightarrow> bool" where
  "is_declared p tool = (if pl_by_tool p tool \<noteq> None then True else tool \<in> set (pl_free p))"

definition free_tools :: "plan \<Rightarrow> string list" where
  "free_tools p = sort (pl_free p)"

definition charge_of :: "gotime \<Rightarrow> provider \<Rightarrow> charge" where
  "charge_of now p = \<lparr>ch_provider = pv_name p, ch_limit = pv_limit p,
     ch_start = window_start p now, ch_end = add_time (window_start p now) (pv_window p)\<rparr>"

definition charges :: "plan \<Rightarrow> string \<Rightarrow> gotime \<Rightarrow> charge list" where
  "charges p tool now = map (charge_of now) (case pl_by_tool p tool of None \<Rightarrow> [] | Some ps \<Rightarrow> ps)"

section \<open>Reservations\<close>

record reservation =
  rs_analyst :: string
  rs_charges :: "charge list"

fun charge_list_problems :: "string set \<Rightarrow> charge list \<Rightarrow> reservation_problem list" where
  "charge_list_problems seen [] = []"
| "charge_list_problems seen (c # cs) =
     (if charge_validate c \<noteq> [] then charge_validate c @ charge_list_problems seen cs
      else if ch_provider c \<in> seen then ChargedTwice (ch_provider c) # charge_list_problems seen cs
      else charge_list_problems (insert (ch_provider c) seen) cs)"

definition reservation_validate :: "reservation \<Rightarrow> reservation_problem list" where
  "reservation_validate r =
     (if trim_space (rs_analyst r) = [] then [NoAnalyst] else [])
     @ (if rs_charges r = [] then [NoCharges] else [])
     @ charge_list_problems {} (rs_charges r)"

section \<open>The gate\<close>

datatype store_error =
    InvalidReservation "reservation_problem list"
  | Exhausted exhausted_error
  | CounterUnavailable

text \<open>\<open>Admit\<close>'s two classes of refusal.\<close>

datatype admit_error = AdmitExhausted exhausted_error | AdmitUnavailable

definition admit ::
  "plan \<Rightarrow> (reservation \<Rightarrow> 'db \<Rightarrow> store_error option \<times> 'db) \<Rightarrow> string \<Rightarrow> string \<Rightarrow> gotime \<Rightarrow> 'db
     \<Rightarrow> admit_error option \<times> 'db" where
  "admit p reserve analyst tool now db =
     (if pl_providers p = [] then (None, db)
      else if trim_space analyst = [] then (Some AdmitUnavailable, db)
      else if trim_space tool = [] then (Some AdmitUnavailable, db)
      else if is_zero now then (Some AdmitUnavailable, db)
      else if charges p tool now = [] then (None, db)
      else case reserve \<lparr>rs_analyst = analyst, rs_charges = charges p tool now\<rparr> db of
             (None, db') \<Rightarrow> (None, db')
           | (Some (Exhausted e), db') \<Rightarrow> (Some (AdmitExhausted e), db')
           | (Some _, db') \<Rightarrow> (Some AdmitUnavailable, db'))"

section \<open>An analyst's own standing\<close>

record standing =
  sd_provider :: string
  sd_limit :: int
  sd_window :: int
  sd_used :: int
  sd_resets :: gotime

definition standing_entry :: "gotime \<Rightarrow> provider \<Rightarrow> standing" where
  "standing_entry now p = \<lparr>sd_provider = pv_name p, sd_limit = pv_limit p, sd_window = pv_window p,
     sd_used = -1, sd_resets = ch_end (charge_of now p)\<rparr>"

definition standing_of ::
  "plan \<Rightarrow> (string \<Rightarrow> charge list \<Rightarrow> int list option) option \<Rightarrow> string \<Rightarrow> string list \<Rightarrow> gotime
     \<Rightarrow> standing list \<times> bool" where
  "standing_of p self analyst tools now =
     (if pl_providers p = [] \<or> tools = [] then ([], True)
      else
        let ps = filter (\<lambda>q. list_ex (\<lambda>t. t \<in> set tools) (pv_tools q)) (pl_providers p);
            out = map (standing_entry now) ps
        in if out = [] \<or> self = None then (out, True)
           else if analyst = [] then (out, False)
           else case the self analyst (map (charge_of now) ps) of
                  None \<Rightarrow> (out, False)
                | Some used \<Rightarrow>
                    if length used \<noteq> length out then (out, False)
                    else (map2 (\<lambda>s u. s\<lparr>sd_used := u\<rparr>) out used, True))"

section \<open>What validation establishes\<close>

definition wf_provider :: "provider \<Rightarrow> bool" where
  "wf_provider p =
     (pv_name p \<noteq> [] \<and> trimmed (pv_name p) \<and> \<not> blank (pv_upstream p) \<and> 0 < pv_limit p
      \<and> 0 < pv_window p \<and> pv_tools p \<noteq> [] \<and> distinct (pv_tools p)
      \<and> list_all (\<lambda>t. \<not> blank t) (pv_tools p))"

lemma provider_tool_problems_Nil:
  "provider_tool_problems n seen ts = [] \<longleftrightarrow>
     (\<forall>t\<in>set ts. \<not> blank t) \<and> distinct ts \<and> set ts \<inter> seen = {}"
  by (induction n seen ts rule: provider_tool_problems.induct) (auto simp: blank_def)

lemma provider_validate_Nil: "provider_validate p = [] \<longleftrightarrow> wf_provider p"
  by (auto simp: provider_validate_def wf_provider_def provider_tool_problems_Nil trimmed_def
      blank_def split: if_splits)

lemma collect_providers_iff:
  "collect_providers ps names acc = Inr out \<longleftrightarrow>
     (\<forall>p\<in>set ps. wf_provider p \<and> pv_name p \<notin> names) \<and> distinct (map pv_name ps) \<and> out = acc @ ps"
  by (induction ps names acc rule: collect_providers.induct)
    (auto simp: provider_validate_Nil rev_image_eqI)

definition spenders :: "provider list \<Rightarrow> string \<Rightarrow> provider list" where
  "spenders ps tool = filter (\<lambda>p. tool \<in> set (pv_tools p)) ps"

lemma foldl_index_tool:
  "distinct ts \<Longrightarrow> foldl (index_tool p) m ts tool =
     (if tool \<in> set ts then Some ((case m tool of None \<Rightarrow> [] | Some ps \<Rightarrow> ps) @ [p]) else m tool)"
  by (induction ts arbitrary: m) (auto simp: index_tool_def)

lemma foldl_index_provider:
  "\<forall>p\<in>set ps. wf_provider p \<Longrightarrow> foldl index_provider m ps tool =
     (if spenders ps tool = [] then m tool
      else Some ((case m tool of None \<Rightarrow> [] | Some qs \<Rightarrow> qs) @ spenders ps tool))"
proof (induction ps arbitrary: m)
  case Nil
  then show ?case by (simp add: spenders_def)
next
  case (Cons p ps)
  have "distinct (pv_tools p)" using Cons.prems by (simp add: wf_provider_def)
  then have "index_provider m p tool =
      (if tool \<in> set (pv_tools p) then Some ((case m tool of None \<Rightarrow> [] | Some qs \<Rightarrow> qs) @ [p])
       else m tool)" by (simp add: index_provider_def foldl_index_tool)
  with Cons show ?case by (auto simp: spenders_def)
qed

lemma collect_free_iff:
  "collect_free by_tool ts free = Inr out \<longleftrightarrow>
     (\<forall>t\<in>set ts. \<not> blank t \<and> by_tool (trim_space t) = None \<and> trim_space t \<notin> set free)
     \<and> distinct (map trim_space ts) \<and> out = free @ map trim_space ts"
  by (induction by_tool ts free rule: collect_free.induct)
    (auto simp: Let_def blank_def rev_image_eqI)

text \<open>A plan as \<open>NewPlan\<close> returns it.\<close>

definition wf_plan :: "plan \<Rightarrow> bool" where
  "wf_plan pl =
     (list_all wf_provider (pl_providers pl) \<and> distinct (map pv_name (pl_providers pl))
      \<and> sorted (map pv_name (pl_providers pl))
      \<and> (\<forall>tool. pl_by_tool pl tool =
           (if spenders (pl_providers pl) tool = [] then None
            else Some (spenders (pl_providers pl) tool)))
      \<and> (\<forall>t\<in>set (pl_free pl). t \<noteq> [] \<and> pl_by_tool pl t = None))"

lemma new_plan_Inr:
  assumes "new_plan ps free = Inr pl"
  shows "wf_plan pl" "set (pl_providers pl) = set ps" "pl_free pl = map trim_space free"
proof -
  let ?ps = "sort_key pv_name ps"
  from assms have ps: "\<forall>p\<in>set ps. wf_provider p" "distinct (map pv_name ps)"
    and fr: "collect_free (foldl index_provider Map.empty ?ps) free [] = Inr (pl_free pl)"
    and pl: "pl_providers pl = ?ps" "pl_by_tool pl = foldl index_provider Map.empty ?ps"
    by (auto simp: new_plan_def Let_def collect_providers_iff split: sum.splits)
  have "distinct (map pv_name ?ps)" using ps(2) by (auto simp: distinct_map)
  moreover have "pl_by_tool pl tool = (if spenders ?ps tool = [] then None else Some (spenders ?ps tool))" for tool
    using foldl_index_provider [of ?ps Map.empty tool] ps(1) by (simp add: pl)
  moreover have "\<forall>t\<in>set (pl_free pl). t \<noteq> [] \<and> pl_by_tool pl t = None"
    using fr by (auto simp: collect_free_iff pl blank_def)
  ultimately show "wf_plan pl" using ps(1) by (simp add: wf_plan_def pl)
  show "set (pl_providers pl) = set ps" by (simp add: pl)
  show "pl_free pl = map trim_space free" using fr by (simp add: collect_free_iff)
qed

lemma charges_wf:
  "wf_plan pl \<Longrightarrow> charges pl tool now = map (charge_of now) (spenders (pl_providers pl) tool)"
  by (simp add: charges_def wf_plan_def)

section \<open>The contract of a counter store\<close>

text \<open>The calls a gate granted, in order, when a sequence of requests is put to it.\<close>

fun admit_next ::
  "plan \<Rightarrow> ('env \<Rightarrow> reservation \<Rightarrow> 'db \<Rightarrow> store_error option \<times> 'db)
     \<Rightarrow> (string \<times> string \<times> gotime) list \<times> 'db \<Rightarrow> 'env \<times> string \<times> string \<times> gotime
     \<Rightarrow> (string \<times> string \<times> gotime) list \<times> 'db" where
  "admit_next pl reserve (granted, db) (env, analyst, tool, now) =
     (case admit pl (reserve env) analyst tool now db of
        (None, db') \<Rightarrow> (granted @ [(analyst, tool, now)], db')
      | (Some _, db') \<Rightarrow> (granted, db'))"

definition run_admits ::
  "plan \<Rightarrow> ('env \<Rightarrow> reservation \<Rightarrow> 'db \<Rightarrow> store_error option \<times> 'db)
     \<Rightarrow> ('env \<times> string \<times> string \<times> gotime) list \<Rightarrow> 'db \<Rightarrow> (string \<times> string \<times> gotime) list \<times> 'db" where
  "run_admits pl reserve calls db = foldl (admit_next pl reserve) ([], db) calls"

definition spent_in_window :: "provider \<Rightarrow> string \<Rightarrow> gotime \<Rightarrow> (string \<times> string \<times> gotime) list \<Rightarrow> nat" where
  "spent_in_window p analyst w granted =
     length (filter (\<lambda>(a, tool, now). a = analyst \<and> tool \<in> set (pv_tools p) \<and> window_start p now = w) granted)"

definition spent_between :: "provider \<Rightarrow> string \<Rightarrow> int \<Rightarrow> int \<Rightarrow> (string \<times> string \<times> gotime) list \<Rightarrow> nat" where
  "spent_between p analyst t0 t1 granted =
     length (filter (\<lambda>(a, tool, now). a = analyst \<and> tool \<in> set (pv_tools p)
       \<and> t0 \<le> g_ns now \<and> g_ns now < t1) granted)"

lemma run_admits_Nil [simp]: "run_admits pl reserve [] db = ([], db)"
  by (simp add: run_admits_def)

lemma run_admits_snoc:
  "run_admits pl reserve (calls @ [(env, a, tool, now)]) db =
     (case run_admits pl reserve calls db of (granted, db1) \<Rightarrow>
        case admit pl (reserve env) a tool now db1 of
          (None, db') \<Rightarrow> (granted @ [(a, tool, now)], db')
        | (Some _, db') \<Rightarrow> (granted, db'))"
  by (cases "foldl (admit_next pl reserve) ([], db) calls") (simp add: run_admits_def)

lemma spent_between_two_windows:
  assumes "0 < pv_window p"
  shows "spent_between p a t0 (t0 + pv_window p) granted
    \<le> spent_in_window p a \<lparr>g_ns = pv_window p * (t0 div pv_window p), g_off = 0\<rparr> granted
      + spent_in_window p a \<lparr>g_ns = pv_window p * (t0 div pv_window p + 1), g_off = 0\<rparr> granted"
proof -
  let ?d = "pv_window p"
  have win: "window_start p now = \<lparr>g_ns = ?d * (g_ns now div ?d), g_off = 0\<rparr>" for now
    using assms by (simp add: window_start_def utc_def trunc_time_def minus_mod_eq_mult_div)
  have "length (filter P xs) \<le> length (filter Q xs) + length (filter R xs)"
    if "\<And>x. x \<in> set xs \<Longrightarrow> P x \<Longrightarrow> Q x \<or> R x" for P Q R and xs :: "(string \<times> string \<times> gotime) list"
    using that by (induction xs) (auto simp: le_SucI)
  then show ?thesis
    unfolding spent_between_def spent_in_window_def
    by this (use two_windows [OF assms] in \<open>auto simp: win\<close>)
qed

locale quota_store =
  fixes reserve :: "'env \<Rightarrow> reservation \<Rightarrow> 'db \<Rightarrow> store_error option \<times> 'db"
    and used :: "'db \<Rightarrow> string \<Rightarrow> string \<Rightarrow> gotime \<Rightarrow> int"
  assumes refused: "reserve env r db = (Some e, db') \<Longrightarrow> db' = db"
    and granted: "reserve env r db = (None, db') \<Longrightarrow> c \<in> set (rs_charges r) \<Longrightarrow>
      used db' (rs_analyst r) (ch_provider c) (ch_start c)
        = used db (rs_analyst r) (ch_provider c) (ch_start c) + 1
      \<and> fits c (used db' (rs_analyst r) (ch_provider c) (ch_start c))"
    and never_lowered: "reserve env r db = (None, db') \<Longrightarrow> used db a p w \<le> used db' a p w"
begin

lemma admit_refused: "admit pl (reserve env) a tool now db = (Some e, db') \<Longrightarrow> db' = db"
  by (auto simp: admit_def dest: refused split: if_splits prod.splits option.splits store_error.splits)

lemma admit_granted:
  assumes "wf_plan pl" "admit pl (reserve env) a tool now db = (None, db')"
  shows "used db a' q w \<le> used db' a' q w"
    and "p \<in> set (pl_providers pl) \<Longrightarrow> tool \<in> set (pv_tools p) \<Longrightarrow>
      used db' a (pv_name p) (window_start p now) = used db a (pv_name p) (window_start p now) + 1
      \<and> used db' a (pv_name p) (window_start p now) \<le> pv_limit p"
proof -
  let ?r = "\<lparr>rs_analyst = a, rs_charges = charges pl tool now\<rparr>"
  have cases: "db' = db \<and> (pl_providers pl = [] \<or> charges pl tool now = [])
      \<or> reserve env ?r db = (None, db')"
    using assms(2)
    by (auto simp: admit_def split: if_splits prod.splits option.splits store_error.splits)
  then show "used db a' q w \<le> used db' a' q w" using never_lowered by blast
  assume p: "p \<in> set (pl_providers pl)" "tool \<in> set (pv_tools p)"
  then have c: "charge_of now p \<in> set (charges pl tool now)"
    by (auto simp: charges_wf [OF assms(1)] spenders_def)
  with cases p have "reserve env ?r db = (None, db')" by auto
  from granted [OF this, of "charge_of now p"] c
  show "used db' a (pv_name p) (window_start p now) = used db a (pv_name p) (window_start p now) + 1
      \<and> used db' a (pv_name p) (window_start p now) \<le> pv_limit p"
    by (simp add: charge_of_def fits_def)
qed

lemma window_count:
  assumes "wf_plan pl" "p \<in> set (pl_providers pl)" "0 \<le> used db a (pv_name p) w"
    and "run_admits pl reserve calls db = (out, db')"
  shows "int (spent_in_window p a w out) \<le> used db' a (pv_name p) w
    \<and> int (spent_in_window p a w out) \<le> pv_limit p"
  using assms(4)
proof (induction calls arbitrary: out db' rule: rev_induct)
  case Nil
  moreover have "0 < pv_limit p" using assms(1,2) by (simp add: wf_plan_def wf_provider_def)
  ultimately show ?case using assms(3) by (simp add: spent_in_window_def)
next
  case (snoc c calls)
  obtain env a' tool now where c: "c = (env, a', tool, now)" by (cases c) auto
  obtain out1 db1 where run: "run_admits pl reserve calls db = (out1, db1)" by fastforce
  note ih = snoc.IH [OF run]
  show ?case
  proof (cases "admit pl (reserve env) a' tool now db1")
    case (Pair res db2)
    show ?thesis
    proof (cases res)
      case (Some e)
      with Pair admit_refused have "db2 = db1" by blast
      with Some snoc.prems Pair ih show ?thesis by (simp add: c run_admits_snoc run)
    next
      case None
      with Pair have ok: "admit pl (reserve env) a' tool now db1 = (None, db2)" by simp
      then have eq: "out = out1 @ [(a', tool, now)]" "db' = db2"
        using snoc.prems by (simp_all add: c run_admits_snoc run)
      note up = admit_granted [OF assms(1) ok]
      show ?thesis
      proof (cases "a' = a \<and> tool \<in> set (pv_tools p) \<and> window_start p now = w")
        case True
        then have "spent_in_window p a w out = spent_in_window p a w out1 + 1"
          by (simp add: eq spent_in_window_def)
        moreover have "used db2 a (pv_name p) w = used db1 a (pv_name p) w + 1
            \<and> used db2 a (pv_name p) w \<le> pv_limit p"
          using up(2) [OF assms(2)] True by blast
        ultimately show ?thesis using ih by (simp add: eq(2))
      next
        case False
        then have "spent_in_window p a w out = spent_in_window p a w out1"
          by (auto simp: eq spent_in_window_def)
        with ih up(1) [of a "pv_name p" w] show ?thesis by (simp add: eq(2))
      qed
    qed
  qed
qed

lemma interval_count:
  assumes "wf_plan pl" "p \<in> set (pl_providers pl)" "\<And>w. 0 \<le> used db a (pv_name p) w"
    and "run_admits pl reserve calls db = (out, db')"
  shows "int (spent_between p a t0 (t0 + pv_window p) out) \<le> 2 * pv_limit p"
proof -
  have "0 < pv_window p" using assms(1,2) by (simp add: wf_plan_def wf_provider_def)
  from spent_between_two_windows [OF this, of a t0 out]
    window_count [OF assms(1,2) assms(3) assms(4)] show ?thesis by (smt (verit) of_nat_add of_nat_mono)
qed

end

end
