(* ===== verification/Quota_Store.thy ===== *)
theory Quota_Store
  imports Quota
begin

text \<open>
  Model of \<open>internal/quota/sqlite/sqlite.go\<close>: the counter table, \<open>debit\<close> as its one
  incrementing statement, \<open>Reserve\<close> as one transaction over the charges, and the two readers. It
  interprets the \<open>quota_store\<close> contract, whatever statements the database refuses and however a
  window start is spelled.
\<close>

section \<open>The counter table\<close>

type_synonym counter_key = "string \<times> string \<times> string"
type_synonym counters = "(counter_key \<times> int) list"

datatype qtstmt = QtBegin | QtCommit | QtDebit string | QtRead

type_synonym qtfault = "qtstmt \<Rightarrow> bool"

definition counter :: "counters \<Rightarrow> counter_key \<Rightarrow> int" where
  "counter db k = (case map_of db k of None \<Rightarrow> 0 | Some n \<Rightarrow> n)"

text \<open>The upsert: a first row with 1, or the stored count plus one; the new value is returned.\<close>

fun upsert :: "counter_key \<Rightarrow> counters \<Rightarrow> counters" where
  "upsert k [] = [(k, 1)]"
| "upsert k ((k', n) # rest) = (if k' = k then (k', n + 1) # rest else (k', n) # upsert k rest)"

definition debit ::
  "layout \<Rightarrow> qtfault \<Rightarrow> string \<Rightarrow> charge \<Rightarrow> (counters, store_error, int) tx" where
  "debit fmt fault analyst c =
     tx_stmt (fault (QtDebit (ch_provider c))) CounterUnavailable
       (\<lambda>db. let k = (analyst, ch_provider c, fmt (ch_start c)) in
             Inr (counter (upsert k db) k, upsert k db))"

fun debit_all ::
  "layout \<Rightarrow> qtfault \<Rightarrow> string \<Rightarrow> charge list \<Rightarrow> (counters, store_error, unit) tx" where
  "debit_all fmt fault analyst [] = tx_return ()"
| "debit_all fmt fault analyst (c # cs) =
     tx_bind (debit fmt fault analyst c) (\<lambda>n.
       if \<not> fits c n then tx_fail (Exhausted (exhausted c)) else debit_all fmt fault analyst cs)"

definition error_of :: "'e + 'a \<Rightarrow> 'e option" where
  "error_of r = (case r of Inl e \<Rightarrow> Some e | Inr _ \<Rightarrow> None)"

definition reserve :: "layout \<Rightarrow> qtfault \<Rightarrow> reservation \<Rightarrow> counters \<Rightarrow> store_error option \<times> counters" where
  "reserve fmt fault r db =
     (if reservation_validate r \<noteq> [] then (Some (InvalidReservation (reservation_validate r)), db)
      else map_prod error_of id
        (transact (fault QtBegin) (fault QtCommit) CounterUnavailable
          (debit_all fmt fault (rs_analyst r) (rs_charges r)) db))"

record usage =
  us_analyst :: string
  us_provider :: string
  us_window :: gotime
  us_used :: int

text \<open>\<open>parse\<close> is \<open>time.Parse\<close> under the stored layout; one unreadable row fails the whole read.\<close>

fun usage_rows :: "(string \<Rightarrow> gotime option) \<Rightarrow> counters \<Rightarrow> usage list option" where
  "usage_rows parse [] = Some []"
| "usage_rows parse (((a, p, w), n) # rest) =
     (case parse w of
        None \<Rightarrow> None
      | Some t \<Rightarrow> map_option (Cons \<lparr>us_analyst = a, us_provider = p, us_window = utc t, us_used = n\<rparr>)
          (usage_rows parse rest))"

definition usage_all :: "(string \<Rightarrow> gotime option) \<Rightarrow> bool \<Rightarrow> counters \<Rightarrow> usage list option" where
  "usage_all parse broken db = (if broken then None else usage_rows parse (sort_key fst db))"

definition spent_by :: "layout \<Rightarrow> bool \<Rightarrow> string \<Rightarrow> charge list \<Rightarrow> counters \<Rightarrow> int list option" where
  "spent_by fmt broken analyst cs db =
     (if broken \<and> cs \<noteq> [] then None
      else Some (map (\<lambda>c. counter db (analyst, ch_provider c, fmt (utc (ch_start c)))) cs))"

section \<open>Facts\<close>

lemma counter_upsert: "counter (upsert k db) k' = counter db k' + (if k' = k then 1 else 0)"
  by (induction k db rule: upsert.induct) (auto simp: counter_def)

lemma debit_Inr:
  "debit fmt fault a c db = Inr (n, db') \<longleftrightarrow>
     \<not> fault (QtDebit (ch_provider c)) \<and> db' = upsert (a, ch_provider c, fmt (ch_start c)) db
     \<and> n = counter db (a, ch_provider c, fmt (ch_start c)) + 1"
  by (auto simp: debit_def tx_stmt_Inr Let_def counter_upsert)

lemma charge_list_problems_Nil:
  "charge_list_problems seen cs = [] \<longleftrightarrow>
     (\<forall>c\<in>set cs. charge_validate c = [] \<and> ch_provider c \<notin> seen) \<and> distinct (map ch_provider cs)"
  by (induction seen cs rule: charge_list_problems.induct) (auto simp: rev_image_eqI)

lemma reservation_validate_Nil:
  "reservation_validate r = [] \<longleftrightarrow>
     \<not> blank (rs_analyst r) \<and> rs_charges r \<noteq> []
     \<and> (\<forall>c\<in>set (rs_charges r). charge_validate c = []) \<and> distinct (map ch_provider (rs_charges r))"
  by (auto simp: reservation_validate_def charge_list_problems_Nil blank_def)

definition charge_keys :: "layout \<Rightarrow> reservation \<Rightarrow> counter_key list" where
  "charge_keys fmt r = map (\<lambda>c. (rs_analyst r, ch_provider c, fmt (ch_start c))) (rs_charges r)"

lemma counter_upserts:
  "distinct ks \<Longrightarrow> counter (foldl (\<lambda>db k. upsert k db) db ks) k = counter db k + (if k \<in> set ks then 1 else 0)"
  by (induction ks arbitrary: db) (auto simp: counter_upsert)

lemma debit_all_Inr:
  assumes "distinct (map ch_provider cs)"
  shows "debit_all fmt fault a cs db = Inr ((), db') \<longleftrightarrow>
     (\<forall>c\<in>set cs. \<not> fault (QtDebit (ch_provider c))
        \<and> fits c (counter db (a, ch_provider c, fmt (ch_start c)) + 1))
     \<and> db' = foldl (\<lambda>db k. upsert k db) db (map (\<lambda>c. (a, ch_provider c, fmt (ch_start c))) cs)"
  using assms
proof (induction cs arbitrary: db)
  case Nil
  then show ?case by (auto simp: tx_Inr)
next
  case (Cons c cs)
  let ?k = "(a, ch_provider c, fmt (ch_start c))"
  have same: "counter (upsert ?k db) (a, ch_provider d, fmt (ch_start d))
      = counter db (a, ch_provider d, fmt (ch_start d))" if "d \<in> set cs" for d
  proof -
    have "ch_provider d \<noteq> ch_provider c" using Cons.prems that by (auto simp: rev_image_eqI)
    then show ?thesis by (simp add: counter_upsert)
  qed
  have "debit_all fmt fault a (c # cs) db = Inr ((), db') \<longleftrightarrow>
      \<not> fault (QtDebit (ch_provider c)) \<and> fits c (counter db ?k + 1)
      \<and> debit_all fmt fault a cs (upsert ?k db) = Inr ((), db')"
    by (auto simp: tx_bind_Inr debit_Inr tx_fail_Inr)
  also have "\<dots> \<longleftrightarrow> \<not> fault (QtDebit (ch_provider c)) \<and> fits c (counter db ?k + 1)
      \<and> (\<forall>d\<in>set cs. \<not> fault (QtDebit (ch_provider d))
          \<and> fits d (counter db (a, ch_provider d, fmt (ch_start d)) + 1))
      \<and> db' = foldl (\<lambda>db k. upsert k db) (upsert ?k db) (map (\<lambda>c. (a, ch_provider c, fmt (ch_start c))) cs)"
    using Cons.IH [of "upsert ?k db"] Cons.prems same by auto
  finally show ?case by auto
qed

lemma debit_all_Exhausted:
  assumes "distinct (map ch_provider cs)" "debit_all fmt fault a cs db = Inl (Exhausted e)"
  shows "\<exists>c\<in>set cs. e = exhausted c \<and> \<not> fits c (counter db (a, ch_provider c, fmt (ch_start c)) + 1)"
  using assms
proof (induction cs arbitrary: db)
  case Nil
  then show ?case by (simp add: tx_return_def)
next
  case (Cons c cs)
  let ?k = "(a, ch_provider c, fmt (ch_start c))"
  have same: "counter (upsert ?k db) (a, ch_provider d, fmt (ch_start d))
      = counter db (a, ch_provider d, fmt (ch_start d))" if "d \<in> set cs" for d
  proof -
    have "ch_provider d \<noteq> ch_provider c" using Cons.prems(1) that by (auto simp: rev_image_eqI)
    then show ?thesis by (simp add: counter_upsert)
  qed
  from Cons.prems(2) have "\<not> fits c (counter db ?k + 1) \<and> e = exhausted c
      \<or> debit_all fmt fault a cs (upsert ?k db) = Inl (Exhausted e)"
    by (auto simp: tx_bind_def debit_def tx_stmt_def tx_fail_def Let_def counter_upsert split: if_splits)
  then show ?case
  proof
    assume "debit_all fmt fault a cs (upsert ?k db) = Inl (Exhausted e)"
    with Cons.IH Cons.prems(1) obtain d where "d \<in> set cs" "e = exhausted d"
      "\<not> fits d (counter (upsert ?k db) (a, ch_provider d, fmt (ch_start d)) + 1)" by auto
    with same show ?thesis by auto
  qed auto
qed

lemma reserve_Exhausted:
  assumes "reserve fmt fault r db = (Some (Exhausted e), db')"
  shows "\<exists>c\<in>set (rs_charges r). e = exhausted c
    \<and> \<not> fits c (counter db (rs_analyst r, ch_provider c, fmt (ch_start c)) + 1)"
proof -
  from assms have "reservation_validate r = []"
    and "debit_all fmt fault (rs_analyst r) (rs_charges r) db = Inl (Exhausted e)"
    by (auto simp: reserve_def transact_def error_of_def map_prod_def split: if_splits sum.splits prod.splits)
  then show ?thesis by (intro debit_all_Exhausted) (auto simp: reservation_validate_Nil)
qed

lemma reserve_None:
  "reserve fmt fault r db = (None, db') \<longleftrightarrow>
     reservation_validate r = [] \<and> \<not> fault QtBegin \<and> \<not> fault QtCommit
     \<and> (\<forall>c\<in>set (rs_charges r). \<not> fault (QtDebit (ch_provider c))
          \<and> fits c (counter db (rs_analyst r, ch_provider c, fmt (ch_start c)) + 1))
     \<and> db' = foldl (\<lambda>db k. upsert k db) db (charge_keys fmt r)"
proof -
  have "map_prod error_of id p = (None, db') \<longleftrightarrow> (\<exists>x. p = (Inr x, db'))" for p :: "(store_error + unit) \<times> counters"
    by (cases p) (auto simp: error_of_def split: sum.splits)
  then show ?thesis
    using debit_all_Inr [of "rs_charges r" fmt fault "rs_analyst r" db db']
    by (auto simp: reserve_def transact_Inr reservation_validate_Nil charge_keys_def)
qed

lemma reserve_Some: "reserve fmt fault r db = (Some e, db') \<Longrightarrow> db' = db"
  by (cases "transact (fault QtBegin) (fault QtCommit) CounterUnavailable
      (debit_all fmt fault (rs_analyst r) (rs_charges r)) db")
    (auto simp: reserve_def error_of_def split: if_splits sum.splits dest: transact_Inl)

lemma charge_keys_distinct: "reservation_validate r = [] \<Longrightarrow> distinct (charge_keys fmt r)"
  by (auto simp: reservation_validate_Nil charge_keys_def distinct_map inj_on_def)

definition used_at :: "layout \<Rightarrow> counters \<Rightarrow> string \<Rightarrow> string \<Rightarrow> gotime \<Rightarrow> int" where
  "used_at fmt db a p w = counter db (a, p, fmt w)"

interpretation sqlite: quota_store "reserve fmt" "used_at fmt" for fmt
proof
  fix env r db e db' c a p w
  show "db' = db" if "reserve fmt env r db = (Some e, db')" using that by (rule reserve_Some)
  assume ok: "reserve fmt env r db = (None, db')"
  then have d: "distinct (charge_keys fmt r)"
    and db': "db' = foldl (\<lambda>db k. upsert k db) db (charge_keys fmt r)"
    using charge_keys_distinct by (auto simp: reserve_None)
  show "used_at fmt db a p w \<le> used_at fmt db' a p w"
    by (simp add: used_at_def db' counter_upserts [OF d])
  assume c: "c \<in> set (rs_charges r)"
  then have "(rs_analyst r, ch_provider c, fmt (ch_start c)) \<in> set (charge_keys fmt r)"
    by (auto simp: charge_keys_def)
  with c show "used_at fmt db' (rs_analyst r) (ch_provider c) (ch_start c)
        = used_at fmt db (rs_analyst r) (ch_provider c) (ch_start c) + 1
      \<and> fits c (used_at fmt db' (rs_analyst r) (ch_provider c) (ch_start c))"
    using ok by (simp add: used_at_def db' counter_upserts [OF d] reserve_None)
qed

section \<open>Properties\<close>

definition sample_provider :: provider where
  "sample_provider = \<lparr>pv_name = ''virustotal'', pv_upstream = ''threatintel'', pv_limit = 1,
     pv_window = 100, pv_tools = [''threatintel.lookup_ip'']\<rparr>"

definition sample_plan :: plan where
  "sample_plan = \<lparr>pl_providers = [sample_provider],
     pl_by_tool = [''threatintel.lookup_ip'' \<mapsto> [sample_provider]], pl_free = []\<rparr>"

lemma sample_plan_new: "new_plan [sample_provider] [] = Inr sample_plan"
proof -
  have "wf_provider sample_provider" by code_simp
  then have "collect_providers [sample_provider] {} [] = Inr [sample_provider]"
    by (simp add: provider_validate_Nil)
  moreover have "pv_tools sample_provider = [''threatintel.lookup_ip'']"
    by (simp add: sample_provider_def)
  ultimately show ?thesis
    by (simp add: new_plan_def sample_plan_def Let_def index_provider_def index_tool_def
        del: collect_providers.simps)
qed

lemma sample_plan_wf: "wf_plan sample_plan"
  using new_plan_Inr(1) [OF sample_plan_new] .

definition sample_layout :: layout where
  "sample_layout t = replicate (nat (g_ns t)) (CHR ''x'')"

text \<open>
  (Reserve) a reservation is all or nothing. It is granted exactly when it is well formed, no statement
  is refused and every account's count after its debit fits its limit; then every account of the call is debited by
  one and no other counter moves. In every other case (a malformed reservation, a spent account, a failed
  begin, debit or commit) the counters are exactly what they were.
\<close>
theorem reserve_all_or_nothing:
  "(case reserve fmt fault r db of
      (None, db') \<Rightarrow> reservation_validate r = [] \<and> \<not> fault QtBegin \<and> \<not> fault QtCommit
        \<and> list_all (\<lambda>c. \<not> fault (QtDebit (ch_provider c))
             \<and> fits c (counter db (rs_analyst r, ch_provider c, fmt (ch_start c)) + 1)) (rs_charges r)
        \<and> (\<forall>k. counter db' k = counter db k + (if k \<in> set (charge_keys fmt r) then 1 else 0))
    | (Some e, db') \<Rightarrow> db' = db
        \<and> (reservation_validate r \<noteq> [] \<or> fault QtBegin \<or> fault QtCommit
           \<or> list_ex (\<lambda>c. fault (QtDebit (ch_provider c))
               \<or> counter db (rs_analyst r, ch_provider c, fmt (ch_start c)) + 1 > ch_limit c) (rs_charges r)))"
proof (cases "reserve fmt fault r db")
  case (Pair res db')
  show ?thesis
  proof (cases res)
    case None
    with Pair reserve_None [of fmt fault r db db'] charge_keys_distinct [of r fmt] show ?thesis
      by (auto simp: counter_upserts)
  next
    case (Some e)
    then have "\<not> (reservation_validate r = [] \<and> \<not> fault QtBegin \<and> \<not> fault QtCommit
        \<and> (\<forall>c\<in>set (rs_charges r). \<not> fault (QtDebit (ch_provider c))
             \<and> fits c (counter db (rs_analyst r, ch_provider c, fmt (ch_start c)) + 1)))"
      using Pair reserve_None [of fmt fault r db "foldl (\<lambda>db k. upsert k db) db (charge_keys fmt r)"]
      by auto
    with Pair Some reserve_Some [of fmt fault r db e db'] show ?thesis
      by (auto simp: fits_def not_le)
  qed
qed

theorem reserve_all_or_nothing_witness:
  "case reserve sample_layout (\<lambda>_. False) \<lparr>rs_analyst = ''ana'', rs_charges = []\<rparr> [] of
      (None, db') \<Rightarrow> False | (Some e, db') \<Rightarrow> db' = []"
proof -
  have "fst (reserve sample_layout (\<lambda>_. False) \<lparr>rs_analyst = ''ana'', rs_charges = []\<rparr> []) \<noteq> None" by code_simp
  then show ?thesis
    using reserve_all_or_nothing [where fmt = sample_layout and fault = "\<lambda>_. False" and db = "[]"
        and r = "\<lparr>rs_analyst = ''ana'', rs_charges = []\<rparr>"]
    by (auto split: option.splits prod.splits)
qed

text \<open>
  C12 (Admit over time): for any sequence of calls by any analysts, interleaved in any order, with any database failures, an analyst is
  granted at most \<open>Limit\<close> calls against an account inside one accounting window.
\<close>
theorem quota_window_bound:
  assumes "new_plan ps free = Inr pl" "p \<in> set ps"
    and "run_admits pl (reserve fmt) calls [] = (out, db')"
  shows "int (spent_in_window p a w out) \<le> pv_limit p"
proof -
  note pl = new_plan_Inr [OF assms(1)]
  have "p \<in> set (pl_providers pl)" using assms(2) pl(2) by simp
  moreover have "0 \<le> used_at fmt [] a (pv_name p) w" by (simp add: used_at_def counter_def)
  ultimately show ?thesis
    using sqlite.window_count [OF pl(1) _ _ assms(3)] by blast
qed

definition sample_requests :: "(qtfault \<times> string \<times> string \<times> gotime) list" where
  "sample_requests =
     [(\<lambda>_. False, ''ana'', ''threatintel.lookup_ip'', \<lparr>g_ns = 199, g_off = 0\<rparr>),
      (\<lambda>_. False, ''ana'', ''threatintel.lookup_ip'', \<lparr>g_ns = 199, g_off = 0\<rparr>),
      (\<lambda>_. False, ''ana'', ''threatintel.lookup_ip'', \<lparr>g_ns = 200, g_off = 0\<rparr>)]"

theorem quota_window_bound_witness:
  "int (spent_in_window sample_provider ''ana'' \<lparr>g_ns = 100, g_off = 0\<rparr>
     (fst (run_admits sample_plan (reserve sample_layout) sample_requests []))) \<le> 1"
proof -
  have "sample_provider \<in> set [sample_provider]" by simp
  from quota_window_bound [OF sample_plan_new this prod.collapse [symmetric]]
  show ?thesis by (simp add: sample_provider_def)
qed

text \<open>
  (the fixed-window residual the sizing rule names) in any interval of one window's length, wherever it starts, an analyst is granted at
  most twice the limit, and that bound is what two adjacent fixed windows allow.
\<close>
theorem quota_interval_bound:
  assumes "new_plan ps free = Inr pl" "p \<in> set ps"
    and "run_admits pl (reserve fmt) calls [] = (out, db')"
  shows "int (spent_between p a t0 (t0 + pv_window p) out) \<le> 2 * pv_limit p"
proof -
  note pl = new_plan_Inr [OF assms(1)]
  have "p \<in> set (pl_providers pl)" using assms(2) pl(2) by simp
  then show ?thesis
    using sqlite.interval_count [OF pl(1) _ _ assms(3)] by (simp add: used_at_def counter_def)
qed

theorem quota_interval_bound_witness:
  "spent_between sample_provider ''ana'' 150 250
     (fst (run_admits sample_plan (reserve sample_layout) sample_requests [])) = 2
   \<and> int (spent_between sample_provider ''ana'' 150 (150 + pv_window sample_provider)
     (fst (run_admits sample_plan (reserve sample_layout) sample_requests []))) \<le> 2 * pv_limit sample_provider"
proof -
  have "sample_provider \<in> set [sample_provider]" by simp
  note b = quota_interval_bound [OF sample_plan_new this prod.collapse [symmetric]]
  have "spent_between sample_provider ''ana'' 150 250
     (fst (run_admits sample_plan (reserve sample_layout) sample_requests [])) = 2" by code_simp
  with b show ?thesis by simp
qed

text \<open>
  (Admit) what a call costs. A granted call debits exactly one unit from each declared account that names its tool, in the
  window containing the call, and touches no other counter, so a call no account names is free; a refusal for exhaustion names an
  account of that tool whose window is in truth spent, carries its declared limit, and debits nothing; every other failure, of any kind, is
  a refusal that debits nothing.
\<close>
theorem admit_exact:
  assumes "new_plan ps free = Inr pl"
  shows "case admit pl (reserve fmt fault) a tool now db of
      (None, db') \<Rightarrow> \<forall>k. counter db' k = counter db k
        + (if list_ex (\<lambda>p. tool \<in> set (pv_tools p) \<and> k = (a, pv_name p, fmt (window_start p now))) ps
           then 1 else 0)
    | (Some (AdmitExhausted e), db') \<Rightarrow> db' = db
        \<and> list_ex (\<lambda>p. tool \<in> set (pv_tools p) \<and> ex_provider e = pv_name p \<and> ex_limit e = pv_limit p
             \<and> pv_limit p \<le> counter db (a, pv_name p, fmt (window_start p now))) ps
    | (Some AdmitUnavailable, db') \<Rightarrow> db' = db"
proof -
  note pl = new_plan_Inr [OF assms]
  let ?cs = "charges pl tool now" and ?r = "\<lparr>rs_analyst = a, rs_charges = charges pl tool now\<rparr>"
  have cs: "set ?cs = charge_of now ` {p \<in> set ps. tool \<in> set (pv_tools p)}"
    using charges_wf [OF pl(1)] pl(2) by (auto simp: spenders_def)
  have keys: "k \<in> set (charge_keys fmt ?r) \<longleftrightarrow>
      (\<exists>p\<in>set ps. tool \<in> set (pv_tools p) \<and> k = (a, pv_name p, fmt (window_start p now)))" for k
    by (auto simp: charge_keys_def cs charge_of_def image_image)
  show ?thesis
  proof (cases "admit pl (reserve fmt fault) a tool now db")
    case (Pair res db')
    show ?thesis
    proof (cases res)
      case None
      with Pair have "db' = db \<and> (pl_providers pl = [] \<or> ?cs = []) \<or> reserve fmt fault ?r db = (None, db')"
        by (auto simp: admit_def split: if_splits prod.splits option.splits store_error.splits)
      moreover have "pl_providers pl = [] \<Longrightarrow> ps = []" using pl(2) by (cases ps) auto
      then have "pl_providers pl = [] \<Longrightarrow> ?cs = []" using cs by simp
      ultimately consider "db' = db" "?cs = []" | "reserve fmt fault ?r db = (None, db')" by blast
      then have "counter db' k = counter db k
          + (if k \<in> set (charge_keys fmt ?r) then 1 else 0)" for k
      proof cases
        case 1
        then show ?thesis by (simp add: charge_keys_def)
      next
        case 2
        then show ?thesis
          using charge_keys_distinct [of ?r fmt] by (simp add: reserve_None counter_upserts)
      qed
      with None Pair show ?thesis by (simp add: keys)
    next
      case (Some e)
      show ?thesis
      proof (cases e)
        case AdmitUnavailable
        with Some Pair show ?thesis using sqlite.admit_refused by fastforce
      next
        case (AdmitExhausted x)
        with Some Pair have "reserve fmt fault ?r db = (Some (Exhausted x), db')"
          by (auto simp: admit_def split: if_splits prod.splits option.splits store_error.splits)
        from reserve_Exhausted [OF this] obtain c where "c \<in> set ?cs" "x = exhausted c"
          "\<not> fits c (counter db (a, ch_provider c, fmt (ch_start c)) + 1)" by auto
        then have "\<exists>p\<in>set ps. tool \<in> set (pv_tools p) \<and> ex_provider x = pv_name p \<and> ex_limit x = pv_limit p
             \<and> pv_limit p \<le> counter db (a, pv_name p, fmt (window_start p now))"
          by (auto simp: cs charge_of_def exhausted_def fits_def)
        moreover have "db' = db" using Some Pair sqlite.admit_refused by blast
        ultimately show ?thesis using AdmitExhausted Some Pair by simp
      qed
    qed
  qed
qed

theorem admit_exact_witness:
  "case admit sample_plan (reserve sample_layout (\<lambda>_. False)) ''ana'' ''threatintel.lookup_ip''
      \<lparr>g_ns = 199, g_off = 0\<rparr> [((''ana'', ''virustotal'', sample_layout \<lparr>g_ns = 100, g_off = 0\<rparr>), 1)] of
     (Some (AdmitExhausted e), _) \<Rightarrow> ex_limit e = 1
   | _ \<Rightarrow> False"
proof -
  let ?db = "[((''ana'', ''virustotal'', sample_layout \<lparr>g_ns = 100, g_off = 0\<rparr>), 1)]"
  have "case admit sample_plan (reserve sample_layout (\<lambda>_. False)) ''ana'' ''threatintel.lookup_ip''
      \<lparr>g_ns = 199, g_off = 0\<rparr> ?db of (Some (AdmitExhausted e), _) \<Rightarrow> True | _ \<Rightarrow> False"
    by code_simp
  with admit_exact [OF sample_plan_new, where fmt = sample_layout and fault = "\<lambda>_. False" and a = "''ana''" and tool = "''threatintel.lookup_ip''"
      and now = "\<lparr>g_ns = 199, g_off = 0\<rparr>" and db = ?db]
  show ?thesis by (auto simp: sample_provider_def split: prod.splits option.splits admit_error.splits)
qed

text \<open>
  (NewPlan) a plan is built exactly when every account is well formed, account names are distinct, and every free tool is named once and charged by
  nobody.
\<close>
theorem new_plan_exact:
  "(\<exists>pl. new_plan ps free = Inr pl) \<longleftrightarrow>
     list_all wf_provider ps \<and> distinct (map pv_name ps) \<and> distinct (map trim_space free)
     \<and> list_all (\<lambda>t. \<not> blank t \<and> spenders ps (trim_space t) = []) free"
proof -
  let ?ps = "sort_key pv_name ps"
  have sp: "spenders ?ps t = [] \<longleftrightarrow> spenders ps t = []" for t by (auto simp: spenders_def filter_empty_conv)
  have idx: "foldl index_provider Map.empty ?ps t = None \<longleftrightarrow> spenders ps t = []"
    if "\<forall>p\<in>set ps. wf_provider p" for t
    using foldl_index_provider [of ?ps Map.empty t] that by (simp add: sp)
  have "(\<exists>pl. new_plan ps free = Inr pl) \<longleftrightarrow>
      (\<exists>qs. collect_providers ps {} [] = Inr qs
        \<and> (\<exists>fr. collect_free (foldl index_provider Map.empty (sort_key pv_name qs)) free [] = Inr fr))"
    by (auto simp: new_plan_def Let_def split: sum.splits)
  then show ?thesis using idx by (auto simp: collect_providers_iff collect_free_iff)
qed

end
