(* ===== verification/Audit_Chain.thy ===== *)
theory Audit_Chain
  imports Framing Gotime Visible
begin

text \<open>
  Model of \<open>internal/audit/audit.go\<close>: the record, its contract, the display name it may carry, and the bytes and hash that link it to
  the record before it. Rendering a timestamp is the argument \<open>fmt\<close>, SHA-256 the argument \<open>H\<close>,
  the Unicode tables the argument \<open>tbl\<close>.
\<close>

section \<open>Records\<close>

record arec =
  a_identity :: string
  a_tool :: string
  a_upstream :: string
  a_ts :: gotime
  a_outcome :: string
  a_reason :: string
  a_source :: string
  a_name :: string

definition max_analyst_name_bytes :: nat where
  "max_analyst_name_bytes = 256"

definition ellipsis :: string where
  "ellipsis = [CHR 0xE2, CHR 0x80, CHR 0xA6]"

fun back_to_start :: "string \<Rightarrow> nat \<Rightarrow> nat" where
  "back_to_start name 0 = 0"
| "back_to_start name (Suc c) =
     (if \<not> rune_start (name ! Suc c) then back_to_start name c else Suc c)"

definition display_name :: "(nat \<Rightarrow> bool) \<Rightarrow> string \<Rightarrow> string \<Rightarrow> string" where
  "display_name tbl subject name =
     (if trim_space name = [] \<or> trim_space name = subject then []
      else let shown = escape tbl (trim_space name) in
        if length shown \<le> max_analyst_name_bytes then shown
        else take (back_to_start shown (max_analyst_name_bytes - length ellipsis)) shown @ ellipsis)"

definition outcome_allowed :: string where "outcome_allowed = ''allowed''"
definition outcome_denied :: string where "outcome_denied = ''denied''"
definition outcome_failed :: string where "outcome_failed = ''failed''"

definition outcome_valid :: "string \<Rightarrow> bool" where
  "outcome_valid s = (s = outcome_allowed \<or> s = outcome_denied \<or> s = outcome_failed)"

datatype audit_problem =
  NoIdentity | NoTool | NoUpstream | ZeroTimestamp | BadOutcome string | NameTooLong nat | NameNotShown

definition arec_validate :: "(nat \<Rightarrow> bool) \<Rightarrow> arec \<Rightarrow> audit_problem list" where
  "arec_validate tbl r =
     (if a_identity r = [] then [NoIdentity] else [])
     @ (if a_tool r = [] then [NoTool] else [])
     @ (if a_upstream r = [] then [NoUpstream] else [])
     @ (if is_zero (a_ts r) then [ZeroTimestamp] else [])
     @ (if \<not> outcome_valid (a_outcome r) then [BadOutcome (a_outcome r)] else [])
     @ (if length (a_name r) > max_analyst_name_bytes then [NameTooLong (length (a_name r))] else [])
     @ (if \<not> valid_utf8 (a_name r) \<or> hidden tbl (a_name r) > 0 then [NameNotShown] else [])"

section \<open>The chain\<close>

definition chain_tag :: string where
  "chain_tag = ''mcp-gateway/audit/chain/v1''"

definition chain_tag_named :: string where
  "chain_tag_named = ''mcp-gateway/audit/chain/v2''"

definition genesis_hash :: string where
  "genesis_hash = []"

definition canonical :: "layout \<Rightarrow> arec \<Rightarrow> string" where
  "canonical fmt r =
     (let tag = (if a_name r \<noteq> [] then chain_tag_named else chain_tag);
          buf = append_field [] tag;
          buf = append_field buf (a_identity r);
          buf = append_field buf (a_tool r);
          buf = append_field buf (a_upstream r);
          buf = append_field buf (fmt (a_ts r));
          buf = append_field buf (a_outcome r);
          buf = append_field buf (a_reason r);
          buf = append_field buf (a_source r)
      in if a_name r \<noteq> [] then append_field buf (a_name r) else buf)"

definition chain_hash :: "digest \<Rightarrow> layout \<Rightarrow> string \<Rightarrow> arec \<Rightarrow> string" where
  "chain_hash H fmt prev r = hex_encode (H (append_field (canonical fmt r) prev))"

record chain_break =
  cb_position :: nat
  cb_record :: arec
  cb_want :: string
  cb_got :: string

record chain_check =
  cc_count :: nat
  cc_head :: string
  cc_break :: "chain_break option"
  cc_retro :: nat

definition intact :: "chain_check \<Rightarrow> bool" where
  "intact c = (cc_break c = None)"

record chain_link =
  cl_prev :: string
  cl_hash :: string

section \<open>Facts\<close>

text \<open>Two records that spell the same bytes: equal but for the instant behind an equal timestamp text.\<close>

definition same_record :: "layout \<Rightarrow> arec \<Rightarrow> arec \<Rightarrow> bool" where
  "same_record fmt r s =
     (a_identity r = a_identity s \<and> a_tool r = a_tool s \<and> a_upstream r = a_upstream s
      \<and> fmt (a_ts r) = fmt (a_ts s) \<and> a_outcome r = a_outcome s \<and> a_reason r = a_reason s
      \<and> a_source r = a_source s \<and> a_name r = a_name s)"

definition arec_fits :: "layout \<Rightarrow> arec \<Rightarrow> bool" where
  "arec_fits fmt r =
     list_all fits64 [a_identity r, a_tool r, a_upstream r, fmt (a_ts r), a_outcome r, a_reason r,
       a_source r, a_name r]"

lemma chain_tags [simp]:
  "fits64 chain_tag" "fits64 chain_tag_named" "chain_tag \<noteq> chain_tag_named" "chain_tag_named \<noteq> chain_tag"
  by (simp_all add: fits64_def chain_tag_def chain_tag_named_def)

lemma chain_input_eq:
  "append_field (canonical fmt r) prev =
     (if a_name r = [] then field chain_tag else field chain_tag_named)
     @ field (a_identity r) @ field (a_tool r) @ field (a_upstream r) @ field (fmt (a_ts r))
     @ field (a_outcome r) @ field (a_reason r) @ field (a_source r)
     @ (if a_name r = [] then field prev else field (a_name r) @ field prev)"
  by (simp add: canonical_def append_field_eq Let_def)

lemma chain_input_inject:
  assumes fits: "arec_fits fmt r" "arec_fits fmt s" "fits64 p" "fits64 q"
    and eq: "append_field (canonical fmt r) p = append_field (canonical fmt s) q"
  shows "same_record fmt r s \<and> p = q"
proof (cases "a_name r = []"; cases "a_name s = []")
  assume n: "a_name r = []" "a_name s = []"
  show ?thesis using fits eq unfolding chain_input_eq
    by (simp add: n arec_fits_def same_record_def field_cancel)
next
  assume n: "a_name r = []" "a_name s \<noteq> []"
  show ?thesis using fits eq unfolding chain_input_eq by (simp add: n field_cancel)
next
  assume n: "a_name r \<noteq> []" "a_name s = []"
  show ?thesis using fits eq unfolding chain_input_eq by (simp add: n field_cancel)
next
  assume n: "a_name r \<noteq> []" "a_name s \<noteq> []"
  show ?thesis using fits eq unfolding chain_input_eq
    by (simp add: n arec_fits_def same_record_def field_cancel)
qed

lemma chain_hash_cong: "same_record fmt r s \<Longrightarrow> chain_hash H fmt p r = chain_hash H fmt p s"
  by (simp add: chain_hash_def chain_input_eq same_record_def)

lemma chain_hash_length: "digest32 H \<Longrightarrow> length (chain_hash H fmt p r) = 64"
  by (simp add: chain_hash_def digest32_def)

lemma chain_hash_fits: "digest32 H \<Longrightarrow> fits64 (chain_hash H fmt p r)"
  by (simp add: chain_hash_length)

lemma chain_hash_not_genesis: "digest32 H \<Longrightarrow> chain_hash H fmt p r \<noteq> genesis_hash"
  using chain_hash_length [of H fmt p r] by (auto simp: genesis_hash_def)

lemma chain_hash_inject:
  assumes "arec_fits fmt r" "arec_fits fmt s" "fits64 p" "fits64 q"
    and "chain_hash H fmt p r = chain_hash H fmt q s" "\<not> collision H"
  shows "same_record fmt r s \<and> p = q"
proof (rule chain_input_inject [OF assms(1-4)])
  show "append_field (canonical fmt r) p = append_field (canonical fmt s) q"
    using assms(5,6) by (auto simp: chain_hash_def hex_encode_inject collision_def)
qed

lemma arec_validate_Nil:
  "arec_validate tbl r = [] \<longleftrightarrow>
     a_identity r \<noteq> [] \<and> a_tool r \<noteq> [] \<and> a_upstream r \<noteq> [] \<and> \<not> is_zero (a_ts r)
     \<and> outcome_valid (a_outcome r) \<and> length (a_name r) \<le> max_analyst_name_bytes
     \<and> clean tbl (a_name r)"
  using hidden_valid [of tbl "a_name r"] by (auto simp: arec_validate_def hidden_0_iff [symmetric])

section \<open>The display name\<close>

lemma back_to_start_spec:
  "back_to_start name c \<le> c \<and> (back_to_start name c = 0 \<or> rune_start (name ! back_to_start name c))"
  by (induction c) (auto split: if_splits)

lemma ellipsis_visible: "\<not> tbl 0x2026 \<Longrightarrow> clean tbl ellipsis"
  by (rule clean_rune)
    (simp add: visible_rune_def invisible_def ellipsis_def decode_lead_def decode3_def cont_def
      hides_def rune_error_def)

lemma display_name_shown:
  assumes "\<not> tbl 0x2026"
  shows "length (display_name tbl subject name) \<le> max_analyst_name_bytes
    \<and> valid_utf8 (display_name tbl subject name) \<and> hidden tbl (display_name tbl subject name) = 0"
proof -
  let ?s = "escape tbl (trim_space name)"
  let ?c = "max_analyst_name_bytes - length ellipsis"
  let ?cut = "take (back_to_start ?s ?c) ?s"
  have c: "?c = 253" by (simp add: max_analyst_name_bytes_def ellipsis_def)
  have cut: "clean tbl ?cut \<and> length ?cut \<le> 253" if "length ?s > max_analyst_name_bytes"
  proof -
    have "back_to_start ?s ?c \<le> 253" using back_to_start_spec [of ?s ?c] c by simp
    moreover have "length ?s > 256" using that by (simp add: max_analyst_name_bytes_def)
    ultimately have "clean tbl ?cut"
      using back_to_start_spec [of ?s ?c] clean_take [OF escape_clean, of "back_to_start ?s ?c" tbl]
      by (cases "back_to_start ?s ?c = 0") (auto simp: clean_Nil)
    with \<open>back_to_start ?s ?c \<le> 253\<close> show ?thesis by simp
  qed
  have "clean tbl (display_name tbl subject name)
      \<and> length (display_name tbl subject name) \<le> max_analyst_name_bytes"
    using cut clean_append [OF _ ellipsis_visible [of tbl, OF assms], of ?cut]
    by (auto simp: display_name_def Let_def clean_Nil escape_clean ellipsis_def
        max_analyst_name_bytes_def)
  then show ?thesis using hidden_valid hidden_0_iff by blast
qed

text \<open>
  (DisplayName) whatever name the identity provider states, the name written on a record is at most 256 bytes,
  is valid UTF-8 and holds no invisible code point, so the name never makes a record invalid and
  never makes a call unauditable (U+2026, the mark of a cut, being itself a visible character).
\<close>
theorem display_name_recordable:
  assumes "\<not> tbl 0x2026"
  shows "length (display_name tbl subject name) \<le> max_analyst_name_bytes
    \<and> valid_utf8 (display_name tbl subject name) \<and> hidden tbl (display_name tbl subject name) = 0"
  using assms by (rule display_name_shown)

theorem display_name_recordable_witness:
  "valid_utf8 (display_name (\<lambda>_. False) ''sub-1'' (''Ana'' @ [CHR 0x0A] @ ''B''))"
  using display_name_recordable [of "\<lambda>_. False"] by simp

text \<open>
  (ChainHash, Canonical) the bytes a record is hashed over determine the record and its predecessor: equal chain hashes
  mean the same identity, tool, upstream, timestamp text, outcome, reason, source, name and previous hash, unless they exhibit a
  SHA-256 collision; so no byte can move between fields, and a name can be neither added nor erased
  under an unchanged hash.
\<close>
theorem chain_hash_unambiguous:
  assumes "arec_fits fmt r" "arec_fits fmt s" "fits64 p" "fits64 q"
    and "chain_hash H fmt p r = chain_hash H fmt q s"
  shows "(same_record fmt r s \<and> p = q)
    \<or> (append_field (canonical fmt r) p \<noteq> append_field (canonical fmt s) q
       \<and> H (append_field (canonical fmt r) p) = H (append_field (canonical fmt s) q))"
  using chain_input_inject [OF assms(1-4)] assms(5) by (auto simp: chain_hash_def hex_encode_inject)

definition sample_arec :: "string \<Rightarrow> string \<Rightarrow> arec" where
  "sample_arec tool reason = \<lparr>a_identity = ''sub-1'', a_tool = tool, a_upstream = ''casemgmt'',
     a_ts = \<lparr>g_ns = 1, g_off = 0\<rparr>, a_outcome = outcome_allowed, a_reason = reason, a_source = [], a_name = []\<rparr>"

theorem chain_hash_unambiguous_witness:
  "append_field (canonical (\<lambda>_. ''t'') (sample_arec ''ab'' ''c'')) genesis_hash
     \<noteq> append_field (canonical (\<lambda>_. ''t'') (sample_arec ''a'' ''bc'')) genesis_hash"
  using chain_hash_unambiguous [of "\<lambda>_. ''t''" "sample_arec ''ab'' ''c''" "sample_arec ''a'' ''bc''"
      genesis_hash genesis_hash "\<lambda>_. []"]
  by (auto simp: sample_arec_def arec_fits_def same_record_def genesis_hash_def outcome_allowed_def
      chain_hash_def)

end
