(* ===== verification/Audit_Store.thy ===== *)
theory Audit_Store
  imports Audit_Chain
begin

text \<open>
  Model of \<open>internal/audit/sqlite/sqlite.go\<close>: the table in id order with its autoincrement sequence and the
  migration's boundary row, the appending write, the verification walk, the three reads and the
  one-time backfill. A stored timestamp is text; \<open>parse\<close> is \<open>time.Parse\<close> under the stored
  layout, with its error text.
\<close>

section \<open>The table\<close>

record arow =
  w_id :: nat
  w_identity :: string
  w_tool :: string
  w_upstream :: string
  w_ts :: string
  w_outcome :: string
  w_reason :: string
  w_source :: string
  w_name :: string
  w_prev :: string
  w_hash :: string

record adb =
  ad_rows :: "arow list"
  ad_seq :: nat
  ad_meta :: "nat option"

type_synonym tparse = "string \<Rightarrow> string + gotime"

datatype astmt = AConn | ABegin | AHead | AInsert | ACommit

datatype audit_error = AuditInvalid "audit_problem list" | AuditSql

text \<open>The columns of a row as the record they stand for, at a parsed timestamp.\<close>

definition row_record :: "arow \<Rightarrow> gotime \<Rightarrow> arec" where
  "row_record w t = \<lparr>a_identity = w_identity w, a_tool = w_tool w, a_upstream = w_upstream w, a_ts = t,
     a_outcome = w_outcome w, a_reason = w_reason w, a_source = w_source w, a_name = w_name w\<rparr>"

definition row_of :: "layout \<Rightarrow> nat \<Rightarrow> arec \<Rightarrow> chain_link \<Rightarrow> arow" where
  "row_of fmt i r l = \<lparr>w_id = i, w_identity = a_identity r, w_tool = a_tool r, w_upstream = a_upstream r,
     w_ts = fmt (a_ts r), w_outcome = a_outcome r, w_reason = a_reason r, w_source = a_source r,
     w_name = a_name r, w_prev = cl_prev l, w_hash = cl_hash l\<rparr>"

section \<open>Writing\<close>

definition chain_head :: "adb \<Rightarrow> string" where
  "chain_head db = (if ad_rows db = [] then genesis_hash else w_hash (last (ad_rows db)))"

definition append_row :: "digest \<Rightarrow> layout \<Rightarrow> (astmt \<Rightarrow> bool) \<Rightarrow> arec \<Rightarrow> (adb, audit_error, chain_link) tx" where
  "append_row H fmt fault r =
     tx_bind (tx_stmt (fault AHead) AuditSql (\<lambda>db. Inr (chain_head db, db))) (\<lambda>prev.
     let link = \<lparr>cl_prev = prev, cl_hash = chain_hash H fmt prev r\<rparr> in
     tx_bind (tx_stmt (fault AInsert) AuditSql
       (\<lambda>db. Inr ((), db\<lparr>ad_rows := ad_rows db @ [row_of fmt (ad_seq db + 1) r link],
                         ad_seq := ad_seq db + 1\<rparr>))) (\<lambda>_.
     tx_return link))"

definition record_chained ::
  "digest \<Rightarrow> layout \<Rightarrow> (nat \<Rightarrow> bool) \<Rightarrow> (astmt \<Rightarrow> bool) \<Rightarrow> arec \<Rightarrow> adb
     \<Rightarrow> (audit_error + chain_link) \<times> adb" where
  "record_chained H fmt tbl fault r db =
     (if arec_validate tbl r \<noteq> [] then (Inl (AuditInvalid (arec_validate tbl r)), db)
      else if fault AConn then (Inl AuditSql, db)
      else transact (fault ABegin) (fault ACommit) AuditSql (append_row H fmt fault r) db)"

section \<open>Verifying\<close>

definition unreadable_record :: "arow \<Rightarrow> arec" where
  "unreadable_record w = (row_record w \<lparr>g_ns = 0, g_off = 0\<rparr>)\<lparr>a_outcome := []\<rparr>"

fun verify_walk ::
  "digest \<Rightarrow> layout \<Rightarrow> tparse \<Rightarrow> nat \<Rightarrow> arow list \<Rightarrow> string \<Rightarrow> chain_check \<Rightarrow> chain_check" where
  "verify_walk H fmt parse boundary [] prev c = c\<lparr>cc_head := prev\<rparr>"
| "verify_walk H fmt parse boundary (w # ws) prev c =
     (case parse (w_ts w) of
        Inl err \<Rightarrow>
          c\<lparr>cc_break := (case cc_break c of
              Some b \<Rightarrow> Some b
            | None \<Rightarrow> Some \<lparr>cb_position = cc_count c + 1, cb_record = unreadable_record w,
                cb_want = ''unreadable: '' @ err, cb_got = w_hash w\<rparr>),
            cc_count := cc_count c + 1, cc_head := w_hash w\<rparr>
      | Inr t \<Rightarrow>
          let r = row_record w t;
              c = c\<lparr>cc_count := cc_count c + 1,
                    cc_retro := (if w_id w \<le> boundary then cc_retro c + 1 else cc_retro c)\<rparr>;
              c = (if cc_break c = None
                      \<and> (w_prev w \<noteq> prev \<or> w_hash w \<noteq> chain_hash H fmt (w_prev w) r)
                   then c\<lparr>cc_break := Some \<lparr>cb_position = cc_count c, cb_record = r,
                           cb_want = chain_hash H fmt prev r, cb_got = w_hash w\<rparr>\<rparr>
                   else c)
          in verify_walk H fmt parse boundary ws (w_hash w) c)"

definition verify_chain :: "digest \<Rightarrow> layout \<Rightarrow> tparse \<Rightarrow> adb \<Rightarrow> chain_check" where
  "verify_chain H fmt parse db =
     verify_walk H fmt parse (case ad_meta db of None \<Rightarrow> 0 | Some b \<Rightarrow> b) (ad_rows db) genesis_hash
       \<lparr>cc_count = 0, cc_head = genesis_hash, cc_break = None, cc_retro = 0\<rparr>"

section \<open>Reading\<close>

fun read_rows :: "tparse \<Rightarrow> arow list \<Rightarrow> arec list option" where
  "read_rows parse [] = Some []"
| "read_rows parse (w # ws) =
     (case parse (w_ts w) of
        Inl err \<Rightarrow> None
      | Inr t \<Rightarrow> map_option (Cons (row_record w t)) (read_rows parse ws))"

definition chain_order :: "tparse \<Rightarrow> adb \<Rightarrow> arec list option" where
  "chain_order parse db = read_rows parse (ad_rows db)"

definition list_records :: "tparse \<Rightarrow> adb \<Rightarrow> arec list option" where
  "list_records parse db = map_option (sort_key (\<lambda>r. g_ns (a_ts r))) (chain_order parse db)"

definition has_analyst :: "string \<Rightarrow> adb \<Rightarrow> bool" where
  "has_analyst identity db = list_ex (\<lambda>w. w_identity w = identity) (ad_rows db)"

record trail_query =
  q_before :: int
  q_since :: gotime
  q_until :: gotime
  q_subject :: string
  q_outcome :: string
  q_source :: string
  q_tool :: string
  q_server :: string
  q_limit :: nat

definition column_match :: "trail_query \<Rightarrow> arow \<Rightarrow> bool" where
  "column_match q w =
     ((q_subject q = [] \<or> w_identity w = q_subject q) \<and> (q_outcome q = [] \<or> w_outcome w = q_outcome q)
      \<and> (q_source q = [] \<or> w_source w = q_source q) \<and> (q_tool q = [] \<or> w_tool w = q_tool q)
      \<and> (q_server q = [] \<or> w_upstream w = q_server q))"

definition in_window :: "trail_query \<Rightarrow> gotime \<Rightarrow> bool" where
  "in_window q t =
     (\<not> (\<not> is_zero (q_since q) \<and> g_ns t < g_ns (q_since q)
         \<or> \<not> is_zero (q_until q) \<and> \<not> g_ns t < g_ns (q_until q)))"

text \<open>The row loop; \<open>pos\<close> counts down only on the walked trail.\<close>

fun page_walk ::
  "tparse \<Rightarrow> trail_query \<Rightarrow> bool \<Rightarrow> arow list \<Rightarrow> int \<Rightarrow> (int \<times> arec) list
     \<Rightarrow> ((int \<times> arec) list \<times> bool) option" where
  "page_walk parse q contiguous [] pos out = Some (out, False)"
| "page_walk parse q contiguous (w # ws) pos out =
     (let pos' = (if contiguous then pos else pos - 1);
          p = (if contiguous then int (w_id w) else pos')
      in if \<not> contiguous \<and> (q_before q > 0 \<and> p \<ge> q_before q \<or> \<not> column_match q w)
         then page_walk parse q contiguous ws pos' out
         else case parse (w_ts w) of
           Inl err \<Rightarrow> None
         | Inr t \<Rightarrow>
             if \<not> in_window q t then page_walk parse q contiguous ws pos' out
             else if length out = q_limit q then Some (out, True)
             else page_walk parse q contiguous ws pos' (out @ [(p, row_record w t)]))"

definition page :: "tparse \<Rightarrow> trail_query \<Rightarrow> adb \<Rightarrow> ((int \<times> arec) list \<times> bool) option" where
  "page parse q db =
     (let count = length (ad_rows db);
          max_id = (if ad_rows db = [] then 0 else Max (w_id ` set (ad_rows db)));
          contiguous = (count = max_id);
          selected = (if contiguous
            then filter (\<lambda>w. (q_before q > 0 \<longrightarrow> int (w_id w) < q_before q) \<and> column_match q w) (ad_rows db)
            else ad_rows db)
      in page_walk parse q contiguous (rev selected) (int count + 1) [])"

section \<open>Backfilling a trail older than the chain\<close>

fun backfill_rows :: "digest \<Rightarrow> layout \<Rightarrow> tparse \<Rightarrow> string \<Rightarrow> arow list \<Rightarrow> arow list option" where
  "backfill_rows H fmt parse prev [] = Some []"
| "backfill_rows H fmt parse prev (w # ws) =
     (if w_hash w \<noteq> [] then map_option (Cons w) (backfill_rows H fmt parse prev ws)
      else case parse (w_ts w) of
        Inl err \<Rightarrow> None
      | Inr t \<Rightarrow>
          let h = chain_hash H fmt prev (row_record w t)
          in map_option (Cons (w\<lparr>w_prev := prev, w_hash := h\<rparr>)) (backfill_rows H fmt parse h ws))"

definition backfill_chain :: "digest \<Rightarrow> layout \<Rightarrow> tparse \<Rightarrow> adb \<Rightarrow> adb option" where
  "backfill_chain H fmt parse db =
     (case ad_meta db of
        Some boundary \<Rightarrow> Some db
      | None \<Rightarrow>
          let hashed = filter (\<lambda>w. w_hash w \<noteq> []) (ad_rows db);
              fresh = filter (\<lambda>w. w_hash w = []) (ad_rows db);
              prev = (if hashed = [] then genesis_hash else w_hash (last hashed))
          in map_option (\<lambda>rows. db\<lparr>ad_rows := rows,
                 ad_meta := Some (if fresh = [] then 0 else w_id (last fresh))\<rparr>)
               (backfill_rows H fmt parse prev (ad_rows db)))"

section \<open>Linked trails\<close>

text \<open>Every row is readable, names the row before it, and carries its own hash.\<close>

fun linked :: "digest \<Rightarrow> layout \<Rightarrow> tparse \<Rightarrow> string \<Rightarrow> arow list \<Rightarrow> bool" where
  "linked H fmt parse prev [] = True"
| "linked H fmt parse prev (w # ws) =
     (case parse (w_ts w) of
        Inl err \<Rightarrow> False
      | Inr t \<Rightarrow> w_prev w = prev \<and> w_hash w = chain_hash H fmt prev (row_record w t)
          \<and> linked H fmt parse (w_hash w) ws)"

definition head_from :: "string \<Rightarrow> arow list \<Rightarrow> string" where
  "head_from prev ws = (if ws = [] then prev else w_hash (last ws))"

lemma head_from_simps [simp]:
  "head_from prev [] = prev" "head_from prev (ws @ [w]) = w_hash w"
  "head_from prev (w # ws) = head_from (w_hash w) ws"
  by (simp_all add: head_from_def)

lemma chain_head_eq: "chain_head db = head_from genesis_hash (ad_rows db)"
  by (simp add: chain_head_def head_from_def)

lemma linked_append:
  "linked H fmt parse prev (ws @ vs) \<longleftrightarrow>
     linked H fmt parse prev ws \<and> linked H fmt parse (head_from prev ws) vs"
  by (induction ws arbitrary: prev) (auto split: sum.splits)

lemma verify_walk_keeps_break:
  "cc_break c \<noteq> None \<Longrightarrow> cc_break (verify_walk H fmt parse b ws prev c) = cc_break c"
proof (induction ws arbitrary: prev c)
  case (Cons w ws)
  then show ?case by (auto simp: Let_def split: sum.splits)
qed simp

lemma verify_walk_intact:
  "cc_break c = None \<Longrightarrow>
     cc_break (verify_walk H fmt parse b ws prev c) = None \<longleftrightarrow> linked H fmt parse prev ws"
proof (induction ws arbitrary: prev c)
  case (Cons w ws)
  then show ?case
    by (auto simp: Let_def verify_walk_keeps_break split: sum.splits)
qed simp

lemma verify_walk_linked:
  "linked H fmt parse prev ws \<Longrightarrow> cc_break c = None \<Longrightarrow>
     cc_count (verify_walk H fmt parse b ws prev c) = cc_count c + length ws
     \<and> cc_head (verify_walk H fmt parse b ws prev c) = head_from prev ws"
proof (induction ws arbitrary: prev c)
  case (Cons w ws)
  then show ?case by (auto simp: Let_def split: sum.splits)
qed simp

lemma verify_chain_intact:
  "intact (verify_chain H fmt parse db) \<longleftrightarrow> linked H fmt parse genesis_hash (ad_rows db)"
  by (simp add: intact_def verify_chain_def verify_walk_intact)

lemma verify_chain_head:
  "linked H fmt parse genesis_hash (ad_rows db) \<Longrightarrow>
     cc_head (verify_chain H fmt parse db) = chain_head db
     \<and> cc_count (verify_chain H fmt parse db) = length (ad_rows db)"
  by (simp add: verify_chain_def verify_walk_linked chain_head_eq)

text \<open>The first row that breaks is the position reported.\<close>

lemma verify_walk_break_at:
  assumes "cc_break c = None" "linked H fmt parse prev ws" "parse (w_ts w) = Inr t"
    "w_prev w \<noteq> head_from prev ws \<or> w_hash w \<noteq> chain_hash H fmt (w_prev w) (row_record w t)"
  shows "\<exists>b. cc_break (verify_walk H fmt parse bd (ws @ w # vs) prev c) = Some b
    \<and> cb_position b = cc_count c + length ws + 1"
  using assms
proof (induction ws arbitrary: prev c)
  case Nil
  then show ?case by (auto simp: Let_def verify_walk_keeps_break)
next
  case (Cons x ws)
  from Cons.prems(2) obtain u where u: "parse (w_ts x) = Inr u" "w_prev x = prev"
    "w_hash x = chain_hash H fmt prev (row_record x u)" "linked H fmt parse (w_hash x) ws"
    by (auto split: sum.splits)
  let ?c = "c\<lparr>cc_count := cc_count c + 1, cc_retro := (if w_id x \<le> bd then cc_retro c + 1 else cc_retro c)\<rparr>"
  have step: "verify_walk H fmt parse bd ((x # ws) @ w # vs) prev c
      = verify_walk H fmt parse bd (ws @ w # vs) (w_hash x) ?c"
    using u by (simp add: Let_def)
  have "\<exists>b. cc_break (verify_walk H fmt parse bd (ws @ w # vs) (w_hash x) ?c) = Some b
      \<and> cb_position b = cc_count ?c + length ws + 1"
    using Cons.prems(1,3,4) u(4) by (intro Cons.IH) simp_all
  then show ?case unfolding step by auto
qed

lemma verify_chain_break_at:
  assumes "linked H fmt parse genesis_hash ws" "parse (w_ts w) = Inr t"
    "w_prev w \<noteq> head_from genesis_hash ws \<or> w_hash w \<noteq> chain_hash H fmt (w_prev w) (row_record w t)"
  shows "\<exists>b. cc_break (verify_chain H fmt parse (db\<lparr>ad_rows := ws @ w # vs\<rparr>)) = Some b
    \<and> cb_position b = length ws + 1"
  using verify_walk_break_at
      [OF _ assms, of "\<lparr>cc_count = 0, cc_head = genesis_hash, cc_break = None, cc_retro = 0\<rparr>"]
  by (simp add: verify_chain_def)

section \<open>Appending keeps the trail linked\<close>

text \<open>The stored text of a timestamp reads back to a time of the same text.\<close>

definition respells :: "layout \<Rightarrow> tparse \<Rightarrow> gotime \<Rightarrow> bool" where
  "respells fmt parse t = (case parse (fmt t) of Inl _ \<Rightarrow> False | Inr u \<Rightarrow> fmt u = fmt t)"

lemma append_row_Inr:
  "append_row H fmt fault r db = Inr (l, db') \<longleftrightarrow>
     \<not> fault AHead \<and> \<not> fault AInsert
     \<and> l = \<lparr>cl_prev = chain_head db, cl_hash = chain_hash H fmt (chain_head db) r\<rparr>
     \<and> db' = db\<lparr>ad_rows := ad_rows db @ [row_of fmt (ad_seq db + 1) r l], ad_seq := ad_seq db + 1\<rparr>"
  by (auto simp: append_row_def tx_bind_def tx_stmt_def tx_return_def Let_def)

lemma record_chained_Inr:
  "record_chained H fmt tbl fault r db = (Inr l, db') \<longleftrightarrow>
     arec_validate tbl r = [] \<and> (\<forall>st. \<not> fault st)
     \<and> l = \<lparr>cl_prev = chain_head db, cl_hash = chain_hash H fmt (chain_head db) r\<rparr>
     \<and> db' = db\<lparr>ad_rows := ad_rows db @ [row_of fmt (ad_seq db + 1) r l], ad_seq := ad_seq db + 1\<rparr>"
proof -
  have "(\<forall>st. \<not> fault st) \<longleftrightarrow> \<not> fault AConn \<and> \<not> fault ABegin \<and> \<not> fault AHead \<and> \<not> fault AInsert \<and> \<not> fault ACommit"
    by (metis astmt.exhaust)
  then show ?thesis by (auto simp: record_chained_def transact_Inr append_row_Inr)
qed

lemma record_chained_Inl: "record_chained H fmt tbl fault r db = (Inl e, db') \<Longrightarrow> db' = db"
  by (auto simp: record_chained_def split: if_splits dest: transact_Inl)

lemma linked_row_of:
  assumes "respells fmt parse (a_ts r)"
    "l = \<lparr>cl_prev = prev, cl_hash = chain_hash H fmt prev r\<rparr>"
  shows "linked H fmt parse prev [row_of fmt i r l]"
proof -
  from assms(1) obtain t where t: "parse (fmt (a_ts r)) = Inr t" "fmt t = fmt (a_ts r)"
    by (auto simp: respells_def split: sum.splits)
  have "same_record fmt (row_record (row_of fmt i r l) t) r"
    by (simp add: same_record_def row_record_def row_of_def t)
  then have "chain_hash H fmt prev (row_record (row_of fmt i r l) t) = chain_hash H fmt prev r"
    by (rule chain_hash_cong)
  then show ?thesis by (simp add: t assms(2) row_of_def)
qed

lemma record_chained_linked:
  assumes "linked H fmt parse genesis_hash (ad_rows db)" "respells fmt parse (a_ts r)"
  shows "linked H fmt parse genesis_hash (ad_rows (snd (record_chained H fmt tbl fault r db)))"
proof (cases "record_chained H fmt tbl fault r db")
  case (Pair res db')
  show ?thesis
  proof (cases res)
    case (Inl e)
    with Pair record_chained_Inl assms(1) show ?thesis by fastforce
  next
    case (Inr l)
    with Pair have l: "l = \<lparr>cl_prev = chain_head db, cl_hash = chain_hash H fmt (chain_head db) r\<rparr>"
      and rows: "ad_rows db' = ad_rows db @ [row_of fmt (ad_seq db + 1) r l]"
      by (simp_all add: record_chained_Inr)
    have "linked H fmt parse (chain_head db) [row_of fmt (ad_seq db + 1) r l]"
      using linked_row_of [OF assms(2) l] .
    with assms(1) rows Pair show ?thesis by (simp add: linked_append chain_head_eq)
  qed
qed

section \<open>What a head determines\<close>

definition rows_fit :: "layout \<Rightarrow> tparse \<Rightarrow> arow list \<Rightarrow> bool" where
  "rows_fit fmt parse ws = list_all (\<lambda>w. case parse (w_ts w) of
     Inl _ \<Rightarrow> True | Inr t \<Rightarrow> arec_fits fmt (row_record w t)) ws"

definition same_row :: "layout \<Rightarrow> tparse \<Rightarrow> arow \<Rightarrow> arow \<Rightarrow> bool" where
  "same_row fmt parse w v =
     (case (parse (w_ts w), parse (w_ts v)) of
        (Inr t, Inr u) \<Rightarrow> same_record fmt (row_record w t) (row_record v u)
      | _ \<Rightarrow> False)"

lemma head_fits:
  assumes "digest32 H" "linked H fmt parse genesis_hash ws"
  shows "fits64 (head_from genesis_hash ws) \<and> (ws \<noteq> [] \<longrightarrow> head_from genesis_hash ws \<noteq> genesis_hash)"
proof (cases ws rule: rev_cases)
  case Nil
  then show ?thesis by (simp add: genesis_hash_def)
next
  case (snoc vs w)
  with assms(2) obtain t where "w_hash w = chain_hash H fmt (head_from genesis_hash vs) (row_record w t)"
    by (auto simp: linked_append split: sum.splits)
  with snoc assms(1) show ?thesis by (simp add: chain_hash_fits chain_hash_not_genesis)
qed

lemma same_head_same_trail:
  assumes H: "digest32 H" "\<not> collision H"
  shows "linked H fmt parse genesis_hash ws \<Longrightarrow> linked H fmt parse genesis_hash vs
    \<Longrightarrow> rows_fit fmt parse ws \<Longrightarrow> rows_fit fmt parse vs
    \<Longrightarrow> head_from genesis_hash ws = head_from genesis_hash vs \<Longrightarrow> list_all2 (same_row fmt parse) ws vs"
proof (induction ws arbitrary: vs rule: rev_induct)
  case Nil
  then have "vs = []" using head_fits [OF H(1) Nil(2)] by (auto simp: genesis_hash_def)
  then show ?case by simp
next
  case (snoc w ws)
  have "vs \<noteq> []" using snoc.prems head_fits [OF H(1) snoc.prems(1)] by (auto simp: genesis_hash_def)
  then obtain us v where vs: "vs = us @ [v]" by (cases vs rule: rev_cases) auto
  from snoc.prems(1) obtain t where t: "parse (w_ts w) = Inr t" "linked H fmt parse genesis_hash ws"
    "w_hash w = chain_hash H fmt (head_from genesis_hash ws) (row_record w t)"
    by (auto simp: linked_append split: sum.splits)
  from snoc.prems(2) obtain u where u: "parse (w_ts v) = Inr u" "linked H fmt parse genesis_hash us"
    "w_hash v = chain_hash H fmt (head_from genesis_hash us) (row_record v u)"
    by (auto simp: vs linked_append split: sum.splits)
  have "arec_fits fmt (row_record w t)" "arec_fits fmt (row_record v u)"
    using snoc.prems(3,4) t(1) u(1) by (simp_all add: vs rows_fit_def)
  moreover have "chain_hash H fmt (head_from genesis_hash ws) (row_record w t)
      = chain_hash H fmt (head_from genesis_hash us) (row_record v u)"
    using snoc.prems(5) t(3) u(3) by (simp add: vs)
  ultimately have eq: "same_record fmt (row_record w t) (row_record v u)"
    "head_from genesis_hash ws = head_from genesis_hash us"
    using chain_hash_inject [OF _ _ _ _ _ H(2)] head_fits [OF H(1)] t(2) u(2) by blast+
  have "list_all2 (same_row fmt parse) ws us"
    using snoc.prems(3,4) by (intro snoc.IH t(2) u(2) eq(2)) (simp_all add: vs rows_fit_def)
  moreover have "same_row fmt parse w v" using eq(1) t(1) u(1) by (simp add: same_row_def)
  ultimately show ?case by (simp add: vs list_all2_appendI)
qed

lemma head_not_repeated:
  assumes H: "digest32 H" "\<not> collision H"
    and "linked H fmt parse genesis_hash (ws @ vs)" "rows_fit fmt parse (ws @ vs)" "vs \<noteq> []"
  shows "head_from genesis_hash (ws @ vs) \<noteq> head_from genesis_hash ws"
proof
  assume "head_from genesis_hash (ws @ vs) = head_from genesis_hash ws"
  moreover have "linked H fmt parse genesis_hash ws" "rows_fit fmt parse ws"
    using assms(3,4) by (simp_all add: linked_append rows_fit_def)
  ultimately have "list_all2 (same_row fmt parse) (ws @ vs) ws"
    using same_head_same_trail [OF H assms(3)] assms(4) by blast
  then have "length (ws @ vs) = length ws" by (rule list_all2_lengthD)
  with assms(5) show False by simp
qed

section \<open>The interface to the gateway\<close>

text \<open>
  What the request path relies on: a write that reports success appended exactly that record, and a write that
  reports failure left nothing. \<open>trail\<close> is what can be read back, \<open>stored\<close> how a record is kept.
\<close>

locale audit_recorder =
  fixes put :: "'env \<Rightarrow> arec \<Rightarrow> 'db \<Rightarrow> bool \<times> 'db"
    and trail :: "'db \<Rightarrow> 'row list"
    and stored :: "arec \<Rightarrow> 'row"
    and acceptable :: "arec \<Rightarrow> bool"
    and healthy :: "'env \<Rightarrow> bool"
  assumes wrote: "put env r db = (True, db') \<Longrightarrow> trail db' = trail db @ [stored r]"
    and not_wrote: "put env r db = (False, db') \<Longrightarrow> trail db' = trail db"
    and accepts: "healthy env \<Longrightarrow> acceptable r \<Longrightarrow> fst (put env r db)"
begin

lemma write_trail:
  "trail (snd (put env r db)) = trail db @ (if fst (put env r db) then [stored r] else [])"
  by (cases "put env r db") (auto dest: wrote not_wrote)

lemma write_appends: "\<exists>rows. trail (snd (put env r db)) = trail db @ rows"
  by (simp add: write_trail)

lemma write_healthy:
  "healthy env \<Longrightarrow> acceptable r \<Longrightarrow> trail (snd (put env r db)) = trail db @ [stored r]"
  by (simp add: write_trail accepts)

end

definition record_row ::
  "digest \<Rightarrow> layout \<Rightarrow> (nat \<Rightarrow> bool) \<Rightarrow> (astmt \<Rightarrow> bool) \<Rightarrow> arec \<Rightarrow> adb \<Rightarrow> bool \<times> adb" where
  "record_row H fmt tbl fault r db =
     (case record_chained H fmt tbl fault r db of (Inl _, db') \<Rightarrow> (False, db') | (Inr _, db') \<Rightarrow> (True, db'))"

definition stored_as :: "layout \<Rightarrow> arec \<Rightarrow> string list" where
  "stored_as fmt r = [a_identity r, a_tool r, a_upstream r, fmt (a_ts r), a_outcome r, a_reason r, a_source r, a_name r]"

definition columns :: "arow \<Rightarrow> string list" where
  "columns w = [w_identity w, w_tool w, w_upstream w, w_ts w, w_outcome w, w_reason w, w_source w, w_name w]"

definition audit_trail :: "adb \<Rightarrow> string list list" where
  "audit_trail db = map columns (ad_rows db)"

interpretation trail: audit_recorder "record_row H fmt tbl" audit_trail "stored_as fmt"
    "\<lambda>r. arec_validate tbl r = []" "\<lambda>fault. \<forall>st. \<not> fault st"
  for H fmt tbl
proof
  fix env r db db'
  show "audit_trail db' = audit_trail db @ [stored_as fmt r]" if "record_row H fmt tbl env r db = (True, db')"
    using that by (auto simp: record_row_def record_chained_Inr audit_trail_def columns_def row_of_def
        stored_as_def split: prod.splits sum.splits)
  show "audit_trail db' = audit_trail db" if "record_row H fmt tbl env r db = (False, db')"
    using that by (auto simp: record_row_def split: prod.splits sum.splits dest: record_chained_Inl)
  show "fst (record_row H fmt tbl env r db)" if "\<forall>st. \<not> env st" "arec_validate tbl r = []"
  proof -
    have "\<exists>l db2. record_chained H fmt tbl env r db = (Inr l, db2)"
      using that by (simp add: record_chained_Inr)
    then show ?thesis by (auto simp: record_row_def)
  qed
qed

text \<open>A run of writes, each with its own database failures.\<close>

definition record_run ::
  "digest \<Rightarrow> layout \<Rightarrow> (nat \<Rightarrow> bool) \<Rightarrow> adb \<Rightarrow> ((astmt \<Rightarrow> bool) \<times> arec) list \<Rightarrow> adb" where
  "record_run H fmt tbl db writes =
     foldl (\<lambda>db (fault, r). snd (record_chained H fmt tbl fault r db)) db writes"

definition empty_adb :: adb where
  "empty_adb = \<lparr>ad_rows = [], ad_seq = 0, ad_meta = Some 0\<rparr>"

lemma record_run_linked:
  assumes "linked H fmt parse genesis_hash (ad_rows db)" "\<forall>(f, r)\<in>set writes. respells fmt parse (a_ts r)"
  shows "linked H fmt parse genesis_hash (ad_rows (record_run H fmt tbl db writes))"
  using assms
proof (induction writes arbitrary: db)
  case Nil
  then show ?case by (simp add: record_run_def)
next
  case (Cons x writes)
  obtain f r where x: "x = (f, r)" by fastforce
  from Cons.prems have "linked H fmt parse genesis_hash (ad_rows (snd (record_chained H fmt tbl f r db)))"
    by (intro record_chained_linked) (auto simp: x)
  with Cons show ?case by (simp add: record_run_def x)
qed

lemma row_of_fits:
  assumes "respells fmt parse (a_ts r)" "arec_fits fmt r"
  shows "rows_fit fmt parse [row_of fmt i r l]"
  using assms
  by (auto simp: rows_fit_def respells_def arec_fits_def row_record_def row_of_def split: sum.splits)

lemma rows_fit_append [simp]: "rows_fit fmt parse (ws @ vs) \<longleftrightarrow> rows_fit fmt parse ws \<and> rows_fit fmt parse vs"
  by (auto simp: rows_fit_def)

lemma record_run_fits:
  assumes "rows_fit fmt parse (ad_rows db)"
    "\<forall>(f, r)\<in>set writes. respells fmt parse (a_ts r) \<and> arec_fits fmt r"
  shows "rows_fit fmt parse (ad_rows (record_run H fmt tbl db writes))"
  using assms
proof (induction writes arbitrary: db)
  case Nil
  then show ?case by (simp add: record_run_def)
next
  case (Cons x writes)
  obtain f r where x: "x = (f, r)" by fastforce
  have "rows_fit fmt parse (ad_rows (snd (record_chained H fmt tbl f r db)))"
  proof (cases "record_chained H fmt tbl f r db")
    case (Pair res db')
    have "rows_fit fmt parse (ad_rows db')"
      using Cons.prems Pair
      by (cases res) (auto simp: x record_chained_Inr row_of_fits dest: record_chained_Inl)
    with Pair show ?thesis by simp
  qed
  with Cons show ?case by (simp add: record_run_def x)
qed

section \<open>Properties\<close>

definition sample_fmt :: layout where
  "sample_fmt t = replicate (nat (g_ns t)) (CHR ''0'')"

definition sample_parse :: tparse where
  "sample_parse s = Inr \<lparr>g_ns = int (length s), g_off = 0\<rparr>"

definition sample_writes :: "((astmt \<Rightarrow> bool) \<times> arec) list" where
  "sample_writes = [(\<lambda>_. False, sample_arec ''casemgmt.list'' []), (\<lambda>st. st = ACommit, sample_arec ''casemgmt.get'' []),
     (\<lambda>_. False, sample_arec ''casemgmt.close'' ''x'')]"

lemma sample_writes_respell: "\<forall>(f, r)\<in>set sample_writes. respells sample_fmt sample_parse (a_ts r)"
  by (simp add: sample_writes_def sample_arec_def respells_def sample_fmt_def sample_parse_def)

definition sample_trail :: adb where
  "sample_trail = record_run sample_digest sample_fmt (\<lambda>_. False) empty_adb sample_writes"

text \<open>
  C9 (RecordChained, VerifyChain): after any sequence of writes, whatever fails in the middle of each, the trail verifies: no break
  is reported, every row is counted, and the reported head is the hash of the last row.
\<close>
theorem recorded_trail_verifies:
  assumes "list_all (\<lambda>(f, r). respells fmt parse (a_ts r)) writes"
  shows "intact (verify_chain H fmt parse (record_run H fmt tbl empty_adb writes))
    \<and> cc_count (verify_chain H fmt parse (record_run H fmt tbl empty_adb writes))
        = length (ad_rows (record_run H fmt tbl empty_adb writes))
    \<and> cc_head (verify_chain H fmt parse (record_run H fmt tbl empty_adb writes))
        = chain_head (record_run H fmt tbl empty_adb writes)"
proof -
  have "linked H fmt parse genesis_hash (ad_rows (record_run H fmt tbl empty_adb writes))"
    using assms by (intro record_run_linked) (auto simp: empty_adb_def)
  then show ?thesis by (simp add: verify_chain_intact verify_chain_head)
qed

theorem recorded_trail_verifies_witness:
  "intact (verify_chain sample_digest sample_fmt sample_parse sample_trail)"
  using recorded_trail_verifies [of sample_fmt sample_parse sample_writes sample_digest "\<lambda>_. False"]
    sample_writes_respell by (auto simp: sample_trail_def)

text \<open>
  (the external anchor) two trails that both verify and show the same head hold the same records in the same order, unless SHA-256 has a collision; so any edit, insertion, deletion or truncation of a
  trail whose head was kept elsewhere changes the head, even when every hash after it was recomputed.
\<close>
theorem same_head_same_records:
  assumes "digest32 H" "intact (verify_chain H fmt parse db)" "intact (verify_chain H fmt parse db')"
    and "rows_fit fmt parse (ad_rows db)" "rows_fit fmt parse (ad_rows db')"
    and "cc_head (verify_chain H fmt parse db) = cc_head (verify_chain H fmt parse db')"
  shows "list_all2 (same_row fmt parse) (ad_rows db) (ad_rows db') \<or> collision H"
proof -
  have l: "linked H fmt parse genesis_hash (ad_rows db)" "linked H fmt parse genesis_hash (ad_rows db')"
    using assms(2,3) by (simp_all add: verify_chain_intact)
  with assms(6) have "head_from genesis_hash (ad_rows db) = head_from genesis_hash (ad_rows db')"
    by (simp add: verify_chain_head chain_head_eq)
  then show ?thesis using same_head_same_trail [OF assms(1) _ l assms(4,5)] by blast
qed

theorem same_head_same_records_witness:
  "list_all2 (same_row sample_fmt sample_parse) (ad_rows sample_trail) (ad_rows sample_trail) \<or> collision sample_digest"
proof (rule same_head_same_records [OF sample_digest32])
  show "intact (verify_chain sample_digest sample_fmt sample_parse sample_trail)"
    unfolding verify_chain_intact sample_trail_def using sample_writes_respell
    by (intro record_run_linked) (auto simp: empty_adb_def)
  then show "intact (verify_chain sample_digest sample_fmt sample_parse sample_trail)" .
  show "rows_fit sample_fmt sample_parse (ad_rows sample_trail)"
    unfolding sample_trail_def using sample_writes_respell
    by (intro record_run_fits)
      (auto simp: empty_adb_def rows_fit_def sample_writes_def sample_arec_def arec_fits_def
        sample_fmt_def outcome_allowed_def)
  then show "rows_fit sample_fmt sample_parse (ad_rows sample_trail)" .
qed simp



end
