(* ===== verification/Audit_Reads.thy ===== *)
theory Audit_Reads
  imports Audit_Store "HOL-Library.Multiset"
begin

text \<open>
  What the reads of the trail promise: \<open>Page\<close> agrees with one reference definition on both of its
  paths (the one that filters in the database and the one that walks a trail with gaps), \<open>List\<close> is
  chronological and stable, and the backfill never touches a row that already carries a hash.
\<close>

section \<open>Paging\<close>

text \<open>Rows are inserted with growing ids starting at 1.\<close>

definition ids_grow :: "adb \<Rightarrow> bool" where
  "ids_grow db = (sorted_wrt (<) (map w_id (ad_rows db)) \<and> list_all (\<lambda>w. 1 \<le> w_id w) (ad_rows db))"

definition readable :: "tparse \<Rightarrow> arow list \<Rightarrow> bool" where
  "readable parse ws = list_all (\<lambda>w. case parse (w_ts w) of Inl _ \<Rightarrow> False | Inr _ \<Rightarrow> True) ws"

text \<open>
  The reference: over the rows newest first, each at its chain position (how many rows are not newer),
  keep those that satisfy every filter.
\<close>

fun matching :: "tparse \<Rightarrow> trail_query \<Rightarrow> arow list \<Rightarrow> (int \<times> arec) list" where
  "matching parse q [] = []"
| "matching parse q (w # ws) =
     (case parse (w_ts w) of
        Inl _ \<Rightarrow> matching parse q ws
      | Inr t \<Rightarrow>
          if (q_before q > 0 \<longrightarrow> int (length ws) + 1 < q_before q) \<and> column_match q w \<and> in_window q t
          then (int (length ws) + 1, row_record w t) # matching parse q ws
          else matching parse q ws)"

definition first_page :: "nat \<Rightarrow> 'a list \<Rightarrow> 'a list \<times> bool" where
  "first_page n xs = (take n xs, n < length xs)"

lemma page_walk_gaps:
  assumes "readable parse ws" "length out \<le> q_limit q"
  shows "page_walk parse q False ws (int (length ws) + 1) out
    = Some (first_page (q_limit q) (out @ matching parse q ws))"
  using assms
proof (induction ws arbitrary: out)
  case Nil
  then show ?case by (simp add: first_page_def)
next
  case (Cons w ws)
  from Cons.prems(1) obtain t where t: "parse (w_ts w) = Inr t"
    by (auto simp: readable_def split: sum.splits)
  have r: "readable parse ws" using Cons.prems(1) by (simp add: readable_def)
  note ih = Cons.IH [OF r]
  show ?case
  proof (cases "(q_before q > 0 \<longrightarrow> int (length ws) + 1 < q_before q) \<and> column_match q w \<and> in_window q t")
    case True
    show ?thesis
    proof (cases "length out = q_limit q")
      case full: True
      with True t show ?thesis by (auto simp: Let_def first_page_def)
    next
      case False
      with Cons.prems(2) have "length (out @ [(int (length ws) + 1, row_record w t)]) \<le> q_limit q" by simp
      with ih True t False show ?thesis by (auto simp: Let_def add.commute)
    qed
  next
    case False
    with t ih [OF Cons.prems(2)] show ?thesis by (auto simp: Let_def add.commute)
  qed
qed

fun ids_down :: "arow list \<Rightarrow> bool" where
  "ids_down [] = True"
| "ids_down (w # ws) = (w_id w = length ws + 1 \<and> ids_down ws)"

definition page_filter :: "trail_query \<Rightarrow> arow \<Rightarrow> bool" where
  "page_filter q w = ((q_before q > 0 \<longrightarrow> int (w_id w) < q_before q) \<and> column_match q w)"

lemma page_walk_contiguous:
  assumes "readable parse ws" "ids_down ws" "length out \<le> q_limit q"
  shows "page_walk parse q True (filter (page_filter q) ws) pos out
    = Some (first_page (q_limit q) (out @ matching parse q ws))"
  using assms
proof (induction ws arbitrary: out)
  case Nil
  then show ?case by (simp add: first_page_def)
next
  case (Cons w ws)
  from Cons.prems(1) obtain t where t: "parse (w_ts w) = Inr t"
    by (auto simp: readable_def split: sum.splits)
  have r: "readable parse ws" "ids_down ws" and id: "int (w_id w) = int (length ws) + 1"
    using Cons.prems(1,2) by (simp_all add: readable_def)
  note ih = Cons.IH [OF r]
  show ?case
  proof (cases "page_filter q w \<and> in_window q t")
    case True
    show ?thesis
    proof (cases "length out = q_limit q")
      case full: True
      with True t id show ?thesis by (auto simp: Let_def first_page_def page_filter_def)
    next
      case False
      with Cons.prems(3) have "length (out @ [(int (length ws) + 1, row_record w t)]) \<le> q_limit q" by simp
      with ih True t False id show ?thesis by (auto simp: Let_def page_filter_def)
    qed
  next
    case False
    with t ih [OF Cons.prems(3)] id show ?thesis by (auto simp: Let_def page_filter_def)
  qed
qed

text \<open>Growing ids from 1 whose count equals their maximum are exactly 1, 2, and so on.\<close>

lemma growing_ids_low:
  "sorted_wrt (<) xs \<Longrightarrow> \<forall>x\<in>set xs. 1 \<le> x \<Longrightarrow> i < length xs \<Longrightarrow> i + 1 \<le> xs ! i" for xs :: "nat list"
proof (induction i)
  case 0
  then show ?case by simp
next
  case (Suc i)
  then have "xs ! i < xs ! Suc i" by (simp add: sorted_wrt_nth_less)
  with Suc show ?case by simp
qed

lemma growing_ids_high:
  "sorted_wrt (<) xs \<Longrightarrow> i < length xs \<Longrightarrow> xs ! i + (length xs - 1 - i) \<le> xs ! (length xs - 1)"
  for xs :: "nat list"
proof (induction "length xs - 1 - i" arbitrary: i)
  case 0
  then have "i = length xs - 1" by simp
  then show ?case by simp
next
  case (Suc k)
  then have "Suc i < length xs" by simp
  with Suc.prems(1) have "xs ! i < xs ! Suc i" by (simp add: sorted_wrt_nth_less)
  moreover have "xs ! Suc i + (length xs - 1 - Suc i) \<le> xs ! (length xs - 1)"
    using Suc by (intro Suc.hyps(1)) auto
  ultimately show ?case using Suc.hyps(2) by simp
qed

lemma ids_down_rev:
  "(\<And>i. i < length ws \<Longrightarrow> w_id (ws ! i) = i + 1) \<Longrightarrow> ids_down (rev ws)"
proof (induction ws rule: rev_induct)
  case (snoc w ws)
  have "w_id w = length ws + 1" using snoc.prems [of "length ws"] by simp
  moreover have "ids_down (rev ws)"
  proof (rule snoc.IH)
    fix i assume "i < length ws"
    then show "w_id (ws ! i) = i + 1" using snoc.prems [of i] by (simp add: nth_append)
  qed
  ultimately show ?case by simp
qed simp

lemma contiguous_ids:
  assumes "ids_grow db" "ad_rows db \<noteq> []" "length (ad_rows db) = Max (w_id ` set (ad_rows db))"
  shows "ids_down (rev (ad_rows db))"
proof (rule ids_down_rev)
  fix i assume i: "i < length (ad_rows db)"
  let ?ids = "map w_id (ad_rows db)" and ?n = "length (ad_rows db)"
  have s: "sorted_wrt (<) ?ids" "\<forall>x\<in>set ?ids. 1 \<le> x" using assms(1) by (auto simp: ids_grow_def)
  have "?ids ! (?n - 1) \<in> set ?ids" using assms(2) by (intro nth_mem) simp
  then have "?ids ! (?n - 1) \<le> Max (set ?ids)" by simp
  then have "?ids ! (?n - 1) \<le> ?n" using assms(3) by simp
  with growing_ids_high [OF s(1), of i] growing_ids_low [OF s, of i] i
  show "w_id (ad_rows db ! i) = i + 1" by simp
qed

text \<open>
  (Page) a page is the newest records that satisfy every filter, newest first, each with the chain position verification would
  report, together with whether more match further back; the path that filters in the database and the path that walks a trail with
  deleted rows give that same answer.
\<close>
theorem page_exact:
  assumes "ids_grow db" "readable parse (ad_rows db)"
  shows "page parse q db = Some (first_page (q_limit q) (matching parse q (rev (ad_rows db))))"
proof -
  let ?max = "if ad_rows db = [] then 0 else Max (w_id ` set (ad_rows db))"
  have r: "readable parse (rev (ad_rows db))" using assms(2) by (simp add: readable_def)
  have f: "(\<lambda>w. (q_before q > 0 \<longrightarrow> int (w_id w) < q_before q) \<and> column_match q w) = page_filter q"
    by (simp add: page_filter_def fun_eq_iff)
  show ?thesis
  proof (cases "length (ad_rows db) = ?max")
    case True
    have "ids_down (rev (ad_rows db))"
    proof (cases "ad_rows db = []")
      case False
      with True contiguous_ids [OF assms(1)] show ?thesis by simp
    qed simp
    from page_walk_contiguous [OF r this, of "[]" q] show ?thesis
      using True by (simp add: page_def Let_def f rev_filter)
  next
    case False
    from page_walk_gaps [OF r, of "[]" q] show ?thesis
      using False by (simp add: page_def Let_def add.commute)
  qed
qed

section \<open>Listing\<close>

text \<open>
  (List) the trail is listed in chronological order of the instants, holds exactly the stored records, and records of the same
  instant keep the order they were written in.
\<close>
theorem list_records_chronological:
  "list_records parse db = map_option (sort_key (\<lambda>r. g_ns (a_ts r))) (read_rows parse (ad_rows db))
   \<and> (case list_records parse db of
        None \<Rightarrow> \<not> readable parse (ad_rows db)
      | Some rs \<Rightarrow> sorted (map (\<lambda>r. g_ns (a_ts r)) rs)
          \<and> (\<exists>written. chain_order parse db = Some written \<and> mset rs = mset written
              \<and> (\<forall>k. filter (\<lambda>r. g_ns (a_ts r) = k) rs = filter (\<lambda>r. g_ns (a_ts r) = k) written)))"
proof -
  have "read_rows parse ws = None \<longleftrightarrow> \<not> readable parse ws" for ws
    by (induction ws) (auto simp: readable_def split: sum.splits)
  then show ?thesis
    by (auto simp: list_records_def chain_order_def sort_key_stable split: option.splits)
qed

section \<open>Backfilling\<close>

text \<open>A row that was not hashed may gain its link; a hashed row is left as it is.\<close>

definition backfilled :: "arow \<Rightarrow> arow \<Rightarrow> bool" where
  "backfilled w v =
     (if w_hash w \<noteq> [] then v = w else v\<lparr>w_prev := w_prev w, w_hash := w_hash w\<rparr> = w)"

lemma backfilled_simps [simp]:
  "backfilled w w" "w_hash w = [] \<Longrightarrow> backfilled w (w\<lparr>w_prev := p, w_hash := h\<rparr>)"
  by (simp_all add: backfilled_def)

lemma backfill_rows_all2: "backfill_rows H fmt parse prev ws = Some vs \<Longrightarrow> list_all2 backfilled ws vs"
proof (induction ws arbitrary: prev vs)
  case (Cons w ws)
  then show ?case
    by (auto simp: Let_def split: if_splits sum.splits)
qed simp

lemma backfill_rows_linked:
  "list_all (\<lambda>w. w_hash w = []) ws \<Longrightarrow> backfill_rows H fmt parse prev ws = Some vs
    \<Longrightarrow> linked H fmt parse prev vs"
proof (induction ws arbitrary: prev vs)
  case (Cons w ws)
  have same: "row_record (w\<lparr>w_prev := p, w_hash := h\<rparr>) t = row_record w t" for p h t
    by (simp add: row_record_def)
  from Cons show ?case
    by (auto simp: Let_def same split: sum.splits)
qed simp

text \<open>
  (backfillChain) the migration hashes only rows that carry no hash: it runs once, never changes a row that was chained before and never
  changes any row's record, so deleting the boundary row makes it re-sign nothing; and a trail that had no hash
  at all verifies afterwards.
\<close>
theorem backfill_never_resigns:
  assumes "backfill_chain H fmt parse db = Some db'"
  shows "list_all2 backfilled (ad_rows db) (ad_rows db') \<and> ad_meta db' \<noteq> None
    \<and> (ad_meta db \<noteq> None \<longrightarrow> db' = db)
    \<and> (ad_meta db = None \<longrightarrow> list_all (\<lambda>w. w_hash w = []) (ad_rows db) \<longrightarrow> intact (verify_chain H fmt parse db'))"
proof (cases "ad_meta db")
  case None
  let ?hashed = "filter (\<lambda>w. w_hash w \<noteq> []) (ad_rows db)"
  let ?prev = "if ?hashed = [] then genesis_hash else w_hash (last ?hashed)"
  from assms None obtain rows where rows: "backfill_rows H fmt parse ?prev (ad_rows db) = Some rows"
    and db': "ad_rows db' = rows" "ad_meta db' \<noteq> None"
    by (auto simp: backfill_chain_def Let_def)
  moreover have "intact (verify_chain H fmt parse db')" if fresh: "list_all (\<lambda>w. w_hash w = []) (ad_rows db)"
  proof -
    have "?hashed = []" using fresh by (simp add: filter_empty_conv)
    with rows backfill_rows_linked [OF fresh] show ?thesis by (simp add: verify_chain_intact db')
  qed
  ultimately show ?thesis using None backfill_rows_all2 by auto
next
  case (Some b)
  with assms have "db' = db" by (simp add: backfill_chain_def)
  with Some show ?thesis by (simp add: list_all2_same)
qed

definition sample_old_row :: arow where
  "sample_old_row = \<lparr>w_id = 1, w_identity = ''sub-1'', w_tool = ''casemgmt.list'', w_upstream = ''casemgmt'',
     w_ts = ''0'', w_outcome = ''allowed'', w_reason = [], w_source = [], w_name = [], w_prev = [], w_hash = []\<rparr>"

theorem backfill_never_resigns_witness:
  "\<exists>db'. backfill_chain sample_digest sample_fmt sample_parse
      \<lparr>ad_rows = [sample_old_row], ad_seq = 1, ad_meta = None\<rparr> = Some db'
    \<and> intact (verify_chain sample_digest sample_fmt sample_parse db')"
proof -
  let ?db = "\<lparr>ad_rows = [sample_old_row], ad_seq = 1, ad_meta = None\<rparr>"
  have "\<exists>db'. backfill_chain sample_digest sample_fmt sample_parse ?db = Some db'"
    by (simp add: backfill_chain_def sample_old_row_def sample_parse_def Let_def)
  then obtain db' where db': "backfill_chain sample_digest sample_fmt sample_parse ?db = Some db'" by blast
  from backfill_never_resigns [OF db'] db' show ?thesis by (simp add: sample_old_row_def)
qed

definition sample_query :: trail_query where
  "sample_query = \<lparr>q_before = 0, q_since = \<lparr>g_ns = 0, g_off = 0\<rparr>, q_until = \<lparr>g_ns = 0, g_off = 0\<rparr>,
     q_subject = ''sub-1'', q_outcome = [], q_source = [], q_tool = [], q_server = [], q_limit = 1\<rparr>"

theorem page_exact_witness:
  "page sample_parse sample_query
     \<lparr>ad_rows = [sample_old_row, sample_old_row\<lparr>w_id := 3\<rparr>], ad_seq = 3, ad_meta = None\<rparr>
   = Some ([(2, row_record sample_old_row \<lparr>g_ns = 1, g_off = 0\<rparr>)], True)"
proof -
  let ?db = "\<lparr>ad_rows = [sample_old_row, sample_old_row\<lparr>w_id := 3\<rparr>], ad_seq = 3, ad_meta = None\<rparr>"
  have "ids_grow ?db" "readable sample_parse (ad_rows ?db)"
    by (simp_all add: ids_grow_def readable_def sample_old_row_def sample_parse_def)
  from page_exact [OF this, of sample_query] show ?thesis
    by (simp add: first_page_def sample_old_row_def sample_parse_def sample_query_def column_match_def
        in_window_def is_zero_def row_record_def)
qed

end
