(* ===== verification/Registry.thy ===== *)
theory Registry
  imports Gotime
begin

text \<open>
  Model of \<open>internal/registry/registry.go\<close> (the entry and the contract \<open>Validate\<close> enforces), of
  \<open>internal/registry/sqlite/sqlite.go\<close> (the repository) and of \<open>internal/gateway/envpolicy.go\<close> (names
  refused as credentials). \<open>url.Parse\<close> and the count of a JSON array's elements are arguments, bundled in \<open>parsers\<close>.
\<close>

section \<open>Entries\<close>

definition transport_stdio :: string where "transport_stdio = ''stdio''"
definition transport_http :: string where "transport_http = ''http''"
definition transport_oci :: string where "transport_oci = ''oci''"

definition auth_none :: string where "auth_none = []"
definition auth_bearer :: string where "auth_bearer = ''bearer''"
definition auth_header :: string where "auth_header = ''header''"
definition auth_query :: string where "auth_query = ''query''"

definition auth_kind_valid :: "string \<Rightarrow> bool" where
  "auth_kind_valid k = (k = auth_none \<or> k = auth_bearer \<or> k = auth_header \<or> k = auth_query)"

definition names_location :: "string \<Rightarrow> bool" where
  "names_location k = (k = auth_header \<or> k = auth_query)"

record upstream =
  up_name :: string
  up_transport :: string
  up_command :: string
  up_args :: "string list"
  up_image :: string
  up_url :: string
  up_env :: "string list"
  up_auth_kind :: string
  up_auth_name :: string
  up_operations :: string
  up_created :: gotime
  up_updated :: gotime

record parsers =
  parse_url :: "string \<Rightarrow> (string \<times> string) option"
  json_array :: "string \<Rightarrow> nat option"

section \<open>Names\<close>

definition reg_separator :: char where
  "reg_separator = CHR ''.''"

definition is_alnum :: "char \<Rightarrow> bool" where
  "is_alnum c = (CHR ''A'' \<le> c \<and> c \<le> CHR ''Z'' \<or> CHR ''a'' \<le> c \<and> c \<le> CHR ''z''
     \<or> CHR ''0'' \<le> c \<and> c \<le> CHR ''9'')"

fun safe_upstream_name :: "string \<Rightarrow> bool" where
  "safe_upstream_name [] = False"
| "safe_upstream_name (c # cs) =
     (is_alnum c \<and> list_all (\<lambda>d. is_alnum d \<or> d = CHR ''_'' \<or> d = CHR ''-'') cs)"

definition lower :: "char \<Rightarrow> char" where
  "lower c = (if CHR ''A'' \<le> c \<and> c \<le> CHR ''Z'' then char_of ((of_char c :: nat) + 32) else c)"

definition reserved_name :: string where
  "reserved_name = ''gatte''"

definition equal_fold_reserved :: "string \<Rightarrow> bool" where
  "equal_fold_reserved name = (map lower name = reserved_name)"

definition valid_name :: "string \<Rightarrow> bool" where
  "valid_name name = (safe_upstream_name name \<and> \<not> equal_fold_reserved name)"

section \<open>The contract\<close>

datatype registry_error =
    NameEmpty | NameSeparatorInside | NameGrammar | NameReserved | CommandEmpty | ImageNotEmpty
  | ImageEmpty | ImageNotPinned | UnusedByOci string | TransportUnknown
  | CommandNotEmpty | UrlEmpty | UrlInvalid | UrlScheme | UrlNoHost | AuthKindUnknown
  | KeylessWithEnv | KeylessWithName | OneSecretNeeded | AuthNameEmpty | AuthNameChars
  | AuthNameControl | BearerWithName | OperationsEmpty | OperationsMalformed | OperationsNone
  | AuthKindNotHttp | AuthNameNotHttp | OperationsNotHttp | EnvEmpty | EnvShape
  | AlreadyExists | EntryNotFound | NotOci | RegistrySql

definition is_hex_lower :: "char \<Rightarrow> bool" where
  "is_hex_lower c = (CHR ''0'' \<le> c \<and> c \<le> CHR ''9'' \<or> CHR ''a'' \<le> c \<and> c \<le> CHR ''f'')"

definition regex_space :: "char \<Rightarrow> bool" where
  "regex_space c = (c \<in> {CHR 0x09, CHR 0x0A, CHR 0x0C, CHR 0x0D, CHR 0x20})"

definition digest_pinned :: "string \<Rightarrow> bool" where
  "digest_pinned img =
     (case cut_at (CHR ''@'') img of
        None \<Rightarrow> False
      | Some (name, rest) \<Rightarrow>
          name \<noteq> [] \<and> list_all (\<lambda>c. \<not> regex_space c) name
          \<and> (case cut_prefix ''sha256:'' rest of
               None \<Rightarrow> False
             | Some hex \<Rightarrow> length hex = 64 \<and> list_all is_hex_lower hex))"

definition validate_image :: "string \<Rightarrow> registry_error option" where
  "validate_image img =
     (if trim_space img = [] then Some ImageEmpty
      else if \<not> digest_pinned img then Some ImageNotPinned
      else None)"

definition auth_name_chars :: "string \<Rightarrow> bool" where
  "auth_name_chars name =
     (name \<noteq> [] \<and> list_all (\<lambda>c. is_alnum c \<or> c \<in> set (''!#$%&*+.^_|~-'' @ [CHR 0x27, CHR 0x60])) name)"

definition control_header_slots :: "string list" where
  "control_header_slots = [''host'', ''content-length'', ''transfer-encoding'', ''connection'', ''upgrade'',
     ''te'', ''trailer'', ''keep-alive'', ''cookie'']"

definition is_control_header_slot :: "string \<Rightarrow> bool" where
  "is_control_header_slot name =
     (let folded = map (\<lambda>c. if c = CHR ''_'' then CHR ''-'' else c) (map lower name)
      in folded \<in> set control_header_slots \<or> has_prefix folded ''proxy-'')"

definition validate_auth_name :: "string \<Rightarrow> registry_error option" where
  "validate_auth_name name =
     (if trim_space name = [] then Some AuthNameEmpty
      else if \<not> auth_name_chars name then Some AuthNameChars
      else None)"

definition reject_image :: "string \<Rightarrow> registry_error option" where
  "reject_image img = (if trim_space img = [] then None else Some ImageNotEmpty)"

definition reject_unused_by_oci :: "string \<Rightarrow> string \<Rightarrow> registry_error option" where
  "reject_unused_by_oci f v = (if trim_space v = [] then None else Some (UnusedByOci f))"

text \<open>The first error of a sequence of checks.\<close>

definition orelse :: "'e option \<Rightarrow> 'e option \<Rightarrow> 'e option" where
  "orelse a b = (case a of None \<Rightarrow> b | Some e \<Rightarrow> Some e)"

definition check :: "bool \<Rightarrow> 'e \<Rightarrow> 'e option" where
  "check bad e = (if bad then Some e else None)"

definition validate_http_url :: "parsers \<Rightarrow> upstream \<Rightarrow> registry_error option" where
  "validate_http_url P s =
     (if trim_space (up_url s) = [] then Some UrlEmpty
      else case parse_url P (up_url s) of
        None \<Rightarrow> Some UrlInvalid
      | Some (scheme, host) \<Rightarrow>
          if scheme \<noteq> ''http'' \<and> scheme \<noteq> ''https'' then Some UrlScheme
          else if host = [] then Some UrlNoHost
          else None)"

definition validate_http_auth :: "upstream \<Rightarrow> registry_error option" where
  "validate_http_auth s =
     (if \<not> auth_kind_valid (up_auth_kind s) then Some AuthKindUnknown
      else if up_auth_kind s = auth_none then
        (if up_env s \<noteq> [] then Some KeylessWithEnv
         else if trim_space (up_auth_name s) \<noteq> [] then Some KeylessWithName
         else None)
      else if length (up_env s) \<noteq> 1 then Some OneSecretNeeded
      else if names_location (up_auth_kind s) then
        orelse (validate_auth_name (up_auth_name s))
          (check (up_auth_kind s = auth_header \<and> is_control_header_slot (up_auth_name s)) AuthNameControl)
      else check (trim_space (up_auth_name s) \<noteq> []) BearerWithName)"

definition validate_http_operations :: "parsers \<Rightarrow> upstream \<Rightarrow> registry_error option" where
  "validate_http_operations P s =
     (if up_operations s = [] then Some OperationsEmpty
      else case json_array P (up_operations s) of
        None \<Rightarrow> Some OperationsMalformed
      | Some n \<Rightarrow> check (n = 0) OperationsNone)"

definition validate_http :: "parsers \<Rightarrow> upstream \<Rightarrow> registry_error option" where
  "validate_http P s =
     orelse (reject_image (up_image s))
     (orelse (check (trim_space (up_command s) \<noteq> []) CommandNotEmpty)
     (orelse (validate_http_url P s)
     (orelse (validate_http_auth s)
       (validate_http_operations P s))))"

definition validate_transport :: "parsers \<Rightarrow> upstream \<Rightarrow> registry_error option" where
  "validate_transport P s =
     (if up_transport s = transport_stdio then
        orelse (check (trim_space (up_command s) = []) CommandEmpty) (reject_image (up_image s))
      else if up_transport s = transport_oci then
        orelse (validate_image (up_image s))
        (orelse (reject_unused_by_oci ''command'' (up_command s))
          (reject_unused_by_oci ''url'' (up_url s)))
      else if up_transport s = transport_http then validate_http P s
      else Some TransportUnknown)"

definition validate_http_only :: "upstream \<Rightarrow> registry_error option" where
  "validate_http_only s =
     (if up_transport s \<noteq> transport_http then
        orelse (check (up_auth_kind s \<noteq> auth_none) AuthKindNotHttp)
        (orelse (check (trim_space (up_auth_name s) \<noteq> []) AuthNameNotHttp)
          (check (up_operations s \<noteq> []) OperationsNotHttp))
      else None)"

fun validate_env :: "string list \<Rightarrow> registry_error option" where
  "validate_env [] = None"
| "validate_env (name # names) =
     (if trim_space name = [] then Some EnvEmpty
      else if list_ex (\<lambda>c. c \<in> {CHR ''='', CHR 0x20, CHR 0x09, CHR 0x0A, CHR 0x0D}) name then Some EnvShape
      else validate_env names)"

definition validate_up_name :: "string \<Rightarrow> registry_error option" where
  "validate_up_name name =
     (if trim_space name = [] then Some NameEmpty
      else if reg_separator \<in> set name then Some NameSeparatorInside
      else if \<not> safe_upstream_name name then Some NameGrammar
      else if equal_fold_reserved name then Some NameReserved
      else None)"

definition upstream_validate :: "parsers \<Rightarrow> upstream \<Rightarrow> registry_error option" where
  "upstream_validate P s =
     orelse (validate_up_name (up_name s))
     (orelse (validate_transport P s)
     (orelse (validate_http_only s)
       (validate_env (up_env s))))"

section \<open>Names refused as credentials\<close>

definition code_loading_env_names :: "string list" where
  "code_loading_env_names =
     [''GCONV_PATH'', ''NODE_OPTIONS'', ''NODE_PATH'', ''PYTHONPATH'', ''PYTHONHOME'', ''PYTHONSTARTUP'',
      ''PYTHONUSERBASE'', ''PYTHONBREAKPOINT'', ''PYTHONWARNINGS'', ''PERL5LIB'', ''PERL5OPT'', ''PERLLIB'',
      ''PERL5DB'', ''RUBYOPT'', ''RUBYLIB'', ''BASH_ENV'', ''ENV'', ''JAVA_TOOL_OPTIONS'', ''_JAVA_OPTIONS'',
      ''JDK_JAVA_OPTIONS'', ''CLASSPATH'', ''PATH'', ''HOME'']"

definition code_loading_env_prefixes :: "string list" where
  "code_loading_env_prefixes = [''LD_'', ''DYLD_'', ''BASH_FUNC_'']"

definition is_code_loading_env_name :: "string \<Rightarrow> bool" where
  "is_code_loading_env_name name =
     (if name \<in> set code_loading_env_names then True
      else list_ex (\<lambda>p. has_prefix name p) code_loading_env_prefixes)"

section \<open>The repository\<close>

text \<open>
  \<open>rt\<close> is what a list of strings reads back as after \<open>json.Marshal\<close> and \<open>json.Unmarshal\<close> (itself, when every
  string is valid UTF-8). Times are stored to the second.
\<close>

type_synonym registry_db = "upstream list"

definition to_second :: "gotime \<Rightarrow> gotime" where
  "to_second t = trunc_time (utc t) 1000000000"

definition register ::
  "parsers \<Rightarrow> (string list \<Rightarrow> string list) \<Rightarrow> bool \<Rightarrow> gotime \<Rightarrow> upstream \<Rightarrow> registry_db
     \<Rightarrow> registry_error option \<times> registry_db" where
  "register P rt broken now s db =
     (case upstream_validate P s of
        Some e \<Rightarrow> (Some e, db)
      | None \<Rightarrow>
          if up_name s \<in> up_name ` set db then (Some AlreadyExists, db)
          else if broken then (Some RegistrySql, db)
          else (None, db @ [s\<lparr>up_args := rt (up_args s), up_env := rt (up_env s),
                  up_created := to_second now, up_updated := to_second now\<rparr>]))"

definition get_entry :: "string \<Rightarrow> registry_db \<Rightarrow> registry_error + upstream" where
  "get_entry name db =
     (case find (\<lambda>s. up_name s = name) db of None \<Rightarrow> Inl EntryNotFound | Some s \<Rightarrow> Inr s)"

definition list_entries :: "registry_db \<Rightarrow> upstream list" where
  "list_entries db = sort_key up_name db"

definition update_image ::
  "parsers \<Rightarrow> bool \<Rightarrow> gotime \<Rightarrow> string \<Rightarrow> string \<Rightarrow> registry_db \<Rightarrow> (registry_error + upstream) \<times> registry_db" where
  "update_image P broken now name img db =
     (case get_entry name db of
        Inl e \<Rightarrow> (Inl e, db)
      | Inr s \<Rightarrow>
          if up_transport s \<noteq> transport_oci then (Inl NotOci, db)
          else case upstream_validate P (s\<lparr>up_image := img\<rparr>) of
            Some e \<Rightarrow> (Inl e, db)
          | None \<Rightarrow>
              if broken then (Inl RegistrySql, db)
              else (Inr (s\<lparr>up_image := img, up_updated := to_second now\<rparr>),
                    map (\<lambda>r. if up_name r = name then r\<lparr>up_image := img, up_updated := to_second now\<rparr> else r) db))"

definition deregister :: "string \<Rightarrow> registry_db \<Rightarrow> registry_error option \<times> registry_db" where
  "deregister name db =
     (if name \<in> up_name ` set db then (None, filter (\<lambda>s. up_name s \<noteq> name) db)
      else (Some EntryNotFound, db))"

section \<open>Facts\<close>

lemma orelse_None [simp]: "orelse a b = None \<longleftrightarrow> a = None \<and> b = None"
  by (cases a) (auto simp: orelse_def)

lemma check_None [simp]: "check bad e = None \<longleftrightarrow> \<not> bad"
  by (simp add: check_def)

lemma reject_None [simp]:
  "reject_image i = None \<longleftrightarrow> blank i" "reject_unused_by_oci f v = None \<longleftrightarrow> blank v"
  by (simp_all add: reject_image_def reject_unused_by_oci_def blank_def)

lemma transport_distinct [simp]:
  "transport_stdio \<noteq> transport_http" "transport_http \<noteq> transport_stdio"
  "transport_stdio \<noteq> transport_oci" "transport_oci \<noteq> transport_stdio"
  "transport_http \<noteq> transport_oci" "transport_oci \<noteq> transport_http"
  by (simp_all add: transport_stdio_def transport_http_def transport_oci_def)

lemma validate_env_None:
  "validate_env names = None \<longleftrightarrow>
     (\<forall>n\<in>set names. \<not> blank n \<and> (\<forall>c\<in>set n. c \<notin> {CHR ''='', CHR 0x20, CHR 0x09, CHR 0x0A, CHR 0x0D}))"
  by (induction names) (auto simp: blank_def)

lemma safe_name_no_separator: "safe_upstream_name n \<Longrightarrow> reg_separator \<notin> set n"
  by (cases n) (auto simp: reg_separator_def is_alnum_def less_eq_char_def)

lemma safe_name_nonempty: "safe_upstream_name n \<Longrightarrow> n \<noteq> []"
  by (cases n) auto

lemma validate_up_name_None: "validate_up_name n = None \<longleftrightarrow> \<not> blank n \<and> valid_name n"
  using safe_name_no_separator [of n] by (auto simp: validate_up_name_def valid_name_def blank_def)

lemma upstream_validate_None:
  "upstream_validate P s = None \<longleftrightarrow>
     \<not> blank (up_name s) \<and> valid_name (up_name s) \<and> validate_transport P s = None
     \<and> validate_http_only s = None \<and> validate_env (up_env s) = None"
  by (auto simp: upstream_validate_def validate_up_name_None)

text \<open>What the repository keeps: one entry per name, each satisfying the contract.\<close>

definition registry_inv :: "parsers \<Rightarrow> registry_db \<Rightarrow> bool" where
  "registry_inv P db = (distinct (map up_name db) \<and> list_all (\<lambda>s. upstream_validate P s = None) db)"

datatype reg_op =
    RegRegister bool gotime upstream
  | RegUpdateImage bool gotime string string
  | RegDeregister string

fun reg_step :: "parsers \<Rightarrow> registry_db \<Rightarrow> reg_op \<Rightarrow> registry_db" where
  "reg_step P db (RegRegister b now s) = snd (register P id b now s db)"
| "reg_step P db (RegUpdateImage b now n i) = snd (update_image P b now n i db)"
| "reg_step P db (RegDeregister n) = snd (deregister n db)"

lemma validate_times [simp]:
  "upstream_validate P (s\<lparr>up_created := a, up_updated := b\<rparr>) = upstream_validate P s"
  "upstream_validate P (s\<lparr>up_updated := b\<rparr>) = upstream_validate P s"
  "upstream_validate P (s\<lparr>up_created := a\<rparr>) = upstream_validate P s"
  by (simp_all add: upstream_validate_def validate_transport_def validate_http_def validate_http_url_def
      validate_http_auth_def validate_http_operations_def validate_http_only_def)

lemma get_entry_Inr: "get_entry n db = Inr s \<Longrightarrow> s \<in> set db \<and> up_name s = n"
  by (auto simp: get_entry_def split: option.splits dest: find_SomeD)

interpretation registry: invariant_kept "reg_step P" "registry_inv P" for P
proof
  fix db op
  assume inv: "registry_inv P db"
  show "registry_inv P (reg_step P db op)"
  proof (cases op)
    case (RegRegister b now s)
    have "s\<lparr>up_args := id (up_args s), up_env := id (up_env s)\<rparr> = s" by simp
    with inv RegRegister show ?thesis
      by (auto simp: register_def registry_inv_def split: option.splits)
  next
    case (RegUpdateImage b now n i)
    show ?thesis
    proof (cases "update_image P b now n i db")
      case (Pair res db')
      show ?thesis
      proof (cases "db' = db")
        case True
        with Pair RegUpdateImage inv show ?thesis by simp
      next
        case False
        with Pair obtain s where s: "get_entry n db = Inr s" "upstream_validate P (s\<lparr>up_image := i\<rparr>) = None"
          and db': "db' = map (\<lambda>r. if up_name r = n then r\<lparr>up_image := i, up_updated := to_second now\<rparr> else r) db"
          by (auto simp: update_image_def split: sum.splits option.splits if_splits)
        have "r = s" if "r \<in> set db" "up_name r = n" for r
          using get_entry_Inr [OF s(1)] that inv by (auto simp: registry_inv_def distinct_map inj_on_def)
        then have "list_all (\<lambda>s. upstream_validate P s = None) db'"
          using inv s(2) by (auto simp: registry_inv_def db')
        moreover have "map up_name db' = map up_name db" by (simp add: db')
        ultimately have "registry_inv P db'" using inv by (simp add: registry_inv_def)
        with Pair RegUpdateImage show ?thesis by simp
      qed
    qed
  next
    case (RegDeregister n)
    with inv show ?thesis by (auto simp: deregister_def registry_inv_def distinct_map_filter)
  qed
qed

section \<open>Properties\<close>


definition sample_parsers :: parsers where
  "sample_parsers = \<lparr>parse_url = (\<lambda>_. Some (''https'', ''api.example'')), json_array = (\<lambda>_. Some 1)\<rparr>"

definition sample_upstream :: upstream where
  "sample_upstream = \<lparr>up_name = ''casemgmt'', up_transport = transport_stdio, up_command = ''/bin/mcp'', up_args = [],
     up_image = [], up_url = [], up_env = [''TOKEN''], up_auth_kind = [], up_auth_name = [], up_operations = [],
     up_created = \<lparr>g_ns = 1, g_off = 0\<rparr>, up_updated = \<lparr>g_ns = 1, g_off = 0\<rparr>\<rparr>"

lemma sample_upstream_valid: "upstream_validate sample_parsers sample_upstream = None"
  by code_simp




end
