(* ===== verification/Signer.thy ===== *)
theory Signer
  imports Framing Registry "HOL-Library.AList" "HOL-Library.Multiset"
begin

text \<open>
  Model of \<open>internal/signer/signer.go\<close> and \<open>internal/signer/sqlite/sqlite.go\<close>: the bytes a signature covers, the
  decision against the configured trust anchor, and the signature table. \<open>edv pub msg sig\<close> is
  \<open>ed25519.Verify\<close>; keys and signatures are byte strings.
\<close>

section \<open>The bytes\<close>

definition canonical_tag :: string where
  "canonical_tag = ''mcp-gateway/signer/canonical/v1''"

definition canonical_tag_image :: string where
  "canonical_tag_image = ''mcp-gateway/signer/canonical/v2-image''"

definition canonical_tag_v3_http :: string where
  "canonical_tag_v3_http = ''mcp-gateway/signer/canonical/v3-http''"

definition with_image :: "upstream \<Rightarrow> bool" where
  "with_image s = (up_image s \<noteq> [] \<or> up_transport s = transport_oci)"

definition canonical_head :: "upstream \<Rightarrow> string" where
  "canonical_head s =
     (let buf = append_field []
            (if up_transport s = transport_http then canonical_tag_v3_http
             else if with_image s then canonical_tag_image else canonical_tag);
          buf = append_field buf (up_name s);
          buf = append_field buf (up_transport s);
          buf = append_field buf (up_command s);
          buf = append_field buf (up_url s)
      in if with_image s then append_field buf (up_image s) else buf)"

definition canonical_lists :: "string \<Rightarrow> upstream \<Rightarrow> string" where
  "canonical_lists buf s =
     (let buf = append_count buf (length (up_args s));
          buf = foldl append_field buf (up_args s);
          env_var_names = sort (up_env s);
          buf = append_count buf (length env_var_names)
      in foldl append_field buf env_var_names)"

definition canonical_entry :: "digest \<Rightarrow> upstream \<Rightarrow> string" where
  "canonical_entry H s =
     (let buf = canonical_lists (canonical_head s) s
      in if up_transport s = transport_http
         then append_field (append_field (append_field buf (up_auth_kind s)) (up_auth_name s))
                (H (up_operations s))
         else buf)"

section \<open>Signing and verifying\<close>

definition public_key_size :: nat where "public_key_size = 32"
definition signature_size :: nat where "signature_size = 64"

record signature =
  sg_bytes :: string
  sg_key :: string

definition sign_entry ::
  "digest \<Rightarrow> (string \<Rightarrow> string \<Rightarrow> string) \<Rightarrow> (string \<Rightarrow> string) \<Rightarrow> string \<Rightarrow> upstream \<Rightarrow> signature" where
  "sign_entry H eds public key s =
     \<lparr>sg_bytes = eds key (canonical_entry H s), sg_key = public key\<rparr>"

fun new_verifier :: "string list \<Rightarrow> string list option" where
  "new_verifier [] = Some []"
| "new_verifier (pub # pubs) =
     (if length pub \<noteq> public_key_size then None else map_option (Cons pub) (new_verifier pubs))"

definition trusts :: "string list \<Rightarrow> string \<Rightarrow> bool" where
  "trusts trusted pub = list_ex (\<lambda>k. k = pub) trusted"

datatype verdict =
    Verified
  | MalformedKey
  | MalformedSignature
  | NoTrustedKey string
  | DoesNotMatch string
  | UntrustedKey string string nat

definition key_fingerprint :: "digest \<Rightarrow> string \<Rightarrow> string" where
  "key_fingerprint H pub = ''sha256:'' @ hex_encode (H pub)"

definition verify ::
  "(string \<Rightarrow> string \<Rightarrow> string \<Rightarrow> bool) \<Rightarrow> digest \<Rightarrow> string list \<Rightarrow> upstream \<Rightarrow> signature \<Rightarrow> verdict" where
  "verify edv H trusted s sig =
     (if length (sg_key sig) \<noteq> public_key_size then MalformedKey
      else if length (sg_bytes sig) \<noteq> signature_size then MalformedSignature
      else if list_ex (\<lambda>pub. edv pub (canonical_entry H s) (sg_bytes sig)) trusted then Verified
      else if trusted = [] then NoTrustedKey (up_name s)
      else if trusts trusted (sg_key sig) then DoesNotMatch (up_name s)
      else UntrustedKey (up_name s) (key_fingerprint H (sg_key sig)) (length trusted))"

section \<open>The signature table\<close>

datatype sig_error = SigMalformed | SigNotFound | SigSql

type_synonym sig_db = "(string \<times> signature) list"

definition put_signature :: "bool \<Rightarrow> string \<Rightarrow> signature \<Rightarrow> sig_db \<Rightarrow> sig_error option \<times> sig_db" where
  "put_signature broken name sig db =
     (if length (sg_key sig) \<noteq> public_key_size then (Some SigMalformed, db)
      else if length (sg_bytes sig) \<noteq> signature_size then (Some SigMalformed, db)
      else if broken then (Some SigSql, db)
      else (None, AList.update name sig db))"

definition get_signature :: "bool \<Rightarrow> string \<Rightarrow> sig_db \<Rightarrow> sig_error + signature" where
  "get_signature broken name db =
     (if broken then Inl SigSql
      else case map_of db name of None \<Rightarrow> Inl SigNotFound | Some s \<Rightarrow> Inr s)"

definition delete_signature :: "bool \<Rightarrow> string \<Rightarrow> sig_db \<Rightarrow> sig_error option \<times> sig_db" where
  "delete_signature broken name db =
     (if broken then (Some SigSql, db)
      else if map_of db name = None then (Some SigNotFound, db)
      else (None, AList.delete name db))"

section \<open>Facts\<close>

lemma append_count_sorted:
  "foldl append_field (append_count buf (length xs)) (sort xs) = buf @ field_list (sort xs)"
  using append_count_fields [of buf "sort xs"] by simp

lemma canonical_entry_eq:
  "canonical_entry H s =
     field (if up_transport s = transport_http then canonical_tag_v3_http
            else if with_image s then canonical_tag_image else canonical_tag)
     @ field (up_name s) @ field (up_transport s) @ field (up_command s) @ field (up_url s)
     @ (if with_image s then field (up_image s) else [])
     @ field_list (up_args s) @ field_list (sort (up_env s))
     @ (if up_transport s = transport_http
        then field (up_auth_kind s) @ field (up_auth_name s) @ field (H (up_operations s)) else [])"
  unfolding canonical_entry_def canonical_lists_def canonical_head_def Let_def
  by (simp add: append_count_fields append_count_sorted append_field_eq)

lemma signer_tags [simp]:
  "fits64 canonical_tag" "fits64 canonical_tag_image" "fits64 canonical_tag_v3_http"
  "canonical_tag \<noteq> canonical_tag_image" "canonical_tag_image \<noteq> canonical_tag"
  "canonical_tag \<noteq> canonical_tag_v3_http" "canonical_tag_v3_http \<noteq> canonical_tag"
  "canonical_tag_image \<noteq> canonical_tag_v3_http" "canonical_tag_v3_http \<noteq> canonical_tag_image"
  by (simp_all add: fits64_def canonical_tag_def canonical_tag_image_def canonical_tag_v3_http_def)

text \<open>Lengths below \<open>2 ^ 56\<close>: the first byte of such a length is zero.\<close>

definition fits56 :: "'a list \<Rightarrow> bool" where
  "fits56 s = (length s < 2 ^ 56)"

definition entry_fits :: "upstream \<Rightarrow> bool" where
  "entry_fits s =
     (list_all fits56 [up_name s, up_transport s, up_command s, up_url s, up_image s, up_auth_kind s, up_auth_name s]
      \<and> fits56 (up_args s) \<and> list_all fits56 (up_args s)
      \<and> fits56 (up_env s) \<and> list_all fits56 (up_env s))"

lemma fits56_fits64: "fits56 s \<Longrightarrow> fits64 s"
  by (simp add: fits56_def fits64_def)

lemma be_bytes_first: "\<exists>rest. be_bytes (Suc k) n = char_of (n div 256 ^ k) # rest"
proof (induction k arbitrary: n)
  case 0
  then show ?case by simp
next
  case (Suc k)
  from Suc [of "n div 256"] obtain rest where
    "be_bytes (Suc k) (n div 256) = char_of (n div 256 div 256 ^ k) # rest" by blast
  then have "be_bytes (Suc (Suc k)) n = char_of (n div 256 div 256 ^ k) # rest @ [char_of (n mod 256)]"
    by (simp only: be_bytes.simps(2) [of "Suc k"] append_Cons)
  moreover have "n div 256 div 256 ^ k = n div 256 ^ Suc k" by (simp add: div_mult2_eq)
  ultimately show ?case by metis
qed

lemma be64_first:
  assumes "n < 2 ^ 56"
  shows "\<exists>rest. be64 n = CHR 0x00 # rest"
proof -
  have "(2::nat) ^ 56 = 256 ^ 7" by simp
  with assms have "n div 256 ^ 7 = 0" by (metis div_less)
  moreover have "(8::nat) = Suc 7" by simp
  then have "be64 n = be_bytes (Suc 7) n" by (simp only: be64_def)
  moreover have "char_of (0::nat) = CHR 0x00" by code_simp
  ultimately show ?thesis using be_bytes_first [of 7 n] by metis
qed

lemma blank_no_zero: "blank s \<Longrightarrow> CHR 0x00 \<notin> set s"
  using blank_bytes [of s] by (auto simp: space_tokens_def)

lemma image_field_not_args:
  assumes "blank i" "i \<noteq> []" "fits64 i" "fits64 args" "list_all fits56 args"
  shows "field i @ r \<noteq> field_list args @ q"
proof
  assume eq: "field i @ r = field_list args @ q"
  then have "be64 (length i) @ i @ r = be64 (length args) @ concat (map field args) @ q"
    by (simp add: field_def field_list_def)
  then have len: "length i = length args \<and> i @ r = concat (map field args) @ q"
    using assms(3,4) by (intro be64_append_cancel) (simp_all add: fits64_def)
  with assms(2) obtain a as where "args = a # as" by (cases args) auto
  moreover from this assms(5) obtain rest where "be64 (length a) = CHR 0x00 # rest"
    using be64_first [of "length a"] by (auto simp: fits56_def)
  ultimately have "hd (i @ r) = CHR 0x00" using len by (simp add: field_def)
  with assms(2) have "CHR 0x00 \<in> set i" by (cases i) auto
  with blank_no_zero [OF assms(1)] show False by simp
qed

text \<open>What a signature attests to.\<close>

definition covered ::
  "digest \<Rightarrow> upstream \<Rightarrow> string list \<times> string list \<times> string list \<times> (string \<times> string \<times> string) option" where
  "covered H s =
     ([up_name s, up_transport s, up_command s, up_url s, up_image s], up_args s, sort (up_env s),
      if up_transport s = transport_http then Some (up_auth_kind s, up_auth_name s, H (up_operations s)) else None)"

definition image_ok :: "upstream \<Rightarrow> bool" where
  "image_ok s = (up_transport s = transport_http \<longrightarrow> blank (up_image s))"

lemma fits_lists: "entry_fits s \<Longrightarrow> fits_all (up_args s) \<and> fits_all (sort (up_env s))"
  by (auto simp: entry_fits_def fits_all_def fits56_fits64 fits56_def fits64_def)

lemma canonical_tail_inject:
  assumes "digest32 H" "entry_fits s" "entry_fits t" "up_transport s = up_transport t" "up_image s = up_image t"
    and "field_list (up_args s) @ field_list (sort (up_env s))
       @ (if up_transport s = transport_http
          then field (up_auth_kind s) @ field (up_auth_name s) @ field (H (up_operations s)) else [])
     = field_list (up_args t) @ field_list (sort (up_env t))
       @ (if up_transport t = transport_http
          then field (up_auth_kind t) @ field (up_auth_name t) @ field (H (up_operations t)) else [])"
  shows "up_args s = up_args t \<and> sort (up_env s) = sort (up_env t)
    \<and> (up_transport s = transport_http \<longrightarrow> up_auth_kind s = up_auth_kind t \<and> up_auth_name s = up_auth_name t
        \<and> H (up_operations s) = H (up_operations t))"
proof -
  have f: "fits64 (up_auth_kind s)" "fits64 (up_auth_kind t)" "fits64 (up_auth_name s)" "fits64 (up_auth_name t)"
    using assms(2,3) by (simp_all add: entry_fits_def fits56_fits64)
  moreover have "fits64 (H x)" for x using assms(1) by (simp add: digest32_def fits64_def)
  ultimately have fits: "fits64 (up_auth_kind s)" "fits64 (up_auth_kind t)" "fits64 (up_auth_name s)"
    "fits64 (up_auth_name t)" "fits64 (H (up_operations s))" "fits64 (H (up_operations t))" by blast+
  note lists = fits_lists [OF assms(2), THEN conjunct1] fits_lists [OF assms(3), THEN conjunct1]
    fits_lists [OF assms(2), THEN conjunct2] fits_lists [OF assms(3), THEN conjunct2]
  note a = counted.cancel [OF lists(1,2) assms(6)]
  note e = counted.cancel [OF lists(3,4) a [THEN conjunct2]]
  have "up_auth_kind s = up_auth_kind t \<and> up_auth_name s = up_auth_name t
      \<and> H (up_operations s) = H (up_operations t)" if "up_transport s = transport_http"
  proof -
    from e that assms(4) have "field (up_auth_kind s) @ field (up_auth_name s) @ field (H (up_operations s))
        = field (up_auth_kind t) @ field (up_auth_name t) @ field (H (up_operations t))" by simp
    from field.cancel [OF fits(1,2) this] show ?thesis
      using field.append_iff [OF fits(3,4)] field.inject [OF fits(5,6)] by blast
  qed
  with a e show ?thesis by blast
qed

lemma http_image_not_args:
  assumes "image_ok x" "up_transport x = transport_http" "with_image x" "fits64 (up_image x)" "entry_fits y"
  shows "field (up_image x) @ r \<noteq> field_list (up_args y) @ q"
proof (rule image_field_not_args)
  show "blank (up_image x)" using assms(1,2) by (simp add: image_ok_def)
  show "up_image x \<noteq> []" using assms(2,3) by (auto simp: with_image_def transport_http_def transport_oci_def)
  show "fits64 (up_image x)" by (rule assms(4))
  show "fits64 (up_args y)" using assms(5) by (simp add: entry_fits_def fits56_fits64)
  show "list_all fits56 (up_args y)" using assms(5) by (simp add: entry_fits_def)
qed

lemma canonical_inject:
  assumes H: "digest32 H" and f: "entry_fits s" "entry_fits t" and i: "image_ok s" "image_ok t"
    and eq: "canonical_entry H s = canonical_entry H t"
  shows "covered H s = covered H t"
proof -
  have small: "fits64 (up_name s)" "fits64 (up_name t)" "fits64 (up_transport s)" "fits64 (up_transport t)"
    "fits64 (up_command s)" "fits64 (up_command t)" "fits64 (up_url s)" "fits64 (up_url t)"
    "fits64 (up_image s)" "fits64 (up_image t)" "fits64 (up_args s)" "fits64 (up_args t)"
    using f by (simp_all add: entry_fits_def fits56_fits64)
  let ?tail = "\<lambda>s. field_list (up_args s) @ field_list (sort (up_env s))
     @ (if up_transport s = transport_http
        then field (up_auth_kind s) @ field (up_auth_name s) @ field (H (up_operations s)) else [])"
  let ?img = "\<lambda>s. if with_image s then field (up_image s) else []"
  have tags: "fits64 (if a then canonical_tag_v3_http else if b then canonical_tag_image else canonical_tag)" for a b
    by simp
  let ?tag = "\<lambda>s. if up_transport s = transport_http then canonical_tag_v3_http
      else if with_image s then canonical_tag_image else canonical_tag"
  from eq have all: "?tag s = ?tag t \<and> up_name s = up_name t \<and> up_transport s = up_transport t
      \<and> up_command s = up_command t \<and> up_url s = up_url t \<and> ?img s @ ?tail s = ?img t @ ?tail t"
    unfolding canonical_entry_eq field.append_iff [OF tags tags] field.append_iff [OF small(1,2)]
      field.append_iff [OF small(3,4)] field.append_iff [OF small(5,6)] field.append_iff [OF small(7,8)] .
  then have head: "up_name s = up_name t" "up_transport s = up_transport t" "up_command s = up_command t"
    "up_url s = up_url t" and rest: "?img s @ ?tail s = ?img t @ ?tail t" and tag: "?tag s = ?tag t" by blast+
  have with_eq: "with_image s = with_image t"
  proof (cases "up_transport s = transport_http")
    case False
    with tag head(2) show ?thesis by (cases "with_image s"; cases "with_image t") simp_all
  next
    case True
    with head(2) have http: "up_transport t = transport_http" by simp
    show ?thesis
      using rest http_image_not_args [OF i(1) True _ small(9) f(2)] http_image_not_args [OF i(2) http _ small(10) f(1)]
      by (cases "with_image s"; cases "with_image t") (simp_all only: if_True if_False append_Nil append_assoc not_True_eq_False simp_thms, metis)
  qed
  have "up_image s = up_image t \<and> ?tail s = ?tail t"
  proof (cases "with_image s")
    case True
    with with_eq rest have "field (up_image s) @ ?tail s = field (up_image t) @ ?tail t" by (simp only: if_True)
    then show ?thesis using field.cancel [OF small(9,10)] by blast
  next
    case False
    with with_eq rest show ?thesis by (simp only: if_False append_Nil with_image_def) simp
  qed
  then have img: "up_image s = up_image t" and tail: "?tail s = ?tail t" by blast+
  from canonical_tail_inject [OF H f head(2) img tail] head img show ?thesis by (simp add: covered_def)
qed

section \<open>Properties\<close>

lemma covered_same_bytes:
  assumes "covered H s = covered H t"
  shows "canonical_entry H s = canonical_entry H t"
proof -
  from assms have "up_name s = up_name t" "up_transport s = up_transport t" "up_command s = up_command t"
    "up_url s = up_url t" "up_image s = up_image t" "up_args s = up_args t" "sort (up_env s) = sort (up_env t)"
    by (simp_all add: covered_def)
  moreover from assms have "up_transport s = transport_http \<longrightarrow>
      up_auth_kind s = up_auth_kind t \<and> up_auth_name s = up_auth_name t \<and> H (up_operations s) = H (up_operations t)"
    by (auto simp: covered_def split: if_splits)
  ultimately show ?thesis by (simp add: canonical_entry_eq with_image_def)
qed

lemma verify_Verified:
  "verify edv H trusted s sig = Verified \<longleftrightarrow>
     length (sg_key sig) = public_key_size \<and> length (sg_bytes sig) = signature_size
     \<and> (\<exists>pub\<in>set trusted. edv pub (canonical_entry H s) (sg_bytes sig))"
  by (simp add: verify_def)

definition sample_entry :: upstream where
  "sample_entry = sample_upstream\<lparr>up_env := [''TOKEN'', ''HOST'']\<rparr>"

definition sample_edv :: "string \<Rightarrow> string \<Rightarrow> string \<Rightarrow> bool" where
  "sample_edv pub m sg = (sg = replicate 64 (hd pub) \<and> m = canonical_entry sample_digest sample_entry)"

lemma sample_entry_fits: "entry_fits sample_entry" "image_ok sample_entry"
  by (simp_all add: entry_fits_def fits56_def image_ok_def sample_entry_def sample_upstream_def
      transport_stdio_def transport_http_def auth_none_def)


lemma sample_verifies:
  "verify sample_edv sample_digest [replicate 32 CHR ''k''] sample_entry
     \<lparr>sg_bytes = replicate 64 CHR ''k'', sg_key = replicate 32 CHR ''z''\<rparr> = Verified"
  by (simp add: verify_Verified sample_edv_def public_key_size_def signature_size_def)


text \<open>
  C40 (round trip): a signature made with a configured key, stored and read back, verifies for the entry and for any row that differs from it only
  in the order of its environment names and in its timestamps; the verdict does not depend on which key the signature row claims to be from, so a row that
  names another key of the right size verifies too.
\<close>
theorem sign_store_verify:
  assumes correct: "\<forall>m. edv (public key) m (eds key m) \<and> length (eds key m) = signature_size"
    and sizes: "length (public key) = public_key_size" "length claimed = public_key_size"
    and trusted: "public key \<in> set trusted"
    and same: "up_name t = up_name s" "up_transport t = up_transport s" "up_command t = up_command s"
      "up_url t = up_url s" "up_image t = up_image s" "up_args t = up_args s" "mset (up_env t) = mset (up_env s)"
      "up_auth_kind t = up_auth_kind s" "up_auth_name t = up_auth_name s" "up_operations t = up_operations s"
  shows "\<exists>sig. get_signature False name (snd (put_signature False name (sign_entry H eds public key s) db)) = Inr sig
    \<and> sig = sign_entry H eds public key s \<and> verify edv H trusted t (sig\<lparr>sg_key := claimed\<rparr>) = Verified"
proof -
  have "sort (up_env t) = sort (up_env s)" using same(7) by (intro properties_for_sort) simp_all
  with same have "canonical_entry H t = canonical_entry H s"
    by (intro covered_same_bytes) (simp add: covered_def)
  then have "verify edv H trusted t ((sign_entry H eds public key s)\<lparr>sg_key := claimed\<rparr>) = Verified"
    using correct sizes trusted by (auto simp: verify_Verified sign_entry_def)
  moreover have "get_signature False name (snd (put_signature False name (sign_entry H eds public key s) db))
      = Inr (sign_entry H eds public key s)"
    using correct sizes by (simp add: get_signature_def put_signature_def sign_entry_def update_conv')
  ultimately show ?thesis by blast
qed

theorem sign_store_verify_witness:
  "\<exists>sig. get_signature False ''casemgmt'' (snd (put_signature False ''casemgmt''
        (sign_entry sample_digest (\<lambda>k m. replicate 64 (hd k)) id (replicate 32 CHR ''k'') sample_entry) [])) = Inr sig
    \<and> sig = sign_entry sample_digest (\<lambda>k m. replicate 64 (hd k)) id (replicate 32 CHR ''k'') sample_entry
    \<and> verify (\<lambda>k m sg. sg = replicate 64 (hd k)) sample_digest [replicate 32 CHR ''k'']
        (sample_entry\<lparr>up_env := [''HOST'', ''TOKEN''], up_created := \<lparr>g_ns = 9, g_off = 0\<rparr>\<rparr>)
        (sig\<lparr>sg_key := replicate 32 CHR ''z''\<rparr>) = Verified"
  by (rule sign_store_verify)
    (simp_all add: sample_entry_def sample_upstream_def public_key_size_def signature_size_def)

text \<open>
  (error) outside \<open>Validate\<close>'s contract the http layout is ambiguous: \<open>Canonical\<close> writes the image of an http entry that has one under the
  same tag as for one that has none, so that two different entries can have the same canonical bytes, one of them valid (keyless, with eight arguments) and
  the other refused by \<open>Validate\<close> (an image, no arguments, and an environment name). One signature then covers both.
\<close>
theorem canonical_http_image_ambiguous:
  "\<exists>valid forged. upstream_validate sample_parsers valid = None \<and> upstream_validate sample_parsers forged \<noteq> None
    \<and> up_env valid = [] \<and> up_env forged \<noteq> [] \<and> canonical_entry H valid = canonical_entry H forged"
proof -
  let ?base = "\<lparr>up_name = ''crm'', up_transport = transport_http, up_command = [], up_args = [], up_image = [],
     up_url = ''https://api.example'', up_env = [], up_auth_kind = auth_none, up_auth_name = [],
     up_operations = ''[1]'', up_created = \<lparr>g_ns = 0, g_off = 0\<rparr>, up_updated = \<lparr>g_ns = 0, g_off = 0\<rparr>\<rparr> :: upstream"
  let ?valid = "?base\<lparr>up_args := [be64 0 @ be64 1 @ be64 64, [], [], [], [], [], [], []]\<rparr>"
  let ?forged = "?base\<lparr>up_image := be64 24, up_env := [replicate 64 CHR 0x00]\<rparr>"
  have zero: "be64 0 = replicate 8 CHR 0x00" by code_simp
  have "be64 0 @ be64 0 @ be64 0 @ be64 0 @ be64 0 @ be64 0 @ be64 0 @ be64 0 = replicate 64 CHR 0x00"
    unfolding zero by (simp flip: replicate_add)
  moreover have "be64 (Suc (Suc (Suc (Suc (Suc (Suc (Suc (Suc 0)))))))) = be64 8"
    by (rule arg_cong [of _ _ be64]) simp
  moreover have "be64 24 \<noteq> []" using length_be64 [of 24] by fastforce
  ultimately have "canonical_entry H ?valid = canonical_entry H ?forged"
    unfolding canonical_entry_eq
    by (simp add: with_image_def transport_http_def transport_oci_def field_list_def field_def)
  moreover have "upstream_validate sample_parsers ?valid = None" by code_simp
  moreover have "upstream_validate sample_parsers ?forged \<noteq> None" by code_simp
  ultimately show ?thesis by (intro exI [of _ ?valid] exI [of _ ?forged]) simp
qed

end
