(* ===== verification/Redact.thy ===== *)
theory Redact
  imports Prelude "HOL-Library.Multiset" "HOL-Library.Sublist"
begin

text \<open>
  Model of \<open>internal/gateway/redact.go\<close> and of \<open>scrubResult\<close>/\<open>scrubJSON\<close> in \<open>internal/gateway/endpoint.go\<close>: taking the credentials a
  backend was handed out of what it answers. The encoders of \<open>strconv\<close>, \<open>encoding/json\<close> and \<open>net/url\<close> are the fields of a record; a
  Go map is an association list with distinct keys in some iteration order.
\<close>

section \<open>Finding and masking\<close>

definition redacted :: string where
  "redacted = ''[redacted]''"

text \<open>\<open>strings.Index\<close>.\<close>

fun index_in :: "string \<Rightarrow> string \<Rightarrow> nat option" where
  "index_in form [] = (if form = [] then Some 0 else None)"
| "index_in form (c # s) = (if has_prefix (c # s) form then Some 0 else map_option Suc (index_in form s))"

lemma has_prefix_iff: "has_prefix s p \<longleftrightarrow> (\<exists>r. s = p @ r)"
  by (simp add: has_prefix_def cut_prefix_None_iff)

lemma index_in_Some:
  "index_in form s = Some i \<Longrightarrow> form \<noteq> [] \<Longrightarrow> i < length s \<and> has_prefix (drop i s) form \<and> (\<forall>j<i. \<not> has_prefix (drop j s) form)"
proof (induction s arbitrary: i)
  case (Cons c s)
  show ?case
  proof (cases "has_prefix (c # s) form")
    case False
    with Cons.prems obtain k where "i = Suc k" "index_in form s = Some k" by auto
    with Cons.IH [of k] Cons.prems(2) False show ?thesis by (auto simp: less_Suc_eq_0_disj)
  qed (use Cons.prems in simp)
qed simp

lemma index_in_None: "index_in form s = None \<Longrightarrow> \<not> has_prefix (drop j s) form"
proof (induction s arbitrary: j)
  case (Cons c s)
  from Cons.prems have "\<not> has_prefix (c # s) form" "index_in form s = None" by (auto split: if_splits)
  with Cons.IH show ?case by (cases j) auto
qed (auto simp: has_prefix_iff split: if_splits)

definition mark :: "nat \<Rightarrow> nat \<Rightarrow> bool list \<Rightarrow> bool list" where
  "mark start n msk = map (\<lambda>j. msk ! j \<or> start \<le> j \<and> j < start + n) [0..<length msk]"

text \<open>The inner loop: every occurrence of one form, overlapping ones included. \<open>None\<close> is the nil mask.\<close>

function mark_form :: "string \<Rightarrow> string \<Rightarrow> nat \<Rightarrow> bool list option \<Rightarrow> bool \<Rightarrow> bool list option \<times> bool" where
  "mark_form doc form frm msk hit =
     (if form = [] then (msk, hit)
      else case index_in form (drop frm doc) of
        None \<Rightarrow> (msk, hit)
      | Some i \<Rightarrow>
          let msk' = (case msk of None \<Rightarrow> replicate (length doc) False | Some m \<Rightarrow> m);
              start = frm + i
          in mark_form doc form (start + 1) (Some (mark start (length form) msk')) True)"
  by pat_completeness auto
termination
  by (relation "measure (\<lambda>(doc, form, frm, msk, hit). length doc - frm)")
    (auto dest!: index_in_Some)

declare mark_form.simps [simp del]

definition mark_forms :: "string \<Rightarrow> string list \<Rightarrow> bool list option \<times> bool \<Rightarrow> bool list option \<times> bool" where
  "mark_forms doc forms st = foldl (\<lambda>(msk, hit) form. mark_form doc form 0 msk hit) st forms"

fun mark_values :: "string \<Rightarrow> string list list \<Rightarrow> bool list option \<Rightarrow> bool list option \<times> bool list" where
  "mark_values doc [] msk = (msk, [])"
| "mark_values doc (forms # rest) msk =
     (case mark_forms doc forms (msk, False) of
        (msk', hit) \<Rightarrow> (case mark_values doc rest msk' of (msk'', hits) \<Rightarrow> (msk'', hit # hits)))"

text \<open>The rewrite: each maximal masked run becomes one placeholder.\<close>

function rewrite_masked :: "(char \<times> bool) list \<Rightarrow> string" where
  "rewrite_masked [] = []"
| "rewrite_masked ((c, False) # xs) = c # rewrite_masked xs"
| "rewrite_masked ((c, True) # xs) = redacted @ rewrite_masked (dropWhile snd xs)"
  by pat_completeness auto
termination
  by (relation "measure length") (auto simp: le_imp_less_Suc length_dropWhile_le)

definition mask_spans :: "string \<Rightarrow> string list list \<Rightarrow> string \<times> bool list" where
  "mask_spans doc forms_by_value =
     (case mark_values doc forms_by_value None of
        (None, hits) \<Rightarrow> (doc, hits)
      | (Some msk, hits) \<Rightarrow> (rewrite_masked (zip doc msk), hits))"

section \<open>Renderings\<close>

record codec =
  quote :: "string \<Rightarrow> string"
  quote_ascii :: "string \<Rightarrow> string"
  json_marshal :: "string \<Rightarrow> string option"
  json_encode :: "string \<Rightarrow> string option"
  query_escape :: "string \<Rightarrow> string"
  path_escape :: "string \<Rightarrow> string"
  json_valid :: "string \<Rightarrow> bool"

definition add_new :: "string list \<Rightarrow> string \<Rightarrow> string list" where
  "add_new forms body = (if body \<noteq> [] \<and> body \<notin> set forms then forms @ [body] else forms)"

text \<open>The closures \<open>add\<close>: a quoted form without its outer quotes.\<close>

definition add_quoted :: "string list \<Rightarrow> string \<Rightarrow> string list" where
  "add_quoted forms quoted = (if 2 \<le> length quoted then add_new forms (butlast (tl quoted)) else forms)"

definition trim_newline :: "string \<Rightarrow> string" where
  "trim_newline s = (if s \<noteq> [] \<and> last s = CHR 0x0A then butlast s else s)"

definition json_bodies :: "codec \<Rightarrow> string \<Rightarrow> string list" where
  "json_bodies C s =
     (let out = (case json_marshal C s of Some j \<Rightarrow> add_quoted [] j | None \<Rightarrow> [])
      in case json_encode C s of Some j \<Rightarrow> add_quoted out (trim_newline j) | None \<Rightarrow> out)"

definition add_missing :: "string list \<Rightarrow> string \<Rightarrow> string list" where
  "add_missing forms body = (if body \<in> set forms then forms else forms @ [body])"

definition renderings_of :: "codec \<Rightarrow> string \<Rightarrow> string list" where
  "renderings_of C v =
     (if v = [] then []
      else let forms = add_quoted (add_quoted [v] (quote C v)) (quote_ascii C v);
               forms = foldl add_missing forms (json_bodies C v)
           in foldl add_new forms [query_escape C v, path_escape C v])"

definition json_renderings_of :: "codec \<Rightarrow> string \<Rightarrow> string list" where
  "json_renderings_of C v =
     foldl (\<lambda>forms r. foldl add_missing forms (json_bodies C r)) [] (renderings_of C v)"

definition mask_credentials :: "codec \<Rightarrow> string \<Rightarrow> (string \<times> string) list \<Rightarrow> string \<times> bool" where
  "mask_credentials C doc env =
     (case mask_spans doc (map (\<lambda>(name, v). renderings_of C v) env) of
        (out, hits) \<Rightarrow> (out, True \<in> set hits))"

section \<open>Results\<close>

datatype scrub_error = ResultUnscrubbable

definition scrub_json ::
  "codec \<Rightarrow> string \<Rightarrow> (string \<times> string) list \<Rightarrow> string list \<Rightarrow> (scrub_error + string) \<times> string list" where
  "scrub_json C raw env hit =
     (if raw = [] then (Inr raw, hit)
      else let names = sort (map fst (filter (\<lambda>(name, v). v \<noteq> []) env));
               forms = map (\<lambda>name. json_renderings_of C (the (map_of env name))) names
           in case mask_spans raw forms of
                (out, matched) \<Rightarrow>
                  (let hit' = hit @ map fst (filter snd (zip names matched))
                   in if True \<notin> set matched then (Inr raw, hit')
                      else if \<not> json_valid C out then (Inl ResultUnscrubbable, hit')
                      else (Inr out, hit')))"

record call_result =
  cr_content :: string
  cr_structured :: string
  cr_is_error :: bool

text \<open>
  \<open>names\<close> are the variables the upstream's connection was handed, \<open>resolve\<close> the vault; a variable it cannot read is left out.
\<close>

definition scrub_env :: "(string \<Rightarrow> string option) \<Rightarrow> string list \<Rightarrow> (string \<times> string) list" where
  "scrub_env resolve names = List.map_filter (\<lambda>name. map_option (Pair name) (resolve name)) (sort names)"

definition scrub_result ::
  "codec \<Rightarrow> (string \<Rightarrow> string option) \<Rightarrow> string list \<Rightarrow> call_result \<Rightarrow> scrub_error + call_result" where
  "scrub_result C resolve names res =
     (if names = [] then Inr res
      else let env = scrub_env resolve names
           in case scrub_json C (cr_content res) env [] of
                (Inl e, hit) \<Rightarrow> Inl e
              | (Inr content, hit) \<Rightarrow>
                  (case scrub_json C (cr_structured res) env hit of
                     (Inl e, hit') \<Rightarrow> Inl e
                   | (Inr structured, hit') \<Rightarrow> Inr (res\<lparr>cr_content := content, cr_structured := structured\<rparr>)))"

section \<open>What is masked\<close>

definition occurs :: "string \<Rightarrow> string \<Rightarrow> nat \<Rightarrow> bool" where
  "occurs doc form p = (form \<noteq> [] \<and> has_prefix (drop p doc) form)"

definition covers :: "string \<Rightarrow> string \<Rightarrow> nat \<Rightarrow> nat \<Rightarrow> bool" where
  "covers doc form frm i = (\<exists>p\<ge>frm. occurs doc form p \<and> p \<le> i \<and> i < p + length form)"

definition bit_at :: "bool list option \<Rightarrow> nat \<Rightarrow> bool" where
  "bit_at m i = (case m of None \<Rightarrow> False | Some l \<Rightarrow> l ! i)"

definition mask_fits :: "string \<Rightarrow> bool list option \<Rightarrow> bool" where
  "mask_fits doc m = (case m of None \<Rightarrow> True | Some l \<Rightarrow> length l = length doc)"

lemma length_mark [simp]: "length (mark start n l) = length l"
  by (simp add: mark_def)

lemma nth_mark: "j < length l \<Longrightarrow> mark start n l ! j \<longleftrightarrow> l ! j \<or> start \<le> j \<and> j < start + n"
  by (simp add: mark_def)

lemma occurs_length: "occurs doc form p \<Longrightarrow> p + length form \<le> length doc \<and> p < length doc"
proof -
  assume "occurs doc form p"
  then obtain r where "drop p doc = form @ r" and ne: "form \<noteq> []" by (auto simp: occurs_def has_prefix_iff)
  then have "length doc - p = length form + length r" using length_drop [of p doc] by (metis length_append)
  moreover from ne have "0 < length form" by simp
  ultimately show ?thesis by linarith
qed

lemma covers_step:
  assumes "occurs doc form start" "\<forall>j. frm \<le> j \<and> j < start \<longrightarrow> \<not> occurs doc form j" "frm \<le> start"
  shows "covers doc form frm i \<longleftrightarrow> start \<le> i \<and> i < start + length form \<or> covers doc form (start + 1) i"
proof
  assume "covers doc form frm i"
  then obtain p where p: "frm \<le> p" "occurs doc form p" "p \<le> i" "i < p + length form" by (auto simp: covers_def)
  with assms(2) have "\<not> p < start" by blast
  with p show "start \<le> i \<and> i < start + length form \<or> covers doc form (start + 1) i"
    by (cases "p = start") (auto simp: covers_def)
next
  assume "start \<le> i \<and> i < start + length form \<or> covers doc form (start + 1) i"
  with assms(1,3) show "covers doc form frm i" unfolding covers_def by (metis add_leD1 le_trans)
qed

lemma mark_form_spec:
  assumes "mask_fits doc msk" "mark_form doc form frm msk hit = (m', h')"
  shows "mask_fits doc m' \<and> (\<forall>i<length doc. bit_at m' i \<longleftrightarrow> bit_at msk i \<or> covers doc form frm i)
    \<and> (h' \<longleftrightarrow> hit \<or> (\<exists>p\<ge>frm. occurs doc form p))
    \<and> (m' = None \<longleftrightarrow> msk = None \<and> (\<forall>p\<ge>frm. \<not> occurs doc form p))"
  using assms
proof (induction doc form frm msk hit rule: mark_form.induct)
  case (1 doc form frm msk hit)
  show ?case
  proof (cases "form = [] \<or> index_in form (drop frm doc) = None")
    case True
    have "\<not> occurs doc form p" if "frm \<le> p" for p
      using True index_in_None [of form "drop frm doc" "p - frm"] that by (auto simp: occurs_def)
    moreover from True "1.prems"(2) have "m' = msk \<and> h' = hit" by (auto simp: mark_form.simps [of doc form frm msk hit] split: if_splits)
    ultimately show ?thesis using "1.prems"(1) by (auto simp: covers_def)
  next
    case False
    then obtain i where i: "form \<noteq> []" "index_in form (drop frm doc) = Some i" by auto
    define base where "base = (case msk of None \<Rightarrow> replicate (length doc) False | Some m \<Rightarrow> m)"
    have len: "length base = length doc" using "1.prems"(1) by (auto simp: base_def mask_fits_def split: option.splits)
    have bits: "base ! j \<longleftrightarrow> bit_at msk j" if "j < length doc" for j
      using that by (simp add: base_def bit_at_def split: option.splits)
    have first: "occurs doc form (frm + i)" "\<forall>j. frm \<le> j \<and> j < frm + i \<longrightarrow> \<not> occurs doc form j"
      using index_in_Some [OF i(2,1)] i(1)
      by (auto simp: occurs_def add.commute) (metis add.commute le_Suc_ex nat_add_left_cancel_less)
    have rec: "mark_form doc form (frm + i + 1) (Some (mark (frm + i) (length form) base)) True = (m', h')"
      using "1.prems"(2) i by (simp add: mark_form.simps [of doc form frm msk hit] base_def Let_def)
    have "mask_fits doc m' \<and> (\<forall>j<length doc. bit_at m' j \<longleftrightarrow>
        bit_at (Some (mark (frm + i) (length form) base)) j \<or> covers doc form (frm + i + 1) j) \<and> h' \<and> m' \<noteq> None"
      using "1.IH" [OF i(1,2) base_def refl _ rec] len by (simp add: mask_fits_def)
    then show ?thesis
      using first len bits covers_step [OF first(1,2)]
      by (auto simp: bit_at_def nth_mark intro: le_add1)
  qed
qed

lemma mark_forms_spec:
  assumes "mask_fits doc msk" "mark_forms doc forms (msk, hit) = (m', h')"
  shows "mask_fits doc m' \<and> (\<forall>i<length doc. bit_at m' i \<longleftrightarrow> bit_at msk i \<or> (\<exists>f\<in>set forms. covers doc f 0 i))
    \<and> (h' \<longleftrightarrow> hit \<or> (\<exists>f\<in>set forms. \<exists>p. occurs doc f p))
    \<and> (m' = None \<longleftrightarrow> msk = None \<and> (\<forall>f\<in>set forms. \<forall>p. \<not> occurs doc f p))"
  using assms
proof (induction forms arbitrary: msk hit)
  case (Cons f forms)
  obtain m1 h1 where one: "mark_form doc f 0 msk hit = (m1, h1)" by fastforce
  with Cons.prems(2) have "mark_forms doc forms (m1, h1) = (m', h')" by (simp add: mark_forms_def)
  note rest = Cons.IH [OF _ this]
  note first = mark_form_spec [OF Cons.prems(1) one]
  from first rest show ?case by auto
qed (simp add: mark_forms_def)

lemma mark_values_spec:
  assumes "mask_fits doc msk" "mark_values doc vs msk = (m', hits)"
  shows "mask_fits doc m' \<and> (\<forall>i<length doc. bit_at m' i \<longleftrightarrow> bit_at msk i \<or> (\<exists>f\<in>set (concat vs). covers doc f 0 i))
    \<and> hits = map (\<lambda>forms. \<exists>f\<in>set forms. \<exists>p. occurs doc f p) vs
    \<and> (m' = None \<longleftrightarrow> msk = None \<and> (\<forall>f\<in>set (concat vs). \<forall>p. \<not> occurs doc f p))"
  using assms
proof (induction vs arbitrary: msk hits)
  case (Cons forms vs)
  obtain m1 h1 where one: "mark_forms doc forms (msk, False) = (m1, h1)" by fastforce
  from Cons.prems(2) one obtain hs where two: "mark_values doc vs m1 = (m', hs)" and eq: "hits = h1 # hs"
    by (auto split: prod.splits)
  note first = mark_forms_spec [OF Cons.prems(1) one]
  note rest = Cons.IH [OF first [THEN conjunct1] two]
  from first rest show ?case unfolding eq by auto
qed simp

text \<open>The kept runs between the placeholders.\<close>

function pieces :: "(char \<times> bool) list \<Rightarrow> string list" where
  "pieces [] = [[]]"
| "pieces ((c, False) # xs) = (case pieces xs of [] \<Rightarrow> [[c]] | p # ps \<Rightarrow> (c # p) # ps)"
| "pieces ((c, True) # xs) = [] # pieces (dropWhile snd xs)"
  by pat_completeness auto
termination
  by (relation "measure length") (auto simp: le_imp_less_Suc length_dropWhile_le)

fun join_pieces :: "string \<Rightarrow> string list \<Rightarrow> string" where
  "join_pieces sep [] = []"
| "join_pieces sep [p] = p"
| "join_pieces sep (p # q # ps) = p @ sep @ join_pieces sep (q # ps)"

lemma pieces_not_Nil [simp]: "pieces xs \<noteq> []"
  by (induction xs rule: pieces.induct) (auto split: list.splits)

lemma rewrite_pieces: "rewrite_masked xs = join_pieces redacted (pieces xs)"
proof (induction xs rule: rewrite_masked.induct)
  case (2 c xs)
  obtain p ps where "pieces xs = p # ps" by (cases "pieces xs") auto
  with 2 show ?case by (cases ps) auto
next
  case (3 c xs)
  obtain p ps where "pieces (dropWhile snd xs) = p # ps" by (cases "pieces (dropWhile snd xs)") auto
  with 3 show ?case by simp
qed simp

text \<open>Every piece is a run of the text at positions that are not masked.\<close>

definition kept_run :: "(char \<times> bool) list \<Rightarrow> nat \<Rightarrow> string \<Rightarrow> bool" where
  "kept_run xs i p = (i + length p \<le> length xs \<and> (\<forall>k<length p. xs ! (i + k) = (p ! k, False)))"

lemma kept_run_Cons: "kept_run xs i p \<Longrightarrow> kept_run (x # xs) (Suc i) p"
  by (simp add: kept_run_def)

lemma kept_run_drop: "kept_run (drop n xs) i p \<Longrightarrow> n \<le> length xs \<Longrightarrow> kept_run xs (n + i) p"
  by (auto simp: kept_run_def add.assoc)

lemma kept_run_dropWhile: "kept_run (dropWhile P xs) i p \<Longrightarrow> \<exists>j. kept_run xs j p"
  by (metis dropWhile_eq_drop kept_run_drop length_takeWhile_le)

lemma pieces_runs:
  "pieces xs = p # ps \<Longrightarrow> kept_run xs 0 p \<and> (\<forall>q\<in>set ps. \<exists>i. kept_run xs i q)"
proof (induction xs arbitrary: p ps rule: pieces.induct)
  case 1
  then show ?case by (simp add: kept_run_def)
next
  case (2 c xs)
  obtain q qs where q: "pieces xs = q # qs" by (cases "pieces xs") auto
  with "2.prems" have "p = c # q" "ps = qs" by auto
  moreover have "kept_run ((c, False) # xs) 0 (c # q)"
    using "2.IH" [OF q] by (auto simp: kept_run_def nth_Cons split: nat.splits)
  ultimately show ?case using "2.IH" [OF q] kept_run_Cons by blast
next
  case (3 c xs)
  obtain q qs where q: "pieces (dropWhile snd xs) = q # qs" by (cases "pieces (dropWhile snd xs)") auto
  with "3.prems" have "p = []" "ps = q # qs" by auto
  with "3.IH" [OF q] show ?case
    using kept_run_dropWhile kept_run_Cons by (fastforce simp: kept_run_def [of _ 0 "[]"])
qed

lemma piece_run: "p \<in> set (pieces xs) \<Longrightarrow> \<exists>i. kept_run xs i p"
  using pieces_runs [of xs] by (cases "pieces xs") auto

lemma sublist_occurs:
  assumes "sublist f p" "f \<noteq> []" "length m = length doc" "kept_run (zip doc m) i p"
  shows "\<exists>j k. occurs doc f j \<and> j \<le> k \<and> k < j + length f \<and> k < length doc \<and> \<not> m ! k"
proof -
  from assms(1) obtain a b where ab: "p = a @ f @ b" by (auto simp: sublist_def)
  from assms(3,4) have run: "i + length p \<le> length doc" "\<And>k. k < length p \<Longrightarrow> doc ! (i + k) = p ! k \<and> \<not> m ! (i + k)"
    by (auto simp: kept_run_def)
  let ?j = "i + length a"
  have "take (length f) (drop ?j doc) = f"
    using run ab by (intro nth_equalityI) (auto simp: nth_append add.assoc)
  then have "has_prefix (drop ?j doc) f" by (metis append_take_drop_id has_prefix_iff)
  then have "occurs doc f ?j" using assms(2) by (simp add: occurs_def)
  moreover have "\<not> m ! ?j" using run(2) [of "length a"] ab assms(2) by simp
  moreover have "?j < length doc" using run(1) ab assms(2) by (cases f) auto
  moreover have "?j < ?j + length f" using assms(2) by simp
  ultimately show ?thesis by blast
qed

lemma occurs_sublist: "(\<exists>p. occurs doc f p) \<longleftrightarrow> f \<noteq> [] \<and> sublist f doc"
proof
  assume "\<exists>p. occurs doc f p"
  then obtain p r where "f \<noteq> []" "drop p doc = f @ r" by (auto simp: occurs_def has_prefix_iff)
  then show "f \<noteq> [] \<and> sublist f doc" by (metis append_take_drop_id sublist_def)
next
  assume "f \<noteq> [] \<and> sublist f doc"
  then obtain a b where "f \<noteq> []" "doc = a @ f @ b" by (auto simp: sublist_def)
  then have "occurs doc f (length a)" by (auto simp: occurs_def has_prefix_iff)
  then show "\<exists>p. occurs doc f p" by blast
qed

lemma mask_spans_spec:
  assumes "mask_spans doc vs = (out, hits)"
  shows "hits = map (\<lambda>forms. \<exists>f\<in>set forms. \<exists>p. occurs doc f p) vs"
    and "\<exists>m. length m = length doc \<and> (\<forall>i<length doc. m ! i \<longleftrightarrow> (\<exists>f\<in>set (concat vs). covers doc f 0 i))
      \<and> out = rewrite_masked (zip doc m)"
proof -
  obtain m' hs where mv: "mark_values doc vs None = (m', hs)" by fastforce
  note spec = mark_values_spec [OF _ mv]
  have fits: "mask_fits doc None" by (simp add: mask_fits_def)
  from mv assms have "hits = hs" by (auto simp: mask_spans_def split: option.splits)
  with spec [OF fits] show "hits = map (\<lambda>forms. \<exists>f\<in>set forms. \<exists>p. occurs doc f p) vs" by simp
  show "\<exists>m. length m = length doc \<and> (\<forall>i<length doc. m ! i \<longleftrightarrow> (\<exists>f\<in>set (concat vs). covers doc f 0 i))
      \<and> out = rewrite_masked (zip doc m)"
  proof (cases m')
    case None
    with mv assms have "out = doc" by (simp add: mask_spans_def)
    moreover have "rewrite_masked (zip doc (replicate (length doc) False)) = doc"
      by (induction doc) simp_all
    moreover have "\<not> (\<exists>f\<in>set (concat vs). covers doc f 0 i)" for i
      using spec [OF fits] None by (auto simp: covers_def)
    ultimately show ?thesis by (intro exI [of _ "replicate (length doc) False"]) simp
  next
    case (Some m)
    with mv assms spec [OF fits] show ?thesis
      by (intro exI [of _ m]) (simp add: mask_spans_def mask_fits_def bit_at_def)
  qed
qed

lemma masked_pieces_clean:
  assumes "mask_spans doc vs = (out, hits)"
  shows "\<exists>ps. out = join_pieces redacted ps \<and> (\<forall>p\<in>set ps. sublist p doc \<and> (\<forall>f\<in>set (concat vs). f \<noteq> [] \<longrightarrow> \<not> sublist f p))"
proof -
  from mask_spans_spec(2) [OF assms] obtain m where m: "length m = length doc"
    "\<forall>i<length doc. m ! i \<longleftrightarrow> (\<exists>f\<in>set (concat vs). covers doc f 0 i)" "out = rewrite_masked (zip doc m)" by blast
  have "sublist p doc \<and> (\<forall>f\<in>set (concat vs). f \<noteq> [] \<longrightarrow> \<not> sublist f p)" if "p \<in> set (pieces (zip doc m))" for p
  proof -
    from piece_run [OF that] obtain i where i: "kept_run (zip doc m) i p" by blast
    then have "take (length p) (drop i doc) = p"
      using m(1) by (intro nth_equalityI) (auto simp: kept_run_def)
    then have "sublist p doc" by (metis append_take_drop_id sublist_def)
    moreover have "\<not> sublist f p" if "f \<in> set (concat vs)" "f \<noteq> []" for f
      using sublist_occurs [OF _ that(2) m(1) i] m(2) that(1) unfolding covers_def by blast
    ultimately show ?thesis by blast
  qed
  with m(3) rewrite_pieces show ?thesis by metis
qed

section \<open>Properties\<close>

text \<open>
  (safety) what leaves has no rendering of a masked value in it. The text \<open>maskSpans\<close> returns is made of runs of the original text joined by the
  placeholder, and no form of any value occurs inside a run, whichever forms overlap or contain each other; a value is reported as hit exactly when one of
  its forms occurs in the text.
\<close>
theorem mask_spans_leaves_nothing:
  "\<exists>ps. fst (mask_spans doc vs) = join_pieces redacted ps
     \<and> (\<forall>p\<in>set ps. sublist p doc \<and> (\<forall>f\<in>set (concat vs). f = [] \<or> \<not> sublist f p))
     \<and> snd (mask_spans doc vs) = map (\<lambda>forms. \<exists>f\<in>set forms. f \<noteq> [] \<and> sublist f doc) vs"
proof -
  obtain out hits where eq: "mask_spans doc vs = (out, hits)" by fastforce
  have "hits = map (\<lambda>forms. \<exists>f\<in>set forms. f \<noteq> [] \<and> sublist f doc) vs"
    using mask_spans_spec(1) [OF eq] by (simp only: occurs_sublist)
  with masked_pieces_clean [OF eq] show ?thesis unfolding eq fst_conv snd_conv by blast
qed

theorem mask_spans_leaves_nothing_witness:
  "snd (mask_spans ''key=abc443def'' [[''443''], [''zz'']]) = map (\<lambda>forms. \<exists>f\<in>set forms. f \<noteq> [] \<and> sublist f ''key=abc443def'') [[''443''], [''zz'']]"
  using mask_spans_leaves_nothing [of "''key=abc443def''" "[[''443''], [''zz'']]"] by blast

text \<open>
  (equivalence) the order in which the values are tried does not matter: Go iterates the environment map in any order, and the masked text is the
  same for every order of the values and of the forms of each.
\<close>
theorem mask_spans_order_irrelevant:
  assumes "set (concat vs) = set (concat ws)"
  shows "fst (mask_spans doc vs) = fst (mask_spans doc ws)"
proof -
  obtain out hits out' hits' where eq: "mask_spans doc vs = (out, hits)" "mask_spans doc ws = (out', hits')" by fastforce
  from mask_spans_spec(2) [OF eq(1)] mask_spans_spec(2) [OF eq(2)] obtain m m' where
    "length m = length doc" "length m' = length doc" "\<forall>i<length doc. m ! i = m' ! i"
    "out = rewrite_masked (zip doc m)" "out' = rewrite_masked (zip doc m')" unfolding assms by blast
  moreover from this have "m = m'" by (intro nth_equalityI) auto
  ultimately show ?thesis using eq by simp
qed

theorem mask_spans_order_irrelevant_witness:
  "fst (mask_spans ''key=abc443def'' [[''443''], [''abc443def'']]) = fst (mask_spans ''key=abc443def'' [[''abc443def''], [''443'']])"
  by (rule mask_spans_order_irrelevant) auto

lemma map_of_scrub_env: "map_of (scrub_env resolve names) n = (if n \<in> set names then resolve n else None)"
proof -
  have "map_of (List.map_filter (\<lambda>name. map_option (Pair name) (resolve name)) xs) n
      = (if n \<in> set xs then resolve n else None)" for xs
    by (induction xs) (auto simp: map_filter_simps split: option.splits)
  then show ?thesis by (simp add: scrub_env_def)
qed

text \<open>Text in which no form occurs, in the shape the masking returns it.\<close>

definition cleaned :: "string list \<Rightarrow> string \<Rightarrow> bool" where
  "cleaned forms out = (\<exists>ps. out = join_pieces redacted ps \<and> (\<forall>p\<in>set ps. \<forall>f\<in>set forms. f = [] \<or> \<not> sublist f p))"

lemma cleaned_Nil: "cleaned forms []"
  by (auto simp: cleaned_def intro: exI [of _ "[[]]"])

lemma mask_spans_unhit: "mask_spans doc vs = (out, hits) \<Longrightarrow> True \<notin> set hits \<Longrightarrow> out = doc"
proof -
  assume a: "mask_spans doc vs = (out, hits)" "True \<notin> set hits"
  obtain m' hs where mv: "mark_values doc vs None = (m', hs)" by fastforce
  have "mask_fits doc None" by (simp add: mask_fits_def)
  note spec = mark_values_spec [OF this mv]
  have "hs = hits" using a(1) mv by (auto simp: mask_spans_def split: option.splits)
  with spec a(2) have "m' = None" by (auto simp: image_iff)
  with mv a(1) show "out = doc" by (simp add: mask_spans_def)
qed

lemma scrub_json_clean:
  assumes "scrub_json C raw env hit = (Inr out, hit')" "map_of env n = Some v" "v \<noteq> []"
  shows "cleaned (json_renderings_of C v) out \<and> (out = raw \<or> json_valid C out)"
proof (cases "raw = []")
  case True
  with assms(1) show ?thesis by (simp add: scrub_json_def cleaned_Nil)
next
  case False
  let ?names = "sort (map fst (filter (\<lambda>(name, v). v \<noteq> []) env))"
  let ?forms = "map (\<lambda>name. json_renderings_of C (the (map_of env name))) ?names"
  obtain o' matched where ms: "mask_spans raw ?forms = (o', matched)" by fastforce
  from map_of_SomeD [OF assms(2)] assms(3) have "n \<in> set ?names" by force
  with assms(2) have sub: "set (json_renderings_of C v) \<subseteq> set (concat ?forms)" by force
  from masked_pieces_clean [OF ms] obtain ps where "o' = join_pieces redacted ps"
    "\<forall>p\<in>set ps. \<forall>f\<in>set (concat ?forms). f \<noteq> [] \<longrightarrow> \<not> sublist f p" by blast
  with sub have "cleaned (json_renderings_of C v) o'" unfolding cleaned_def by (intro exI [of _ ps]) blast
  moreover have "out = o' \<and> (out = raw \<or> json_valid C out)"
    using assms(1) False ms mask_spans_unhit [OF ms] by (auto simp: scrub_json_def Let_def split: if_splits)
  ultimately show ?thesis by blast
qed


definition sample_codec :: codec where
  "sample_codec = \<lparr>quote = (\<lambda>s. CHR 0x22 # s @ [CHR 0x22]), quote_ascii = (\<lambda>s. CHR 0x22 # s @ [CHR 0x22]),
     json_marshal = (\<lambda>s. Some (CHR 0x22 # s @ [CHR 0x22])), json_encode = (\<lambda>s. Some (CHR 0x22 # s @ [CHR 0x22, CHR 0x0A])),
     query_escape = id, path_escape = id, json_valid = (\<lambda>_. True)\<rparr>"

lemma sample_scrub:
  "scrub_result sample_codec (\<lambda>_. Some ''hunter2'') [''TOKEN'']
     \<lparr>cr_content = ''[401: token=hunter2 rejected]'', cr_structured = [], cr_is_error = True\<rparr>
   = Inr \<lparr>cr_content = ''[401: token=[redacted] rejected]'', cr_structured = [], cr_is_error = True\<rparr>"
  by code_simp


end
