(* ===== verification/Health.thy ===== *)
theory Health
  imports Gotime Visible "HOL-Library.AList"
begin

text \<open>
  Model of \<open>internal/health/health.go\<close> (maintenance rows and their validation) and of the part of \<open>internal/gateway/health.go\<close> and
  \<open>internal/gateway/endpoint.go\<close> that keeps, per backend, whether it is live: the transitions \<open>observeLive\<close>, \<open>forgetHealth\<close>, \<open>markGone\<close>,
  \<open>markListed\<close> and \<open>settleHealth\<close>, and what a caller is told, \<open>publicState\<close> and \<open>availability\<close>. A connection is a number: the source compares
  connections by identity only. The lock is held over each operation, so each is one step.
\<close>

section \<open>Maintenance\<close>

definition gateway_target :: string where
  "gateway_target = ''(gateway)''"

definition max_message_runes :: nat where
  "max_message_runes = 200"

definition max_until_ahead :: int where
  "max_until_ahead = 90 * 24 * 3600 * 1000000000"

record maintenance =
  mt_target :: string
  mt_message :: string
  mt_until :: gotime
  mt_started :: gotime
  mt_set_by :: string
  mt_set_at :: gotime

definition until_passed :: "maintenance \<Rightarrow> gotime \<Rightarrow> bool" where
  "until_passed m now = (\<not> is_zero (mt_until m) \<and> after_time now (mt_until m))"

datatype health_problem =
    MessageRequired
  | MessageLong nat
  | MessageNotUtf8
  | MessageHidden
  | UntilPast
  | UntilFar

text \<open>\<open>utf8.RuneCountInString\<close>, and the range loop over the runes of a valid string.\<close>

function rune_count :: "string \<Rightarrow> nat" where
  "rune_count s = (if s = [] then 0 else Suc (rune_count (drop (snd (decode_rune s)) s)))"
  by pat_completeness auto
termination
  by (relation "measure length") auto

declare rune_count.simps [simp del]

definition validate_message :: "(nat \<Rightarrow> bool) \<Rightarrow> string \<Rightarrow> health_problem + string" where
  "validate_message tbl raw =
     (let msg = trim_space raw
      in if msg = [] then Inl MessageRequired
         else if max_message_runes < rune_count msg then Inl (MessageLong (rune_count msg))
         else if \<not> valid_utf8 msg then Inl MessageNotUtf8
         else if hidden tbl msg \<noteq> 0 then Inl MessageHidden
         else Inr msg)"

definition validate_until :: "gotime \<Rightarrow> gotime \<Rightarrow> health_problem option" where
  "validate_until until_time now =
     (if is_zero until_time then None
      else if \<not> after_time until_time now then Some UntilPast
      else if max_until_ahead < sub_time until_time now then Some UntilFar
      else None)"

record notice =
  n_message :: string
  n_since :: gotime
  n_until :: gotime
  n_passed :: bool

definition notice_of :: "maintenance \<Rightarrow> gotime \<Rightarrow> notice" where
  "notice_of m now =
     \<lparr>n_message = mt_message m, n_since = mt_started m, n_until = mt_until m, n_passed = until_passed m now\<rparr>"

section \<open>Liveness\<close>

definition state_up :: string where "state_up = ''up''"
definition state_reconnecting :: string where "state_reconnecting = ''reconnecting''"
definition state_down :: string where "state_down = ''down''"
definition state_maintenance :: string where "state_maintenance = ''maintenance''"

definition cause_process_gone :: string where "cause_process_gone = ''process_gone''"
definition cause_not_brought_up :: string where "cause_not_brought_up = ''not_brought_up''"
definition cause_held_back :: string where "cause_held_back = ''held_back''"
definition cause_not_listed :: string where "cause_not_listed = ''not_listed''"

definition zero_time :: gotime where
  "zero_time = \<lparr>g_ns = 0, g_off = 0\<rparr>"

record backend_health =
  bh_live :: bool
  bh_since :: gotime
  bh_last_attempt :: gotime
  bh_cause :: string

datatype health_event = WentLive string | CameBack string gotime | WentDown string string | Removed string

type_synonym conn = nat

text \<open>The fields of \<open>Gateway\<close> this part reads and writes under \<open>g.mu\<close>.\<close>

record fleet =
  fl_conns :: "(string \<times> conn) list"
  fl_gone :: "(string \<times> conn) list"
  fl_unlisted :: "(string \<times> conn) list"
  fl_health :: "(string \<times> backend_health) list"
  fl_servable :: "string list option"
  fl_held_back :: bool
  fl_last_round :: gotime
  fl_round_interval :: int

definition observe_live ::
  "string \<Rightarrow> bool \<Rightarrow> string \<Rightarrow> bool \<Rightarrow> gotime \<Rightarrow> fleet \<Rightarrow> health_event option \<times> fleet" where
  "observe_live name live cause attempted now fl =
     (let (b, ev) =
        (case map_of (fl_health fl) name of
           None \<Rightarrow>
             (\<lparr>bh_live = live, bh_since = now, bh_last_attempt = zero_time, bh_cause = []\<rparr>,
              Some (if live then WentLive name else WentDown name cause))
         | Some b \<Rightarrow>
             if bh_live b \<noteq> live \<and> live then (b\<lparr>bh_live := True, bh_since := now\<rparr>, Some (CameBack name (bh_since b)))
             else if bh_live b \<noteq> live
                  then (b\<lparr>bh_live := False, bh_since := now, bh_last_attempt := zero_time\<rparr>, Some (WentDown name cause))
                  else (b, None));
          b = (if live then b\<lparr>bh_cause := []\<rparr> else if cause \<noteq> [] then b\<lparr>bh_cause := cause\<rparr> else b);
          b = (if attempted then b\<lparr>bh_last_attempt := now\<rparr> else b)
      in (ev, fl\<lparr>fl_health := AList.update name b (fl_health fl)\<rparr>))"

definition forget_health :: "string \<Rightarrow> fleet \<Rightarrow> health_event option \<times> fleet" where
  "forget_health name fl =
     (if map_of (fl_health fl) name = None then (None, fl)
      else (Some (Removed name), fl\<lparr>fl_health := AList.delete name (fl_health fl)\<rparr>))"

text \<open>Whether the connection for a name is open and not found dead, and whether it may take calls.\<close>

definition conn_alive :: "fleet \<Rightarrow> string \<Rightarrow> bool" where
  "conn_alive fl name =
     (map_of (fl_conns fl) name \<noteq> None \<and> map_of (fl_gone fl) name \<noteq> map_of (fl_conns fl) name)"

definition conn_live :: "fleet \<Rightarrow> string \<Rightarrow> bool" where
  "conn_live fl name = (conn_alive fl name \<and> map_of (fl_unlisted fl) name \<noteq> map_of (fl_conns fl) name)"

definition settle_cause :: "fleet \<Rightarrow> bool \<Rightarrow> string list \<Rightarrow> string \<Rightarrow> string" where
  "settle_cause fl frozen dialed name =
     (if conn_live fl name then []
      else if conn_alive fl name then cause_not_listed
      else if frozen then cause_held_back
      else if name \<in> set dialed then cause_not_brought_up
      else case map_of (fl_health fl) name of
        Some b \<Rightarrow> if bh_cause b \<noteq> [] then bh_cause b else cause_not_brought_up
      | None \<Rightarrow> cause_not_brought_up)"

fun settle_names ::
  "bool \<Rightarrow> string list \<Rightarrow> gotime \<Rightarrow> string list \<Rightarrow> fleet \<Rightarrow> health_event option list \<times> fleet" where
  "settle_names frozen dialed now [] fl = ([], fl)"
| "settle_names frozen dialed now (name # names) fl =
     (case observe_live name (conn_live fl name) (settle_cause fl frozen dialed name) (name \<in> set dialed) now fl of
        (ev, fl') \<Rightarrow> (case settle_names frozen dialed now names fl' of (evs, fl'') \<Rightarrow> (ev # evs, fl'')))"

fun forget_names :: "string list \<Rightarrow> fleet \<Rightarrow> health_event option list \<times> fleet" where
  "forget_names [] fl = ([], fl)"
| "forget_names (name # names) fl =
     (case forget_health name fl of
        (ev, fl') \<Rightarrow> (case forget_names names fl' of (evs, fl'') \<Rightarrow> (ev # evs, fl'')))"

definition settle_health ::
  "string list \<Rightarrow> (string \<Rightarrow> bool) \<Rightarrow> bool \<Rightarrow> string list \<Rightarrow> gotime \<Rightarrow> fleet \<Rightarrow> health_event option list \<times> fleet" where
  "settle_health servable keep frozen dialed now fl =
     (case settle_names frozen dialed now servable fl of
        (evs, fl1) \<Rightarrow>
          (case forget_names (filter (\<lambda>n. n \<notin> set servable \<and> \<not> keep n) (sort (map fst (fl_health fl1)))) fl1 of
             (evs', fl2) \<Rightarrow>
               (evs @ evs',
                fl2\<lparr>fl_servable := Some (remdups (servable @ map fst (fl_health fl2))), fl_held_back := frozen\<rparr>)))"

text \<open>\<open>markGone\<close>: the connection of a call that found it dead.\<close>

definition mark_gone :: "string \<Rightarrow> conn option \<Rightarrow> gotime \<Rightarrow> fleet \<Rightarrow> health_event option \<times> fleet" where
  "mark_gone name up now fl =
     (if up = None \<or> map_of (fl_conns fl) name \<noteq> up then (None, fl)
      else let fl1 = fl\<lparr>fl_gone := AList.update name (the up) (fl_gone fl)\<rparr>
           in if (case fl_servable fl of None \<Rightarrow> False | Some s \<Rightarrow> name \<notin> set s) then (None, fl1)
              else case observe_live name False cause_process_gone False now fl1 of
                (ev, fl2) \<Rightarrow>
                  (ev, case map_of (fl_health fl2) name of
                         Some b \<Rightarrow> if fl_held_back fl2
                                   then fl2\<lparr>fl_health := AList.update name (b\<lparr>bh_cause := cause_held_back\<rparr>) (fl_health fl2)\<rparr>
                                   else fl2
                       | None \<Rightarrow> fl2))"

definition take_gone :: "string \<Rightarrow> conn option \<Rightarrow> fleet \<Rightarrow> bool \<times> fleet" where
  "take_gone name live fl =
     (case map_of (fl_gone fl) name of
        None \<Rightarrow> (False, fl)
      | Some marked \<Rightarrow> (Some marked = live, fl\<lparr>fl_gone := AList.delete name (fl_gone fl)\<rparr>))"

definition mark_listed :: "string \<Rightarrow> conn option \<Rightarrow> gotime \<Rightarrow> fleet \<Rightarrow> health_event option \<times> fleet" where
  "mark_listed name up now fl =
     (if up = None \<or> map_of (fl_unlisted fl) name \<noteq> up then (None, fl)
      else let fl1 = fl\<lparr>fl_unlisted := AList.delete name (fl_unlisted fl)\<rparr>
           in if map_of (fl_health fl1) name = None \<or> map_of (fl_gone fl1) name = up then (None, fl1)
              else observe_live name True [] False now fl1)"

section \<open>What a caller is told\<close>

record backend_status =
  st_name :: string
  st_state :: string
  st_since :: gotime
  st_last_attempt :: gotime
  st_next_attempt :: gotime
  st_maintenance :: "notice option"

definition next_attempt :: "fleet \<Rightarrow> gotime" where
  "next_attempt fl =
     (if is_zero (fl_last_round fl) \<or> fl_round_interval fl \<le> 0 then zero_time
      else add_time (fl_last_round fl) (fl_round_interval fl))"

definition public_state :: "string \<Rightarrow> (string \<rightharpoonup> maintenance) \<Rightarrow> gotime \<Rightarrow> fleet \<Rightarrow> backend_status option" where
  "public_state name maint now fl =
     (case map_of (fl_health fl) name of
        None \<Rightarrow> None
      | Some b \<Rightarrow>
          (let st = \<lparr>st_name = name, st_state = [], st_since = bh_since b, st_last_attempt = bh_last_attempt b,
                     st_next_attempt = (if \<not> bh_live b \<and> bh_cause b \<noteq> cause_held_back then next_attempt fl else zero_time),
                     st_maintenance = None\<rparr>
           in Some (case maint name of
                Some m \<Rightarrow>
                  (let st = st\<lparr>st_state := state_maintenance, st_since := mt_started m, st_maintenance := Some (notice_of m now)\<rparr>
                   in if bh_live b then st\<lparr>st_next_attempt := zero_time\<rparr> else st)
              | None \<Rightarrow>
                  if bh_live b then st\<lparr>st_state := state_up\<rparr>
                  else if bh_cause b = cause_held_back then st\<lparr>st_state := state_down\<rparr>
                  else st\<lparr>st_state := state_reconnecting\<rparr>)))"

text \<open>\<open>readMaintenance\<close>: \<open>None\<close> is a gateway without the port, \<open>Inl\<close> a table that cannot be read; later rows win.\<close>

definition read_maintenance :: "(unit + maintenance list) option \<Rightarrow> (string \<rightharpoonup> maintenance) \<times> bool" where
  "read_maintenance port =
     (case port of
        None \<Rightarrow> (Map.empty, True)
      | Some (Inl _) \<Rightarrow> (Map.empty, False)
      | Some (Inr rows) \<Rightarrow> (foldl (\<lambda>m r. m(mt_target r \<mapsto> r)) Map.empty rows, True))"

definition gateway_notice :: "(string \<rightharpoonup> maintenance) \<Rightarrow> gotime \<Rightarrow> notice option" where
  "gateway_notice maint now = map_option (\<lambda>m. notice_of m now) (maint gateway_target)"

record unavailable =
  ua_backend :: string
  ua_state :: string
  ua_since :: gotime
  ua_last_attempt :: gotime
  ua_next_attempt :: gotime
  ua_maintenance :: "notice option"
  ua_gateway :: "notice option"

text \<open>Found dead a moment ago and not yet settled by a round.\<close>

definition just_died :: "string \<Rightarrow> gotime \<Rightarrow> fleet \<Rightarrow> backend_status" where
  "just_died name now fl =
     (let st = \<lparr>st_name = name, st_state = state_reconnecting, st_since = now, st_last_attempt = zero_time,
                st_next_attempt = next_attempt fl, st_maintenance = None\<rparr>
      in case map_of (fl_health fl) name of
           None \<Rightarrow> st
         | Some b \<Rightarrow>
             (let st = st\<lparr>st_last_attempt := bh_last_attempt b\<rparr>
              in if bh_live b then st else st\<lparr>st_since := bh_since b\<rparr>))"

definition availability ::
  "string \<Rightarrow> conn option \<Rightarrow> (string \<rightharpoonup> maintenance) \<Rightarrow> gotime \<Rightarrow> fleet \<Rightarrow> unavailable option" where
  "availability name up maint now fl =
     (let gw = gateway_notice maint now;
          st = public_state name maint now fl
      in case maint name of
           Some m \<Rightarrow>
             Some \<lparr>ua_backend = name, ua_state = state_maintenance, ua_since = mt_started m,
                   ua_last_attempt = (case st of Some s \<Rightarrow> st_last_attempt s | None \<Rightarrow> zero_time),
                   ua_next_attempt = (case st of Some s \<Rightarrow> st_next_attempt s | None \<Rightarrow> zero_time),
                   ua_maintenance = Some (notice_of m now), ua_gateway = gw\<rparr>
         | None \<Rightarrow>
             if up \<noteq> None \<and> map_of (fl_gone fl) name \<noteq> up \<and> map_of (fl_unlisted fl) name \<noteq> up then None
             else
               (let s = (case st of
                      Some s \<Rightarrow> if st_state s \<noteq> state_up then s else just_died name now fl
                    | None \<Rightarrow> just_died name now fl)
                in Some \<lparr>ua_backend = name, ua_state = st_state s, ua_since = st_since s,
                         ua_last_attempt = st_last_attempt s, ua_next_attempt = st_next_attempt s,
                         ua_maintenance = None, ua_gateway = gw\<rparr>))"

section \<open>Facts\<close>

definition recorded_live :: "fleet \<Rightarrow> string \<Rightarrow> bool option" where
  "recorded_live fl name = map_option bh_live (map_of (fl_health fl) name)"

lemma observe_live_recorded:
  "recorded_live (snd (observe_live name live cause att now fl)) n = (if n = name then Some live else recorded_live fl n)"
  by (auto simp: observe_live_def recorded_live_def update_conv' Let_def split: option.splits prod.splits)

lemma observe_live_event:
  "fst (observe_live name live cause att now fl) \<noteq> None \<longleftrightarrow> recorded_live fl name \<noteq> Some live"
  by (auto simp: observe_live_def recorded_live_def Let_def split: option.splits prod.splits)

lemma observe_live_conns [simp]:
  "fl_conns (snd (observe_live name live cause att now fl)) = fl_conns fl"
  "fl_gone (snd (observe_live name live cause att now fl)) = fl_gone fl"
  "fl_unlisted (snd (observe_live name live cause att now fl)) = fl_unlisted fl"
  by (simp_all add: observe_live_def Let_def split: prod.splits)

lemma observe_live_keys:
  "set (map fst (fl_health (snd (observe_live name live cause att now fl)))) = insert name (set (map fst (fl_health fl)))"
  by (simp add: observe_live_def Let_def dom_update split: prod.splits)

lemma conn_live_cong:
  "fl_conns fl' = fl_conns fl \<Longrightarrow> fl_gone fl' = fl_gone fl \<Longrightarrow> fl_unlisted fl' = fl_unlisted fl \<Longrightarrow> conn_live fl' = conn_live fl"
  by (simp add: conn_live_def conn_alive_def fun_eq_iff)

lemma settle_names_spec:
  assumes "distinct names"
  shows "recorded_live (snd (settle_names frozen dialed now names fl)) n =
      (if n \<in> set names then Some (conn_live fl n) else recorded_live fl n)
    \<and> map (\<lambda>ev. ev \<noteq> None) (fst (settle_names frozen dialed now names fl)) =
        map (\<lambda>n. recorded_live fl n \<noteq> Some (conn_live fl n)) names"
  using assms
proof (induction names arbitrary: fl)
  case (Cons name names)
  let ?o = "observe_live name (conn_live fl name) (settle_cause fl frozen dialed name) (name \<in> set dialed) now fl"
  obtain ev fl' where o: "?o = (ev, fl')" by fastforce
  have live: "conn_live fl' = conn_live fl"
    using o observe_live_conns [of name "conn_live fl name" "settle_cause fl frozen dialed name" "name \<in> set dialed" now fl]
    by (intro conn_live_cong) simp_all
  have rec: "recorded_live fl' m = (if m = name then Some (conn_live fl name) else recorded_live fl m)" for m
    using observe_live_recorded [of name "conn_live fl name" _ _ now fl m] o by (metis snd_conv)
  have ev: "ev \<noteq> None \<longleftrightarrow> recorded_live fl name \<noteq> Some (conn_live fl name)"
    using observe_live_event [of name "conn_live fl name" _ _ now fl] o by (metis fst_conv)
  have same: "map (\<lambda>n. recorded_live fl' n \<noteq> Some (conn_live fl' n)) names =
      map (\<lambda>n. recorded_live fl n \<noteq> Some (conn_live fl n)) names"
    using Cons.prems rec live by (intro map_cong) auto
  from Cons.IH [of fl'] Cons.prems show ?case
    unfolding settle_names.simps o prod.case same
    by (cases "settle_names frozen dialed now names fl'") (auto simp: live rec ev simp del: not_None_eq)
qed simp

lemma forget_names_recorded:
  "recorded_live (snd (forget_names names fl)) n = (if n \<in> set names then None else recorded_live fl n)"
proof (induction names arbitrary: fl)
  case (Cons name names)
  have "recorded_live (snd (forget_health name fl)) m = (if m = name then None else recorded_live fl m)" for m
    by (auto simp: forget_health_def recorded_live_def delete_conv')
  with Cons.IH [of "snd (forget_health name fl)"] show ?case
    by (auto split: prod.splits)
qed simp

lemma recorded_live_keys: "recorded_live fl n = None \<longleftrightarrow> n \<notin> set (map fst (fl_health fl))"
  by (simp add: recorded_live_def map_of_eq_None_iff)

text \<open>
  (invariant) after a round, what is recorded is what is true. For every servable name the recorded liveness is that of its connection (open,
  not found dead, and listed), one transition event is returned for it exactly when this differs from what was recorded before or nothing was, and a name
  that is no longer servable is forgotten unless the round keeps it.
\<close>
theorem settle_health_exact:
  assumes "distinct servable" "settle_health servable keep frozen dialed now fl = (evs, fl')"
  shows "(\<forall>n\<in>set servable. recorded_live fl' n = Some (conn_live fl n))
    \<and> (\<forall>n. n \<notin> set servable \<longrightarrow> recorded_live fl' n = (if keep n then recorded_live fl n else None))
    \<and> map (\<lambda>ev. ev \<noteq> None) (take (length servable) evs) =
        map (\<lambda>n. recorded_live fl n \<noteq> Some (conn_live fl n)) servable"
proof -
  obtain evs1 fl1 where one: "settle_names frozen dialed now servable fl = (evs1, fl1)" by fastforce
  let ?drop = "filter (\<lambda>n. n \<notin> set servable \<and> \<not> keep n) (sort (map fst (fl_health fl1)))"
  obtain evs2 fl2 where two: "forget_names ?drop fl1 = (evs2, fl2)" by fastforce
  from assms(2) one two have evs: "evs = evs1 @ evs2" and fl': "recorded_live fl' n = recorded_live fl2 n" for n
    by (auto simp: settle_health_def recorded_live_def)
  have rec1: "recorded_live fl1 n = (if n \<in> set servable then Some (conn_live fl n) else recorded_live fl n)" for n
    using settle_names_spec [OF assms(1), of frozen dialed now fl n] one by simp
  have ev1: "map (\<lambda>ev. ev \<noteq> None) evs1 = map (\<lambda>n. recorded_live fl n \<noteq> Some (conn_live fl n)) servable"
    using settle_names_spec [OF assms(1), of frozen dialed now fl] one by simp
  then have "length evs1 = length servable" by (metis length_map)
  moreover have rec2: "recorded_live fl2 n = (if n \<in> set ?drop then None else recorded_live fl1 n)" for n
    using forget_names_recorded [of ?drop fl1 n] two by simp
  have "recorded_live fl' n = (if keep n then recorded_live fl n else None)" if "n \<notin> set servable" for n
    using that fl' rec1 rec2 recorded_live_keys [of fl1 n] by auto
  ultimately show ?thesis using ev1 evs fl' rec1 rec2 by auto
qed

definition sample_fleet :: fleet where
  "sample_fleet = \<lparr>fl_conns = [(''crm'', 1), (''logs'', 2)], fl_gone = [(''logs'', 2)], fl_unlisted = [],
     fl_health = [(''logs'', \<lparr>bh_live = True, bh_since = zero_time, bh_last_attempt = zero_time, bh_cause = []\<rparr>)],
     fl_servable = None, fl_held_back = False, fl_last_round = zero_time, fl_round_interval = 0\<rparr>"

theorem settle_health_exact_witness:
  "recorded_live (snd (settle_health [''crm'', ''logs''] (\<lambda>_. False) False [] \<lparr>g_ns = 5, g_off = 0\<rparr> sample_fleet)) ''logs''
   = Some False"
proof -
  let ?r = "settle_health [''crm'', ''logs''] (\<lambda>_. False) False [] \<lparr>g_ns = 5, g_off = 0\<rparr> sample_fleet"
  obtain evs fl' where r: "?r = (evs, fl')" by fastforce
  have "\<not> conn_live sample_fleet ''logs''" by code_simp
  with settle_health_exact [OF _ r] r show ?thesis by simp
qed

text \<open>
  (functional) a call is let through to a backend exactly when the backend is in no maintenance and the connection in hand was neither found dead
  nor left unlisted; otherwise the caller is told one of maintenance, down or reconnecting, never that the backend is up, maintenance exactly when there is a
  row for it, and never who set that row.
\<close>
theorem availability_exact:
  "(availability name up maint now fl = None \<longleftrightarrow>
      maint name = None \<and> up \<noteq> None \<and> map_of (fl_gone fl) name \<noteq> up \<and> map_of (fl_unlisted fl) name \<noteq> up)
   \<and> (case availability name up maint now fl of None \<Rightarrow> True | Some u \<Rightarrow>
        ua_backend u = name
        \<and> (ua_state u = state_maintenance \<longleftrightarrow> maint name \<noteq> None)
        \<and> ua_state u \<in> {state_maintenance, state_down, state_reconnecting}
        \<and> ua_maintenance u = map_option (\<lambda>m. notice_of m now) (maint name)
        \<and> (\<forall>by at. availability name up (\<lambda>n. map_option (\<lambda>m. m\<lparr>mt_set_by := by, mt_set_at := at\<rparr>) (maint n)) now fl = Some u))"
proof -
  have hide: "availability name up (\<lambda>n. map_option (\<lambda>m. m\<lparr>mt_set_by := by, mt_set_at := at\<rparr>) (maint n)) now fl
      = availability name up maint now fl" for "by" at
  proof -
    let ?maint = "\<lambda>n. map_option (\<lambda>m. m\<lparr>mt_set_by := by, mt_set_at := at\<rparr>) (maint n)"
    have n: "notice_of (m\<lparr>mt_set_by := by, mt_set_at := at\<rparr>) now = notice_of m now" for m :: maintenance
      by (simp add: notice_of_def until_passed_def)
    have "gateway_notice ?maint now = gateway_notice maint now"
      by (cases "maint gateway_target") (simp_all add: gateway_notice_def n)
    moreover have "public_state name ?maint now fl = public_state name maint now fl"
      by (cases "maint name"; cases "map_of (fl_health fl) name") (simp_all add: public_state_def n Let_def)
    ultimately show ?thesis by (cases "maint name") (simp_all add: availability_def n Let_def)
  qed
  have state: "ua_backend u = name \<and> (ua_state u = state_maintenance \<longleftrightarrow> maint name \<noteq> None)
      \<and> ua_state u \<in> {state_maintenance, state_down, state_reconnecting}
      \<and> ua_maintenance u = map_option (\<lambda>m. notice_of m now) (maint name)"
    if "availability name up maint now fl = Some u" for u
    using that
    by (auto simp: availability_def public_state_def just_died_def Let_def state_up_def state_maintenance_def state_down_def
        state_reconnecting_def split: option.splits if_splits)
  have "availability name up maint now fl = None \<longleftrightarrow>
      maint name = None \<and> up \<noteq> None \<and> map_of (fl_gone fl) name \<noteq> up \<and> map_of (fl_unlisted fl) name \<noteq> up"
    by (simp add: availability_def Let_def split: option.splits)
  then show ?thesis
    using hide state by (cases "availability name up maint now fl") auto
qed

end
