(* ===== verification/Naming.thy ===== *)
theory Naming
  imports Access Registry
begin

text \<open>
  The names clients see: \<open>Namespaced\<close> and \<open>SplitNamespaced\<close> of \<open>internal/gateway/gateway.go\<close>, \<open>ValidToolName\<close> and \<open>targetOf\<close> of
  \<open>internal/gateway/endpoint.go\<close>, with the facts the routing table, the access policy and the audit trail rest on: for an upstream name
  without the separator the two halves are recovered.
\<close>

definition gw_separator :: string where
  "gw_separator = ''.''"

definition namespaced :: "string \<Rightarrow> string \<Rightarrow> string" where
  "namespaced upstream tool = upstream @ gw_separator @ tool"

definition split_namespaced :: "string \<Rightarrow> (string \<times> string) option" where
  "split_namespaced name =
     (case cut_at CHR ''.'' name of
        None \<Rightarrow> None
      | Some (upstream, tool) \<Rightarrow> if upstream = [] \<or> tool = [] then None else Some (upstream, tool))"

definition max_tool_name_len :: nat where
  "max_tool_name_len = 64"

definition valid_tool_name :: "string \<Rightarrow> bool" where
  "valid_tool_name name =
     (if name = [] \<or> max_tool_name_len < length name then False
      else list_all (\<lambda>c. c \<ge> CHR ''a'' \<and> c \<le> CHR ''z'' \<or> c \<ge> CHR ''A'' \<and> c \<le> CHR ''Z''
             \<or> c \<ge> CHR ''0'' \<and> c \<le> CHR ''9'' \<or> c = CHR ''_'' \<or> c = CHR ''-'') name)"

definition unknown_upstream :: string where
  "unknown_upstream = ''(unknown)''"

definition target_of :: "string \<Rightarrow> string" where
  "target_of name = (case split_namespaced name of Some (upstream, tool) \<Rightarrow> upstream | None \<Rightarrow> unknown_upstream)"

lemma cut_namespaced: "CHR ''.'' \<notin> set u \<Longrightarrow> cut_at CHR ''.'' (namespaced u t) = Some (u, t)"
  by (simp add: cut_at_iff namespaced_def gw_separator_def)

lemma split_namespaced_iff:
  "split_namespaced name = Some (u, t) \<longleftrightarrow> name = namespaced u t \<and> CHR ''.'' \<notin> set u \<and> u \<noteq> [] \<and> t \<noteq> []"
proof (cases "cut_at CHR ''.'' name")
  case None
  then have "CHR ''.'' \<notin> set name" by (simp add: cut_at_None_iff)
  then have "name \<noteq> namespaced u t" by (auto simp: namespaced_def gw_separator_def)
  with None show ?thesis by (simp add: split_namespaced_def)
next
  case (Some ab)
  then obtain a b where ab: "cut_at CHR ''.'' name = Some (a, b)" by (cases ab) simp
  then have name: "name = namespaced a b" "CHR ''.'' \<notin> set a"
    by (simp_all add: cut_at_iff namespaced_def gw_separator_def)
  have "name = namespaced u t \<and> CHR ''.'' \<notin> set u \<longleftrightarrow> a = u \<and> b = t"
    using ab name cut_namespaced [of u t] by (metis option.inject prod.inject)
  then show ?thesis by (auto simp: split_namespaced_def ab)
qed

lemma namespaced_inject:
  assumes "CHR ''.'' \<notin> set u" "CHR ''.'' \<notin> set v"
  shows "namespaced u s = namespaced v t \<longleftrightarrow> u = v \<and> s = t"
  using cut_namespaced [OF assms(1)] cut_namespaced [OF assms(2)] by (metis option.inject prod.inject)

lemma target_of_not_Nil: "target_of name \<noteq> []"
  unfolding target_of_def unknown_upstream_def
  by (cases "split_namespaced name") (auto simp: split_namespaced_iff simp del: not_Some_eq)

end
