(* ===== verification/Schema.thy ===== *)
theory Schema
  imports Registry "HOL-Library.Multiset"
begin

text \<open>
  Model of the input schema check of \<open>internal/gateway/endpoint.go\<close> (\<open>validateSchema\<close>, \<open>validateHeaderAnnotations\<close>, \<open>validateHeadersIn\<close>,
  \<open>isHTTPTokenChar\<close>) and of \<open>resolveOutputSchema\<close> of \<open>internal/gateway/response.go\<close>. A schema that breaks these rules makes the MCP library panic
  when it is served, so discovery refuses it.

  Decoding JSON into the three shapes the code asks for, and compiling an output schema, are the arguments collected in \<open>schema_lib\<close>: an
  object with its \<open>type\<close> member, the tree of properties with their annotations, and a string.
\<close>

section \<open>What the decoder returns\<close>

text \<open>The value under \<open>type\<close>: a string or something else.\<close>

datatype type_member = TypeString string | TypeOther

text \<open>Decoding into a map: an error, null, or an object (with its \<open>type\<close>, when it has one).\<close>

datatype probe = ProbeError | ProbeNull | ProbeObject "type_member option"

text \<open>One property: its type, the raw annotation when there is one, and its own properties.\<close>

datatype header_prop = HeaderProp (hp_type: string) (hp_header: "string option") (hp_props: "(string \<times> header_prop) list")

record schema_lib =
  sl_probe :: "string \<Rightarrow> probe"
  sl_tree :: "string \<Rightarrow> header_prop option"
  sl_string :: "string \<Rightarrow> string option"
  sl_compile :: "string \<Rightarrow> (string \<Rightarrow> bool) option"

datatype schema_problem =
    SchemaAbsent | SchemaNotObject | SchemaNull | SchemaNoType | SchemaType type_member
  | HeaderNotPrimitive string string | HeaderEmpty string | HeaderNotToken string | HeaderTwice string

section \<open>Annotations\<close>

definition is_http_token_char :: "char \<Rightarrow> bool" where
  "is_http_token_char c =
     (c \<ge> CHR ''0'' \<and> c \<le> CHR ''9'' \<or> c \<ge> CHR ''A'' \<and> c \<le> CHR ''Z'' \<or> c \<ge> CHR ''a'' \<and> c \<le> CHR ''z''
      \<or> c \<in> set ''!#$%&*+-.^_`|~'' \<or> c = CHR 0x27)"

definition primitive_types :: "string list" where
  "primitive_types = [''string'', ''integer'', ''boolean'']"

definition check_header ::
  "(string \<Rightarrow> string option) \<Rightarrow> string \<Rightarrow> string \<Rightarrow> string \<Rightarrow> string list \<Rightarrow> schema_problem + string list" where
  "check_header decode path ty raw seen =
     (if ty \<notin> set primitive_types then Inl (HeaderNotPrimitive path ty)
      else case decode raw of
        None \<Rightarrow> Inl (HeaderEmpty path)
      | Some header \<Rightarrow>
          if header = [] then Inl (HeaderEmpty path)
          else if \<not> list_all is_http_token_char header then Inl (HeaderNotToken path)
          else if map lower header \<in> set seen then Inl (HeaderTwice path)
          else Inr (map lower header # seen))"

definition check_own_header ::
  "(string \<Rightarrow> string option) \<Rightarrow> string \<Rightarrow> header_prop \<Rightarrow> string list \<Rightarrow> schema_problem + string list" where
  "check_own_header decode path p seen =
     (case hp_header p of None \<Rightarrow> Inr seen | Some raw \<Rightarrow> check_header decode path (hp_type p) raw seen)"

definition prop_path :: "string \<Rightarrow> string \<Rightarrow> string" where
  "prop_path prefix name = (if prefix \<noteq> [] then prefix @ ''.'' @ name else name)"

text \<open>A level of properties is walked in the order of its sorted names; the size of the tree bounds the recursion.\<close>

definition props_size :: "(string \<times> header_prop) list \<Rightarrow> nat" where
  "props_size ps = sum_list (map (\<lambda>x. Suc (size (snd x))) ps)"

lemma props_size_simps [simp]: "props_size [] = 0" "props_size (x # ps) = Suc (size (snd x)) + props_size ps"
  by (simp_all add: props_size_def)

lemma props_size_sort [simp]: "props_size (sort_key f ps) = props_size ps"
proof -
  have "sum_list (map g (sort_key f ps)) = sum_list (map g ps)" for g :: "string \<times> header_prop \<Rightarrow> nat"
    by (metis mset_map mset_sort sum_mset_sum_list)
  then show ?thesis by (simp add: props_size_def)
qed

lemma props_size_children: "props_size (hp_props p) \<le> size p"
proof (cases p)
  case (HeaderProp t h ps)
  have "props_size ps \<le> size_list (size_prod (\<lambda>_. 0) size) ps" by (induction ps) auto
  with HeaderProp show ?thesis by simp
qed

function (sequential) check_headers ::
  "(string \<Rightarrow> string option) \<Rightarrow> string \<Rightarrow> (string \<times> header_prop) list \<Rightarrow> string list \<Rightarrow> schema_problem + string list" where
  "check_headers decode prefix [] seen = Inr seen"
| "check_headers decode prefix ((name, p) # ps) seen =
     (case check_own_header decode (prop_path prefix name) p seen of
        Inl e \<Rightarrow> Inl e
      | Inr seen \<Rightarrow>
          (case check_headers decode (prop_path prefix name) (sort_key fst (hp_props p)) seen of
             Inl e \<Rightarrow> Inl e
           | Inr seen \<Rightarrow> check_headers decode prefix ps seen))"
  by pat_completeness auto

termination
proof (relation "measure (\<lambda>(decode, prefix, ps, seen). props_size ps)", goal_cases)
  case (2 decode prefix name p ps seen)
  then show ?case using props_size_children [of p] by simp
qed simp_all

section \<open>Schemas\<close>

definition validate_headers :: "schema_lib \<Rightarrow> string \<Rightarrow> schema_problem option" where
  "validate_headers S raw =
     (case sl_tree S raw of
        None \<Rightarrow> None
      | Some root \<Rightarrow>
          (case check_headers (sl_string S) [] (sort_key fst (hp_props root)) [] of Inl e \<Rightarrow> Some e | Inr _ \<Rightarrow> None))"

definition validate_schema :: "schema_lib \<Rightarrow> string \<Rightarrow> schema_problem option" where
  "validate_schema S raw =
     (if raw = [] then Some SchemaAbsent
      else case sl_probe S raw of
        ProbeError \<Rightarrow> Some SchemaNotObject
      | ProbeNull \<Rightarrow> Some SchemaNull
      | ProbeObject None \<Rightarrow> Some SchemaNoType
      | ProbeObject (Some ty) \<Rightarrow>
          if ty \<noteq> TypeString ''object'' then Some (SchemaType ty) else validate_headers S raw)"

text \<open>\<open>None\<close> when the schema cannot be compiled, \<open>Some None\<close> when the tool declares none.\<close>

definition resolve_output_schema :: "schema_lib \<Rightarrow> string \<Rightarrow> (string \<Rightarrow> bool) option option" where
  "resolve_output_schema S raw = (if raw = [] then Some None else map_option Some (sl_compile S raw))"

section \<open>What an accepted schema has\<close>

text \<open>Every annotation of a tree, with its property's type, by plain recursion on the tree.\<close>

fun annotations :: "header_prop \<Rightarrow> (string \<times> string) list" where
  "annotations (HeaderProp ty h ps) =
     (case h of None \<Rightarrow> [] | Some raw \<Rightarrow> [(ty, raw)]) @ concat (map (\<lambda>x. annotations (snd x)) ps)"

definition level_annotations :: "(string \<times> header_prop) list \<Rightarrow> (string \<times> string) list" where
  "level_annotations ps = concat (map (\<lambda>x. annotations (snd x)) ps)"

text \<open>What the MCP library requires of the annotations it reads: primitive types, tokens, and no two names equal but for case.\<close>

definition header_of :: "(string \<Rightarrow> string option) \<Rightarrow> string \<Rightarrow> string" where
  "header_of decode raw = (case decode raw of Some h \<Rightarrow> h | None \<Rightarrow> [])"

definition annotation_ok :: "(string \<Rightarrow> string option) \<Rightarrow> string \<times> string \<Rightarrow> bool" where
  "annotation_ok decode x =
     (fst x \<in> set primitive_types \<and> header_of decode (snd x) \<noteq> [] \<and> list_all is_http_token_char (header_of decode (snd x)))"

definition annotations_ok :: "(string \<Rightarrow> string option) \<Rightarrow> (string \<times> string) list \<Rightarrow> bool" where
  "annotations_ok decode anns =
     (list_all (annotation_ok decode) anns \<and> distinct (map (\<lambda>x. map lower (header_of decode (snd x))) anns))"

lemma mset_level_annotations_sort: "mset (level_annotations (sort_key f ps)) = mset (level_annotations ps)"
proof -
  have "mset (level_annotations qs) = (\<Sum>x\<in>#mset qs. mset (annotations (snd x)))" for qs
    unfolding level_annotations_def by (induction qs) auto
  then show ?thesis by simp
qed

lemma level_annotations_Cons: "level_annotations (x # ps) = annotations (snd x) @ level_annotations ps"
  by (simp add: level_annotations_def)

lemma annotations_own:
  "annotations p = (case hp_header p of None \<Rightarrow> [] | Some raw \<Rightarrow> [(hp_type p, raw)]) @ level_annotations (hp_props p)"
  by (cases p) (simp add: level_annotations_def split: option.splits)

definition ann_names :: "(string \<Rightarrow> string option) \<Rightarrow> (string \<times> string) list \<Rightarrow> string set" where
  "ann_names decode anns = set (map (\<lambda>x. map lower (header_of decode (snd x))) anns)"

definition fresh_ok :: "(string \<Rightarrow> string option) \<Rightarrow> (string \<times> string) list \<Rightarrow> string set \<Rightarrow> bool" where
  "fresh_ok decode anns seen = (annotations_ok decode anns \<and> ann_names decode anns \<inter> seen = {})"

lemma fresh_ok_append:
  "fresh_ok decode (xs @ ys) seen \<longleftrightarrow> fresh_ok decode xs seen \<and> fresh_ok decode ys (ann_names decode xs \<union> seen)"
  by (auto simp: fresh_ok_def annotations_ok_def ann_names_def)

lemma ann_names_append: "ann_names decode (xs @ ys) = ann_names decode xs \<union> ann_names decode ys"
  by (auto simp: ann_names_def)

lemma fresh_ok_mset:
  assumes "mset xs = mset ys"
  shows "fresh_ok decode xs seen \<longleftrightarrow> fresh_ok decode ys seen" "ann_names decode xs = ann_names decode ys"
proof -
  let ?f = "\<lambda>x. map lower (header_of decode (snd x))"
  from assms have sets: "set xs = set ys" by (rule mset_eq_setD)
  have "mset (map ?f xs) = mset (map ?f ys)" using assms by simp
  then have "distinct (map ?f xs) = distinct (map ?f ys)" by (rule mset_eq_imp_distinct_iff)
  with sets show "fresh_ok decode xs seen \<longleftrightarrow> fresh_ok decode ys seen" "ann_names decode xs = ann_names decode ys"
    by (auto simp: fresh_ok_def annotations_ok_def ann_names_def list_all_iff)
qed

text \<open>Accepted exactly when the annotations are in order, with the names seen so far grown by theirs.\<close>

definition accepts :: "(string \<Rightarrow> string option) \<Rightarrow> (string \<times> string) list \<Rightarrow> string list \<Rightarrow> schema_problem + string list \<Rightarrow> bool" where
  "accepts decode anns seen r =
     (case r of Inr seen' \<Rightarrow> fresh_ok decode anns (set seen) \<and> set seen' = ann_names decode anns \<union> set seen
              | Inl e \<Rightarrow> \<not> fresh_ok decode anns (set seen))"

lemma check_own_header_accepts:
  "accepts decode (case hp_header p of None \<Rightarrow> [] | Some raw \<Rightarrow> [(hp_type p, raw)]) seen (check_own_header decode path p seen)"
  by (auto simp: check_own_header_def check_header_def accepts_def fresh_ok_def annotations_ok_def annotation_ok_def ann_names_def
      header_of_def split: option.splits)

lemma accepts_append:
  assumes "accepts decode xs seen (Inr seen1)" "accepts decode ys seen1 r"
  shows "accepts decode (xs @ ys) seen r"
  using assms by (auto simp: accepts_def fresh_ok_append ann_names_append split: sum.splits)

lemma accepts_stop: "accepts decode xs seen (Inl e) \<Longrightarrow> accepts decode (xs @ ys) seen (Inl e')"
  by (simp add: accepts_def fresh_ok_append)

lemma accepts_mset: "mset xs = mset ys \<Longrightarrow> accepts decode xs seen r \<longleftrightarrow> accepts decode ys seen r"
  using fresh_ok_mset [of xs ys decode] by (simp add: accepts_def split: sum.splits)

lemma check_headers_accepts: "accepts decode (level_annotations ps) seen (check_headers decode prefix ps seen)"
proof (induction decode prefix ps seen rule: check_headers.induct)
  case (1 decode prefix seen)
  show ?case by (simp add: level_annotations_def accepts_def fresh_ok_def annotations_ok_def ann_names_def)
next
  case (2 decode prefix name p ps seen)
  let ?own = "case hp_header p of None \<Rightarrow> [] | Some raw \<Rightarrow> [(hp_type p, raw)]"
  have level: "level_annotations ((name, p) # ps) = ?own @ level_annotations (hp_props p) @ level_annotations ps"
    by (simp only: level_annotations_Cons snd_conv annotations_own append_assoc)
  note own = check_own_header_accepts [where decode = decode and p = p and seen = seen and path = "prop_path prefix name"]
  show ?case
  proof (cases "check_own_header decode (prop_path prefix name) p seen")
    case (Inl e)
    have "accepts decode (?own @ level_annotations (hp_props p) @ level_annotations ps) seen (Inl e)"
      by (rule accepts_stop [OF own [unfolded Inl]])
    then show ?thesis by (simp add: level Inl)
  next
    case (Inr seen1)
    note sub = "2.IH"(1) [OF Inr, unfolded accepts_mset [OF mset_level_annotations_sort]]
    show ?thesis
    proof (cases "check_headers decode (prop_path prefix name) (sort_key fst (hp_props p)) seen1")
      case (Inl e)
      have "accepts decode (?own @ level_annotations (hp_props p) @ level_annotations ps) seen (Inl e)"
        by (rule accepts_append [OF own [unfolded Inr] accepts_stop [OF sub [unfolded Inl]]])
      then show ?thesis by (simp add: level Inr Inl)
    next
      case sub2: (Inr seen2)
      have "accepts decode (?own @ level_annotations (hp_props p) @ level_annotations ps) seen (check_headers decode prefix ps seen2)"
        by (rule accepts_append [OF own [unfolded Inr] accepts_append [OF sub [unfolded sub2] "2.IH"(2) [OF Inr sub2]]])
      then show ?thesis by (simp add: level Inr sub2)
    qed
  qed
qed

text \<open>
  (functional) an input schema is accepted exactly when it decodes to an object of type \<open>object\<close> and, where its properties can be read, every header
  annotation at any depth sits on a string, integer or boolean, is a non-empty HTTP token, and no two of them differ only in case: the conditions under
  which the MCP library registers the tool instead of panicking.
\<close>
theorem validate_schema_exact:
  "validate_schema S raw = None \<longleftrightarrow>
     raw \<noteq> [] \<and> sl_probe S raw = ProbeObject (Some (TypeString ''object''))
     \<and> (case sl_tree S raw of None \<Rightarrow> True
        | Some root \<Rightarrow> annotations_ok (sl_string S) (level_annotations (hp_props root)))"
proof -
  have "check_headers (sl_string S) [] (sort_key fst (hp_props root)) [] = Inr seen'
      \<Longrightarrow> annotations_ok (sl_string S) (level_annotations (hp_props root))"
    and "check_headers (sl_string S) [] (sort_key fst (hp_props root)) [] = Inl e
      \<Longrightarrow> \<not> annotations_ok (sl_string S) (level_annotations (hp_props root))" for root seen' e
    using check_headers_accepts [of "sl_string S" "sort_key fst (hp_props root)" "[]" "[]"]
    unfolding accepts_mset [OF mset_level_annotations_sort] by (simp_all add: accepts_def fresh_ok_def)
  then show ?thesis
    by (auto simp: validate_schema_def validate_headers_def split: option.splits probe.splits sum.splits)
qed

end
