(* ===== verification/Dispatch.thy ===== *)
theory Dispatch
  imports Naming Health Redact Blocklist Quarantine_Store Quota_Store Audit_Store
begin

text \<open>
  Model of the request path of \<open>internal/gateway/endpoint.go\<close>, \<open>internal/gateway/resilience.go\<close> and \<open>internal/gateway/response.go\<close>: \<open>AdmitCaller\<close>,
  \<open>ListTools\<close> and \<open>Dispatch\<close>, with every gate in the order of the source, the audit row each branch writes, the panic barrier and the
  concurrency slot that is given back on every path.

  The gateway's state is a record: the routing table, the fleet, the policy, the plan, the slots, and the four stores it holds. What the outside
  world decides during one call is a second record, \<open>call_env\<close>: the clock at each reading, the statements the databases refuse, the answer of
  the backend, the vault, whether the request's context has ended and where an adapter panics (a panic is raised before the adapter
  changed anything). \<open>gw_sent\<close> lists the calls that left the process. The libraries the stores take as arguments are the record \<open>libs\<close>.

  A step of the pipeline either goes on with a value, stops with the answer for the caller, or panics.
\<close>

section \<open>State\<close>

record tool_def =
  td_name :: string
  td_description :: string
  td_input :: string
  td_output :: string
  td_class :: string

text \<open>\<open>rt_output\<close> is the resolved output schema: what it accepts as structured content.\<close>

record routed =
  rt_upstream :: string
  rt_original :: string
  rt_def :: tool_def
  rt_output :: "(string \<Rightarrow> bool) option"

record caller =
  c_identity :: identity
  c_source :: string

record libs =
  lib_digest :: digest
  lib_audit_layout :: layout
  lib_hides :: "nat \<Rightarrow> bool"
  lib_quota_layout :: layout
  lib_health_layout :: layout
  lib_codec :: codec

record gw =
  gw_routes :: "(string \<times> routed) list"
  gw_fleet :: fleet
  gw_suspended :: bool
  gw_policy :: policy
  gw_plan :: plan
  gw_in_use :: "(string \<times> int) list"
  gw_max_calls :: int
  gw_max_result :: int
  gw_creds :: "(string \<times> string list) list"
  gw_allowed :: nat
  gw_denied :: nat
  gw_failed :: nat
  gw_audit :: adb
  gw_quarantine :: qstore
  gw_counters :: counters
  gw_blocks :: bstore
  gw_sent :: "(conn \<times> string \<times> string) list"

datatype clock_read =
  ClockBlock | ClockAvailability | ClockQuota | ClockAllowed | ClockRefusal | ClockFailure | ClockPanic | ClockGone | ClockEvent

text \<open>The moments at which the request's context is asked whether it has ended.\<close>

datatype ctx_read = CtxBlock | CtxBlockRead | CtxRefuse | CtxCall

datatype panic_point =
  PanicBlock | PanicQuarantine | PanicMaintenance | PanicQuota | PanicAudit clock_read | PanicCall | PanicCheck | PanicScrub

text \<open>What \<open>errors.Is\<close> says of the error a backend's adapter returned.\<close>

record call_failure =
  cf_gone :: bool
  cf_deadline :: bool
  cf_cancelled :: bool
  cf_internal :: bool
  cf_too_large :: bool
  cf_schema :: bool

record call_env =
  ce_clock :: "clock_read \<Rightarrow> gotime"
  ce_admitted :: "string option"
  ce_ctx :: "ctx_read \<Rightarrow> bool"
  ce_block_fault :: bool
  ce_quarantine_fault :: qfault
  ce_quota_fault :: qtfault
  ce_audit_fault :: "clock_read \<Rightarrow> astmt \<Rightarrow> bool"
  ce_maintenance :: "(unit + maintenance list) option"
  ce_reply :: "conn \<Rightarrow> string \<Rightarrow> string \<Rightarrow> call_failure + call_result"
  ce_resolve :: "string \<Rightarrow> string option"
  ce_panic :: "panic_point \<Rightarrow> bool"

datatype dispatch_error =
    DContext
  | DSubjectBlocked
  | DBlocklistUnavailable
  | DRegistryUnavailable
  | DUnknownTool
  | DForbidden
  | DSensitiveNotGranted
  | DQuarantineUnavailable
  | DUnavailable unavailable
  | DConcurrencyLimited int "notice option"
  | DQuotaExhausted exhausted_error "notice option"
  | DQuotaUnavailable
  | DUnauditable
  | DGone unavailable
  | DCallTimeout string "notice option"
  | DCallEnded
  | DBackendFailed string "notice option"
  | DResultTooLarge string int "notice option"
  | DResultSchema
  | DResultUnscrubbable
  | DInternal

datatype 'a step = Go 'a gw | Stop dispatch_error gw | Panicked gw

definition step_bind :: "'a step \<Rightarrow> ('a \<Rightarrow> gw \<Rightarrow> 'b step) \<Rightarrow> 'b step" where
  "step_bind m f = (case m of Go x g \<Rightarrow> f x g | Stop e g \<Rightarrow> Stop e g | Panicked g \<Rightarrow> Panicked g)"

section \<open>The audit rows\<close>

definition unnamed_tool :: string where "unnamed_tool = ''(unnamed)''"
definition unauthenticated_identity :: string where "unauthenticated_identity = ''(unauthenticated)''"
definition authentication_tool :: string where "authentication_tool = ''(authentication)''"
definition gateway_itself :: string where "gateway_itself = ''(gateway)''"
definition gateway_actor :: string where "gateway_actor = ''(gateway)''"
definition request_tool :: string where "request_tool = ''(request)''"
definition backend_health_tool :: string where "backend_health_tool = ''(backend health)''"

definition reason_unknown_tool :: string where "reason_unknown_tool = ''unknown tool''"
definition reason_forbidden :: string where "reason_forbidden = ''forbidden''"
definition reason_quarantined :: string where "reason_quarantined = ''quarantined''"
definition reason_sensitive_not_granted :: string where
  "reason_sensitive_not_granted = ''sensitive tool requires an explicit grant in a non-read role''"
definition reason_quarantine_unavailable :: string where "reason_quarantine_unavailable = ''quarantine unavailable''"
definition reason_registry_unavailable :: string where "reason_registry_unavailable = ''registry unavailable''"
definition reason_quota_exhausted :: string where "reason_quota_exhausted = ''quota exhausted''"
definition reason_quota_unavailable :: string where "reason_quota_unavailable = ''quota unavailable''"
definition reason_subject_blocked :: string where "reason_subject_blocked = ''subject blocked''"
definition reason_blocklist_unavailable :: string where "reason_blocklist_unavailable = ''blocklist unavailable''"
definition reason_internal_error :: string where "reason_internal_error = ''internal error''"
definition reason_concurrency_limited :: string where "reason_concurrency_limited = ''concurrency limited''"
definition reason_upstream_timeout :: string where "reason_upstream_timeout = ''upstream timed out''"
definition reason_call_cancelled :: string where "reason_call_cancelled = ''call cancelled''"
definition reason_upstream_failed :: string where "reason_upstream_failed = ''upstream call failed''"
definition reason_upstream_gone :: string where "reason_upstream_gone = ''upstream gone''"
definition reason_result_too_large :: string where "reason_result_too_large = ''result too large''"
definition reason_result_schema :: string where "reason_result_schema = ''result violates output schema''"
definition reason_backend_reconnecting :: string where "reason_backend_reconnecting = ''backend unavailable: reconnecting''"
definition reason_backend_down :: string where "reason_backend_down = ''backend unavailable: down''"
definition reason_backend_maintenance :: string where "reason_backend_maintenance = ''backend in maintenance''"

definition unavailable_reason :: "unavailable \<Rightarrow> string" where
  "unavailable_reason u =
     (if ua_state u = state_maintenance then reason_backend_maintenance
      else if ua_state u = state_down then reason_backend_down
      else reason_backend_reconnecting)"

definition audit_rec :: "libs \<Rightarrow> caller \<Rightarrow> string \<Rightarrow> string \<Rightarrow> gotime \<Rightarrow> string \<Rightarrow> string \<Rightarrow> arec" where
  "audit_rec L c tool upstream now outcome reason =
     \<lparr>a_identity = id_subject (c_identity c), a_tool = tool, a_upstream = upstream, a_ts = now, a_outcome = outcome,
      a_reason = reason, a_source = c_source c,
      a_name = display_name (lib_hides L) (id_subject (c_identity c)) (id_name (c_identity c))\<rparr>"

definition gw_record ::
  "libs \<Rightarrow> call_env \<Rightarrow> clock_read \<Rightarrow> caller \<Rightarrow> string \<Rightarrow> string \<Rightarrow> string \<Rightarrow> string \<Rightarrow> gw \<Rightarrow> bool \<times> gw" where
  "gw_record L e k c tool upstream outcome reason g =
     (case record_row (lib_digest L) (lib_audit_layout L) (lib_hides L) (ce_audit_fault e k)
             (audit_rec L c tool upstream (ce_clock e k) outcome reason) (gw_audit g) of
        (False, db) \<Rightarrow> (False, g\<lparr>gw_audit := db\<rparr>)
      | (True, db) \<Rightarrow>
          let g = g\<lparr>gw_audit := db\<rparr>
          in (True, if outcome = outcome_allowed then g\<lparr>gw_allowed := gw_allowed g + 1\<rparr>
                    else if outcome = outcome_denied then g\<lparr>gw_denied := gw_denied g + 1\<rparr>
                    else if outcome = outcome_failed then g\<lparr>gw_failed := gw_failed g + 1\<rparr>
                    else g))"

definition audit_refusal :: "libs \<Rightarrow> call_env \<Rightarrow> clock_read \<Rightarrow> caller \<Rightarrow> string \<Rightarrow> string \<Rightarrow> string \<Rightarrow> gw \<Rightarrow> gw" where
  "audit_refusal L e k c tool upstream reason g =
     snd (gw_record L e k c (if trim_space tool = [] then unnamed_tool else tool) upstream outcome_denied reason g)"

definition classify_failure :: "call_failure \<Rightarrow> string" where
  "classify_failure f =
     (if cf_deadline f then reason_upstream_timeout
      else if cf_cancelled f then reason_call_cancelled
      else if cf_too_large f then reason_result_too_large
      else if cf_schema f then reason_result_schema
      else if cf_gone f then reason_upstream_gone
      else if cf_internal f then reason_internal_error
      else reason_upstream_failed)"

definition no_failure :: call_failure where
  "no_failure = \<lparr>cf_gone = False, cf_deadline = False, cf_cancelled = False, cf_internal = False, cf_too_large = False,
     cf_schema = False\<rparr>"

definition audit_failure ::
  "libs \<Rightarrow> call_env \<Rightarrow> clock_read \<Rightarrow> caller \<Rightarrow> string \<Rightarrow> string \<Rightarrow> call_failure \<Rightarrow> gw \<Rightarrow> gw" where
  "audit_failure L e k c tool upstream cause g =
     snd (gw_record L e k c tool upstream outcome_failed (classify_failure cause) g)"

definition audit_gateway_row :: "libs \<Rightarrow> call_env \<Rightarrow> string \<Rightarrow> string \<Rightarrow> string \<Rightarrow> string \<Rightarrow> gw \<Rightarrow> gw" where
  "audit_gateway_row L e tool upstream outcome reason g =
     snd (gw_record L e ClockEvent
       \<lparr>c_identity = \<lparr>id_subject = gateway_actor, id_name = [], id_groups = []\<rparr>, c_source = []\<rparr> tool upstream outcome reason g)"

definition health_event_row :: "libs \<Rightarrow> health_event \<Rightarrow> string \<times> string \<times> string" where
  "health_event_row L ev =
     (case ev of
        WentLive b \<Rightarrow> (b, outcome_allowed, ''backend up: first observed'')
      | CameBack b since \<Rightarrow> (b, outcome_allowed, ''backend up: down since '' @ lib_health_layout L (utc since))
      | WentDown b cause \<Rightarrow> (b, outcome_denied, ''backend down: '' @ cause)
      | Removed b \<Rightarrow> (b, outcome_denied, ''backend removed: no longer servable per the registry''))"

definition write_health_event :: "libs \<Rightarrow> call_env \<Rightarrow> health_event \<Rightarrow> gw \<Rightarrow> gw" where
  "write_health_event L e ev g =
     (case health_event_row L ev of
        (backend, outcome, reason) \<Rightarrow> audit_gateway_row L e backend_health_tool backend outcome reason g)"

text \<open>The two shapes every refusal has: the row, then the answer. The audit store may panic instead.\<close>

definition refuse ::
  "libs \<Rightarrow> call_env \<Rightarrow> caller \<Rightarrow> string \<Rightarrow> string \<Rightarrow> string \<Rightarrow> dispatch_error \<Rightarrow> gw \<Rightarrow> 'a step" where
  "refuse L e c tool upstream reason err g =
     (if ce_panic e (PanicAudit ClockRefusal) then Panicked g
      else Stop err (audit_refusal L e ClockRefusal c tool upstream reason g))"

definition fail_call ::
  "libs \<Rightarrow> call_env \<Rightarrow> caller \<Rightarrow> string \<Rightarrow> string \<Rightarrow> call_failure \<Rightarrow> dispatch_error \<Rightarrow> gw \<Rightarrow> 'a step" where
  "fail_call L e c tool upstream cause err g =
     (if ce_panic e (PanicAudit ClockFailure) then Panicked g
      else Stop err (audit_failure L e ClockFailure c tool upstream cause g))"

section \<open>The kill switch\<close>

definition gw_read_block :: "call_env \<Rightarrow> string \<Rightarrow> gw \<Rightarrow> dispatch_error option step" where
  "gw_read_block e subject g =
     (if ce_ctx e CtxBlock then Go (Some DContext) g
      else if ce_panic e PanicBlock then Panicked g
      else case blocked (ce_block_fault e) (ce_clock e ClockBlock) subject (gw_blocks g) of
        Inl _ \<Rightarrow> Go (Some (if ce_ctx e CtxBlockRead then DContext else DBlocklistUnavailable)) g
      | Inr True \<Rightarrow> Go (Some DSubjectBlocked) g
      | Inr False \<Rightarrow> Go None g)"

definition gw_check_block :: "call_env \<Rightarrow> string \<Rightarrow> gw \<Rightarrow> dispatch_error option step" where
  "gw_check_block e subject g =
     (if ce_admitted e = Some subject then Go None g else gw_read_block e subject g)"

definition refuse_blocked ::
  "libs \<Rightarrow> call_env \<Rightarrow> caller \<Rightarrow> string \<Rightarrow> string \<Rightarrow> dispatch_error \<Rightarrow> gw \<Rightarrow> 'a step" where
  "refuse_blocked L e c tool target err g =
     (if err = DSubjectBlocked then refuse L e c tool target reason_subject_blocked err g
      else if ce_ctx e CtxRefuse then Stop err g
      else refuse L e c tool target reason_blocklist_unavailable err g)"

definition admit_caller :: "libs \<Rightarrow> call_env \<Rightarrow> caller \<Rightarrow> gw \<Rightarrow> string step" where
  "admit_caller L e c g =
     step_bind (gw_read_block e (id_subject (c_identity c)) g)
       (\<lambda>err g. case err of
          Some err \<Rightarrow> refuse_blocked L e c authentication_tool gateway_itself err g
        | None \<Rightarrow> Go (id_subject (c_identity c)) g)"

definition gate_block :: "libs \<Rightarrow> call_env \<Rightarrow> caller \<Rightarrow> string \<Rightarrow> gw \<Rightarrow> unit step" where
  "gate_block L e c tool g =
     step_bind (gw_check_block e (id_subject (c_identity c)) g)
       (\<lambda>err g. case err of
          Some err \<Rightarrow> refuse_blocked L e c tool (target_of tool) err g
        | None \<Rightarrow> Go () g)"

section \<open>The gates\<close>

definition gate_suspended :: "libs \<Rightarrow> call_env \<Rightarrow> caller \<Rightarrow> string \<Rightarrow> gw \<Rightarrow> unit step" where
  "gate_suspended L e c tool g =
     (if gw_suspended g then refuse L e c tool (target_of tool) reason_registry_unavailable DRegistryUnavailable g
      else Go () g)"

definition lookup_route :: "string \<Rightarrow> gw \<Rightarrow> (routed \<times> conn option) option" where
  "lookup_route name g =
     (case map_of (gw_routes g) name of
        None \<Rightarrow> None
      | Some rt \<Rightarrow> Some (rt, map_of (fl_conns (gw_fleet g)) (rt_upstream rt)))"

definition gate_route :: "libs \<Rightarrow> call_env \<Rightarrow> caller \<Rightarrow> string \<Rightarrow> gw \<Rightarrow> (routed \<times> conn option) step" where
  "gate_route L e c tool g =
     (case lookup_route tool g of
        None \<Rightarrow> refuse L e c tool (target_of tool) reason_unknown_tool DUnknownTool g
      | Some found \<Rightarrow> Go found g)"

definition gate_authorize :: "libs \<Rightarrow> call_env \<Rightarrow> caller \<Rightarrow> string \<Rightarrow> routed \<Rightarrow> gw \<Rightarrow> unit step" where
  "gate_authorize L e c tool rt g =
     (if authorize (gw_policy g) (c_identity c) tool then Go () g
      else refuse L e c tool (rt_upstream rt) reason_forbidden DForbidden g)"

datatype admit_refusal = AdmitQuarantined | AdmitSensitive | AdmitUnreadable

definition admit_route ::
  "qfault \<Rightarrow> policy \<Rightarrow> identity \<Rightarrow> string \<Rightarrow> routed \<Rightarrow> qstore \<Rightarrow> admit_refusal option" where
  "admit_route fault pol i name rt st =
     (case get_tool fault (rt_upstream rt) (rt_original rt) st of
        Inl err \<Rightarrow> Some (if err = ErrNotFound then AdmitQuarantined else AdmitUnreadable)
      | Inr t \<Rightarrow>
          (let sensitive = (t_class t \<noteq> class_safe \<or> td_class (rt_def rt) \<noteq> class_safe)
           in if \<not> usable t \<and> \<not> (sensitive \<and> approved_as_advertised t) then Some AdmitQuarantined
              else if sensitive \<and> \<not> authorize_nonread pol i name then Some AdmitSensitive
              else if \<not> usable t then Some AdmitQuarantined
              else None))"

definition gate_admit :: "libs \<Rightarrow> call_env \<Rightarrow> caller \<Rightarrow> string \<Rightarrow> routed \<Rightarrow> gw \<Rightarrow> unit step" where
  "gate_admit L e c tool rt g =
     (if ce_panic e PanicQuarantine then Panicked g
      else case admit_route (ce_quarantine_fault e) (gw_policy g) (c_identity c) tool rt (gw_quarantine g) of
        None \<Rightarrow> Go () g
      | Some AdmitSensitive \<Rightarrow> refuse L e c tool (rt_upstream rt) reason_sensitive_not_granted DSensitiveNotGranted g
      | Some AdmitQuarantined \<Rightarrow> refuse L e c tool (rt_upstream rt) reason_quarantined DUnknownTool g
      | Some AdmitUnreadable \<Rightarrow> refuse L e c tool (rt_upstream rt) reason_quarantine_unavailable DQuarantineUnavailable g)"

definition gate_available ::
  "libs \<Rightarrow> call_env \<Rightarrow> caller \<Rightarrow> string \<Rightarrow> routed \<Rightarrow> conn option \<Rightarrow> gw \<Rightarrow> notice option step" where
  "gate_available L e c tool rt up g =
     (if ce_panic e PanicMaintenance then Panicked g
      else let maint = fst (read_maintenance (ce_maintenance e));
               now = ce_clock e ClockAvailability
           in case availability (rt_upstream rt) up maint now (gw_fleet g) of
                Some ue \<Rightarrow> refuse L e c tool (rt_upstream rt) (unavailable_reason ue) (DUnavailable ue) g
              | None \<Rightarrow> Go (gateway_notice maint now) g)"

definition pass_gates ::
  "libs \<Rightarrow> call_env \<Rightarrow> caller \<Rightarrow> string \<Rightarrow> gw \<Rightarrow> (routed \<times> conn option \<times> notice option) step" where
  "pass_gates L e c tool g =
     step_bind (gate_block L e c tool g) (\<lambda>_ g.
     step_bind (gate_suspended L e c tool g) (\<lambda>_ g.
     step_bind (gate_route L e c tool g) (\<lambda>(rt, up) g.
     step_bind (gate_authorize L e c tool rt g) (\<lambda>_ g.
     step_bind (gate_admit L e c tool rt g) (\<lambda>_ g.
     step_bind (gate_available L e c tool rt up g) (\<lambda>gw_notice g.
     Go (rt, up, gw_notice) g))))))"

section \<open>Slots\<close>

definition in_use :: "(string \<times> int) list \<Rightarrow> string \<Rightarrow> int" where
  "in_use m subject = (case map_of m subject of None \<Rightarrow> 0 | Some n \<Rightarrow> n)"

definition acquire :: "int \<Rightarrow> string \<Rightarrow> (string \<times> int) list \<Rightarrow> (string \<times> int) list option" where
  "acquire cap subject m =
     (if cap \<le> in_use m subject then None else Some (AList.update subject (in_use m subject + 1) m))"

definition release :: "string \<Rightarrow> (string \<times> int) list \<Rightarrow> (string \<times> int) list" where
  "release subject m =
     (if in_use m subject - 1 \<le> 0 then AList.delete subject m
      else AList.update subject (in_use m subject - 1) m)"

section \<open>The call\<close>

definition charge_call :: "libs \<Rightarrow> call_env \<Rightarrow> caller \<Rightarrow> string \<Rightarrow> routed \<Rightarrow> notice option \<Rightarrow> gw \<Rightarrow> unit step" where
  "charge_call L e c tool rt gw_notice g =
     (if ce_panic e PanicQuota then Panicked g
      else case admit (gw_plan g) (reserve (lib_quota_layout L) (ce_quota_fault e)) (id_subject (c_identity c)) tool
                  (ce_clock e ClockQuota) (gw_counters g) of
        (Some (AdmitExhausted ex), db) \<Rightarrow>
          refuse L e c tool (rt_upstream rt) reason_quota_exhausted (DQuotaExhausted ex gw_notice) (g\<lparr>gw_counters := db\<rparr>)
      | (Some AdmitUnavailable, db) \<Rightarrow>
          refuse L e c tool (rt_upstream rt) reason_quota_unavailable DQuotaUnavailable (g\<lparr>gw_counters := db\<rparr>)
      | (None, db) \<Rightarrow> Go () (g\<lparr>gw_counters := db\<rparr>))"

definition record_allowed :: "libs \<Rightarrow> call_env \<Rightarrow> caller \<Rightarrow> string \<Rightarrow> routed \<Rightarrow> gw \<Rightarrow> unit step" where
  "record_allowed L e c tool rt g =
     (if ce_panic e (PanicAudit ClockAllowed) then Panicked g
      else case gw_record L e ClockAllowed c tool (rt_upstream rt) outcome_allowed [] g of
        (False, g') \<Rightarrow> Stop DUnauditable g'
      | (True, g') \<Rightarrow> Go () g')"

definition result_size :: "call_result \<Rightarrow> int" where
  "result_size res = int (length (cr_content res)) + int (length (cr_structured res))"

definition structured_ok :: "(string \<Rightarrow> bool) option \<Rightarrow> call_result \<Rightarrow> bool" where
  "structured_ok schema res =
     (case schema of
        None \<Rightarrow> True
      | Some accepts \<Rightarrow>
          if cr_is_error res then True
          else if cr_structured res = [] then False
          else accepts (cr_structured res))"

datatype result_problem = TooLarge | SchemaViolation

definition check_result :: "int \<Rightarrow> routed \<Rightarrow> call_result \<Rightarrow> result_problem option" where
  "check_result max_bytes rt res =
     (if max_bytes < result_size res then Some TooLarge
      else if \<not> structured_ok (rt_output rt) res then Some SchemaViolation
      else None)"

definition gone_error :: "call_env \<Rightarrow> routed \<Rightarrow> notice option \<Rightarrow> gw \<Rightarrow> dispatch_error" where
  "gone_error e rt gw_notice g =
     DGone \<lparr>ua_backend = rt_upstream rt, ua_state = state_reconnecting, ua_since = ce_clock e ClockAvailability,
            ua_last_attempt = zero_time, ua_next_attempt = next_attempt (gw_fleet g), ua_maintenance = None,
            ua_gateway = gw_notice\<rparr>"

definition call_error :: "call_env \<Rightarrow> routed \<Rightarrow> notice option \<Rightarrow> call_failure \<Rightarrow> gw \<Rightarrow> dispatch_error" where
  "call_error e rt gw_notice f g =
     (if cf_gone f then gone_error e rt gw_notice g
      else if cf_deadline f \<and> \<not> ce_ctx e CtxCall then DCallTimeout (rt_upstream rt) gw_notice
      else if cf_cancelled f \<or> cf_deadline f \<or> cf_internal f then DCallEnded
      else DBackendFailed (rt_upstream rt) gw_notice)"

definition note_gone :: "libs \<Rightarrow> call_env \<Rightarrow> routed \<Rightarrow> conn \<Rightarrow> call_failure \<Rightarrow> gw \<Rightarrow> unit step" where
  "note_gone L e rt up f g =
     (if \<not> cf_gone f then Go () g
      else case mark_gone (rt_upstream rt) (Some up) (ce_clock e ClockGone) (gw_fleet g) of
        (None, fl) \<Rightarrow> Go () (g\<lparr>gw_fleet := fl\<rparr>)
      | (Some ev, fl) \<Rightarrow>
          if ce_panic e (PanicAudit ClockEvent) then Panicked (g\<lparr>gw_fleet := fl\<rparr>)
          else Go () (write_health_event L e ev (g\<lparr>gw_fleet := fl\<rparr>)))"

definition finish_result ::
  "libs \<Rightarrow> call_env \<Rightarrow> caller \<Rightarrow> string \<Rightarrow> routed \<Rightarrow> notice option \<Rightarrow> call_result \<Rightarrow> gw \<Rightarrow> (call_result \<times> notice option) step" where
  "finish_result L e c tool rt gw_notice res g =
     (if ce_panic e PanicCheck then Panicked g
      else case check_result (gw_max_result g) rt res of
        Some TooLarge \<Rightarrow>
          fail_call L e c tool (rt_upstream rt) (no_failure\<lparr>cf_too_large := True\<rparr>)
            (DResultTooLarge tool (gw_max_result g) gw_notice) g
      | Some SchemaViolation \<Rightarrow>
          fail_call L e c tool (rt_upstream rt) (no_failure\<lparr>cf_schema := True\<rparr>) DResultSchema g
      | None \<Rightarrow>
          if ce_panic e PanicScrub then Panicked g
          else case scrub_result (lib_codec L) (ce_resolve e)
                      (case map_of (gw_creds g) (rt_upstream rt) of None \<Rightarrow> [] | Some ns \<Rightarrow> ns) res of
            Inl _ \<Rightarrow> fail_call L e c tool (rt_upstream rt) no_failure DResultUnscrubbable g
          | Inr scrubbed \<Rightarrow> Go (scrubbed, gw_notice) g)"

definition deliver ::
  "libs \<Rightarrow> call_env \<Rightarrow> caller \<Rightarrow> string \<Rightarrow> string \<Rightarrow> routed \<Rightarrow> conn option \<Rightarrow> notice option \<Rightarrow> gw
     \<Rightarrow> (call_result \<times> notice option) step" where
  "deliver L e c tool args rt up gw_notice g =
     (case up of
        None \<Rightarrow> Panicked g
      | Some up \<Rightarrow>
          (let g = g\<lparr>gw_sent := gw_sent g @ [(up, rt_original rt, args)]\<rparr>
           in if ce_panic e PanicCall then Panicked g
              else case ce_reply e up (rt_original rt) args of
                Inl f \<Rightarrow>
                  step_bind (note_gone L e rt up f g)
                    (\<lambda>_ g. fail_call L e c tool (rt_upstream rt) f (call_error e rt gw_notice f g) g)
              | Inr res \<Rightarrow> finish_result L e c tool rt gw_notice res g))"

section \<open>Dispatch\<close>

definition blank_caller :: "caller \<Rightarrow> caller" where
  "blank_caller c =
     (if trim_space (id_subject (c_identity c)) = []
      then c\<lparr>c_identity := (c_identity c)\<lparr>id_subject := unauthenticated_identity, id_name := []\<rparr>\<rparr>
      else c)"

definition record_panic :: "libs \<Rightarrow> call_env \<Rightarrow> caller \<Rightarrow> string \<Rightarrow> string \<Rightarrow> bool \<Rightarrow> gw \<Rightarrow> gw" where
  "record_panic L e c tool upstream dispatched g =
     (if ce_panic e (PanicAudit ClockPanic) then g
      else if \<not> dispatched then audit_refusal L e ClockPanic (blank_caller c) tool upstream reason_internal_error g
      else audit_failure L e ClockPanic (blank_caller c) tool upstream (no_failure\<lparr>cf_internal := True\<rparr>) g)"

definition contain_panic ::
  "libs \<Rightarrow> call_env \<Rightarrow> caller \<Rightarrow> string \<Rightarrow> bool \<Rightarrow> gw \<Rightarrow> (dispatch_error + 'a) \<times> gw" where
  "contain_panic L e c tool dispatched g =
     (Inl DInternal, record_panic L e c tool (target_of tool) dispatched g)"

text \<open>The end of a call: the deferred functions run on every path, the slot's before the panic barrier's.\<close>

definition conclude ::
  "libs \<Rightarrow> call_env \<Rightarrow> caller \<Rightarrow> string \<Rightarrow> bool \<Rightarrow> (gw \<Rightarrow> gw) \<Rightarrow> 'a step \<Rightarrow> (dispatch_error + 'a) \<times> gw" where
  "conclude L e c tool dispatched deferred s =
     (case s of
        Go x g \<Rightarrow> (Inr x, deferred g)
      | Stop err g \<Rightarrow> (Inl err, deferred g)
      | Panicked g \<Rightarrow> contain_panic L e c tool dispatched (deferred g))"

definition free_slot :: "caller \<Rightarrow> gw \<Rightarrow> gw" where
  "free_slot c g = g\<lparr>gw_in_use := release (id_subject (c_identity c)) (gw_in_use g)\<rparr>"

definition dispatch ::
  "libs \<Rightarrow> call_env \<Rightarrow> caller \<Rightarrow> string \<Rightarrow> string \<Rightarrow> gw \<Rightarrow> (dispatch_error + (call_result \<times> notice option)) \<times> gw" where
  "dispatch L e c tool args g =
     (case pass_gates L e c tool g of
        Stop err g \<Rightarrow> (Inl err, g)
      | Panicked g \<Rightarrow> contain_panic L e c tool False g
      | Go (rt, up, gw_notice) g \<Rightarrow>
          (case acquire (gw_max_calls g) (id_subject (c_identity c)) (gw_in_use g) of
             None \<Rightarrow>
               conclude L e c tool False id
                 (refuse L e c tool (rt_upstream rt) reason_concurrency_limited
                    (DConcurrencyLimited (gw_max_calls g) gw_notice) g)
           | Some slots \<Rightarrow>
               (case step_bind (charge_call L e c tool rt gw_notice (g\<lparr>gw_in_use := slots\<rparr>))
                       (\<lambda>_. record_allowed L e c tool rt) of
                  Stop err g \<Rightarrow> (Inl err, free_slot c g)
                | Panicked g \<Rightarrow> contain_panic L e c tool False (free_slot c g)
                | Go _ g \<Rightarrow> conclude L e c tool True (free_slot c) (deliver L e c tool args rt up gw_notice g))))"

section \<open>The listing\<close>

fun list_names ::
  "call_env \<Rightarrow> identity \<Rightarrow> string list \<Rightarrow> gw \<Rightarrow> dispatch_error + tool_def list" where
  "list_names e i [] g = Inr []"
| "list_names e i (name # names) g =
     (let rt = the (map_of (gw_routes g) name)
      in if \<not> authorize (gw_policy g) i name then list_names e i names g
         else case admit_route (ce_quarantine_fault e) (gw_policy g) i name rt (gw_quarantine g) of
           None \<Rightarrow>
             (case list_names e i names g of
                Inl err \<Rightarrow> Inl err
              | Inr defs \<Rightarrow>
                  Inr (\<lparr>td_name = name, td_description = td_description (rt_def rt), td_input = td_input (rt_def rt),
                        td_output = [], td_class = []\<rparr> # defs))
         | Some AdmitUnreadable \<Rightarrow> Inl DQuarantineUnavailable
         | Some _ \<Rightarrow> list_names e i names g)"

definition gw_list_tools :: "call_env \<Rightarrow> identity \<Rightarrow> gw \<Rightarrow> (dispatch_error + tool_def list) step" where
  "gw_list_tools e i g =
     step_bind (gw_check_block e (id_subject i) g)
       (\<lambda>err g. case err of
          Some err \<Rightarrow> Go (Inl err) g
        | None \<Rightarrow>
            if gw_suspended g then Go (Inl DRegistryUnavailable) g
            else Go (list_names e i (sort (remdups (map fst (gw_routes g)))) g) g)"

end
