(* ===== verification/Dispatch_Steps.thy ===== *)
theory Dispatch_Steps
  imports Dispatch
begin

text \<open>
  The steps of the request path. The facts are organised by what a step can do to the state: writing an audit row changes the trail and its
  counters and nothing else (\<open>quiet\<close>), a gate that lets a call through changes nothing, a refusal is one denied row, and the steps after the gates
  add to that in a fixed order.
\<close>

section \<open>Rows\<close>

abbreviation trail_of :: "gw \<Rightarrow> string list list" where
  "trail_of g \<equiv> audit_trail (gw_audit g)"

definition quiet :: "gw \<Rightarrow> gw \<Rightarrow> bool" where
  "quiet g g' =
     (g' = g\<lparr>gw_audit := gw_audit g', gw_allowed := gw_allowed g', gw_denied := gw_denied g', gw_failed := gw_failed g'\<rparr>)"

lemma quiet_refl [simp]: "quiet g g"
  by (simp add: quiet_def)

lemma quiet_fields:
  assumes "quiet g g'"
  shows "gw_routes g' = gw_routes g" "gw_fleet g' = gw_fleet g" "gw_policy g' = gw_policy g" "gw_plan g' = gw_plan g"
    "gw_in_use g' = gw_in_use g" "gw_max_calls g' = gw_max_calls g" "gw_quarantine g' = gw_quarantine g"
    "gw_counters g' = gw_counters g" "gw_blocks g' = gw_blocks g" "gw_sent g' = gw_sent g" "gw_creds g' = gw_creds g"
    "gw_max_result g' = gw_max_result g" "gw_suspended g' = gw_suspended g"
  by (subst assms [unfolded quiet_def], simp)+

definition row_written ::
  "libs \<Rightarrow> call_env \<Rightarrow> clock_read \<Rightarrow> caller \<Rightarrow> string \<Rightarrow> string \<Rightarrow> string \<Rightarrow> string \<Rightarrow> string list" where
  "row_written L e k c tool upstream outcome reason =
     stored_as (lib_audit_layout L) (audit_rec L c tool upstream (ce_clock e k) outcome reason)"

lemma gw_record_spec:
  assumes "gw_record L e k c tool upstream outcome reason g = (ok, g')"
  shows "quiet g g'"
    and "trail_of g' = trail_of g @ (if ok then [row_written L e k c tool upstream outcome reason] else [])"
proof -
  obtain ok' db where r: "record_row (lib_digest L) (lib_audit_layout L) (lib_hides L) (ce_audit_fault e k)
      (audit_rec L c tool upstream (ce_clock e k) outcome reason) (gw_audit g) = (ok', db)" by fastforce
  have t: "audit_trail db = trail_of g @ (if ok' then [row_written L e k c tool upstream outcome reason] else [])"
    using trail.write_trail [of "lib_digest L" "lib_audit_layout L" "lib_hides L" "ce_audit_fault e k"
        "audit_rec L c tool upstream (ce_clock e k) outcome reason" "gw_audit g"] r
    by (simp add: row_written_def)
  from assms r have "ok = ok'" "gw_audit g' = db"
    by (auto simp: gw_record_def Let_def split: bool.splits if_splits)
  with t show "trail_of g' = trail_of g @ (if ok then [row_written L e k c tool upstream outcome reason] else [])" by simp
  from assms r show "quiet g g'" by (auto simp: gw_record_def quiet_def Let_def split: bool.splits if_splits)
qed

text \<open>A row is accepted when the database works, the clock runs and the caller and the tool have names.\<close>

definition auditable :: "libs \<Rightarrow> call_env \<Rightarrow> clock_read \<Rightarrow> bool" where
  "auditable L e k =
     ((\<forall>st. \<not> ce_audit_fault e k st) \<and> \<not> is_zero (ce_clock e k) \<and> \<not> ce_panic e (PanicAudit k) \<and> \<not> lib_hides L 0x2026)"

lemma gw_record_ok:
  assumes "auditable L e k" "id_subject (c_identity c) \<noteq> []" "tool \<noteq> []" "upstream \<noteq> []" "outcome_valid outcome"
  shows "fst (gw_record L e k c tool upstream outcome reason g)"
proof -
  have "arec_validate (lib_hides L) (audit_rec L c tool upstream (ce_clock e k) outcome reason) = []"
    using assms display_name_shown [of "lib_hides L" "id_subject (c_identity c)" "id_name (c_identity c)"]
    by (simp add: arec_validate_def audit_rec_def auditable_def)
  with assms(1) have "fst (record_row (lib_digest L) (lib_audit_layout L) (lib_hides L) (ce_audit_fault e k)
      (audit_rec L c tool upstream (ce_clock e k) outcome reason) (gw_audit g))"
    by (intro trail.accepts) (simp_all add: auditable_def)
  then show ?thesis by (auto simp: gw_record_def Let_def split: prod.splits bool.splits)
qed

lemma outcome_valid_consts [simp]: "outcome_valid outcome_allowed" "outcome_valid outcome_denied" "outcome_valid outcome_failed"
  by (simp_all add: outcome_valid_def)

definition named_tool :: "string \<Rightarrow> string" where
  "named_tool tool = (if trim_space tool = [] then unnamed_tool else tool)"

lemma named_tool_not_Nil: "named_tool tool \<noteq> []"
  by (auto simp: named_tool_def unnamed_tool_def)

lemma audit_refusal_spec:
  "quiet g (audit_refusal L e k c tool upstream reason g)
   \<and> (\<exists>rows. trail_of (audit_refusal L e k c tool upstream reason g) = trail_of g @ rows
       \<and> (rows = [] \<or> rows = [row_written L e k c (named_tool tool) upstream outcome_denied reason])
       \<and> (auditable L e k \<and> id_subject (c_identity c) \<noteq> [] \<and> upstream \<noteq> [] \<longrightarrow> rows \<noteq> []))"
proof -
  obtain ok g' where r: "gw_record L e k c (named_tool tool) upstream outcome_denied reason g = (ok, g')" by fastforce
  have "audit_refusal L e k c tool upstream reason g = g'" using r by (simp add: audit_refusal_def named_tool_def)
  moreover have "ok" if "auditable L e k" "id_subject (c_identity c) \<noteq> []" "upstream \<noteq> []"
    using gw_record_ok [OF that(1,2) named_tool_not_Nil that(3), of outcome_denied tool reason g] r by simp
  ultimately show ?thesis using gw_record_spec [OF r] by (cases ok) auto
qed

lemma audit_failure_spec:
  "quiet g (audit_failure L e k c tool upstream f g)
   \<and> (\<exists>rows. trail_of (audit_failure L e k c tool upstream f g) = trail_of g @ rows)"
  using gw_record_spec [of L e k c tool upstream outcome_failed "classify_failure f" g]
  by (cases "gw_record L e k c tool upstream outcome_failed (classify_failure f) g") (auto simp: audit_failure_def)

section \<open>Steps\<close>

lemma step_bind_simps [simp]:
  "step_bind (Go x g) f = f x g" "step_bind (Stop err g) f = Stop err g" "step_bind (Panicked g) f = Panicked g"
  by (simp_all add: step_bind_def)

lemma step_bind_eq:
  "step_bind m f = Go y g' \<longleftrightarrow> (\<exists>x g. m = Go x g \<and> f x g = Go y g')"
  "step_bind m f = Stop err g' \<longleftrightarrow> m = Stop err g' \<or> (\<exists>x g. m = Go x g \<and> f x g = Stop err g')"
  "step_bind m f = Panicked g' \<longleftrightarrow> m = Panicked g' \<or> (\<exists>x g. m = Go x g \<and> f x g = Panicked g')"
  by (cases m; auto)+

text \<open>
  A gate either changes nothing or refuses with one denied row; a refusal never goes on. The reasons the trail may show for an answer: the caller of
  a quarantined tool is told it is unknown, and only the trail says which it was.
\<close>

fun reasons_of :: "dispatch_error \<Rightarrow> string list" where
  "reasons_of DSubjectBlocked = [reason_subject_blocked]"
| "reasons_of DContext = [reason_blocklist_unavailable]"
| "reasons_of DBlocklistUnavailable = [reason_blocklist_unavailable]"
| "reasons_of DRegistryUnavailable = [reason_registry_unavailable]"
| "reasons_of DUnknownTool = [reason_unknown_tool, reason_quarantined]"
| "reasons_of DForbidden = [reason_forbidden]"
| "reasons_of DSensitiveNotGranted = [reason_sensitive_not_granted]"
| "reasons_of DQuarantineUnavailable = [reason_quarantine_unavailable]"
| "reasons_of (DUnavailable u) = [unavailable_reason u]"
| "reasons_of (DConcurrencyLimited n notice) = [reason_concurrency_limited]"
| "reasons_of (DQuotaExhausted ex notice) = [reason_quota_exhausted]"
| "reasons_of DQuotaUnavailable = [reason_quota_unavailable]"
| "reasons_of _ = []"

definition refusal_row :: "libs \<Rightarrow> call_env \<Rightarrow> caller \<Rightarrow> string \<Rightarrow> dispatch_error \<Rightarrow> string list \<Rightarrow> bool" where
  "refusal_row L e c tool err r =
     (\<exists>upstream reason. reason \<in> set (reasons_of err)
        \<and> r = row_written L e ClockRefusal c (named_tool tool) upstream outcome_denied reason)"

definition refused_once :: "libs \<Rightarrow> call_env \<Rightarrow> caller \<Rightarrow> string \<Rightarrow> dispatch_error \<Rightarrow> gw \<Rightarrow> gw \<Rightarrow> bool" where
  "refused_once L e c tool err g g' =
     (quiet g g' \<and> (\<exists>rows. trail_of g' = trail_of g @ rows
       \<and> (rows = [] \<or> (\<exists>r. rows = [r] \<and> refusal_row L e c tool err r))
       \<and> (auditable L e ClockRefusal \<and> id_subject (c_identity c) \<noteq> [] \<and> \<not> ce_ctx e CtxRefuse \<longrightarrow> rows \<noteq> [])))"

lemma refuse_simps [simp]: "refuse L e c tool upstream reason err g \<noteq> Go x g'"
  by (simp add: refuse_def)

lemma refusal_refused_once:
  "upstream \<noteq> [] \<Longrightarrow> reason \<in> set (reasons_of err) \<Longrightarrow>
     refused_once L e c tool err g (audit_refusal L e ClockRefusal c tool upstream reason g)"
  using audit_refusal_spec [of g L e ClockRefusal c tool upstream reason]
  unfolding refused_once_def refusal_row_def by blast

lemma refuse_Stop:
  assumes "refuse L e c tool upstream reason err g = Stop err' g'" "upstream \<noteq> []" "reason \<in> set (reasons_of err)"
  shows "err' = err \<and> refused_once L e c tool err g g'"
  using assms by (auto simp: refuse_def refusal_refused_once split: if_splits)

lemma refuse_Panicked:
  "refuse L e c tool upstream reason err g = Panicked g' \<longleftrightarrow> ce_panic e (PanicAudit ClockRefusal) \<and> g' = g"
  by (auto simp: refuse_def)

definition routes_named :: "gw \<Rightarrow> bool" where
  "routes_named g = (\<forall>name rt. map_of (gw_routes g) name = Some rt \<longrightarrow> rt_upstream rt \<noteq> [])"

text \<open>Whether the kill switch lets the caller through.\<close>

definition unblocked :: "call_env \<Rightarrow> caller \<Rightarrow> gw \<Rightarrow> bool" where
  "unblocked e c g =
     (ce_admitted e = Some (id_subject (c_identity c))
      \<or> \<not> ce_ctx e CtxBlock
         \<and> blocked (ce_block_fault e) (ce_clock e ClockBlock) (id_subject (c_identity c)) (gw_blocks g) = Inr False)"

lemma check_block_cases:
  "gw_check_block e (id_subject (c_identity c)) g = Go None g \<and> unblocked e c g
   \<or> gw_check_block e (id_subject (c_identity c)) g = Panicked g
   \<or> \<not> unblocked e c g \<and> (\<exists>err. gw_check_block e (id_subject (c_identity c)) g = Go (Some err) g
        \<and> err \<in> {DContext, DSubjectBlocked, DBlocklistUnavailable})"
  by (auto simp: gw_check_block_def gw_read_block_def unblocked_def split: sum.splits bool.splits)

lemma refuse_blocked_Stop:
  assumes "refuse_blocked L e c tool target err g = Stop err' g'" "target \<noteq> []"
    "err \<in> {DContext, DSubjectBlocked, DBlocklistUnavailable}"
  shows "err' = err \<and> refused_once L e c tool err g g'"
  using assms by (auto simp: refuse_blocked_def refused_once_def split: if_splits dest: refuse_Stop)

lemma refuse_blocked_not_Go [simp]: "refuse_blocked L e c tool target err g \<noteq> Go x g'"
  by (simp add: refuse_blocked_def)

lemma refuse_blocked_Panicked: "refuse_blocked L e c tool target err g = Panicked g' \<Longrightarrow> g' = g"
  by (auto simp: refuse_blocked_def refuse_Panicked split: if_splits)

lemma gate_block_Go: "gate_block L e c tool g = Go x g' \<longleftrightarrow> g' = g \<and> gw_check_block e (id_subject (c_identity c)) g = Go None g"
  using check_block_cases [of e c g] by (auto simp: gate_block_def)

lemma gate_Go_simps:
  "gate_suspended L e c tool g = Go x g' \<longleftrightarrow> \<not> gw_suspended g \<and> g' = g"
  "gate_route L e c tool g = Go found g' \<longleftrightarrow> lookup_route tool g = Some found \<and> g' = g"
  "gate_authorize L e c tool rt g = Go x g' \<longleftrightarrow> authorize (gw_policy g) (c_identity c) tool \<and> g' = g"
  "gate_admit L e c tool rt g = Go x g' \<longleftrightarrow> \<not> ce_panic e PanicQuarantine
     \<and> admit_route (ce_quarantine_fault e) (gw_policy g) (c_identity c) tool rt (gw_quarantine g) = None \<and> g' = g"
  "gate_available L e c tool rt up g = Go n g' \<longleftrightarrow> \<not> ce_panic e PanicMaintenance
     \<and> availability (rt_upstream rt) up (fst (read_maintenance (ce_maintenance e))) (ce_clock e ClockAvailability) (gw_fleet g) = None
     \<and> n = gateway_notice (fst (read_maintenance (ce_maintenance e))) (ce_clock e ClockAvailability) \<and> g' = g"
  by (auto simp: gate_suspended_def gate_route_def gate_authorize_def gate_admit_def gate_available_def Let_def
      split: option.splits admit_refusal.splits)

text \<open>The gates of a call, as one predicate on the state they read.\<close>

definition gates_open :: "call_env \<Rightarrow> caller \<Rightarrow> string \<Rightarrow> routed \<Rightarrow> conn option \<Rightarrow> gw \<Rightarrow> bool" where
  "gates_open e c tool rt up g =
     (unblocked e c g \<and> \<not> gw_suspended g \<and> lookup_route tool g = Some (rt, up)
      \<and> authorize (gw_policy g) (c_identity c) tool
      \<and> admit_route (ce_quarantine_fault e) (gw_policy g) (c_identity c) tool rt (gw_quarantine g) = None
      \<and> availability (rt_upstream rt) up (fst (read_maintenance (ce_maintenance e))) (ce_clock e ClockAvailability) (gw_fleet g) = None)"

lemma pass_gates_Go:
  assumes "pass_gates L e c tool g = Go (rt, up, n) g'"
  shows "g' = g \<and> gates_open e c tool rt up g"
proof -
  have "unblocked e c g" if "gw_check_block e (id_subject (c_identity c)) g = Go None g"
    using that check_block_cases [of e c g] by auto
  with assms show ?thesis
    by (auto simp: pass_gates_def step_bind_eq gate_block_Go gate_Go_simps gates_open_def)
qed

lemma gate_Panicked:
  "gate_block L e c tool g = Panicked g' \<Longrightarrow> g' = g"
  "gate_suspended L e c tool g = Panicked g' \<Longrightarrow> g' = g"
  "gate_route L e c tool g = Panicked g' \<Longrightarrow> g' = g"
  "gate_authorize L e c tool rt g = Panicked g' \<Longrightarrow> g' = g"
  "gate_admit L e c tool rt g = Panicked g' \<Longrightarrow> g' = g"
  "gate_available L e c tool rt up g = Panicked g' \<Longrightarrow> g' = g"
  using check_block_cases [of e c g]
  by (auto simp: gate_block_def gate_suspended_def gate_route_def gate_authorize_def gate_admit_def gate_available_def Let_def
      refuse_Panicked step_bind_eq split: option.splits admit_refusal.splits if_splits dest: refuse_blocked_Panicked)

lemma pass_gates_Panicked: "pass_gates L e c tool g = Panicked g' \<Longrightarrow> g' = g"
  by (auto simp: pass_gates_def step_bind_eq gate_block_Go gate_Go_simps dest: gate_Panicked)

section \<open>After the gates\<close>

text \<open>What the end of a call may change beside the calls that were sent: the trail, the row counters and what is known of the fleet.\<close>

definition settles :: "gw \<Rightarrow> gw \<Rightarrow> bool" where
  "settles g g' =
     (g' = g\<lparr>gw_audit := gw_audit g', gw_allowed := gw_allowed g', gw_denied := gw_denied g', gw_failed := gw_failed g',
             gw_fleet := gw_fleet g'\<rparr>
      \<and> (\<exists>rows. trail_of g' = trail_of g @ rows))"

lemma settles_refl [simp]: "settles g g"
  by (simp add: settles_def)

lemma settles_fields:
  assumes "settles g g'"
  shows "gw_routes g' = gw_routes g" "gw_policy g' = gw_policy g" "gw_plan g' = gw_plan g"
    "gw_in_use g' = gw_in_use g" "gw_max_calls g' = gw_max_calls g" "gw_quarantine g' = gw_quarantine g"
    "gw_counters g' = gw_counters g" "gw_blocks g' = gw_blocks g" "gw_sent g' = gw_sent g"
  by (subst conjunct1 [OF assms [unfolded settles_def]], simp)+

lemma settles_trail: "settles g g' \<Longrightarrow> \<exists>rows. trail_of g' = trail_of g @ rows"
  by (simp add: settles_def)

lemma settles_trans:
  assumes 1: "settles g g1" and 2: "settles g1 g2"
  shows "settles g g2"
proof -
  have "g2 = g1\<lparr>gw_audit := gw_audit g2, gw_allowed := gw_allowed g2, gw_denied := gw_denied g2, gw_failed := gw_failed g2,
      gw_fleet := gw_fleet g2\<rparr>" using 2 by (simp add: settles_def)
  also have "\<dots> = g\<lparr>gw_audit := gw_audit g2, gw_allowed := gw_allowed g2, gw_denied := gw_denied g2, gw_failed := gw_failed g2,
      gw_fleet := gw_fleet g2\<rparr>" by (subst conjunct1 [OF 1 [unfolded settles_def]]) simp
  finally show ?thesis using settles_trail [OF 1] settles_trail [OF 2] by (auto simp: settles_def)
qed

lemma quiet_settles:
  assumes "quiet g g'" "trail_of g' = trail_of g @ rows"
  shows "settles g g'"
proof -
  have "g' = g\<lparr>gw_audit := gw_audit g', gw_allowed := gw_allowed g', gw_denied := gw_denied g', gw_failed := gw_failed g',
      gw_fleet := gw_fleet g'\<rparr>"
    using assms(1) quiet_fields(2) [OF assms(1)] by (simp add: quiet_def)
  with assms(2) show ?thesis by (auto simp: settles_def)
qed

lemma gw_record_settles: "settles g (snd (gw_record L e k c tool upstream outcome reason g))"
  by (cases "gw_record L e k c tool upstream outcome reason g") (auto dest: gw_record_spec intro: quiet_settles)

lemma audit_settles:
  "settles g (audit_refusal L e k c tool upstream reason g)"
  "settles g (audit_failure L e k c tool upstream f g)"
  "settles g (record_panic L e c tool upstream d g)"
  "settles g (write_health_event L e ev g)"
  by (auto simp: audit_refusal_def audit_failure_def record_panic_def write_health_event_def audit_gateway_row_def gw_record_settles
      split: prod.splits)

lemma settles_fleet: "settles g (g\<lparr>gw_fleet := fl\<rparr>)"
  by (simp add: settles_def)

primrec step_state :: "'a step \<Rightarrow> gw" where
  "step_state (Go x g) = g"
| "step_state (Stop err g) = g"
| "step_state (Panicked g) = g"

lemma refuse_settles: "settles g (step_state (refuse L e c tool upstream reason err g))"
  by (simp add: refuse_def audit_settles)

lemma fail_call_settles: "settles g (step_state (fail_call L e c tool upstream f err g))"
  by (simp add: fail_call_def audit_settles)

lemma note_gone_settles: "settles g (step_state (note_gone L e rt up f g))"
  by (auto simp: note_gone_def settles_fleet split: prod.splits option.splits
      intro: settles_trans [OF settles_fleet audit_settles(4)])

lemma step_bind_settles:
  assumes "settles g (step_state m)" "\<And>x g'. m = Go x g' \<Longrightarrow> settles g' (step_state (f x g'))"
  shows "settles g (step_state (step_bind m f))"
  using assms by (cases m) (auto intro: settles_trans)

lemma finish_result_settles: "settles g (step_state (finish_result L e c tool rt n res g))"
  by (auto simp: finish_result_def fail_call_settles split: option.splits result_problem.splits sum.splits)

lemma deliver_settles:
  "settles (g\<lparr>gw_sent := gw_sent g @ (case up of None \<Rightarrow> [] | Some u \<Rightarrow> [(u, rt_original rt, args)])\<rparr>)
     (step_state (deliver L e c tool args rt up n g))"
  by (auto simp: deliver_def Let_def finish_result_settles note_gone_settles fail_call_settles
      split: option.splits sum.splits intro!: step_bind_settles)

lemma conclude_state:
  "settles (deferred (step_state s)) (snd (conclude L e c tool d deferred s))"
  by (cases s) (simp_all add: conclude_def contain_panic_def audit_settles)

lemma record_allowed_Go:
  assumes "record_allowed L e c tool rt g = Go x g'"
  shows "quiet g g'" "trail_of g' = trail_of g @ [row_written L e ClockAllowed c tool (rt_upstream rt) outcome_allowed []]"
  using assms gw_record_spec [of L e ClockAllowed c tool "rt_upstream rt" outcome_allowed "[]" g True]
  by (auto simp: record_allowed_def split: if_splits prod.splits bool.splits)

lemma gate_Stop:
  "gate_block L e c tool g = Stop err g' \<Longrightarrow> refused_once L e c tool err g g'"
  "gate_suspended L e c tool g = Stop err g' \<Longrightarrow> refused_once L e c tool err g g'"
  "gate_route L e c tool g = Stop err g' \<Longrightarrow> refused_once L e c tool err g g'"
  "gate_authorize L e c tool rt g = Stop err g' \<Longrightarrow> rt_upstream rt \<noteq> [] \<Longrightarrow> refused_once L e c tool err g g'"
  "gate_admit L e c tool rt g = Stop err g' \<Longrightarrow> rt_upstream rt \<noteq> [] \<Longrightarrow> refused_once L e c tool err g g'"
  "gate_available L e c tool rt up g = Stop err g' \<Longrightarrow> rt_upstream rt \<noteq> [] \<Longrightarrow> refused_once L e c tool err g g'"
  using check_block_cases [of e c g]
  by (auto simp: gate_block_def gate_suspended_def gate_route_def gate_authorize_def gate_admit_def gate_available_def Let_def
      target_of_not_Nil step_bind_eq split: option.splits admit_refusal.splits if_splits
      dest: refuse_blocked_Stop [OF _ target_of_not_Nil] refuse_Stop)

lemma lookup_route_named: "lookup_route tool g = Some (rt, up) \<Longrightarrow> routes_named g \<Longrightarrow> rt_upstream rt \<noteq> []"
  by (auto simp: lookup_route_def routes_named_def split: option.splits)

lemma pass_gates_Stop: "pass_gates L e c tool g = Stop err g' \<Longrightarrow> routes_named g \<Longrightarrow> refused_once L e c tool err g g'"
  by (auto simp: pass_gates_def step_bind_eq gate_block_Go gate_Go_simps dest: gate_Stop lookup_route_named)

text \<open>The call is admitted by the quota: the answer of the gate and the counters it leaves.\<close>

abbreviation quota_answer :: "libs \<Rightarrow> call_env \<Rightarrow> caller \<Rightarrow> string \<Rightarrow> gw \<Rightarrow> admit_error option \<times> counters" where
  "quota_answer L e c tool g \<equiv>
     admit (gw_plan g) (reserve (lib_quota_layout L) (ce_quota_fault e)) (id_subject (c_identity c)) tool
       (ce_clock e ClockQuota) (gw_counters g)"

lemma charge_call_cases:
  "charge_call L e c tool rt n g = Go x g' \<Longrightarrow>
     fst (quota_answer L e c tool g) = None \<and> g' = g\<lparr>gw_counters := snd (quota_answer L e c tool g)\<rparr>"
  "charge_call L e c tool rt n g = Stop err g' \<Longrightarrow> rt_upstream rt \<noteq> [] \<Longrightarrow> refused_once L e c tool err g g'"
  "charge_call L e c tool rt n g = Panicked g' \<Longrightarrow> g' = g"
  using sqlite.admit_refused [of "gw_plan g" "lib_quota_layout L" "ce_quota_fault e" "id_subject (c_identity c)" tool
      "ce_clock e ClockQuota" "gw_counters g"]
  by (auto simp: charge_call_def refuse_Panicked dest: refuse_Stop
      split: if_splits prod.splits option.splits admit_error.splits)

abbreviation charged :: "libs \<Rightarrow> call_env \<Rightarrow> caller \<Rightarrow> string \<Rightarrow> routed \<Rightarrow> notice option \<Rightarrow> gw \<Rightarrow> unit step" where
  "charged L e c tool rt n g \<equiv> step_bind (charge_call L e c tool rt n g) (\<lambda>_. record_allowed L e c tool rt)"

lemma record_allowed_Stop:
  assumes "record_allowed L e c tool rt g = Stop err g'"
  shows "err = DUnauditable" "quiet g g'" "trail_of g' = trail_of g"
  using assms gw_record_spec [of L e ClockAllowed c tool "rt_upstream rt" outcome_allowed "[]" g False]
  by (auto simp: record_allowed_def split: if_splits prod.splits bool.splits)

lemma record_allowed_Panicked: "record_allowed L e c tool rt g = Panicked g' \<Longrightarrow> g' = g"
  by (auto simp: record_allowed_def split: if_splits prod.splits bool.splits)

lemma charged_Go:
  assumes "charged L e c tool rt n g = Go x g1"
  shows "fst (quota_answer L e c tool g) = None"
    and "settles (g\<lparr>gw_counters := snd (quota_answer L e c tool g)\<rparr>) g1"
    and "trail_of g1 = trail_of g @ [row_written L e ClockAllowed c tool (rt_upstream rt) outcome_allowed []]"
  using assms by (auto simp: step_bind_eq dest!: charge_call_cases(1) dest: record_allowed_Go intro: quiet_settles)

lemma charged_Stop:
  assumes "charged L e c tool rt n g = Stop err g1" "rt_upstream rt \<noteq> []"
  shows "refused_once L e c tool err g g1
    \<or> err = DUnauditable \<and> fst (quota_answer L e c tool g) = None
       \<and> quiet (g\<lparr>gw_counters := snd (quota_answer L e c tool g)\<rparr>) g1 \<and> trail_of g1 = trail_of g"
  using assms by (auto simp: step_bind_eq dest!: charge_call_cases(1) dest: record_allowed_Stop charge_call_cases(2))

lemma charged_Panicked:
  assumes "charged L e c tool rt n g = Panicked g1"
  shows "g1 = g \<or> fst (quota_answer L e c tool g) = None \<and> g1 = g\<lparr>gw_counters := snd (quota_answer L e c tool g)\<rparr>"
  using assms by (auto simp: step_bind_eq dest!: charge_call_cases(1) dest: record_allowed_Panicked charge_call_cases(3))

section \<open>Slots\<close>

definition slots_ok :: "(string \<times> int) list \<Rightarrow> bool" where
  "slots_ok m = (distinct (map fst m) \<and> list_all (\<lambda>x. 0 < snd x) m)"

lemma slots_ok_pos: "slots_ok m \<Longrightarrow> map_of m s = Some n \<Longrightarrow> 0 < n"
  by (auto simp: slots_ok_def list_all_iff dest: map_of_SomeD)

lemma release_acquire:
  assumes "acquire cap s m = Some m'" "slots_ok m"
  shows "release s m' = m"
proof (cases "map_of m s")
  case None
  then have "s \<notin> fst ` set m" by (simp add: map_of_eq_None_iff)
  with assms None show ?thesis
    by (auto simp: acquire_def release_def in_use_def update_conv' AList.delete_update_same split: if_splits)
next
  case (Some n)
  with slots_ok_pos [OF assms(2)] have "0 < n" by blast
  with assms Some show ?thesis
    by (auto simp: acquire_def release_def in_use_def update_conv' AList.update_triv split: if_splits)
qed

section \<open>One call\<close>

text \<open>What admission of a route means: the stored tool may be used, and a sensitive one needs a grant outside the read roles.\<close>

lemma admit_route_None:
  "admit_route fault pol i name rt st = None \<longleftrightarrow>
     (\<exists>t. get_tool fault (rt_upstream rt) (rt_original rt) st = Inr t \<and> usable t
        \<and> ((t_class t \<noteq> class_safe \<or> td_class (rt_def rt) \<noteq> class_safe) \<longrightarrow> authorize_nonread pol i name))"
  by (auto simp: admit_route_def Let_def split: sum.splits)

lemma availability_None_conn:
  "availability name up maint now fl = None \<Longrightarrow>
     maint name = None \<and> (\<exists>u. up = Some u \<and> map_of (fl_gone fl) name \<noteq> Some u \<and> map_of (fl_unlisted fl) name \<noteq> Some u)"
  by (auto simp: availability_def Let_def split: option.splits if_splits)

lemma free_slot_simps [simp]:
  "gw_audit (free_slot c g) = gw_audit g" "gw_sent (free_slot c g) = gw_sent g" "gw_counters (free_slot c g) = gw_counters g"
  by (simp_all add: free_slot_def)

lemma counters_then_slot: "g\<lparr>gw_counters := q, gw_in_use := m\<rparr> = g\<lparr>gw_in_use := m, gw_counters := q\<rparr>"
  by simp

lemma quiet_free_slot:
  assumes "quiet (g\<lparr>gw_in_use := slots\<rparr>) g1" "release (id_subject (c_identity c)) slots = gw_in_use g"
  shows "quiet g (free_slot c g1)"
proof -
  have "free_slot c g1 = g1\<lparr>gw_in_use := gw_in_use g\<rparr>"
    using assms quiet_fields(5) [OF assms(1)] by (simp add: free_slot_def)
  then show ?thesis
    by (subst quiet_def, simp) (subst assms(1) [unfolded quiet_def], simp)
qed

lemma refused_free_slot:
  assumes "refused_once L e c tool err (g\<lparr>gw_in_use := slots\<rparr>) g1" "release (id_subject (c_identity c)) slots = gw_in_use g"
  shows "refused_once L e c tool err g (free_slot c g1)"
  using assms quiet_free_slot [where slots = slots and g = g and ?g1.0 = g1] by (auto simp: refused_once_def)

text \<open>The three ends of a call: refused or unrecorded before anything was sent, a panic before anything was sent, or sent.\<close>

lemma dispatch_cases:
  assumes d: "dispatch L e c tool args g = (res, g')"
    and ok: "routes_named g" "slots_ok (gw_in_use g)"
  obtains
    (refused) err where "res = Inl err" "refused_once L e c tool err g g'"
  | (unrecorded) rt up where "res = Inl DUnauditable" "gates_open e c tool rt up g"
      "in_use (gw_in_use g) (id_subject (c_identity c)) < gw_max_calls g" "fst (quota_answer L e c tool g) = None"
      "quiet (g\<lparr>gw_counters := snd (quota_answer L e c tool g)\<rparr>) g'" "trail_of g' = trail_of g"
  | (panicked) "res = Inl DInternal" "g' = record_panic L e c tool (target_of tool) False g"
  | (panicked_charged) rt up where "res = Inl DInternal" "gates_open e c tool rt up g"
      "in_use (gw_in_use g) (id_subject (c_identity c)) < gw_max_calls g" "fst (quota_answer L e c tool g) = None"
      "g' = record_panic L e c tool (target_of tool) False (g\<lparr>gw_counters := snd (quota_answer L e c tool g)\<rparr>)"
  | (sent) rt up n slots g1 where "gates_open e c tool rt (Some up) g"
      "acquire (gw_max_calls g) (id_subject (c_identity c)) (gw_in_use g) = Some slots"
      "charged L e c tool rt n (g\<lparr>gw_in_use := slots\<rparr>) = Go () g1"
      "(res, g') = conclude L e c tool True (free_slot c) (deliver L e c tool args rt (Some up) n g1)"
proof (cases "pass_gates L e c tool g")
  case (Stop err g1)
  with d pass_gates_Stop [OF Stop ok(1)] show thesis by (auto simp: dispatch_def intro: refused)
next
  case (Panicked g1)
  with d pass_gates_Panicked [OF Panicked] show thesis by (auto simp: dispatch_def contain_panic_def intro: panicked)
next
  case (Go x g0)
  obtain rt up n where x: "x = (rt, up, n)" by (cases x)
  from pass_gates_Go [OF Go [unfolded x]] have g0: "g0 = g" and gates: "gates_open e c tool rt up g" by auto
  then have up: "\<exists>u. up = Some u" and named: "rt_upstream rt \<noteq> []"
    using availability_None_conn lookup_route_named [OF _ ok(1)] unfolding gates_open_def by blast+
  note go = d [unfolded dispatch_def Go x g0, simplified]
  show thesis
  proof (cases "acquire (gw_max_calls g) (id_subject (c_identity c)) (gw_in_use g)")
    case None
    show thesis
    proof (cases "ce_panic e (PanicAudit ClockRefusal)")
      case True
      with go None show thesis by (auto simp: refuse_def conclude_def contain_panic_def intro: panicked)
    next
      case False
      with go None refusal_refused_once [OF named, of reason_concurrency_limited "DConcurrencyLimited (gw_max_calls g) n" L e c tool g] show thesis
        by (auto simp: refuse_def conclude_def intro: refused)
    qed
  next
    case (Some slots)
    let ?g = "g\<lparr>gw_in_use := slots\<rparr>"
    have restored: "release (id_subject (c_identity c)) slots = gw_in_use g" by (rule release_acquire [OF Some ok(2)])
    have room: "in_use (gw_in_use g) (id_subject (c_identity c)) < gw_max_calls g"
      using Some by (simp add: acquire_def split: if_splits)
    have quota: "quota_answer L e c tool ?g = quota_answer L e c tool g" by simp
    show thesis
    proof (cases "charged L e c tool rt n ?g")
      case (Go u g1)
      with go Some up gates show thesis by (auto intro: sent)
    next
      case (Stop err g1)
      with go Some have r: "res = Inl err" "g' = free_slot c g1" by auto
      from charged_Stop [OF Stop named] show thesis
      proof
        assume "refused_once L e c tool err ?g g1"
        with r refused_free_slot [OF _ restored] show thesis by (auto intro: refused)
      next
        assume u: "err = DUnauditable \<and> fst (quota_answer L e c tool ?g) = None
          \<and> quiet (?g\<lparr>gw_counters := snd (quota_answer L e c tool ?g)\<rparr>) g1 \<and> trail_of g1 = trail_of ?g"
        have "quiet (g\<lparr>gw_counters := snd (quota_answer L e c tool g)\<rparr>) (free_slot c g1)"
          by (rule quiet_free_slot [where slots = slots]) (use u restored in \<open>simp_all add: counters_then_slot\<close>)
        with u r gates room show thesis by (auto intro: unrecorded)
      qed
    next
      case (Panicked g1)
      with go Some have r: "res = Inl DInternal" "g' = record_panic L e c tool (target_of tool) False (free_slot c g1)"
        by (auto simp: contain_panic_def)
      from charged_Panicked [OF Panicked] show thesis
      proof
        assume "g1 = ?g"
        then have "free_slot c g1 = g" using restored by (simp add: free_slot_def)
        with r show thesis by (auto intro: panicked)
      next
        assume u: "fst (quota_answer L e c tool ?g) = None \<and> g1 = ?g\<lparr>gw_counters := snd (quota_answer L e c tool ?g)\<rparr>"
        then have "free_slot c g1 = g\<lparr>gw_counters := snd (quota_answer L e c tool g)\<rparr>" using restored by (simp add: free_slot_def)
        with u r gates room show thesis by (auto intro: panicked_charged)
      qed
    qed
  qed
qed

lemma dispatch_sent_state:
  assumes "acquire (gw_max_calls g) (id_subject (c_identity c)) (gw_in_use g) = Some slots" "slots_ok (gw_in_use g)"
    and ch: "charged L e c tool rt n (g\<lparr>gw_in_use := slots\<rparr>) = Go () g1"
    and fin: "(res, g') = conclude L e c tool True (free_slot c) (deliver L e c tool args rt (Some up) n g1)"
  shows "in_use (gw_in_use g) (id_subject (c_identity c)) < gw_max_calls g"
    and "fst (quota_answer L e c tool g) = None" "gw_counters g' = snd (quota_answer L e c tool g)"
    and "gw_sent g' = gw_sent g @ [(up, rt_original rt, args)]" "gw_in_use g' = gw_in_use g"
    and "\<exists>rows. trail_of g' = trail_of g @ row_written L e ClockAllowed c tool (rt_upstream rt) outcome_allowed [] # rows"
proof -
  let ?d = "deliver L e c tool args rt (Some up) n g1"
  have 1: "settles (g1\<lparr>gw_sent := gw_sent g1 @ [(up, rt_original rt, args)]\<rparr>) (step_state ?d)"
    using deliver_settles [where up = "Some up" and g = g1] by simp
  have 2: "settles (free_slot c (step_state ?d)) g'"
    using conclude_state [of "free_slot c" ?d L e c tool True] fin by (metis snd_conv)
  note c = charged_Go [OF ch]
  show "in_use (gw_in_use g) (id_subject (c_identity c)) < gw_max_calls g"
    using assms(1) by (simp add: acquire_def split: if_splits)
  show "fst (quota_answer L e c tool g) = None" using c(1) by simp
  show "gw_counters g' = snd (quota_answer L e c tool g)"
    using settles_fields(7) [OF 2] settles_fields(7) [OF 1] settles_fields(7) [OF c(2)] by simp
  show "gw_sent g' = gw_sent g @ [(up, rt_original rt, args)]"
    using settles_fields(9) [OF 2] settles_fields(9) [OF 1] settles_fields(9) [OF c(2)] by simp
  have "gw_in_use (step_state ?d) = slots"
    using settles_fields(4) [OF 1] settles_fields(4) [OF c(2)] by simp
  then show "gw_in_use g' = gw_in_use g"
    using settles_fields(4) [OF 2] release_acquire [OF assms(1,2)] by (simp add: free_slot_def)
  show "\<exists>rows. trail_of g' = trail_of g @ row_written L e ClockAllowed c tool (rt_upstream rt) outcome_allowed [] # rows"
    using settles_trail [OF 2] settles_trail [OF 1] c(3) by auto
qed

section \<open>Calls that pass\<close>

definition calm :: "call_env \<Rightarrow> bool" where
  "calm e = (\<not> ce_panic e PanicBlock \<and> \<not> ce_panic e PanicQuarantine \<and> \<not> ce_panic e PanicMaintenance \<and> \<not> ce_panic e PanicQuota
     \<and> \<not> ce_panic e (PanicAudit ClockAllowed))"

lemma pass_gates_open:
  assumes "gates_open e c tool rt up g" "calm e"
  shows "\<exists>n. pass_gates L e c tool g = Go (rt, up, n) g
    \<and> n = gateway_notice (fst (read_maintenance (ce_maintenance e))) (ce_clock e ClockAvailability)"
proof -
  have "gw_check_block e (id_subject (c_identity c)) g = Go None g"
    using assms by (auto simp: gates_open_def unblocked_def calm_def gw_check_block_def gw_read_block_def)
  with assms show ?thesis
    by (simp add: pass_gates_def gate_block_def gate_suspended_def gate_route_def gate_authorize_def gate_admit_def gate_available_def
        gates_open_def calm_def)
qed

lemma charged_open:
  assumes "calm e" "fst (quota_answer L e c tool g) = None"
    "fst (gw_record L e ClockAllowed c tool (rt_upstream rt) outcome_allowed [] (g\<lparr>gw_counters := snd (quota_answer L e c tool g)\<rparr>))"
  shows "\<exists>g1. charged L e c tool rt n g = Go () g1"
  using assms
  by (cases "quota_answer L e c tool g";
      cases "gw_record L e ClockAllowed c tool (rt_upstream rt) outcome_allowed [] (g\<lparr>gw_counters := snd (quota_answer L e c tool g)\<rparr>)")
    (auto simp: charge_call_def calm_def record_allowed_def)

text \<open>A call whose gates are all open reaches its backend.\<close>

lemma dispatch_reaches_backend:
  assumes "gates_open e c tool rt (Some up) g" "calm e"
    and room: "in_use (gw_in_use g) (id_subject (c_identity c)) < gw_max_calls g"
    and quota: "fst (quota_answer L e c tool g) = None"
    and named: "auditable L e ClockAllowed" "id_subject (c_identity c) \<noteq> []" "tool \<noteq> []" "rt_upstream rt \<noteq> []"
  shows "\<exists>slots n g1. acquire (gw_max_calls g) (id_subject (c_identity c)) (gw_in_use g) = Some slots
    \<and> n = gateway_notice (fst (read_maintenance (ce_maintenance e))) (ce_clock e ClockAvailability)
    \<and> charged L e c tool rt n (g\<lparr>gw_in_use := slots\<rparr>) = Go () g1
    \<and> dispatch L e c tool args g = conclude L e c tool True (free_slot c) (deliver L e c tool args rt (Some up) n g1)"
proof -
  obtain n where n: "pass_gates L e c tool g = Go (rt, Some up, n) g"
      "n = gateway_notice (fst (read_maintenance (ce_maintenance e))) (ce_clock e ClockAvailability)"
    using pass_gates_open [OF assms(1,2)] by blast
  obtain slots where slots: "acquire (gw_max_calls g) (id_subject (c_identity c)) (gw_in_use g) = Some slots"
    using room by (simp add: acquire_def)
  obtain g1 where "charged L e c tool rt n (g\<lparr>gw_in_use := slots\<rparr>) = Go () g1"
    using charged_open [OF assms(2), where g = "g\<lparr>gw_in_use := slots\<rparr>", of L c tool rt n] quota
      gw_record_ok [OF named outcome_valid_consts(1)] by auto
  with n slots show ?thesis by (auto simp: dispatch_def)
qed

section \<open>The rows of a call that was sent\<close>

lemma gw_record_named:
  assumes "gw_record L e k c tool upstream outcome reason g = (True, g')"
  shows "id_subject (c_identity c) \<noteq> [] \<and> tool \<noteq> [] \<and> upstream \<noteq> []"
proof -
  have "fst (record_row (lib_digest L) (lib_audit_layout L) (lib_hides L) (ce_audit_fault e k)
      (audit_rec L c tool upstream (ce_clock e k) outcome reason) (gw_audit g))"
    using assms by (auto simp: gw_record_def Let_def split: prod.splits bool.splits)
  then have "arec_validate (lib_hides L) (audit_rec L c tool upstream (ce_clock e k) outcome reason) = []"
    by (auto simp: record_row_def record_chained_def split: prod.splits sum.splits if_splits)
  then show ?thesis by (auto simp: arec_validate_def audit_rec_def split: if_splits)
qed

lemma charged_named:
  assumes "charged L e c tool rt n g = Go x g1"
  shows "id_subject (c_identity c) \<noteq> [] \<and> tool \<noteq> [] \<and> rt_upstream rt \<noteq> []"
  using assms gw_record_named [of L e ClockAllowed c tool "rt_upstream rt" outcome_allowed "[]"]
  by (auto simp: step_bind_eq record_allowed_def split: if_splits prod.splits bool.splits)

lemma audit_failure_row:
  assumes "auditable L e k" "id_subject (c_identity c) \<noteq> []" "tool \<noteq> []" "upstream \<noteq> []"
  shows "trail_of (audit_failure L e k c tool upstream f g)
    = trail_of g @ [row_written L e k c tool upstream outcome_failed (classify_failure f)]"
  using gw_record_ok [OF assms outcome_valid_consts(3), of "classify_failure f" g]
    gw_record_spec [of L e k c tool upstream outcome_failed "classify_failure f" g]
  by (cases "gw_record L e k c tool upstream outcome_failed (classify_failure f) g") (auto simp: audit_failure_def)

text \<open>What the death of a backend during a call leaves in the trail: at most one row, in the gateway's own name.\<close>

definition gateway_rows :: "libs \<Rightarrow> call_env \<Rightarrow> string list list \<Rightarrow> bool" where
  "gateway_rows L e rows =
     (rows = [] \<or> (\<exists>upstream outcome reason. rows = [row_written L e ClockEvent
        \<lparr>c_identity = \<lparr>id_subject = gateway_actor, id_name = [], id_groups = []\<rparr>, c_source = []\<rparr>
        backend_health_tool upstream outcome reason]))"

lemma write_health_event_rows: "\<exists>rows. gateway_rows L e rows \<and> trail_of (write_health_event L e ev g) = trail_of g @ rows"
proof -
  obtain b outcome reason where ev: "health_event_row L ev = (b, outcome, reason)" by (cases "health_event_row L ev")
  obtain ok g' where r: "gw_record L e ClockEvent
      \<lparr>c_identity = \<lparr>id_subject = gateway_actor, id_name = [], id_groups = []\<rparr>, c_source = []\<rparr> backend_health_tool b outcome reason g
      = (ok, g')" by fastforce
  with ev gw_record_spec(2) [OF r] show ?thesis
    by (cases ok) (auto simp: write_health_event_def audit_gateway_row_def gateway_rows_def)
qed

lemma note_gone_rows:
  "\<exists>rows. gateway_rows L e rows \<and> (\<not> cf_gone f \<longrightarrow> rows = []) \<and> trail_of (step_state (note_gone L e rt up f g)) = trail_of g @ rows"
proof -
  obtain ev fl where m: "mark_gone (rt_upstream rt) (Some up) (ce_clock e ClockGone) (gw_fleet g) = (ev, fl)" by fastforce
  have none: "gateway_rows L e []" by (simp add: gateway_rows_def)
  show ?thesis
  proof (cases "\<not> cf_gone f \<or> ev = None \<or> ce_panic e (PanicAudit ClockEvent)")
    case True
    then have "trail_of (step_state (note_gone L e rt up f g)) = trail_of g"
      using m by (auto simp: note_gone_def split: option.splits)
    with none show ?thesis by auto
  next
    case False
    then obtain ev' where "ev = Some ev'" by auto
    with False m write_health_event_rows [of L e ev' "g\<lparr>gw_fleet := fl\<rparr>"] show ?thesis by (auto simp: note_gone_def)
  qed
qed

lemma note_gone_not_Stop [simp]: "note_gone L e rt up f g \<noteq> Stop err g'"
  by (auto simp: note_gone_def split: prod.splits option.splits)

lemma fail_call_rows:
  assumes "fail_call L e c tool upstream f err g = s" "auditable L e ClockFailure" "id_subject (c_identity c) \<noteq> []" "tool \<noteq> []" "upstream \<noteq> []"
  shows "s = Stop err (step_state s)"
    and "trail_of (step_state s) = trail_of g @ [row_written L e ClockFailure c tool upstream outcome_failed (classify_failure f)]"
  using assms audit_failure_row [OF assms(2-5), of f g] by (auto simp: fail_call_def auditable_def)

abbreviation failed_row :: "libs \<Rightarrow> call_env \<Rightarrow> clock_read \<Rightarrow> caller \<Rightarrow> string \<Rightarrow> routed \<Rightarrow> string \<Rightarrow> string list" where
  "failed_row L e k c tool rt reason \<equiv> row_written L e k c tool (rt_upstream rt) outcome_failed reason"

text \<open>The names of the credentials the backend was handed, whose values are taken out of its answer.\<close>

definition creds_of :: "routed \<Rightarrow> gw \<Rightarrow> string list" where
  "creds_of rt g = (case map_of (gw_creds g) (rt_upstream rt) of None \<Rightarrow> [] | Some ns \<Rightarrow> ns)"

definition delivered ::
  "libs \<Rightarrow> call_env \<Rightarrow> caller \<Rightarrow> string \<Rightarrow> string \<Rightarrow> routed \<Rightarrow> conn \<Rightarrow> notice option \<Rightarrow> gw \<Rightarrow> (call_result \<times> notice option) step \<Rightarrow> bool" where
  "delivered L e c tool args rt up n g s =
     ((\<exists>r raw g2. s = Go (r, n) g2 \<and> trail_of g2 = trail_of g \<and> ce_reply e up (rt_original rt) args = Inr raw
         \<and> check_result (gw_max_result g) rt raw = None \<and> scrub_result (lib_codec L) (ce_resolve e) (creds_of rt g) raw = Inr r)
      \<or> (\<exists>err g2 events reason. s = Stop err g2 \<and> gateway_rows L e events
           \<and> trail_of g2 = trail_of g @ events @ [failed_row L e ClockFailure c tool rt reason])
      \<or> (\<exists>g2 events. s = Panicked g2 \<and> gateway_rows L e events \<and> trail_of g2 = trail_of g @ events))"

lemma gateway_rows_Nil [simp]: "gateway_rows L e []"
  by (simp add: gateway_rows_def)

lemma delivered_fail:
  assumes "auditable L e ClockFailure" "id_subject (c_identity c) \<noteq> []" "tool \<noteq> []" "rt_upstream rt \<noteq> []"
    and "gateway_rows L e events" "trail_of g1 = trail_of g @ events"
  shows "delivered L e c tool args rt up n g (fail_call L e c tool (rt_upstream rt) f err g1)"
proof -
  note f = fail_call_rows [OF refl assms(1-4), of f err g1]
  have "trail_of (step_state (fail_call L e c tool (rt_upstream rt) f err g1 :: (call_result \<times> notice option) step))
      = trail_of g @ events @ [failed_row L e ClockFailure c tool rt (classify_failure f)]"
    using f(2) assms(6) by simp
  with f(1) assms(5) show ?thesis unfolding delivered_def by blast
qed

lemma delivered_finish:
  assumes "auditable L e ClockFailure" "id_subject (c_identity c) \<noteq> []" "tool \<noteq> []" "rt_upstream rt \<noteq> []"
    and reply: "ce_reply e up (rt_original rt) args = Inr raw" and g1: "g1 = g\<lparr>gw_sent := s\<rparr>"
  shows "delivered L e c tool args rt up n g (finish_result L e c tool rt n raw g1)"
proof -
  have stop: "delivered L e c tool args rt up n g (Panicked g1)" by (auto simp: delivered_def g1)
  note fail = delivered_fail [OF assms(1-4) gateway_rows_Nil, of g1 g]
  show ?thesis
  proof (cases "ce_panic e PanicCheck")
    case True
    with stop show ?thesis by (simp add: finish_result_def)
  next
    case check: False
    show ?thesis
    proof (cases "check_result (gw_max_result g1) rt raw")
      case (Some problem)
      with check fail g1 show ?thesis by (cases problem) (simp_all add: finish_result_def)
    next
      case ok: None
      show ?thesis
      proof (cases "scrub_result (lib_codec L) (ce_resolve e) (creds_of rt g1) raw")
        case (Inl err)
        with ok check fail stop g1 show ?thesis by (simp add: finish_result_def creds_of_def)
      next
        case (Inr r)
        with ok check stop reply g1 show ?thesis
          by (cases "ce_panic e PanicScrub") (auto simp: finish_result_def creds_of_def delivered_def)
      qed
    qed
  qed
qed

lemma deliver_delivered:
  assumes "auditable L e ClockFailure" "id_subject (c_identity c) \<noteq> []" "tool \<noteq> []" "rt_upstream rt \<noteq> []"
  shows "delivered L e c tool args rt up n g (deliver L e c tool args rt (Some up) n g)"
proof -
  let ?g = "g\<lparr>gw_sent := gw_sent g @ [(up, rt_original rt, args)]\<rparr>"
  show ?thesis
  proof (cases "ce_panic e PanicCall")
    case True
    then show ?thesis by (auto simp: deliver_def delivered_def)
  next
    case call: False
    show ?thesis
    proof (cases "ce_reply e up (rt_original rt) args")
      case (Inr raw)
      with call delivered_finish [OF assms Inr refl, where g = g and n = n] show ?thesis by (simp add: deliver_def)
    next
      case (Inl f)
      obtain rows where rows: "gateway_rows L e rows" "trail_of (step_state (note_gone L e rt up f ?g)) = trail_of g @ rows"
        using note_gone_rows [of L e f rt up ?g] by auto
      show ?thesis
      proof (cases "note_gone L e rt up f ?g")
        case (Go x g2)
        with rows call Inl delivered_fail [OF assms rows(1), of g2 g] show ?thesis by (simp add: deliver_def)
      next
        case (Panicked g2)
        with rows call Inl show ?thesis by (auto simp: deliver_def delivered_def)
      qed simp
    qed
  qed
qed

lemma dispatch_sent_cases:
  assumes d: "dispatch L e c tool args g = (res, g')" and ok: "routes_named g" "slots_ok (gw_in_use g)"
    and sends: "gw_sent g' \<noteq> gw_sent g"
  obtains rt up n slots g1 where "gates_open e c tool rt (Some up) g" "map_of (gw_routes g) tool = Some rt"
    "map_of (fl_conns (gw_fleet g)) (rt_upstream rt) = Some up"
    "acquire (gw_max_calls g) (id_subject (c_identity c)) (gw_in_use g) = Some slots"
    "charged L e c tool rt n (g\<lparr>gw_in_use := slots\<rparr>) = Go () g1"
    "(res, g') = conclude L e c tool True (free_slot c) (deliver L e c tool args rt (Some up) n g1)"
  using d ok
proof (cases rule: dispatch_cases)
  case (refused err)
  with sends show ?thesis by (auto simp: refused_once_def dest: quiet_fields(10))
next
  case (unrecorded rt up)
  with sends quiet_fields(10) [OF unrecorded(5)] show ?thesis by simp
next
  case panicked
  with sends settles_fields(9) [OF audit_settles(3)] show ?thesis by simp
next
  case (panicked_charged rt up)
  with sends settles_fields(9) [OF audit_settles(3)] show ?thesis by simp
next
  case (sent rt up n slots g1)
  then show ?thesis using that by (auto simp: gates_open_def lookup_route_def split: option.splits)
qed

end
