(* ===== verification/Dispatch_Sample.thy ===== *)
theory Dispatch_Sample
  imports Dispatch
begin

text \<open>
  A concrete gateway, one backend with one approved tool, one analyst allowed to call it, on which the properties of the request path are applied.
\<close>

definition sample_libs :: libs where
  "sample_libs = \<lparr>lib_digest = sample_digest, lib_audit_layout = sample_fmt, lib_hides = (\<lambda>_. False), lib_quota_layout = sample_layout,
     lib_health_layout = sample_fmt, lib_codec = sample_codec\<rparr>"

definition sample_tool :: tool where
  "sample_tool = \<lparr>t_server = ''threatintel'', t_tool = ''lookup_ip'', t_status = status_approved, t_approved = ''h'', t_observed = ''h'',
     t_class = class_safe, t_cleared = [], t_first_seen = 1, t_updated = 2\<rparr>"

definition sample_route :: routed where
  "sample_route = \<lparr>rt_upstream = ''threatintel'', rt_original = ''lookup_ip'',
     rt_def = \<lparr>td_name = ''lookup_ip'', td_description = ''d'', td_input = ''{}'', td_output = [], td_class = class_safe\<rparr>,
     rt_output = None\<rparr>"

definition sample_gw :: gw where
  "sample_gw = \<lparr>gw_routes = [(''threatintel.lookup_ip'', sample_route)],
     gw_fleet = \<lparr>fl_conns = [(''threatintel'', 1)], fl_gone = [], fl_unlisted = [], fl_health = [], fl_servable = None,
       fl_held_back = False, fl_last_round = zero_time, fl_round_interval = 0\<rparr>,
     gw_suspended = False, gw_policy = sample_policy, gw_plan = sample_plan, gw_in_use = [], gw_max_calls = 1, gw_max_result = 100,
     gw_creds = [], gw_allowed = 0, gw_denied = 0, gw_failed = 0, gw_audit = empty_adb,
     gw_quarantine = \<lparr>qs_tools = [sample_tool], qs_defs = []\<rparr>, gw_counters = [], gw_blocks = sample_bstore, gw_sent = []\<rparr>"

definition sample_env :: call_env where
  "sample_env = \<lparr>ce_clock = (\<lambda>_. \<lparr>g_ns = 105, g_off = 0\<rparr>), ce_admitted = None, ce_ctx = (\<lambda>_. False), ce_block_fault = False,
     ce_quarantine_fault = (\<lambda>_. False), ce_quota_fault = (\<lambda>_. False), ce_audit_fault = (\<lambda>_ _. False), ce_maintenance = None,
     ce_reply = (\<lambda>_ _ _. Inr \<lparr>cr_content = ''[]'', cr_structured = [], cr_is_error = False\<rparr>), ce_resolve = (\<lambda>_. None),
     ce_panic = (\<lambda>_. False)\<rparr>"

definition sample_caller :: caller where
  "sample_caller = \<lparr>c_identity = \<lparr>id_subject = ''ana'', id_name = ''Ana'', id_groups = [''soc'']\<rparr>, c_source = ''192.0.2.1''\<rparr>"

lemma sample_gates:
  "blocked False \<lparr>g_ns = 105, g_off = 0\<rparr> ''ana'' sample_bstore = Inr False"
  "authorize sample_policy (c_identity sample_caller) ''threatintel.lookup_ip''"
  "admit_route (\<lambda>_. False) sample_policy (c_identity sample_caller) ''threatintel.lookup_ip'' sample_route (gw_quarantine sample_gw) = None"
  "fst (admit sample_plan (reserve sample_layout (\<lambda>_. False)) ''ana'' ''threatintel.lookup_ip'' \<lparr>g_ns = 105, g_off = 0\<rparr> []) = None"
  by code_simp+

end
