(* ===== verification/Dispatch_Safety.thy ===== *)
theory Dispatch_Safety
  imports Dispatch_Steps Dispatch_Sample
begin

text \<open>
  What the request path guarantees: what has to hold before a call leaves the gateway, which rows every end of a call leaves in the trail, that slots
  and quota are spent only by calls that pass, and that the listing and the dispatcher agree.
\<close>

text \<open>
  C2 (safety): whatever the environment does, if a call left the gateway then it went, once and with the caller's own arguments, to the backend the name
  routes to; the caller was not blocked and the fleet not suspended; the policy authorises the caller for the name; the stored tool is usable, and when it
  is sensitive a role outside the read roles names it; the backend is in no maintenance and its connection alive; the caller had a free slot; the
  quota admitted the call and was debited for it; and the trail shows it as allowed.
\<close>
theorem dispatch_sends_only_past_every_gate:
  assumes "dispatch L e c tool args g = (res, g')" "routes_named g" "slots_ok (gw_in_use g)"
    and sent: "gw_sent g' \<noteq> gw_sent g"
  shows "\<exists>rt up t rows.
    map_of (gw_routes g) tool = Some rt \<and> map_of (fl_conns (gw_fleet g)) (rt_upstream rt) = Some up
    \<and> gw_sent g' = gw_sent g @ [(up, rt_original rt, args)]
    \<and> unblocked e c g \<and> \<not> gw_suspended g
    \<and> authorize (gw_policy g) (c_identity c) tool
    \<and> get_tool (ce_quarantine_fault e) (rt_upstream rt) (rt_original rt) (gw_quarantine g) = Inr t \<and> usable t
    \<and> (t_class t \<noteq> class_safe \<or> td_class (rt_def rt) \<noteq> class_safe \<longrightarrow> authorize_nonread (gw_policy g) (c_identity c) tool)
    \<and> fst (read_maintenance (ce_maintenance e)) (rt_upstream rt) = None
    \<and> map_of (fl_gone (gw_fleet g)) (rt_upstream rt) \<noteq> Some up \<and> map_of (fl_unlisted (gw_fleet g)) (rt_upstream rt) \<noteq> Some up
    \<and> in_use (gw_in_use g) (id_subject (c_identity c)) < gw_max_calls g
    \<and> fst (quota_answer L e c tool g) = None \<and> gw_counters g' = snd (quota_answer L e c tool g)
    \<and> trail_of g' = trail_of g @ row_written L e ClockAllowed c tool (rt_upstream rt) outcome_allowed [] # rows"
proof -
  obtain rt up n slots g1 where gates: "gates_open e c tool rt (Some up) g" and route: "map_of (gw_routes g) tool = Some rt"
    "map_of (fl_conns (gw_fleet g)) (rt_upstream rt) = Some up" and st: "acquire (gw_max_calls g) (id_subject (c_identity c)) (gw_in_use g) = Some slots"
    "charged L e c tool rt n (g\<lparr>gw_in_use := slots\<rparr>) = Go () g1"
    "(res, g') = conclude L e c tool True (free_slot c) (deliver L e c tool args rt (Some up) n g1)"
    by (rule dispatch_sent_cases [OF assms])
  from gates obtain t where t: "get_tool (ce_quarantine_fault e) (rt_upstream rt) (rt_original rt) (gw_quarantine g) = Inr t"
    "usable t" "t_class t \<noteq> class_safe \<or> td_class (rt_def rt) \<noteq> class_safe \<longrightarrow> authorize_nonread (gw_policy g) (c_identity c) tool"
    unfolding gates_open_def admit_route_None by blast
  from gates have avail: "availability (rt_upstream rt) (Some up) (fst (read_maintenance (ce_maintenance e)))
      (ce_clock e ClockAvailability) (gw_fleet g) = None" by (simp add: gates_open_def)
  from gates have "unblocked e c g" "\<not> gw_suspended g" "authorize (gw_policy g) (c_identity c) tool"
    by (simp_all add: gates_open_def)
  with route t dispatch_sent_state [OF st(1) assms(3) st(2,3)] availability_None_conn [OF avail] show ?thesis by blast
qed

lemma sample_gates_open: "gates_open sample_env sample_caller ''threatintel.lookup_ip'' sample_route (Some 1) sample_gw"
proof -
  have "unblocked sample_env sample_caller sample_gw"
    using sample_gates(1) by (simp add: unblocked_def sample_env_def sample_caller_def sample_gw_def)
  moreover have "lookup_route ''threatintel.lookup_ip'' sample_gw = Some (sample_route, Some 1)"
    by (simp add: lookup_route_def sample_gw_def sample_route_def)
  moreover have "availability (rt_upstream sample_route) (Some 1) (fst (read_maintenance (ce_maintenance sample_env)))
      (ce_clock sample_env ClockAvailability) (gw_fleet sample_gw) = None"
    by (simp add: availability_def sample_gw_def sample_env_def read_maintenance_def)
  ultimately show ?thesis
    using sample_gates(2,3) by (simp add: gates_open_def sample_gw_def sample_env_def)
qed

lemma sample_calm: "calm sample_env" "auditable sample_libs sample_env k"
  by (simp_all add: calm_def auditable_def sample_env_def sample_libs_def is_zero_def)

lemma sample_gw_ok: "routes_named sample_gw" "slots_ok (gw_in_use sample_gw)"
  by (simp_all add: routes_named_def slots_ok_def sample_gw_def sample_route_def)

lemma sample_sends:
  "gw_sent (snd (dispatch sample_libs sample_env sample_caller ''threatintel.lookup_ip'' args sample_gw)) = [(1, ''lookup_ip'', args)]"
proof -
  have quota: "fst (quota_answer sample_libs sample_env sample_caller ''threatintel.lookup_ip'' sample_gw) = None"
    using sample_gates(4) by (simp add: sample_libs_def sample_env_def sample_caller_def sample_gw_def)
  have room: "in_use (gw_in_use sample_gw) (id_subject (c_identity sample_caller)) < gw_max_calls sample_gw"
    by (simp add: sample_gw_def in_use_def)
  have named: "id_subject (c_identity sample_caller) \<noteq> []" "rt_upstream sample_route \<noteq> []"
    by (simp_all add: sample_caller_def sample_route_def)
  obtain slots n g1 where d: "acquire (gw_max_calls sample_gw) (id_subject (c_identity sample_caller)) (gw_in_use sample_gw) = Some slots"
    "charged sample_libs sample_env sample_caller ''threatintel.lookup_ip'' sample_route n (sample_gw\<lparr>gw_in_use := slots\<rparr>) = Go () g1"
    "dispatch sample_libs sample_env sample_caller ''threatintel.lookup_ip'' args sample_gw
      = conclude sample_libs sample_env sample_caller ''threatintel.lookup_ip'' True (free_slot sample_caller)
          (deliver sample_libs sample_env sample_caller ''threatintel.lookup_ip'' args sample_route (Some 1) n g1)"
    using dispatch_reaches_backend [OF sample_gates_open sample_calm(1) room quota sample_calm(2) named(1) _ named(2), of args] by auto
  have "(fst (dispatch sample_libs sample_env sample_caller ''threatintel.lookup_ip'' args sample_gw),
      snd (dispatch sample_libs sample_env sample_caller ''threatintel.lookup_ip'' args sample_gw))
    = conclude sample_libs sample_env sample_caller ''threatintel.lookup_ip'' True (free_slot sample_caller)
        (deliver sample_libs sample_env sample_caller ''threatintel.lookup_ip'' args sample_route (Some 1) n g1)"
    unfolding prod.collapse by (rule d(3))
  from dispatch_sent_state(4) [OF d(1) sample_gw_ok(2) d(2) this] show ?thesis
    by (simp add: sample_gw_def sample_route_def)
qed

theorem dispatch_sends_only_past_every_gate_witness:
  "authorize sample_policy (c_identity sample_caller) ''threatintel.lookup_ip''
   \<and> gw_counters (snd (dispatch sample_libs sample_env sample_caller ''threatintel.lookup_ip'' ''{}'' sample_gw))
       = snd (quota_answer sample_libs sample_env sample_caller ''threatintel.lookup_ip'' sample_gw)"
proof -
  obtain res g' where d: "dispatch sample_libs sample_env sample_caller ''threatintel.lookup_ip'' ''{}'' sample_gw = (res, g')" by fastforce
  have "gw_sent g' \<noteq> gw_sent sample_gw" using sample_sends [of "''{}''"] d by (simp add: sample_gw_def)
  from dispatch_sends_only_past_every_gate [OF d sample_gw_ok this] d show ?thesis by (auto simp: sample_gw_def)
qed

lemma record_panic_refused:
  assumes "auditable L e ClockPanic" "trim_space (id_subject (c_identity c)) \<noteq> []"
  shows "trail_of (record_panic L e c tool (target_of tool) False g)
    = trail_of g @ [row_written L e ClockPanic c (named_tool tool) (target_of tool) outcome_denied reason_internal_error]"
proof -
  have "id_subject (c_identity c) \<noteq> []" using assms(2) by auto
  with assms audit_refusal_spec [of g L e ClockPanic c tool "target_of tool" reason_internal_error] show ?thesis
    by (auto simp: record_panic_def blank_caller_def auditable_def target_of_not_Nil)
qed



lemma record_panic_failed:
  assumes "auditable L e ClockPanic" "trim_space (id_subject (c_identity c)) \<noteq> []" "tool \<noteq> []"
  shows "trail_of (record_panic L e c tool (target_of tool) True g)
    = trail_of g @ [row_written L e ClockPanic c tool (target_of tool) outcome_failed reason_internal_error]"
proof -
  have "id_subject (c_identity c) \<noteq> []" using assms(2) by auto
  with assms audit_failure_row [OF assms(1) _ assms(3) target_of_not_Nil, of c tool "no_failure\<lparr>cf_internal := True\<rparr>" g] show ?thesis
    by (simp add: record_panic_def blank_caller_def auditable_def classify_failure_def no_failure_def)
qed

text \<open>
  The record of a call that left the gateway for \<open>up\<close>: an answer the caller receives leaves the allowed row alone, and is the backend's own
  answer, within the size ceiling, fitting the schema the tool declared, with the backend's credentials taken out. Every other end appends exactly one
  failed row behind the allowed one, a panic's included, with at most one row of the gateway's own between them, for a backend that died.
\<close>

definition sent_record ::
  "libs \<Rightarrow> call_env \<Rightarrow> caller \<Rightarrow> string \<Rightarrow> string \<Rightarrow> routed \<Rightarrow> conn \<Rightarrow> gw \<Rightarrow> dispatch_error + (call_result \<times> notice option) \<Rightarrow> gw \<Rightarrow> bool" where
  "sent_record L e c tool args rt up g res g' =
     (case res of
        Inr (r, n) \<Rightarrow>
          trail_of g' = trail_of g @ [row_written L e ClockAllowed c tool (rt_upstream rt) outcome_allowed []]
          \<and> (\<exists>raw. ce_reply e up (rt_original rt) args = Inr raw \<and> check_result (gw_max_result g) rt raw = None
               \<and> scrub_result (lib_codec L) (ce_resolve e) (creds_of rt g) raw = Inr r)
      | Inl err \<Rightarrow>
          \<exists>events k upstream reason. gateway_rows L e events
            \<and> trail_of g' = trail_of g @ row_written L e ClockAllowed c tool (rt_upstream rt) outcome_allowed [] # events
                 @ [row_written L e k c tool upstream outcome_failed reason])"

lemma delivered_sent_record:
  assumes "delivered L e c tool args rt up n g1 s" "(res, g') = conclude L e c tool True (free_slot c) s"
    and trail: "trail_of g1 = trail_of g @ [row_written L e ClockAllowed c tool (rt_upstream rt) outcome_allowed []]"
    and same: "gw_max_result g1 = gw_max_result g" "creds_of rt g1 = creds_of rt g"
    and audit: "auditable L e ClockPanic" and subject: "trim_space (id_subject (c_identity c)) \<noteq> []" and named: "tool \<noteq> []"
  shows "sent_record L e c tool args rt up g res g'"
  using assms(1) [unfolded delivered_def]
proof (elim disjE exE conjE)
  fix r raw g2
  assume "s = Go (r, n) g2" "trail_of g2 = trail_of g1" "ce_reply e up (rt_original rt) args = Inr raw"
    "check_result (gw_max_result g1) rt raw = None" "scrub_result (lib_codec L) (ce_resolve e) (creds_of rt g1) raw = Inr r"
  with assms(2) same trail show ?thesis by (simp add: conclude_def sent_record_def)
next
  fix err g2 events reason
  assume "s = Stop err g2" "gateway_rows L e events"
    "trail_of g2 = trail_of g1 @ events @ [failed_row L e ClockFailure c tool rt reason]"
  with assms(2) trail show ?thesis by (auto simp: conclude_def sent_record_def)
next
  fix g2 events
  assume "s = Panicked g2" "gateway_rows L e events" "trail_of g2 = trail_of g1 @ events"
  with assms(2) trail record_panic_failed [OF audit subject named, of "free_slot c g2"] show ?thesis
    by (auto simp: conclude_def contain_panic_def sent_record_def)
qed



text \<open>
  (safety) a call gives back what it took. Whatever happens in it, a panic included, the slot table after it is the one before it; and a counter of the quota
  moves only for a call that passed every gate, had a free slot and was admitted, by exactly that admission, and such a call is then either
  sent, or refused because its row could not be written, or ended by a panic.
\<close>
theorem dispatch_spends_only_past_the_gates:
  assumes d: "dispatch L e c tool args g = (res, g')" and ok: "routes_named g" "slots_ok (gw_in_use g)"
  shows "gw_in_use g' = gw_in_use g
    \<and> (gw_counters g' = gw_counters g
       \<or> (\<exists>rt up. gates_open e c tool rt up g \<and> in_use (gw_in_use g) (id_subject (c_identity c)) < gw_max_calls g
            \<and> quota_answer L e c tool g = (None, gw_counters g')
            \<and> (gw_sent g' \<noteq> gw_sent g \<or> res = Inl DUnauditable \<or> res = Inl DInternal)))"
  using d ok
proof (cases rule: dispatch_cases)
  case (refused err)
  then show ?thesis by (auto simp: refused_once_def dest: quiet_fields(5,8))
next
  case (unrecorded rt up)
  with quiet_fields(5,8) [OF unrecorded(5)] show ?thesis by (auto simp: prod_eq_iff)
next
  case panicked
  with settles_fields(4,7) [OF audit_settles(3)] show ?thesis by simp
next
  case (panicked_charged rt up)
  with settles_fields(4,7) [OF audit_settles(3)] show ?thesis by (auto simp: prod_eq_iff)
next
  case (sent rt up n slots g1)
  note st = dispatch_sent_state [OF sent(2) ok(2) sent(3,4)]
  from st(4) have "gw_sent g' \<noteq> gw_sent g" by simp
  moreover from st(2,3) have "quota_answer L e c tool g = (None, gw_counters g')" by (simp add: prod_eq_iff)
  ultimately show ?thesis using st(1,5) sent(1) by blast
qed

theorem dispatch_spends_only_past_the_gates_witness:
  "gw_in_use (snd (dispatch sample_libs sample_env sample_caller ''threatintel.lookup_ip'' ''{}'' sample_gw)) = []"
proof -
  obtain res g' where d: "dispatch sample_libs sample_env sample_caller ''threatintel.lookup_ip'' ''{}'' sample_gw = (res, g')" by fastforce
  from dispatch_spends_only_past_the_gates [OF d sample_gw_ok] d show ?thesis by (simp add: sample_gw_def)
qed

section \<open>The listing\<close>

lemma list_names_spec:
  "list_names e i names g = Inr defs \<Longrightarrow>
     map td_name defs = filter (\<lambda>name. authorize (gw_policy g) i name
        \<and> admit_route (ce_quarantine_fault e) (gw_policy g) i name (the (map_of (gw_routes g) name)) (gw_quarantine g) = None) names"
  by (induction names arbitrary: defs) (auto simp: Let_def split: if_splits option.splits admit_refusal.splits sum.splits)

lemma list_names_Inl: "list_names e i names g = Inl err \<Longrightarrow> err = DQuarantineUnavailable"
  by (induction names) (auto simp: Let_def split: if_splits option.splits admit_refusal.splits sum.splits)

lemma list_names_readable:
  "list_names e i names g = Inr defs \<Longrightarrow> name \<in> set names \<Longrightarrow> authorize (gw_policy g) i name \<Longrightarrow>
     admit_route (ce_quarantine_fault e) (gw_policy g) i name (the (map_of (gw_routes g) name)) (gw_quarantine g) \<noteq> Some AdmitUnreadable"
  by (induction names arbitrary: defs) (auto simp: Let_def split: if_splits option.splits admit_refusal.splits sum.splits)

lemma gw_list_tools_Go:
  fixes c :: caller
  assumes "gw_list_tools e (c_identity c) g = Go (Inr defs) g1"
  shows "gw_check_block e (id_subject (c_identity c)) g = Go None g" "\<not> gw_suspended g"
    "list_names e (c_identity c) (sort (remdups (map fst (gw_routes g)))) g = Inr defs"
  using assms check_block_cases [of e c g] by (auto simp: gw_list_tools_def split: if_splits)

definition denials :: "dispatch_error set" where
  "denials = {DUnknownTool, DForbidden, DSensitiveNotGranted}"

lemma charged_Stop_not_denial: "charged L e c tool rt n g = Stop err g1 \<Longrightarrow> err \<notin> denials"
  by (auto simp: denials_def step_bind_eq charge_call_def record_allowed_def refuse_def
      split: if_splits prod.splits option.splits admit_error.splits bool.splits)

lemma deliver_Stop_not_denial: "deliver L e c tool args rt up n g = Stop err g1 \<Longrightarrow> err \<notin> denials"
  by (auto simp: denials_def deliver_def finish_result_def fail_call_def step_bind_eq Let_def call_error_def gone_error_def
      split: if_splits option.splits sum.splits result_problem.splits)

lemma dispatch_denial:
  assumes "dispatch L e c tool args g = (Inl err, g')" "err \<in> denials"
  shows "\<exists>g1. pass_gates L e c tool g = Stop err g1"
proof (cases "pass_gates L e c tool g")
  case (Go x g0)
  obtain rt up n where x: "x = (rt, up, n)" by (cases x)
  show ?thesis
  proof (cases "acquire (gw_max_calls g0) (id_subject (c_identity c)) (gw_in_use g0)")
    case None
    with assms Go x show ?thesis
      by (auto simp: dispatch_def conclude_def refuse_def contain_panic_def denials_def split: if_splits)
  next
    case (Some slots)
    show ?thesis
    proof (cases "charged L e c tool rt n (g0\<lparr>gw_in_use := slots\<rparr>)")
      case charge: (Go u g1)
      with assms Go x Some show ?thesis
        by (auto simp: dispatch_def conclude_def contain_panic_def split: step.splits dest: deliver_Stop_not_denial)
          (simp add: denials_def)
    next
      case (Stop err' g1)
      with assms Go x Some charged_Stop_not_denial [OF Stop] show ?thesis by (simp add: dispatch_def)
    next
      case (Panicked g1)
      with assms Go x Some show ?thesis by (auto simp: dispatch_def contain_panic_def denials_def)
    qed
  qed
qed (use assms in \<open>auto simp: dispatch_def contain_panic_def denials_def\<close>)

lemma pass_gates_listed:
  assumes "gw_check_block e (id_subject (c_identity c)) g = Go None g" "\<not> gw_suspended g"
    and "map_of (gw_routes g) tool = Some rt" "authorize (gw_policy g) (c_identity c) tool"
    and "admit_route (ce_quarantine_fault e) (gw_policy g) (c_identity c) tool rt (gw_quarantine g) = None"
  shows "pass_gates L e c tool g \<noteq> Stop err g1 \<or> err \<notin> denials"
  using assms
  by (auto simp: denials_def pass_gates_def gate_block_def gate_suspended_def gate_route_def lookup_route_def gate_authorize_def gate_admit_def
      gate_available_def step_bind_eq Let_def refuse_def split: option.splits if_splits)

lemma pass_gates_unlisted:
  assumes "gw_check_block e (id_subject (c_identity c)) g = Go None g" "\<not> gw_suspended g"
    and "\<And>rt. map_of (gw_routes g) tool = Some rt \<Longrightarrow> authorize (gw_policy g) (c_identity c) tool \<Longrightarrow>
      admit_route (ce_quarantine_fault e) (gw_policy g) (c_identity c) tool rt (gw_quarantine g) \<in> {Some AdmitQuarantined, Some AdmitSensitive}"
  shows "(\<exists>err g1. pass_gates L e c tool g = Stop err g1 \<and> err \<in> denials) \<or> pass_gates L e c tool g = Panicked g"
  using assms
  by (cases "map_of (gw_routes g) tool")
    (auto simp: denials_def pass_gates_def gate_block_def gate_suspended_def gate_route_def lookup_route_def gate_authorize_def gate_admit_def
      refuse_def)

text \<open>
  C18 (equivalence): the listing and the dispatcher agree. A listing is sorted without repetition and shows exactly the routed names that the policy and the
  quarantine let this caller use; so in the same circumstances a call of a name that is not listed never leaves the gateway, and is answered as an
  unknown, forbidden or not granted tool (or by the panic barrier), and a call of a listed name is never answered in one of those three ways.
\<close>
theorem listing_agrees_with_dispatch:
  assumes l: "gw_list_tools e (c_identity c) g = Go (Inr defs) g1" and d: "dispatch L e c tool args g = (res, g')"
    and ok: "routes_named g" "slots_ok (gw_in_use g)"
  shows "sorted (map td_name defs) \<and> distinct (map td_name defs)
    \<and> (if tool \<in> set (map td_name defs) then res \<notin> {Inl DUnknownTool, Inl DForbidden, Inl DSensitiveNotGranted}
       else gw_sent g' = gw_sent g \<and> res \<in> {Inl DUnknownTool, Inl DForbidden, Inl DSensitiveNotGranted, Inl DInternal})"
proof -
  note block = gw_list_tools_Go(1,2) [OF l]
  let ?admits = "\<lambda>name. admit_route (ce_quarantine_fault e) (gw_policy g) (c_identity c) name (the (map_of (gw_routes g) name)) (gw_quarantine g)"
  have names: "map td_name defs = filter (\<lambda>name. authorize (gw_policy g) (c_identity c) name \<and> ?admits name = None)
      (sort (remdups (map fst (gw_routes g))))"
    by (rule list_names_spec [OF gw_list_tools_Go(3) [OF l]])
  have listed: "tool \<in> set (map td_name defs) \<longleftrightarrow> (\<exists>rt. map_of (gw_routes g) tool = Some rt)
      \<and> authorize (gw_policy g) (c_identity c) tool \<and> ?admits tool = None"
    unfolding names using map_of_eq_None_iff [of "gw_routes g" tool] by auto
  have readable: "?admits tool \<noteq> Some AdmitUnreadable"
    if "map_of (gw_routes g) tool = Some rt" "authorize (gw_policy g) (c_identity c) tool" for rt
    by (rule list_names_readable [OF gw_list_tools_Go(3) [OF l]]) (use that map_of_eq_None_iff [of "gw_routes g" tool] in auto)
  have order: "sorted (map td_name defs)" "distinct (map td_name defs)"
    unfolding names by (auto intro: sorted_wrt_filter)
  have yes: "res \<notin> Inl ` denials" if "tool \<in> set (map td_name defs)"
  proof -
    from that listed obtain rt where rt: "map_of (gw_routes g) tool = Some rt" "authorize (gw_policy g) (c_identity c) tool"
      "admit_route (ce_quarantine_fault e) (gw_policy g) (c_identity c) tool rt (gw_quarantine g) = None" by auto
    with pass_gates_listed [OF block rt] d show ?thesis by (auto dest: dispatch_denial)
  qed
  have no: "gw_sent g' = gw_sent g \<and> res \<in> insert (Inl DInternal) (Inl ` denials)" if "tool \<notin> set (map td_name defs)"
  proof -
    have "(\<exists>err g1. pass_gates L e c tool g = Stop err g1 \<and> err \<in> denials) \<or> pass_gates L e c tool g = Panicked g"
    proof (rule pass_gates_unlisted [OF block])
      fix rt assume "map_of (gw_routes g) tool = Some rt" "authorize (gw_policy g) (c_identity c) tool"
      with that listed readable show "admit_route (ce_quarantine_fault e) (gw_policy g) (c_identity c) tool rt (gw_quarantine g)
          \<in> {Some AdmitQuarantined, Some AdmitSensitive}"
        by (cases "?admits tool") (auto split: admit_refusal.splits intro: admit_refusal.exhaust)
    qed
    then show ?thesis
    proof (elim disjE exE conjE)
      fix err g1 assume p: "pass_gates L e c tool g = Stop err g1" "err \<in> denials"
      with d have "res = Inl err" "g' = g1" by (auto simp: dispatch_def)
      moreover have "quiet g g1" using pass_gates_Stop [OF p(1) ok(1)] by (simp add: refused_once_def)
      ultimately show ?thesis using p(2) quiet_fields(10) by auto
    next
      assume "pass_gates L e c tool g = Panicked g"
      with d have "res = Inl DInternal" "g' = record_panic L e c tool (target_of tool) False g"
        by (auto simp: dispatch_def contain_panic_def)
      with settles_fields(9) [OF audit_settles(3)] show ?thesis by simp
    qed
  qed
  from order yes no show ?thesis by (auto simp: denials_def)
qed

theorem listing_agrees_with_dispatch_witness:
  "\<exists>defs. gw_list_tools sample_env (c_identity sample_caller) sample_gw = Go (Inr defs) sample_gw
     \<and> map td_name defs = [''threatintel.lookup_ip'']
     \<and> gw_sent (snd (dispatch sample_libs sample_env sample_caller ''threatintel.close'' ''{}'' sample_gw)) = []"
proof -
  have "unblocked sample_env sample_caller sample_gw" using sample_gates_open by (simp add: gates_open_def)
  with check_block_cases [of sample_env sample_caller sample_gw]
  have block: "gw_check_block sample_env (id_subject (c_identity sample_caller)) sample_gw = Go None sample_gw"
    by (auto simp: gw_check_block_def gw_read_block_def sample_env_def unblocked_def split: sum.splits bool.splits if_splits)
  have route: "gw_routes sample_gw = [(''threatintel.lookup_ip'', sample_route)]" by (simp add: sample_gw_def)
  have open_gate: "authorize (gw_policy sample_gw) (c_identity sample_caller) ''threatintel.lookup_ip''"
    "admit_route (ce_quarantine_fault sample_env) (gw_policy sample_gw) (c_identity sample_caller) ''threatintel.lookup_ip'' sample_route
      (gw_quarantine sample_gw) = None"
    using sample_gates_open by (simp_all add: gates_open_def)
  define defs where "defs = [\<lparr>td_name = ''threatintel.lookup_ip'', td_description = ''d'', td_input = ''{}'', td_output = [], td_class = []\<rparr>]"
  have l: "gw_list_tools sample_env (c_identity sample_caller) sample_gw = Go (Inr defs) sample_gw"
    using block open_gate
    by (simp add: gw_list_tools_def route defs_def) (simp add: sample_gw_def sample_route_def)
  obtain res g' where d: "dispatch sample_libs sample_env sample_caller ''threatintel.close'' ''{}'' sample_gw = (res, g')" by fastforce
  have unlisted: "''threatintel.close'' \<notin> set (map td_name defs)" by (simp add: defs_def)
  have "gw_sent g' = gw_sent sample_gw"
    using listing_agrees_with_dispatch [OF l d sample_gw_ok] unlisted by (simp only: if_not_P if_False)
  with l d show ?thesis by (auto simp: defs_def sample_gw_def)
qed

end
