(* ===== verification/Dispatch_Slots.thy ===== *)
theory Dispatch_Slots
  imports Dispatch_Steps "HOL-Library.Multiset"
begin

text \<open>
  The concurrency slots of \<open>internal/gateway/resilience.go\<close> under interleaving. Calls of several analysts run at the same time: each takes its
  slot with \<open>acquire\<close>, under the mutex, and gives it back once with \<open>release\<close>, in any order. The state is the table of the code beside the
  multiset of the subjects whose calls are in flight.
\<close>

type_synonym slot_state = "(string \<times> int) list \<times> string multiset"

inductive slot_step :: "int \<Rightarrow> slot_state \<Rightarrow> slot_state \<Rightarrow> bool" for cap :: int where
  take: "acquire cap s m = Some m' \<Longrightarrow> slot_step cap (m, F) (m', add_mset s F)"
| turned_away: "acquire cap s m = None \<Longrightarrow> slot_step cap (m, F) (m, F)"
| give: "s \<in># F \<Longrightarrow> slot_step cap (m, F) (release s m, F - {#s#})"

inductive_cases slot_stepE: "slot_step cap (m, F) st"

definition slots_count :: "int \<Rightarrow> slot_state \<Rightarrow> bool" where
  "slots_count cap st =
     (slots_ok (fst st) \<and> (\<forall>s. in_use (fst st) s = int (count (snd st) s)) \<and> (\<forall>s. count (snd st) s = 0 \<or> int (count (snd st) s) \<le> cap))"

lemma in_use_update: "in_use (AList.update s n m) t = (if t = s then n else in_use m t)"
  by (simp add: in_use_def update_conv')

lemma in_use_delete: "in_use (AList.delete s m) t = (if t = s then 0 else in_use m t)"
  by (simp add: in_use_def delete_conv')

lemma slots_ok_update: "slots_ok m \<Longrightarrow> 0 < n \<Longrightarrow> slots_ok (AList.update s n m)"
proof -
  have "list_all (\<lambda>x. 0 < snd x) m \<Longrightarrow> 0 < n \<Longrightarrow> list_all (\<lambda>x. 0 < snd x) (AList.update s n m)" by (induction m) auto
  then show "slots_ok m \<Longrightarrow> 0 < n \<Longrightarrow> slots_ok (AList.update s n m)" by (simp add: slots_ok_def AList.distinct_update)
qed

lemma slots_ok_delete: "slots_ok m \<Longrightarrow> slots_ok (AList.delete s m)"
  by (auto simp: slots_ok_def list_all_iff AList.delete_eq distinct_map_filter)

lemma in_use_release: "slots_ok m \<Longrightarrow> 0 < in_use m s \<Longrightarrow> in_use (release s m) t = in_use m t - (if t = s then 1 else 0)"
  by (auto simp: release_def in_use_update in_use_delete)

lemma slots_ok_release: "slots_ok m \<Longrightarrow> slots_ok (release s m)"
  by (auto simp: release_def intro: slots_ok_update slots_ok_delete)

lemma slot_step_count:
  assumes "slot_step cap st st'" "slots_count cap st"
  shows "slots_count cap st'"
  using assms
proof (cases rule: slot_step.cases)
  case (take s m m' F)
  then have m': "m' = AList.update s (in_use m s + 1) m" and room: "in_use m s < cap"
    by (auto simp: acquire_def split: if_splits)
  from take assms(2) have inv: "slots_ok m" "\<And>t. in_use m t = int (count F t)" "\<And>t. count F t = 0 \<or> int (count F t) \<le> cap"
    by (auto simp: slots_count_def)
  have "slots_ok m'" unfolding m' by (rule slots_ok_update) (simp_all add: inv)
  with take inv room m' show ?thesis by (auto simp: slots_count_def in_use_update)
next
  case (give s F m)
  from give assms(2) have inv: "slots_ok m" "\<And>t. in_use m t = int (count F t)" "\<And>t. count F t = 0 \<or> int (count F t) \<le> cap"
    by (auto simp: slots_count_def)
  from give(3) have "0 < in_use m s" by (simp add: inv(2))
  from in_use_release [OF inv(1) this] have "in_use (release s m) t = int (count (F - {#s#}) t)" for t
    using give(3) by (auto simp: inv(2) of_nat_diff Suc_leI)
  moreover have "count (F - {#s#}) t = 0 \<or> int (count (F - {#s#}) t) \<le> cap" for t
    using inv(3) [of t] by auto
  ultimately show ?thesis using give inv slots_ok_release by (auto simp: slots_count_def)
qed auto

text \<open>
  C16 (invariant): however the calls of any number of analysts interleave, the table counts exactly the calls in flight of each, none of them ever has more
  in flight than the limit, a call is turned away exactly when its analyst has the limit in flight, and an analyst with none in flight
  has no entry, so the table never outgrows the analysts at work.
\<close>
theorem slots_count_calls_in_flight:
  assumes "(slot_step cap)\<^sup>*\<^sup>* ([], {#}) (m, F)"
  shows "in_use m s = int (count F s) \<and> (count F s = 0 \<or> int (count F s) \<le> cap)
    \<and> (acquire cap s m = None \<longleftrightarrow> cap \<le> int (count F s)) \<and> (s \<in> fst ` set m \<longleftrightarrow> s \<in># F)"
proof -
  have "slots_count cap (m, F)"
    using assms
  proof (induction rule: rtranclp_induct)
    case base
    show ?case by (simp add: slots_count_def slots_ok_def in_use_def)
  qed (rule slot_step_count)
  then have inv: "slots_ok m" "in_use m s = int (count F s)" "count F s = 0 \<or> int (count F s) \<le> cap"
    by (auto simp: slots_count_def)
  have "s \<in> fst ` set m \<longleftrightarrow> 0 < in_use m s"
    using slots_ok_pos [OF inv(1), of s] map_of_eq_None_iff [of m s]
    by (cases "map_of m s") (auto simp: in_use_def)
  also have "\<dots> \<longleftrightarrow> s \<in># F" by (simp add: inv(2))
  finally show ?thesis using inv by (simp add: acquire_def)
qed

theorem slots_count_calls_in_flight_witness:
  "acquire 1 ''ana'' [(''ana'', 1)] = None \<longleftrightarrow> 1 \<le> int (count {#''ana''#} ''ana'')"
proof -
  have "slot_step 1 ([], {#}) ([(''ana'', 1)], add_mset ''ana'' {#})"
    by (rule slot_step.take) (simp add: acquire_def in_use_def)
  then have "(slot_step 1)\<^sup>*\<^sup>* ([], {#}) ([(''ana'', 1)], {#''ana''#})" by simp
  from slots_count_calls_in_flight [OF this, of "''ana''"] show ?thesis by blast
qed

end
