(* ===== verification/Routes.thy ===== *)
theory Routes
  imports Dispatch_Steps Schema Signer
begin

text \<open>
  Model of how \<open>internal/gateway/endpoint.go\<close> and \<open>internal/gateway/health.go\<close> build a routing table: \<open>routesFor\<close>, \<open>stableRoutesFor\<close>,
  \<open>recordListing\<close>, \<open>mergeRoutes\<close>, \<open>routesOf\<close>, \<open>UndeclaredQuotaTools\<close>, \<open>withholdUndeclaredQuotaTools\<close>, \<open>quotaCoverage\<close>, \<open>verifyEntry\<close> and
  \<open>specChanged\<close>. Go maps are association lists; where the code sorts the keys of a map first, so does the model.

  A row the gateway writes about itself is collected, in the order in which the code writes it: nothing in a round reads the trail.
\<close>

type_synonym table = "(string \<times> routed) list"

text \<open>The tool, the upstream, the outcome and the reason of a row the gateway records about itself.\<close>

type_synonym gateway_row = "string \<times> string \<times> string \<times> string"

section \<open>Discovery\<close>

definition max_tool_definition_bytes :: int where
  "max_tool_definition_bytes = 65536"

definition definition_size :: "tool_def \<Rightarrow> int" where
  "definition_size d = int (length (td_name d)) + int (length (td_description d)) + int (length (td_input d)) + int (length (td_output d))"

definition identity_of :: "tool_def \<Rightarrow> tool_identity" where
  "identity_of d = \<lparr>ti_name = td_name d, ti_description = td_description d, ti_input_schema = td_input d, ti_output_schema = td_output d\<rparr>"

datatype route_failure =
    BadToolName string string
  | DefinitionTooLarge string string int
  | BadInputSchema string string schema_problem
  | BadOutputSchema string string
  | ObserveFailed string string qerror
  | AdvertisedTwice string string
  | Collides string string
  | UndeclaredTools "string list"

record upstream_routes =
  ur_routes :: table
  ur_failures :: "route_failure list"
  ur_unmeasured :: bool

text \<open>What the outside decides while tools are observed: the schema library, the digest, the statements the store refuses and its clock.\<close>

record discovery =
  dc_lib :: schema_lib
  dc_digest :: digest
  dc_fault :: qfault
  dc_definition_fault :: "string \<Rightarrow> bool"
  dc_now :: int

record observing =
  ob_out :: upstream_routes
  ob_dupes :: "string list"
  ob_rows :: "gateway_row list"
  ob_store :: qstore

definition reason_tool_first_seen :: string where "reason_tool_first_seen = ''tool first seen''"
definition reason_tool_changed :: string where "reason_tool_changed = ''tool changed''"

definition quarantine_event_rows :: "string \<Rightarrow> observation \<Rightarrow> gateway_row list" where
  "quarantine_event_rows upstream obs =
     (let t = o_tool obs; name = namespaced upstream (t_tool t)
      in case o_event obs of
           EventFirstSeen \<Rightarrow> [(name, upstream, outcome_denied, reason_tool_first_seen @ '': sha256:'' @ t_observed t)]
         | EventChanged \<Rightarrow>
             [(name, upstream, outcome_denied,
               reason_tool_changed @ '': sha256:'' @ t_approved t @ '' -> sha256:'' @ t_observed t)]
         | EventNone \<Rightarrow> [])"

definition fail_tool :: "route_failure \<Rightarrow> observing \<Rightarrow> observing" where
  "fail_tool f s = s\<lparr>ob_out := (ob_out s)\<lparr>ur_failures := ur_failures (ob_out s) @ [f]\<rparr>\<rparr>"

definition add_route :: "string \<Rightarrow> tool_def \<Rightarrow> (string \<Rightarrow> bool) option \<Rightarrow> observing \<Rightarrow> observing" where
  "add_route upstream d schema s =
     (let name = namespaced upstream (td_name d)
      in if map_of (ur_routes (ob_out s)) name \<noteq> None
         then fail_tool (AdvertisedTwice upstream name) (s\<lparr>ob_dupes := name # ob_dupes s\<rparr>)
         else s\<lparr>ob_out := (ob_out s)\<lparr>ur_routes := ur_routes (ob_out s) @
                  [(name, \<lparr>rt_upstream = upstream, rt_original = td_name d, rt_def = d, rt_output = schema\<rparr>)]\<rparr>\<rparr>)"

definition observe_tool :: "discovery \<Rightarrow> string \<Rightarrow> tool_def \<Rightarrow> observing \<Rightarrow> observing" where
  "observe_tool D upstream d s =
     (if \<not> valid_tool_name (td_name d) then fail_tool (BadToolName upstream (td_name d)) s
      else if definition_size d > max_tool_definition_bytes
      then fail_tool (DefinitionTooLarge upstream (td_name d) (definition_size d)) s
      else case validate_schema (dc_lib D) (td_input d) of
        Some problem \<Rightarrow> fail_tool (BadInputSchema upstream (td_name d) problem) s
      | None \<Rightarrow>
          (case resolve_output_schema (dc_lib D) (td_output d) of
             None \<Rightarrow> fail_tool (BadOutputSchema upstream (td_name d)) s
           | Some schema \<Rightarrow>
               (case observe (dc_digest D) (dc_fault D) (dc_now D) upstream (identity_of d) (td_class d) (ob_store s) of
                  (Inl err, st) \<Rightarrow>
                    (let s = fail_tool (ObserveFailed upstream (td_name d) err) (s\<lparr>ob_store := st\<rparr>)
                     in s\<lparr>ob_out := (ob_out s)\<lparr>ur_unmeasured := True\<rparr>\<rparr>)
                | (Inr obs, st) \<Rightarrow>
                    add_route upstream d schema
                      (s\<lparr>ob_store := st, ob_rows := ob_rows s @ quarantine_event_rows upstream obs\<rparr>))))"

definition routes_for :: "discovery \<Rightarrow> string \<Rightarrow> tool_def list \<Rightarrow> qstore \<Rightarrow> upstream_routes \<times> gateway_row list \<times> qstore" where
  "routes_for D upstream defs st =
     (let s = fold (observe_tool D upstream) defs
                \<lparr>ob_out = \<lparr>ur_routes = [], ur_failures = [], ur_unmeasured = False\<rparr>, ob_dupes = [], ob_rows = [], ob_store = st\<rparr>
      in ((ob_out s)\<lparr>ur_routes := filter (\<lambda>x. fst x \<notin> set (ob_dupes s)) (ur_routes (ob_out s))\<rparr>, ob_rows s, ob_store s))"

section \<open>The last live listing\<close>

type_synonym listed_tool = "string \<times> string"

fun listed_as :: "digest \<Rightarrow> string \<times> routed \<Rightarrow> listed_tool" where
  "listed_as H (name, rt) = (rt_original rt, tool_hash H (identity_of (rt_def rt)))"

definition listing_of :: "digest \<Rightarrow> table \<Rightarrow> listed_tool list" where
  "listing_of H routes = sort_key fst (map (listed_as H) routes)"

datatype stable_answer = StableSkip | StableUnmeasured | StableRoute routed

definition stable_tool :: "discovery \<Rightarrow> string \<Rightarrow> qstore \<Rightarrow> listed_tool \<Rightarrow> stable_answer" where
  "stable_tool D upstream st lt =
     (case get_tool (dc_fault D) upstream (fst lt) st of
        Inl err \<Rightarrow> if err = ErrNotFound then StableSkip else StableUnmeasured
      | Inr t \<Rightarrow>
          if \<not> usable t \<or> t_approved t \<noteq> snd lt then StableSkip
          else if dc_definition_fault D (snd lt) then StableUnmeasured
          else case definition_of (dc_digest D) (snd lt) st of
            Inl err \<Rightarrow> if err = ErrDefinitionNotKept \<or> err = ErrDefinitionMismatch then StableSkip else StableUnmeasured
          | Inr i \<Rightarrow>
              (let d = \<lparr>td_name = ti_name i, td_description = ti_description i, td_input = ti_input_schema i,
                        td_output = ti_output_schema i, td_class = t_class t\<rparr>
               in if td_name d \<noteq> fst lt \<or> \<not> valid_tool_name (td_name d) \<or> definition_size d > max_tool_definition_bytes
                     \<or> validate_schema (dc_lib D) (td_input d) \<noteq> None
                  then StableSkip
                  else case resolve_output_schema (dc_lib D) (td_output d) of
                    None \<Rightarrow> StableSkip
                  | Some schema \<Rightarrow>
                      StableRoute \<lparr>rt_upstream = upstream, rt_original = td_name d, rt_def = d, rt_output = schema\<rparr>))"

definition add_stable :: "string \<Rightarrow> stable_answer \<Rightarrow> upstream_routes \<Rightarrow> upstream_routes" where
  "add_stable upstream s out =
     (case s of
        StableSkip \<Rightarrow> out
      | StableUnmeasured \<Rightarrow> out\<lparr>ur_unmeasured := True\<rparr>
      | StableRoute rt \<Rightarrow> out\<lparr>ur_routes := AList.update (namespaced upstream (rt_original rt)) rt (ur_routes out)\<rparr>)"

definition stable_routes_for :: "discovery \<Rightarrow> string \<Rightarrow> listed_tool list \<Rightarrow> qstore \<Rightarrow> upstream_routes" where
  "stable_routes_for D upstream listed st =
     fold (\<lambda>lt. add_stable upstream (stable_tool D upstream st lt)) listed
       \<lparr>ur_routes = [], ur_failures = [], ur_unmeasured = False\<rparr>"

section \<open>One table\<close>

text \<open>What every upstream claims, in the order of the two nested loops: upstreams by name, and the names of each.\<close>

fun claims_of :: "string \<times> table \<Rightarrow> (string \<times> string \<times> routed) list" where
  "claims_of (upstream, routes) = map (\<lambda>(name, rt). (upstream, name, rt)) (sort_key fst routes)"

definition claims :: "(string \<times> table) list \<Rightarrow> (string \<times> string \<times> routed) list" where
  "claims candidates = concat (map claims_of (sort_key fst candidates))"

definition merge_claim ::
  "string \<times> string \<times> routed \<Rightarrow> table \<times> string list \<times> route_failure list \<Rightarrow> table \<times> string list \<times> route_failure list" where
  "merge_claim claim acc =
     (case (claim, acc) of ((upstream, name, rt), (merged, collisions, failures)) \<Rightarrow>
        if map_of merged name \<noteq> None then (merged, name # collisions, failures @ [Collides upstream name])
        else (merged @ [(name, rt)], collisions, failures))"

definition merge_routes :: "(string \<times> table) list \<Rightarrow> table \<times> route_failure list" where
  "merge_routes candidates =
     (case fold merge_claim (claims candidates) ([], [], []) of (merged, collisions, failures) \<Rightarrow>
        (filter (\<lambda>x. fst x \<notin> set collisions) merged, failures))"

definition routes_of :: "table \<Rightarrow> string \<Rightarrow> table" where
  "routes_of routes upstream = filter (\<lambda>x. rt_upstream (snd x) = upstream) routes"

section \<open>The plan and the fleet\<close>

definition budgeted :: "plan \<Rightarrow> string list" where
  "budgeted p = map pv_upstream (pl_providers p)"

definition undeclared_quota_tools :: "plan \<Rightarrow> string list \<Rightarrow> string list" where
  "undeclared_quota_tools p served =
     (if pl_providers p = [] then []
      else sort (filter (\<lambda>tool. case split_namespaced tool of
                    None \<Rightarrow> False
                  | Some (upstream, _) \<Rightarrow> upstream \<in> set (budgeted p) \<and> \<not> is_declared p tool) served))"

definition withhold_undeclared :: "plan \<Rightarrow> table \<Rightarrow> table \<times> route_failure list" where
  "withhold_undeclared p routes =
     (let undeclared = undeclared_quota_tools p (map fst routes)
      in if undeclared = [] then (routes, [])
         else (filter (\<lambda>x. fst x \<notin> set undeclared) routes, [UndeclaredTools undeclared]))"

datatype coverage_problem = UpstreamNotRegistered string string | SharedCredential string string string

definition not_registered :: "plan \<Rightarrow> upstream list \<Rightarrow> coverage_problem list" where
  "not_registered p entries =
     map (\<lambda>q. UpstreamNotRegistered (pv_name q) (pv_upstream q))
       (filter (\<lambda>q. pv_upstream q \<notin> set (map up_name entries)) (pl_providers p))"

text \<open>The entries that declare a variable, once for each time they declare it.\<close>

definition by_env_var :: "upstream list \<Rightarrow> string \<Rightarrow> string list" where
  "by_env_var entries var = concat (map (\<lambda>s. map (\<lambda>_. up_name s) (filter (\<lambda>v. v = var) (up_env s))) entries)"

definition shared_credentials :: "plan \<Rightarrow> upstream list \<Rightarrow> (string \<times> string \<times> string) list" where
  "shared_credentials p entries =
     concat (map (\<lambda>s. concat (map (\<lambda>var. map (\<lambda>other. (up_name s, other, var))
         (filter (\<lambda>other. other \<noteq> up_name s \<and> other \<notin> set (budgeted p)) (by_env_var entries var))) (up_env s)))
       (filter (\<lambda>s. up_name s \<in> set (budgeted p)) entries))"

definition quota_coverage :: "plan \<Rightarrow> upstream list \<Rightarrow> string list \<times> coverage_problem list" where
  "quota_coverage p entries =
     (if pl_providers p = [] then ([], [])
      else let shared = shared_credentials p entries;
               problems = not_registered p entries @ map (\<lambda>(s, other, var). SharedCredential s other var) shared
           in if problems = [] then ([], []) else (map (\<lambda>(_, other, _). other) shared, problems))"

section \<open>Entries\<close>

record signing =
  sn_store :: "sig_db option"
  sn_broken :: bool
  sn_verify :: "string \<Rightarrow> string \<Rightarrow> string \<Rightarrow> bool"
  sn_digest :: digest
  sn_trusted :: "string list"
  sn_required :: bool

datatype entry_check = EntryOk | EntryUnsigned | EntryUnmeasured | EntryInvalid verdict

definition verify_entry :: "signing \<Rightarrow> upstream \<Rightarrow> entry_check" where
  "verify_entry S s =
     (case sn_store S of
        None \<Rightarrow> EntryOk
      | Some db \<Rightarrow>
          (case get_signature (sn_broken S) (up_name s) db of
             Inl err \<Rightarrow>
               if err = SigNotFound then (if sn_required S then EntryUnsigned else EntryOk) else EntryUnmeasured
           | Inr sig \<Rightarrow>
               (let v = verify (sn_verify S) (sn_digest S) (sn_trusted S) s sig
                in if v = Verified then EntryOk else EntryInvalid v)))"

text \<open>What a dialler is handed.\<close>

record upstream_spec =
  us_name :: string
  us_transport :: string
  us_command :: string
  us_args :: "string list"
  us_url :: string
  us_image :: string
  us_auth_kind :: string
  us_auth_name :: string
  us_operations :: string

definition spec_for :: "upstream \<Rightarrow> upstream_spec" where
  "spec_for s = \<lparr>us_name = up_name s, us_transport = up_transport s, us_command = up_command s, us_args = up_args s, us_url = up_url s,
     us_image = up_image s, us_auth_kind = up_auth_kind s, us_auth_name = up_auth_name s, us_operations = up_operations s\<rparr>"

definition spec_changed :: "upstream \<Rightarrow> upstream \<Rightarrow> bool" where
  "spec_changed was now =
     (up_transport was \<noteq> up_transport now \<or> up_command was \<noteq> up_command now \<or> up_url was \<noteq> up_url now
      \<or> up_image was \<noteq> up_image now \<or> up_args was \<noteq> up_args now \<or> up_env was \<noteq> up_env now)"

end
