(* ===== verification/Routes_Safety.thy ===== *)
theory Routes_Safety
  imports Routes Quarantine_History
begin

text \<open>
  What a table the gateway builds guarantees: every name reads as the backend that serves it, every served definition is the one that was just
  observed, a name two backends claim is served by neither, and no undeclared tool of a budgeted backend is in it.
\<close>

section \<open>Routes of one backend\<close>

definition route_wf :: "schema_lib \<Rightarrow> string \<Rightarrow> string \<times> routed \<Rightarrow> bool" where
  "route_wf S upstream x =
     (rt_upstream (snd x) = upstream \<and> fst x = namespaced upstream (rt_original (snd x)) \<and> rt_original (snd x) = td_name (rt_def (snd x))
      \<and> valid_tool_name (rt_original (snd x)) \<and> definition_size (rt_def (snd x)) \<le> max_tool_definition_bytes
      \<and> validate_schema S (td_input (rt_def (snd x))) = None
      \<and> resolve_output_schema S (td_output (rt_def (snd x))) = Some (rt_output (snd x)))"

lemma observe_rows:
  assumes inv: "qs_inv H st" and obs: "observe H fault now u t cl st = (Inr ob, st')"
  shows "row st' s n = (if (s, n) = (u, ti_name t) then Some (o_tool ob) else row st s n)"
    and "t_observed (o_tool ob) = tool_hash H t" "t_class (o_tool ob) = cl"
proof -
  note o = observe_Inr [OF inv obs]
  let ?st = "with_definition (tool_hash H t) t now st"
  have "row st' s n = (if (s, n) = (u, ti_name t) then Some (o_tool ob) else row st s n)
      \<and> t_observed (o_tool ob) = tool_hash H t \<and> t_class (o_tool ob) = cl"
  proof (cases "row st u (ti_name t)")
    case None
    with o have new: "o_tool ob = new_tool u (ti_name t) (tool_hash H t) cl now"
      and st': "st' = ?st\<lparr>qs_tools := qs_tools ?st @ [o_tool ob]\<rparr>" by simp_all
    have key: "tool_key (o_tool ob) = (u, ti_name t)" unfolding new by (simp add: new_tool_def tool_key_def)
    have "row st' s n = (if (s, n) = (u, ti_name t) then Some (o_tool ob) else row st s n)"
      unfolding st' row_append key using None by (auto split: option.splits)
    then show ?thesis unfolding new by (simp add: new_tool_def)
  next
    case (Some prev)
    with o have ob: "observed prev (tool_hash H t) cl now = Inr (o_tool ob)"
      and st': "st' = pruned [t_observed prev, t_approved prev] (replace_row (o_tool ob) ?st)" by simp_all
    have "row ?st u (ti_name t) = Some prev" using Some by simp
    from one_row_effect [OF this observed_Inr(1) [OF ob]] observed_Inr(5,6) [OF ob] show ?thesis
      unfolding st' by simp
  qed
  then show "row st' s n = (if (s, n) = (u, ti_name t) then Some (o_tool ob) else row st s n)"
    "t_observed (o_tool ob) = tool_hash H t" "t_class (o_tool ob) = cl" by blast+
qed

lemma observe_refused: "observe H fault now u t cl st = (Inl e, st') \<Longrightarrow> st' = st"
  by (auto simp: observe_def split: if_splits dest: transact_Inl)

text \<open>The definition a route serves is the one the quarantine last observed for it.\<close>

definition route_observed :: "digest \<Rightarrow> qstore \<Rightarrow> routed \<Rightarrow> bool" where
  "route_observed H st rt =
     (\<exists>t. row st (rt_upstream rt) (rt_original rt) = Some t \<and> t_observed t = tool_hash H (identity_of (rt_def rt))
        \<and> t_class t = td_class (rt_def rt))"

definition observing_inv :: "discovery \<Rightarrow> string \<Rightarrow> qstore \<Rightarrow> observing \<Rightarrow> bool" where
  "observing_inv D upstream st0 s =
     (qs_inv (dc_digest D) (ob_store s)
      \<and> (\<forall>x\<in>set (ur_routes (ob_out s)). route_wf (dc_lib D) upstream x)
      \<and> distinct (map fst (ur_routes (ob_out s)))
      \<and> (\<forall>x\<in>set (ur_routes (ob_out s)). fst x \<in> set (ob_dupes s) \<or> route_observed (dc_digest D) (ob_store s) (snd x))
      \<and> (\<forall>s' n. s' \<noteq> upstream \<longrightarrow> row (ob_store s) s' n = row st0 s' n))"

lemma fail_tool_simps [simp]:
  "ur_routes (ob_out (fail_tool f s)) = ur_routes (ob_out s)" "ob_dupes (fail_tool f s) = ob_dupes s"
  "ob_store (fail_tool f s) = ob_store s" "ob_rows (fail_tool f s) = ob_rows s"
  "ur_unmeasured (ob_out (fail_tool f s)) = ur_unmeasured (ob_out s)"
  by (simp_all add: fail_tool_def)

lemma observing_inv_fail [simp]: "observing_inv D u st0 (fail_tool f s) = observing_inv D u st0 s"
  by (simp add: observing_inv_def)

lemma namespaced_same: "namespaced u a = namespaced u b \<longleftrightarrow> a = b"
  by (simp add: namespaced_def)

lemma route_observed_step:
  assumes "qs_inv H st" "observe H fault now u (identity_of d) cl st = (Inr ob, st')"
    and "route_wf S u x" "fst x \<noteq> namespaced u (td_name d)" "route_observed H st (snd x)"
  shows "route_observed H st' (snd x)"
proof -
  have "rt_original (snd x) \<noteq> td_name d" "rt_upstream (snd x) = u" using assms(3,4) by (auto simp: route_wf_def)
  then have "row st' (rt_upstream (snd x)) (rt_original (snd x)) = row st (rt_upstream (snd x)) (rt_original (snd x))"
    using observe_rows(1) [OF assms(1,2)] by (simp add: identity_of_def)
  with assms(5) show ?thesis by (simp add: route_observed_def)
qed

lemma add_route_inv:
  assumes inv: "observing_inv D u st0 s" and H: "digest32 (dc_digest D)"
    and obs: "observe (dc_digest D) fault now u (identity_of d) (td_class d) (ob_store s) = (Inr ob, st')"
    and wf: "route_wf (dc_lib D) u (namespaced u (td_name d), \<lparr>rt_upstream = u, rt_original = td_name d, rt_def = d, rt_output = schema\<rparr>)"
  shows "observing_inv D u st0 (add_route u d schema (s\<lparr>ob_store := st', ob_rows := rows\<rparr>))"
proof -
  let ?H = "dc_digest D" and ?name = "namespaced u (td_name d)" and ?routes = "ur_routes (ob_out s)"
  let ?rt = "\<lparr>rt_upstream = u, rt_original = td_name d, rt_def = d, rt_output = schema\<rparr>"
  from inv have qinv: "qs_inv ?H (ob_store s)" and dist: "distinct (map fst ?routes)"
    and wfs: "\<And>x. x \<in> set ?routes \<Longrightarrow> route_wf (dc_lib D) u x"
    and seen: "\<And>x. x \<in> set ?routes \<Longrightarrow> fst x \<in> set (ob_dupes s) \<or> route_observed ?H (ob_store s) (snd x)"
    and others: "\<And>s' n. s' \<noteq> u \<Longrightarrow> row (ob_store s) s' n = row st0 s' n"
    by (auto simp: observing_inv_def)
  note rows = observe_rows [OF qinv obs]
  have qinv': "qs_inv ?H st'" using observe_inv [OF qinv H, of fault now u "identity_of d" "td_class d"] obs by simp
  have others': "s' \<noteq> u \<Longrightarrow> row st' s' n = row st0 s' n" for s' n using others by (simp add: rows(1))
  have still: "fst x \<in> set (?name # ob_dupes s) \<or> route_observed ?H st' (snd x)" if "x \<in> set ?routes" for x
    using seen [OF that] route_observed_step [OF qinv obs wfs [OF that]] by auto
  have new: "route_observed ?H st' ?rt" using rows by (simp add: route_observed_def identity_of_def)
  show ?thesis
  proof (cases "map_of ?routes ?name")
    case None
    then have "?name \<notin> fst ` set ?routes" by (simp add: map_of_eq_None_iff)
    with still have "\<And>x. x \<in> set ?routes \<Longrightarrow> fst x \<in> set (ob_dupes s) \<or> route_observed ?H st' (snd x)" by force
    with None \<open>?name \<notin> _\<close> qinv' others' dist wfs wf new show ?thesis
      by (auto simp: add_route_def observing_inv_def Let_def)
  next
    case (Some rt)
    with still qinv' others' dist wfs show ?thesis by (auto simp: add_route_def observing_inv_def Let_def)
  qed
qed

lemma observe_tool_inv:
  assumes inv: "observing_inv D u st0 s" and H: "digest32 (dc_digest D)"
  shows "observing_inv D u st0 (observe_tool D u d s)"
proof (cases "\<not> valid_tool_name (td_name d) \<or> definition_size d > max_tool_definition_bytes
    \<or> validate_schema (dc_lib D) (td_input d) \<noteq> None \<or> resolve_output_schema (dc_lib D) (td_output d) = None")
  case True
  with inv show ?thesis by (auto simp: observe_tool_def split: option.splits)
next
  case False
  then obtain schema where ok: "valid_tool_name (td_name d)" "definition_size d \<le> max_tool_definition_bytes"
    "validate_schema (dc_lib D) (td_input d) = None" "resolve_output_schema (dc_lib D) (td_output d) = Some schema" by auto
  obtain res st' where obs: "observe (dc_digest D) (dc_fault D) (dc_now D) u (identity_of d) (td_class d) (ob_store s) = (res, st')"
    by fastforce
  show ?thesis
  proof (cases res)
    case (Inl err)
    with obs have "st' = ob_store s" by (auto dest: observe_refused)
    with ok obs Inl inv show ?thesis by (simp add: observe_tool_def Let_def) (simp add: observing_inv_def)
  next
    case (Inr ob)
    have "route_wf (dc_lib D) u (namespaced u (td_name d), \<lparr>rt_upstream = u, rt_original = td_name d, rt_def = d, rt_output = schema\<rparr>)"
      using ok by (simp add: route_wf_def)
    from add_route_inv [OF inv H obs [unfolded Inr] this] ok obs Inr show ?thesis
      by (simp add: observe_tool_def)
  qed
qed

lemma fold_observe_inv:
  "observing_inv D u st0 s \<Longrightarrow> digest32 (dc_digest D) \<Longrightarrow> observing_inv D u st0 (fold (observe_tool D u) defs s)"
  by (induction defs arbitrary: s) (auto intro: observe_tool_inv)

lemma routes_for_spec:
  assumes "routes_for D u defs st = (out, rows, st')" "qs_inv (dc_digest D) st" "digest32 (dc_digest D)"
  shows "qs_inv (dc_digest D) st'" "distinct (map fst (ur_routes out))"
    "x \<in> set (ur_routes out) \<Longrightarrow> route_wf (dc_lib D) u x \<and> route_observed (dc_digest D) st' (snd x)"
    "s' \<noteq> u \<Longrightarrow> row st' s' n = row st s' n"
proof -
  let ?start = "\<lparr>ob_out = \<lparr>ur_routes = [], ur_failures = [], ur_unmeasured = False\<rparr>, ob_dupes = [], ob_rows = [], ob_store = st\<rparr>"
  let ?s = "fold (observe_tool D u) defs ?start"
  have "observing_inv D u st ?start" using assms(2) by (simp add: observing_inv_def)
  from fold_observe_inv [OF this assms(3)] have inv: "observing_inv D u st ?s" .
  have out: "ur_routes out = filter (\<lambda>x. fst x \<notin> set (ob_dupes ?s)) (ur_routes (ob_out ?s))" "st' = ob_store ?s"
    using assms(1) by (auto simp: routes_for_def Let_def)
  show "qs_inv (dc_digest D) st'" "s' \<noteq> u \<Longrightarrow> row st' s' n = row st s' n" using inv by (simp_all add: observing_inv_def out)
  show "distinct (map fst (ur_routes out))" using inv by (simp add: observing_inv_def out distinct_map_filter)
  show "x \<in> set (ur_routes out) \<Longrightarrow> route_wf (dc_lib D) u x \<and> route_observed (dc_digest D) st' (snd x)"
    using inv by (auto simp: observing_inv_def out)
qed

section \<open>Routes of a backend that is down\<close>

text \<open>The definition such a route serves is the one an operator approved.\<close>

definition route_approved :: "digest \<Rightarrow> qstore \<Rightarrow> routed \<Rightarrow> bool" where
  "route_approved H st rt =
     (\<exists>t. row st (rt_upstream rt) (rt_original rt) = Some t \<and> usable t \<and> t_approved t = tool_hash H (identity_of (rt_def rt))
        \<and> t_class t = td_class (rt_def rt))"

lemma get_tool_row: "get_tool fault s n st = Inr t \<Longrightarrow> row st s n = Some t"
  by (auto simp: get_tool_def get_row_Inr split: sum.splits)

lemma definition_of_hash: "definition_of H h st = Inr i \<Longrightarrow> tool_hash H i = h"
  by (auto simp: definition_of_def split: option.splits if_splits)

lemma stable_tool_route:
  assumes "stable_tool D u st lt = StableRoute rt"
  shows "route_wf (dc_lib D) u (namespaced u (rt_original rt), rt)" "route_approved (dc_digest D) st rt"
proof -
  have i: "identity_of \<lparr>td_name = n, td_description = ti_description i, td_input = ti_input_schema i,
      td_output = ti_output_schema i, td_class = cl\<rparr> = i" if "ti_name i = n" for i :: tool_identity and cl n
    using that by (auto simp: identity_of_def)
  have "route_wf (dc_lib D) u (namespaced u (rt_original rt), rt) \<and> route_approved (dc_digest D) st rt"
    using assms
    by (auto simp: stable_tool_def Let_def route_wf_def route_approved_def i
        dest!: get_tool_row definition_of_hash split: sum.splits option.splits if_splits)
  then show "route_wf (dc_lib D) u (namespaced u (rt_original rt), rt)" "route_approved (dc_digest D) st rt" by auto
qed

lemma update_elem: "x \<in> set (AList.update k v xs) \<Longrightarrow> x = (k, v) \<or> x \<in> set xs"
  by (induction xs) (auto split: if_splits)

lemma stable_routes_spec:
  "distinct (map fst (ur_routes (stable_routes_for D u listed st)))"
  "x \<in> set (ur_routes (stable_routes_for D u listed st)) \<Longrightarrow> route_wf (dc_lib D) u x \<and> route_approved (dc_digest D) st (snd x)"
proof -
  let ?P = "\<lambda>out. distinct (map fst (ur_routes out))
    \<and> (\<forall>x\<in>set (ur_routes out). route_wf (dc_lib D) u x \<and> route_approved (dc_digest D) st (snd x))"
  have step: "?P (add_stable u (stable_tool D u st lt) out)" if "?P out" for lt out
  proof (cases "stable_tool D u st lt")
    case (StableRoute rt)
    let ?k = "namespaced u (rt_original rt)"
    have "route_wf (dc_lib D) u x \<and> route_approved (dc_digest D) st (snd x)"
      if "x \<in> set (AList.update ?k rt (ur_routes out))" for x
      using update_elem [OF that] \<open>?P out\<close> stable_tool_route [OF StableRoute] by (metis snd_conv)
    with that show ?thesis unfolding add_stable_def StableRoute by (simp add: AList.distinct_update)
  qed (use that in \<open>auto simp: add_stable_def\<close>)
  have "?P (stable_routes_for D u listed st)"
    unfolding stable_routes_for_def
  proof (rule fold_invariant [where Q = "\<lambda>_. True" and P = ?P])
    show "?P (add_stable u (stable_tool D u st lt) out)" if "?P out" for lt out using that by (rule step)
  qed simp_all
  then show "distinct (map fst (ur_routes (stable_routes_for D u listed st)))"
    "x \<in> set (ur_routes (stable_routes_for D u listed st)) \<Longrightarrow> route_wf (dc_lib D) u x \<and> route_approved (dc_digest D) st (snd x)"
    by auto
qed

section \<open>Merging\<close>

definition claimed :: "string \<Rightarrow> (string \<times> string \<times> routed) list \<Rightarrow> (string \<times> string \<times> routed) list" where
  "claimed name cs = filter (\<lambda>c. fst (snd c) = name) cs"

lemma merge_fold:
  "\<exists>merged collisions failures. fold merge_claim cs ([], [], []) = (merged, collisions, failures)
     \<and> distinct (map fst merged)
     \<and> (\<forall>name. map_of merged name = (case claimed name cs of [] \<Rightarrow> None | c # _ \<Rightarrow> Some (snd (snd c))))
     \<and> (\<forall>name. name \<in> set collisions \<longleftrightarrow> 1 < length (claimed name cs))"
proof (induction cs rule: rev_induct)
  case Nil
  show ?case by (simp add: claimed_def)
next
  case (snoc c cs)
  obtain u name rt where c: "c = (u, name, rt)" by (cases c)
  from snoc obtain merged collisions failures where m: "fold merge_claim cs ([], [], []) = (merged, collisions, failures)"
    "distinct (map fst merged)"
    "\<And>n. map_of merged n = (case claimed n cs of [] \<Rightarrow> None | c # _ \<Rightarrow> Some (snd (snd c)))"
    "\<And>n. n \<in> set collisions \<longleftrightarrow> 1 < length (claimed n cs)" by blast
  have cl: "claimed n (cs @ [c]) = claimed n cs @ (if n = name then [c] else [])" for n by (auto simp: claimed_def c)
  have "fold merge_claim (cs @ [c]) ([], [], []) = merge_claim c (merged, collisions, failures)" by (simp add: m(1))
  also have "\<dots> = (if claimed name cs \<noteq> [] then (merged, name # collisions, failures @ [Collides u name])
      else (merged @ [(name, rt)], collisions, failures))"
    by (simp add: merge_claim_def c m(3) split: list.splits)
  finally have next_fold: "fold merge_claim (cs @ [c]) ([], [], []) =
      (if claimed name cs \<noteq> [] then (merged, name # collisions, failures @ [Collides u name])
       else (merged @ [(name, rt)], collisions, failures))" .
  show ?case
  proof (cases "claimed name cs")
    case Nil
    then have "map_of merged name = None" by (simp add: m(3))
    then have fresh: "name \<notin> fst ` set merged" by (simp add: map_of_eq_None_iff)
    have "map_of (merged @ [(name, rt)]) n = (case claimed n (cs @ [c]) of [] \<Rightarrow> None | c # _ \<Rightarrow> Some (snd (snd c)))" for n
      unfolding cl using Nil by (cases "claimed n cs") (auto simp: m(3) map_add_def c)
    with Nil fresh m(2,4) show ?thesis unfolding next_fold by (auto simp: cl)
  next
    case (Cons d ds)
    have "map_of merged n = (case claimed n (cs @ [c]) of [] \<Rightarrow> None | c # _ \<Rightarrow> Some (snd (snd c)))" for n
      using Cons by (cases "claimed n cs") (auto simp: cl m(3))
    with Cons m(2,4) show ?thesis unfolding next_fold by (auto simp: cl)
  qed
qed

lemma map_of_filter_key: "map_of (filter (\<lambda>x. P (fst x)) xs) k = (if P k then map_of xs k else None)"
  by (induction xs) auto

lemma merge_routes_map:
  "map_of (fst (merge_routes candidates)) name = Some rt \<longleftrightarrow> (\<exists>u. claimed name (claims candidates) = [(u, name, rt)])"
  "distinct (map fst (fst (merge_routes candidates)))"
proof -
  obtain merged collisions failures where m: "fold merge_claim (claims candidates) ([], [], []) = (merged, collisions, failures)"
    "distinct (map fst merged)"
    "\<And>n. map_of merged n = (case claimed n (claims candidates) of [] \<Rightarrow> None | c # _ \<Rightarrow> Some (snd (snd c)))"
    "\<And>n. n \<in> set collisions \<longleftrightarrow> 1 < length (claimed n (claims candidates))"
    using merge_fold [of "claims candidates"] by blast
  have fst_r: "fst (merge_routes candidates) = filter (\<lambda>x. fst x \<notin> set collisions) merged"
    by (simp add: merge_routes_def m(1))
  show "distinct (map fst (fst (merge_routes candidates)))" using m(2) by (simp add: fst_r distinct_map_filter)
  have name: "\<And>c. c \<in> set (claimed name (claims candidates)) \<Longrightarrow> fst (snd c) = name" by (simp add: claimed_def)
  have "map_of (filter (\<lambda>x. fst x \<notin> set collisions) merged) name = (if name \<notin> set collisions then map_of merged name else None)"
    by (rule map_of_filter_key)
  then show "map_of (fst (merge_routes candidates)) name = Some rt \<longleftrightarrow> (\<exists>u. claimed name (claims candidates) = [(u, name, rt)])"
    unfolding fst_r using m(3,4) name
    by (cases "claimed name (claims candidates)"; cases "tl (claimed name (claims candidates))") auto
qed

lemma distinct_keys_sort: "distinct (map fst (sort_key f xs)) \<longleftrightarrow> distinct (map fst xs)"
  by (rule mset_eq_imp_distinct_iff) simp

lemma claims_spec:
  assumes "distinct (map fst candidates)" "\<And>u t. (u, t) \<in> set candidates \<Longrightarrow> distinct (map fst t)"
  shows "distinct (claims candidates)"
    and "(u, name, rt) \<in> set (claims candidates) \<longleftrightarrow> (\<exists>t. (u, t) \<in> set candidates \<and> map_of t name = Some rt)"
proof -
  let ?f = claims_of
  have "distinct (concat (map ?f cs))" if "distinct (map fst cs)" "\<And>u t. (u, t) \<in> set cs \<Longrightarrow> distinct (map fst t)"
    for cs :: "(string \<times> table) list"
    using that
  proof (induction cs)
    case (Cons c cs)
    obtain u t where c: "c = (u, t)" by (cases c)
    from Cons.prems(2) [of u t] c have "distinct (map fst t)" by simp
    then have "distinct (sort_key fst t)" by (simp add: distinct_map)
    then have "distinct (?f c)" by (auto simp: c distinct_map inj_on_def)
    moreover have "set (?f c) \<inter> set (concat (map ?f cs)) = {}" using Cons.prems(1) c by force
    moreover have "distinct (concat (map ?f cs))" by (rule Cons.IH) (use Cons.prems in auto)
    ultimately show ?case by (simp only: list.map concat.simps distinct_append)
  qed simp
  from this [of "sort_key fst candidates"] show "distinct (claims candidates)"
    using assms unfolding claims_def by (simp add: distinct_keys_sort)
  have "(u, name, rt) \<in> set (claims candidates) \<longleftrightarrow> (\<exists>t. (u, t) \<in> set candidates \<and> (name, rt) \<in> set t)"
    by (force simp: claims_def)
  with assms(2) show "(u, name, rt) \<in> set (claims candidates) \<longleftrightarrow> (\<exists>t. (u, t) \<in> set candidates \<and> map_of t name = Some rt)"
    by (auto simp: map_of_eq_Some_iff)
qed

lemma distinct_singleton: "distinct xs \<Longrightarrow> xs = [x] \<longleftrightarrow> set xs = {x}"
proof
  assume "distinct xs" "set xs = {x}"
  then have "length xs = 1" by (metis distinct_card card.empty card_insert_disjoint empty_iff finite.emptyI One_nat_def)
  then show "xs = [x]" using \<open>set xs = {x}\<close> by (cases xs) auto
qed simp

text \<open>
  (equivalence) the merged table routes a name exactly when one backend alone claims it, and then as that backend has it; a name that two or more backends claim is served
  by none of them, whatever the order in which they answered.
\<close>
theorem merge_routes_exact:
  assumes "distinct (map fst candidates)" "list_all (\<lambda>(u, t). distinct (map fst t)) candidates"
  shows "map_of (fst (merge_routes candidates)) name = Some rt \<longleftrightarrow>
    (\<exists>u t. (u, t) \<in> set candidates \<and> map_of t name = Some rt
       \<and> (\<forall>u' t'. (u', t') \<in> set candidates \<and> map_of t' name \<noteq> None \<longrightarrow> u' = u))"
proof -
  have "\<And>u t. (u, t) \<in> set candidates \<Longrightarrow> distinct (map fst t)" using assms(2) by (auto simp: list_all_iff)
  note cl = claims_spec [OF assms(1) this]
  let ?cl = "claimed name (claims candidates)"
  have dist: "distinct ?cl" using cl(1) by (simp add: claimed_def)
  have mem: "(u, n, rt') \<in> set ?cl \<longleftrightarrow> n = name \<and> (\<exists>t. (u, t) \<in> set candidates \<and> map_of t name = Some rt')" for u n rt'
    using cl(2) by (auto simp: claimed_def)
  have one: "?cl = [(u, name, rt)] \<longleftrightarrow> set ?cl = {(u, name, rt)}" for u
    using dist by (rule distinct_singleton)
  have sets: "set ?cl = {(u, name, rt)} \<longleftrightarrow> (\<exists>t. (u, t) \<in> set candidates \<and> map_of t name = Some rt)
      \<and> (\<forall>u' t'. (u', t') \<in> set candidates \<and> map_of t' name \<noteq> None \<longrightarrow> u' = u)" (is "_ \<longleftrightarrow> ?has \<and> ?alone") for u
  proof
    assume eq: "set ?cl = {(u, name, rt)}"
    then have "?has" using mem [of u name rt] by simp
    moreover have "u' = u" if "(u', t') \<in> set candidates" "map_of t' name \<noteq> None" for u' t'
    proof -
      from that obtain rt' where "(u', name, rt') \<in> set ?cl" using mem by blast
      with eq show ?thesis by simp
    qed
    ultimately show "?has \<and> ?alone" by blast
  next
    assume a: "?has \<and> ?alone"
    then obtain t where t: "(u, t) \<in> set candidates" "map_of t name = Some rt" by blast
    have "x = (u, name, rt)" if x: "x \<in> set ?cl" for x
    proof -
      obtain u' n rt' where eq: "x = (u', n, rt')" by (cases x)
      with x mem obtain t' where t': "n = name" "(u', t') \<in> set candidates" "map_of t' name = Some rt'" by blast
      with a have "u' = u" by blast
      with t t' assms(1) have "t' = t" by (auto dest: eq_key_imp_eq_value)
      with t t' eq \<open>u' = u\<close> show ?thesis by simp
    qed
    moreover have "(u, name, rt) \<in> set ?cl" using t mem by blast
    ultimately show "set ?cl = {(u, name, rt)}" by blast
  qed
  show ?thesis unfolding merge_routes_map(1) one sets by blast
qed

definition sample_routed :: "string \<Rightarrow> string \<Rightarrow> routed" where
  "sample_routed upstream tool = \<lparr>rt_upstream = upstream, rt_original = tool,
     rt_def = \<lparr>td_name = tool, td_description = [], td_input = [], td_output = [], td_class = []\<rparr>, rt_output = None\<rparr>"

theorem merge_routes_exact_witness:
  "map_of (fst (merge_routes [(''a'', [(''a.b.c'', sample_routed ''a'' ''b.c'')]), (''a.b'', [(''a.b.c'', sample_routed ''a.b'' ''c'')])])) ''a.b.c'' = None"
proof -
  let ?cs = "[(''a'', [(''a.b.c'', sample_routed ''a'' ''b.c'')]), (''a.b'', [(''a.b.c'', sample_routed ''a.b'' ''c'')])]"
  have d: "distinct (map fst ?cs)" "list_all (\<lambda>(u, t). distinct (map fst t)) ?cs" by simp_all
  have "map_of (fst (merge_routes ?cs)) ''a.b.c'' \<noteq> Some rt" for rt
  proof
    assume "map_of (fst (merge_routes ?cs)) ''a.b.c'' = Some rt"
    then obtain u where alone: "\<And>u' t'. (u', t') \<in> set ?cs \<Longrightarrow> map_of t' ''a.b.c'' \<noteq> None \<Longrightarrow> u' = u"
      unfolding merge_routes_exact [OF d] by blast
    from alone [of "''a''"] alone [of "''a.b''"] show False by fastforce
  qed
  then show ?thesis by (metis not_Some_eq)
qed

lemma merge_routes_subset:
  assumes "x \<in> set (fst (merge_routes candidates))"
  shows "\<exists>u t. (u, t) \<in> set candidates \<and> x \<in> set t"
proof -
  obtain name rt where x: "x = (name, rt)" by (cases x)
  with assms merge_routes_map(2) have "map_of (fst (merge_routes candidates)) name = Some rt" by (simp add: map_of_eq_Some_iff)
  then obtain u where "claimed name (claims candidates) = [(u, name, rt)]" by (auto simp: merge_routes_map(1))
  then have "(u, name, rt) \<in> set (claimed name (claims candidates))" by simp
  then have "(u, name, rt) \<in> set (claims candidates)" by (simp add: claimed_def)
  then show ?thesis unfolding claims_def x by force
qed

section \<open>The plan\<close>

text \<open>A tool whose backend has a budget is charged to an account or declared free.\<close>

definition declared_in :: "plan \<Rightarrow> string \<Rightarrow> bool" where
  "declared_in p tool =
     (case split_namespaced tool of None \<Rightarrow> True | Some (u, _) \<Rightarrow> u \<in> set (budgeted p) \<longrightarrow> is_declared p tool)"

lemma withhold_undeclared_spec:
  "x \<in> set (fst (withhold_undeclared p routes)) \<longleftrightarrow> x \<in> set routes \<and> declared_in p (fst x)"
  "distinct (map fst routes) \<Longrightarrow> distinct (map fst (fst (withhold_undeclared p routes)))"
proof -
  have "tool \<in> set (undeclared_quota_tools p served) \<longleftrightarrow> tool \<in> set served \<and> \<not> declared_in p tool" for tool served
    by (auto simp: undeclared_quota_tools_def declared_in_def budgeted_def split: option.splits)
  from this [of _ "map fst routes"]
  show "x \<in> set (fst (withhold_undeclared p routes)) \<longleftrightarrow> x \<in> set routes \<and> declared_in p (fst x)"
    by (cases "undeclared_quota_tools p (map fst routes) = []") (auto simp: withhold_undeclared_def)
  show "distinct (map fst routes) \<Longrightarrow> distinct (map fst (fst (withhold_undeclared p routes)))"
    by (simp add: withhold_undeclared_def Let_def distinct_map_filter)
qed

lemma by_env_var_set: "other \<in> set (by_env_var entries var) \<longleftrightarrow> (\<exists>s\<in>set entries. up_name s = other \<and> var \<in> set (up_env s))"
  by (auto simp: by_env_var_def)

lemma shared_credentials_set:
  "(b, other, var) \<in> set (shared_credentials p entries) \<longleftrightarrow>
     b \<in> set (budgeted p) \<and> other \<noteq> b \<and> other \<notin> set (budgeted p)
     \<and> (\<exists>s\<in>set entries. up_name s = b \<and> var \<in> set (up_env s)) \<and> (\<exists>s\<in>set entries. up_name s = other \<and> var \<in> set (up_env s))"
  by (auto simp: shared_credentials_def by_env_var_set)

text \<open>The backend \<open>r\<close> has no budget and declares a credential variable of \<open>s\<close>, which has one.\<close>

definition spends_uncounted :: "plan \<Rightarrow> upstream list \<Rightarrow> upstream \<Rightarrow> upstream \<Rightarrow> string \<Rightarrow> bool" where
  "spends_uncounted p entries s r var =
     (s \<in> set entries \<and> r \<in> set entries \<and> up_name s \<in> set (budgeted p) \<and> up_name r \<notin> set (budgeted p)
      \<and> var \<in> set (up_env s) \<and> var \<in> set (up_env r))"

text \<open>
  (functional) the plan and the registry agree exactly when every account names a registered backend and no backend without a budget declares a credential variable of one
  that has a budget; and the backends singled out as uncounted are exactly those that do.
\<close>
theorem quota_coverage_exact:
  "(snd (quota_coverage p entries) = [] \<longleftrightarrow>
      set (budgeted p) \<subseteq> up_name ` set entries \<and> (\<nexists>s r var. spends_uncounted p entries s r var))
   \<and> set (fst (quota_coverage p entries)) = {up_name r |r. \<exists>s var. spends_uncounted p entries s r var}"
proof -
  let ?shared = "shared_credentials p entries"
  have none: "?shared = [] \<and> not_registered p entries = []" if "pl_providers p = []"
    using that by (simp add: shared_credentials_def not_registered_def budgeted_def)
  have reg: "not_registered p entries = [] \<longleftrightarrow> set (budgeted p) \<subseteq> up_name ` set entries"
    by (auto simp: not_registered_def budgeted_def filter_empty_conv)
  have snd_eq: "snd (quota_coverage p entries) = [] \<longleftrightarrow> not_registered p entries = [] \<and> ?shared = []"
    using none by (auto simp: quota_coverage_def Let_def)
  have fst_eq: "fst (quota_coverage p entries) = map (\<lambda>x. fst (snd x)) ?shared"
    using none by (auto simp: quota_coverage_def Let_def split_def)
  have "(\<lambda>x. fst (snd x)) ` set ?shared = {up_name r |r. \<exists>s var. spends_uncounted p entries s r var}"
  proof (intro set_eqI iffI)
    fix other assume "other \<in> (\<lambda>x. fst (snd x)) ` set ?shared"
    then obtain b var where "(b, other, var) \<in> set ?shared" by auto
    then show "other \<in> {up_name r |r. \<exists>s var. spends_uncounted p entries s r var}"
      unfolding shared_credentials_set spends_uncounted_def by blast
  next
    fix other assume "other \<in> {up_name r |r. \<exists>s var. spends_uncounted p entries s r var}"
    then obtain r s var where "other = up_name r" "spends_uncounted p entries s r var" by blast
    then have "(up_name s, other, var) \<in> set ?shared"
      unfolding shared_credentials_set spends_uncounted_def by auto
    then show "other \<in> (\<lambda>x. fst (snd x)) ` set ?shared" by force
  qed
  moreover have "?shared = [] \<longleftrightarrow> (\<nexists>s r var. spends_uncounted p entries s r var)"
    using arg_cong [OF calculation, of "\<lambda>A. A = {}"] by auto
  ultimately show ?thesis using snd_eq reg fst_eq by simp
qed

section \<open>Entries\<close>


end
