(* ===== verification/Fleet.thy ===== *)
theory Fleet
  imports Routes
begin

text \<open>
  Model of the rounds of \<open>internal/gateway/endpoint.go\<close> that keep the fleet and the table: \<open>Connect\<close>, \<open>Reconcile\<close> and \<open>Refresh\<close>, with the steps they share
  (\<open>bringUp\<close>, \<open>resolveEnv\<close>, \<open>noteSignature\<close>, \<open>forgetSignatures\<close>, \<open>loadListings\<close>, \<open>suspend\<close>, \<open>confirm\<close>, \<open>serving\<close>, \<open>retire\<close>, \<open>adopt\<close>, \<open>swap\<close>,
  \<open>swapRoutes\<close>, \<open>servableNotConnected\<close>).

  \<open>fleet_env\<close> is what the outside decides during one round: what the registry and the vault answer, which dials and listings succeed and in what order the
  answers arrive, the schema library, and the circumstances of each row the gateway writes. A round holds \<open>refreshMu\<close>, so rounds do not interleave; a round
  is one step here, and \<open>Close\<close> is not run in the middle of one.
\<close>

section \<open>State and surroundings\<close>

record gateway =
  gt_core :: gw
  gt_dialed :: "(string \<times> upstream) list"
  gt_confirmed :: bool
  gt_closed :: bool
  gt_listing :: "(string \<times> listed_tool list) list"
  gt_listing_loaded :: bool
  gt_sig_refused :: "(string \<times> string) list"

datatype list_failure = ListGone | ListFailed

record fleet_env =
  fv_libs :: libs
  fv_rows :: "nat \<Rightarrow> call_env"
  fv_entries :: "upstream list option"
  fv_ctx_ended :: bool
  fv_parsers :: parsers
  fv_signing :: signing
  fv_discovery :: discovery
  fv_resolve :: "string \<Rightarrow> string option"
  fv_dial :: "upstream_spec \<Rightarrow> (string \<times> string) list \<Rightarrow> conn option"
  fv_list :: "conn \<Rightarrow> list_failure + tool_def list"
  fv_rank :: "string \<Rightarrow> nat"
  fv_stored :: "(string \<times> listed_tool list) list option"
  fv_round :: gotime
  fv_settle :: gotime
  fv_event :: gotime

datatype fleet_failure =
    NotServable string registry_error
  | SignatureFailed string entry_check
  | CoverageFailed "coverage_problem list"
  | NotBroughtUp string
  | NotListed string
  | RouteFailed route_failure

datatype fleet_error =
    FleetClosed
  | FleetRegistryUnavailable
  | FleetInterrupted
  | FleetCoverage "coverage_problem list"
  | FleetPartial "fleet_failure list"

definition join_failures :: "fleet_failure list \<Rightarrow> fleet_error option" where
  "join_failures fs = (if fs = [] then None else Some (FleetPartial fs))"

section \<open>Rows\<close>

fun write_rows :: "libs \<Rightarrow> (nat \<Rightarrow> call_env) \<Rightarrow> nat \<Rightarrow> gateway_row list \<Rightarrow> gw \<Rightarrow> gw" where
  "write_rows L env i [] g = g"
| "write_rows L env i ((tool, upstream, outcome, reason) # rows) g =
     write_rows L env (i + 1) rows (audit_gateway_row L (env i) tool upstream outcome reason g)"

fun health_rows :: "libs \<Rightarrow> health_event option list \<Rightarrow> gateway_row list" where
  "health_rows L [] = []"
| "health_rows L (None # evs) = health_rows L evs"
| "health_rows L (Some ev # evs) =
     (case health_event_row L ev of (backend, outcome, reason) \<Rightarrow> (backend_health_tool, backend, outcome, reason) # health_rows L evs)"

section \<open>Signatures\<close>

definition registry_entry_tool :: string where "registry_entry_tool = ''(registry entry)''"
definition reason_signature_refused :: string where "reason_signature_refused = ''signature refused''"

definition note_signature ::
  "string \<Rightarrow> entry_check \<Rightarrow> (string \<times> string) list \<Rightarrow> gateway_row list \<times> (string \<times> string) list" where
  "note_signature name chk refused =
     (case chk of
        EntryOk \<Rightarrow> ([], AList.delete name refused)
      | EntryUnmeasured \<Rightarrow> ([], refused)
      | _ \<Rightarrow>
          (let reason = reason_signature_refused @ (if chk = EntryUnsigned then '': unsigned'' else '': invalid'')
           in if map_of refused name = Some reason then ([], refused)
              else ([(registry_entry_tool, name, outcome_denied, reason)], AList.update name reason refused)))"

definition forget_signatures :: "upstream list \<Rightarrow> (string \<times> string) list \<Rightarrow> (string \<times> string) list" where
  "forget_signatures entries refused = filter (\<lambda>x. fst x \<in> set (map up_name entries)) refused"

record entry_checks =
  ck_want :: "(string \<times> upstream) list"
  ck_unmeasured :: "string list"
  ck_failures :: "fleet_failure list"
  ck_rows :: "gateway_row list"
  ck_refused :: "(string \<times> string) list"

text \<open>The two gates every entry passes, and between them the entries that spend a budget uncounted. The registry holds one entry per name.\<close>

definition check_entry :: "fleet_env \<Rightarrow> string list \<Rightarrow> upstream \<Rightarrow> entry_checks \<Rightarrow> entry_checks" where
  "check_entry E uncounted s c =
     (case upstream_validate (fv_parsers E) s of
        Some err \<Rightarrow> c\<lparr>ck_failures := ck_failures c @ [NotServable (up_name s) err]\<rparr>
      | None \<Rightarrow>
          if up_name s \<in> set uncounted then c
          else let chk = verify_entry (fv_signing E) s
               in case note_signature (up_name s) chk (ck_refused c) of (rows, refused) \<Rightarrow>
                 let c = c\<lparr>ck_rows := ck_rows c @ rows, ck_refused := refused\<rparr>
                 in if chk = EntryOk then c\<lparr>ck_want := AList.update (up_name s) s (ck_want c)\<rparr>
                    else let c = c\<lparr>ck_failures := ck_failures c @ [SignatureFailed (up_name s) chk]\<rparr>
                         in if chk = EntryUnmeasured then c\<lparr>ck_unmeasured := up_name s # ck_unmeasured c\<rparr> else c)"

definition check_entries :: "fleet_env \<Rightarrow> string list \<Rightarrow> upstream list \<Rightarrow> (string \<times> string) list \<Rightarrow> entry_checks" where
  "check_entries E uncounted entries refused =
     (let c = fold (check_entry E uncounted) entries
                \<lparr>ck_want = [], ck_unmeasured = [], ck_failures = [], ck_rows = [], ck_refused = refused\<rparr>
      in c\<lparr>ck_refused := forget_signatures entries (ck_refused c)\<rparr>)"

section \<open>Dialling\<close>

fun resolve_env :: "(string \<Rightarrow> string option) \<Rightarrow> string list \<Rightarrow> (string \<times> string) list \<Rightarrow> (string \<times> string) list option" where
  "resolve_env resolve [] env = Some env"
| "resolve_env resolve (name # names) env =
     (case resolve name of None \<Rightarrow> None | Some v \<Rightarrow> resolve_env resolve names (AList.update name v env))"

definition bring_up :: "fleet_env \<Rightarrow> upstream \<Rightarrow> gw \<Rightarrow> conn option \<times> gw" where
  "bring_up E s g =
     (case resolve_env (fv_resolve E) (up_env s) [] of
        None \<Rightarrow> (None, g)
      | Some env \<Rightarrow>
          (case fv_dial E (spec_for s) env of
             None \<Rightarrow> (None, g)
           | Some up \<Rightarrow> (Some up, g\<lparr>gw_creds := AList.update (up_name s) (map fst env) (gw_creds g)\<rparr>)))"

section \<open>Installing\<close>

definition suspend :: "gateway \<Rightarrow> gateway" where
  "suspend g = g\<lparr>gt_confirmed := False, gt_core := (gt_core g)\<lparr>gw_suspended := True, gw_routes := []\<rparr>\<rparr>"

definition confirm :: "gateway \<Rightarrow> gateway" where
  "confirm g = g\<lparr>gt_confirmed := True\<rparr>"

definition serving :: "gateway \<Rightarrow> gateway" where
  "serving g = g\<lparr>gt_confirmed := True, gt_core := (gt_core g)\<lparr>gw_suspended := False\<rparr>\<rparr>"

definition swap :: "(string \<times> conn) list \<Rightarrow> (string \<times> upstream) list \<Rightarrow> table \<Rightarrow> gateway \<Rightarrow> bool \<times> gateway" where
  "swap conns dialed routes g =
     (if gt_closed g then (True, g)
      else (False, g\<lparr>gt_dialed := dialed,
              gt_core := (gt_core g)\<lparr>gw_fleet := (gw_fleet (gt_core g))\<lparr>fl_conns := conns\<rparr>, gw_routes := routes\<rparr>\<rparr>))"

definition swap_routes :: "table \<Rightarrow> gateway \<Rightarrow> bool \<times> gateway" where
  "swap_routes routes g =
     (if gt_closed g then (True, g)
      else if \<not> gt_confirmed g then (False, g)
      else (False, g\<lparr>gt_core := (gt_core g)\<lparr>gw_routes := routes, gw_suspended := False\<rparr>\<rparr>))"

definition without :: "string list \<Rightarrow> (string \<times> 'a) list \<Rightarrow> (string \<times> 'a) list" where
  "without names xs = filter (\<lambda>x. fst x \<notin> set names) xs"

definition retire :: "string list \<Rightarrow> string list \<Rightarrow> gateway \<Rightarrow> bool \<times> gateway" where
  "retire names drops g =
     (if names = [] \<and> drops = [] then (False, g)
      else if gt_closed g then (True, g)
      else let core = gt_core g; fl = gw_fleet core
           in (False, g\<lparr>gt_dialed := without names (gt_dialed g),
                 gt_core := core\<lparr>
                   gw_fleet := fl\<lparr>fl_conns := without names (fl_conns fl), fl_gone := without names (fl_gone fl),
                                  fl_unlisted := without names (fl_unlisted fl)\<rparr>,
                   gw_creds := without names (gw_creds core),
                   gw_routes := filter (\<lambda>x. rt_upstream (snd x) \<notin> set drops) (gw_routes core)\<rparr>\<rparr>))"

definition adopt :: "(string \<times> conn \<times> upstream) list \<Rightarrow> gateway \<Rightarrow> bool \<times> gateway" where
  "adopt add g =
     (if add = [] then (gt_closed g, g)
      else if gt_closed g then (True, g)
      else let core = gt_core g; fl = gw_fleet core
           in (False, g\<lparr>gt_dialed := fold (\<lambda>(name, up, s). AList.update name s) add (gt_dialed g),
                 gt_core := core\<lparr>gw_fleet := fl\<lparr>
                   fl_conns := fold (\<lambda>(name, up, s). AList.update name up) add (fl_conns fl),
                   fl_unlisted := fold (\<lambda>(name, up, s). AList.update name up) add (fl_unlisted fl)\<rparr>\<rparr>\<rparr>))"

section \<open>Boot\<close>

record connecting =
  cn_core :: gw
  cn_conns :: "(string \<times> conn) list"
  cn_dialed :: "(string \<times> upstream) list"
  cn_candidates :: "(string \<times> table) list"
  cn_failures :: "(string \<times> fleet_failure list) list"
  cn_rows :: "gateway_row list"
  cn_listing :: "(string \<times> listed_tool list) list"

text \<open>One answer: the entry was dialled and listed, and its tools are handed to the quarantine; or it failed at one of these.\<close>

definition connect_entry :: "fleet_env \<Rightarrow> upstream \<Rightarrow> connecting \<Rightarrow> connecting" where
  "connect_entry E s c =
     (let name = up_name s
      in case bring_up E s (cn_core c) of
           (None, core) \<Rightarrow> c\<lparr>cn_core := core, cn_failures := AList.update name [NotBroughtUp name] (cn_failures c)\<rparr>
         | (Some up, core) \<Rightarrow>
             (case fv_list E up of
                Inl _ \<Rightarrow> c\<lparr>cn_core := core, cn_failures := AList.update name [NotListed name] (cn_failures c)\<rparr>
              | Inr defs \<Rightarrow>
                  (case routes_for (fv_discovery E) name defs (gw_quarantine core) of (out, rows, st) \<Rightarrow>
                     c\<lparr>cn_core := core\<lparr>gw_quarantine := st\<rparr>,
                       cn_conns := AList.update name up (cn_conns c),
                       cn_dialed := AList.update name s (cn_dialed c),
                       cn_candidates := AList.update name (ur_routes out) (cn_candidates c),
                       cn_failures := AList.update name (map RouteFailed (ur_failures out)) (cn_failures c),
                       cn_rows := cn_rows c @ rows,
                       cn_listing := (if ur_unmeasured out then cn_listing c
                                      else AList.update name (listing_of (dc_digest (fv_discovery E)) (ur_routes out)) (cn_listing c))\<rparr>)))"

definition load_listings :: "fleet_env \<Rightarrow> gateway \<Rightarrow> gateway" where
  "load_listings E g =
     (if gt_listing_loaded g then g
      else case fv_stored E of
        None \<Rightarrow> g
      | Some stored \<Rightarrow>
          g\<lparr>gt_listing_loaded := True,
            gt_listing := gt_listing g @ filter (\<lambda>x. map_of (gt_listing g) (fst x) = None) stored\<rparr>)"

definition listing_for :: "(string \<times> listed_tool list) list \<Rightarrow> string \<Rightarrow> listed_tool list" where
  "listing_for listing name = (case map_of listing name of None \<Rightarrow> [] | Some l \<Rightarrow> l)"

text \<open>A ready entry that did not come up is listed from its last live listing, when that yields anything.\<close>

definition stable_candidate ::
  "fleet_env \<Rightarrow> qstore \<Rightarrow> (string \<times> listed_tool list) list \<Rightarrow> (string \<times> conn) list \<Rightarrow> upstream \<Rightarrow> (string \<times> table) list \<Rightarrow> (string \<times> table) list" where
  "stable_candidate E st listing conns s cs =
     (if map_of conns (up_name s) \<noteq> None then cs
      else let stable = stable_routes_for (fv_discovery E) (up_name s) (listing_for listing (up_name s)) st
           in if ur_routes stable = [] then cs else AList.update (up_name s) (ur_routes stable) cs)"

definition stable_candidates ::
  "fleet_env \<Rightarrow> qstore \<Rightarrow> (string \<times> listed_tool list) list \<Rightarrow> (string \<times> conn) list \<Rightarrow> upstream list \<Rightarrow> (string \<times> table) list \<Rightarrow> (string \<times> table) list" where
  "stable_candidates E st listing conns ready candidates = fold (stable_candidate E st listing conns) ready candidates"

definition set_last_round :: "gotime \<Rightarrow> gateway \<Rightarrow> gateway" where
  "set_last_round now g = g\<lparr>gt_core := (gt_core g)\<lparr>gw_fleet := (gw_fleet (gt_core g))\<lparr>fl_last_round := now\<rparr>\<rparr>\<rparr>"

text \<open>The end of a round: the liveness of the fleet is settled and the rows of the round are written.\<close>

definition settle ::
  "fleet_env \<Rightarrow> string list \<Rightarrow> (string \<Rightarrow> bool) \<Rightarrow> bool \<Rightarrow> string list \<Rightarrow> gateway_row list \<Rightarrow> gateway \<Rightarrow> gateway" where
  "settle E servable keep frozen dialed rows g =
     (case settle_health servable keep frozen dialed (fv_settle E) (gw_fleet (gt_core g)) of (evs, fl) \<Rightarrow>
        g\<lparr>gt_core := write_rows (fv_libs E) (fv_rows E) 0 (rows @ health_rows (fv_libs E) evs) ((gt_core g)\<lparr>gw_fleet := fl\<rparr>)\<rparr>)"

text \<open>The stages of a boot: the state the answers are gathered on, the answers in the order in which they arrive, and what the table is merged from.\<close>

definition boot_start :: "fleet_env \<Rightarrow> entry_checks \<Rightarrow> gateway \<Rightarrow> gateway" where
  "boot_start E ck g = set_last_round (fv_round E) (load_listings E (g\<lparr>gt_sig_refused := ck_refused ck\<rparr>))"

definition boot_answers :: "fleet_env \<Rightarrow> upstream list \<Rightarrow> gateway \<Rightarrow> connecting" where
  "boot_answers E ready g =
     fold (connect_entry E) (sort_key (\<lambda>s. fv_rank E (up_name s)) ready)
       \<lparr>cn_core = gt_core g, cn_conns = [], cn_dialed = [], cn_candidates = [], cn_failures = [], cn_rows = [], cn_listing = gt_listing g\<rparr>"

definition boot_candidates :: "fleet_env \<Rightarrow> upstream list \<Rightarrow> connecting \<Rightarrow> (string \<times> table) list" where
  "boot_candidates E ready cn = stable_candidates E (gw_quarantine (cn_core cn)) (cn_listing cn) (cn_conns cn) ready (cn_candidates cn)"

definition connect :: "fleet_env \<Rightarrow> gateway \<Rightarrow> fleet_error option \<times> gateway" where
  "connect E g =
     (if gt_closed g then (Some FleetClosed, g)
      else case fv_entries E of
        None \<Rightarrow> (Some FleetRegistryUnavailable, suspend (snd (swap [] [] [] g)))
      | Some entries \<Rightarrow>
          (case quota_coverage (gw_plan (gt_core g)) entries of (_, problems) \<Rightarrow>
             if problems \<noteq> [] then (Some (FleetCoverage problems), snd (swap [] [] [] g))
             else let ck = check_entries E [] entries (gt_sig_refused g);
                      ready = map snd (ck_want ck);
                      g = boot_start E ck g;
                      cn = boot_answers E ready g;
                      candidates = boot_candidates E ready cn;
                      (merged, conflicts) = merge_routes candidates;
                      (routes, undeclared) = withhold_undeclared (gw_plan (gt_core g)) merged;
                      failures = ck_failures ck @ concat (map snd (sort_key fst (cn_failures cn))) @ map RouteFailed (conflicts @ undeclared);
                      g = serving (g\<lparr>gt_core := cn_core cn, gt_listing := cn_listing cn\<rparr>)
                  in case swap (cn_conns cn) (cn_dialed cn) routes g of
                       (True, g) \<Rightarrow> (Some FleetClosed, g)
                     | (False, g) \<Rightarrow>
                         (join_failures failures,
                          settle E (map up_name ready) (\<lambda>_. False) False (map up_name ready) (ck_rows ck @ cn_rows cn) g)))"

section \<open>Reconciliation\<close>

text \<open>
  The connections to close, and the ones among them whose routes go too: a backend that is no longer wanted loses its routes, one closed to be dialled again keeps
  them. Reading a death marker clears it.
\<close>

fun plan_removals ::
  "(string \<times> upstream) list \<Rightarrow> string list \<Rightarrow> (string \<times> upstream) list \<Rightarrow> (string \<times> conn) list \<Rightarrow> string list \<Rightarrow> fleet
     \<Rightarrow> string list \<times> string list \<times> fleet" where
  "plan_removals want unmeasured dialed live [] fl = ([], [], fl)"
| "plan_removals want unmeasured dialed live (name # names) fl =
     (case map_of want name of
        None \<Rightarrow>
          if name \<in> set unmeasured then plan_removals want unmeasured dialed live names fl
          else (case plan_removals want unmeasured dialed live names fl of (remove, drops, fl') \<Rightarrow> (name # remove, name # drops, fl'))
      | Some s \<Rightarrow>
          if (case map_of dialed name of None \<Rightarrow> True | Some was \<Rightarrow> spec_changed was s)
          then (case plan_removals want unmeasured dialed live names fl of (remove, drops, fl') \<Rightarrow> (name # remove, drops, fl'))
          else (case take_gone name (map_of live name) fl of
                  (True, fl) \<Rightarrow> (case plan_removals want unmeasured dialed live names fl of (remove, drops, fl') \<Rightarrow> (name # remove, drops, fl'))
                | (False, fl) \<Rightarrow> plan_removals want unmeasured dialed live names fl))"

fun dial_all :: "fleet_env \<Rightarrow> (string \<times> upstream) list \<Rightarrow> string list \<Rightarrow> gw \<Rightarrow> (string \<times> conn \<times> upstream) list \<times> fleet_failure list \<times> gw" where
  "dial_all E want [] core = ([], [], core)"
| "dial_all E want (name # names) core =
     (case bring_up E (the (map_of want name)) core of
        (None, core) \<Rightarrow> (case dial_all E want names core of (add, fails, core) \<Rightarrow> (add, NotBroughtUp name # fails, core))
      | (Some up, core) \<Rightarrow>
          (case dial_all E want names core of (add, fails, core) \<Rightarrow> ((name, up, the (map_of want name)) # add, fails, core)))"

definition reconcile :: "fleet_env \<Rightarrow> gateway \<Rightarrow> fleet_error option \<times> gateway" where
  "reconcile E g =
     (if gt_closed g then (Some FleetClosed, g)
      else case fv_entries E of
        None \<Rightarrow> if fv_ctx_ended E then (Some FleetInterrupted, g) else (Some FleetRegistryUnavailable, suspend g)
      | Some entries \<Rightarrow>
          (let live = fl_conns (gw_fleet (gt_core g));
               dialed = gt_dialed g;
               g = set_last_round (fv_round E) g;
               (uncounted, problems) = quota_coverage (gw_plan (gt_core g)) entries;
               frozen = (problems \<noteq> []);
               ck = check_entries E uncounted entries (gt_sig_refused g);
               want = ck_want ck;
               g = g\<lparr>gt_sig_refused := ck_refused ck\<rparr>;
               (remove, drops, fl) = plan_removals want (ck_unmeasured ck) dialed live (sort (map fst live)) (gw_fleet (gt_core g));
               g = g\<lparr>gt_core := (gt_core g)\<lparr>gw_fleet := fl\<rparr>\<rparr>;
               stale = filter (\<lambda>u. map_of want u = None \<and> u \<notin> set (ck_unmeasured ck)) (map (\<lambda>x. rt_upstream (snd x)) (gw_routes (gt_core g)))
           in case retire remove (drops @ stale) g of
                (True, g) \<Rightarrow> (Some FleetClosed, g)
              | (False, g) \<Rightarrow>
                  (let to_dial = filter (\<lambda>name. map_of live name = None \<or> name \<in> set remove) (sort (map fst want));
                       to_dial = (if frozen then [] else to_dial);
                       (add, fails, core) = dial_all E want to_dial (gt_core g);
                       failures = (if frozen then [CoverageFailed problems] else []) @ ck_failures ck @ fails;
                       g = confirm (g\<lparr>gt_core := core\<rparr>)
                   in case adopt add g of
                        (True, g) \<Rightarrow> (Some FleetClosed, g)
                      | (False, g) \<Rightarrow>
                          (join_failures failures,
                           settle E (sort (map fst want)) (\<lambda>name. name \<in> set (ck_unmeasured ck)) frozen to_dial (ck_rows ck) g))))"

section \<open>Refresh\<close>

record refreshing =
  rf_core :: gw
  rf_candidates :: "(string \<times> table) list"
  rf_failures :: "(string \<times> fleet_failure list) list"
  rf_rows :: "gateway_row list"
  rf_events :: "health_event option list"
  rf_listing :: "(string \<times> listed_tool list) list"

definition with_fleet :: "fleet \<Rightarrow> gw \<Rightarrow> gw" where
  "with_fleet fl g = g\<lparr>gw_fleet := fl\<rparr>"

text \<open>What a backend that could not be listed is served from: its previous routes; or, when its process is gone, its stable listing, unless the quarantine cannot be read.\<close>

definition unlisted_routes :: "fleet_env \<Rightarrow> table \<Rightarrow> string \<Rightarrow> list_failure \<Rightarrow> refreshing \<Rightarrow> table" where
  "unlisted_routes E previous name f r =
     (let stable = stable_routes_for (fv_discovery E) name (listing_for (rf_listing r) name) (gw_quarantine (rf_core r))
      in if f = ListGone \<and> \<not> ur_unmeasured stable then ur_routes stable else routes_of previous name)"

definition refresh_answer :: "fleet_env \<Rightarrow> table \<Rightarrow> string \<times> conn \<Rightarrow> refreshing \<Rightarrow> refreshing" where
  "refresh_answer E previous conn r =
     (case conn of (name, up) \<Rightarrow>
        (case fv_list E up of
           Inl f \<Rightarrow>
             (let (evs, fl) = (if f = ListGone
                     then (case mark_gone name (Some up) (fv_event E) (gw_fleet (rf_core r)) of (ev, fl) \<Rightarrow> ([ev], fl))
                     else ([], gw_fleet (rf_core r)));
                  r = r\<lparr>rf_core := with_fleet fl (rf_core r), rf_events := rf_events r @ evs,
                        rf_failures := AList.update name [NotListed name] (rf_failures r)\<rparr>
              in r\<lparr>rf_candidates := AList.update name (unlisted_routes E previous name f r) (rf_candidates r)\<rparr>)
         | Inr defs \<Rightarrow>
             (case routes_for (fv_discovery E) name defs (gw_quarantine (rf_core r)) of (out, rows, st) \<Rightarrow>
                let r = r\<lparr>rf_core := (rf_core r)\<lparr>gw_quarantine := st\<rparr>, rf_rows := rf_rows r @ rows,
                          rf_failures := AList.update name (map RouteFailed (ur_failures out)) (rf_failures r)\<rparr>
                in if ur_unmeasured out
                   then r\<lparr>rf_candidates := AList.update name (routes_of previous name) (rf_candidates r)\<rparr>
                   else case mark_listed name (Some up) (fv_event E) (gw_fleet (rf_core r)) of (ev, fl) \<Rightarrow>
                     r\<lparr>rf_core := with_fleet fl (rf_core r), rf_events := rf_events r @ [ev],
                       rf_candidates := AList.update name (ur_routes out) (rf_candidates r),
                       rf_listing := AList.update name (listing_of (dc_digest (fv_discovery E)) (ur_routes out)) (rf_listing r)\<rparr>)))"

definition servable_not_connected :: "fleet \<Rightarrow> (string \<times> conn) list \<Rightarrow> string list" where
  "servable_not_connected fl conns =
     (case fl_servable fl of None \<Rightarrow> [] | Some names \<Rightarrow> sort (filter (\<lambda>n. map_of conns n = None) (remdups names)))"

definition down_routes :: "fleet_env \<Rightarrow> table \<Rightarrow> string \<Rightarrow> refreshing \<Rightarrow> refreshing" where
  "down_routes E previous name r =
     (let stable = stable_routes_for (fv_discovery E) name (listing_for (rf_listing r) name) (gw_quarantine (rf_core r));
          routes = (if ur_unmeasured stable then routes_of previous name else ur_routes stable)
      in r\<lparr>rf_candidates := AList.update name routes (rf_candidates r)\<rparr>)"

definition refresh :: "fleet_env \<Rightarrow> gateway \<Rightarrow> fleet_error option \<times> gateway" where
  "refresh E g =
     (if gt_closed g then (Some FleetClosed, g)
      else let conns = fl_conns (gw_fleet (gt_core g));
               previous = gw_routes (gt_core g);
               r = fold (refresh_answer E previous) (sort_key (\<lambda>x. fv_rank E (fst x)) (sort_key fst conns))
                     \<lparr>rf_core = gt_core g, rf_candidates = [], rf_failures = [], rf_rows = [], rf_events = [], rf_listing = gt_listing g\<rparr>;
               r = fold (down_routes E previous) (servable_not_connected (gw_fleet (rf_core r)) conns) r;
               (merged, conflicts) = merge_routes (rf_candidates r);
               (routes, undeclared) = withhold_undeclared (gw_plan (gt_core g)) merged;
               failures = concat (map snd (sort_key fst (rf_failures r))) @ map RouteFailed (conflicts @ undeclared);
               rows = rf_rows r;
               g = g\<lparr>gt_core := rf_core r, gt_listing := rf_listing r\<rparr>
           in case swap_routes routes g of
                (True, g) \<Rightarrow> (Some FleetClosed, g)
              | (False, g) \<Rightarrow>
                  (join_failures failures,
                   g\<lparr>gt_core := write_rows (fv_libs E) (fv_rows E) 0 (rows @ health_rows (fv_libs E) (rf_events r)) (gt_core g)\<rparr>))"

end
