(* ===== verification/Fleet_Safety.thy ===== *)
theory Fleet_Safety
  imports Fleet Routes_Safety Dispatch_Safety
begin

text \<open>
  What the rounds of the fleet keep and achieve: the names in the fleet and in the table, the table's agreement with the plan, the exact effect of a reconciliation on the
  connections, and the suspension that lasts until the registry was read again.
\<close>

section \<open>Names\<close>

definition name_ok :: "string \<Rightarrow> bool" where
  "name_ok n = (n \<noteq> [] \<and> CHR ''.'' \<notin> set n)"

definition servable_names :: "fleet \<Rightarrow> string list" where
  "servable_names fl = (case fl_servable fl of None \<Rightarrow> [] | Some ns \<Rightarrow> ns)"

definition fleet_names :: "fleet \<Rightarrow> string set" where
  "fleet_names fl = fst ` set (fl_conns fl) \<union> fst ` set (fl_health fl) \<union> set (servable_names fl)"

lemma valid_entry_name: "upstream_validate P s = None \<Longrightarrow> name_ok (up_name s)"
  using safe_name_no_separator [of "up_name s"] safe_name_nonempty [of "up_name s"]
  by (auto simp: upstream_validate_None valid_name_def name_ok_def reg_separator_def)

lemma update_keys: "fst ` set (AList.update k v xs) = insert k (fst ` set xs)"
  by (induction xs) auto

lemma delete_keys: "fst ` set (AList.delete k xs) \<subseteq> fst ` set xs"
  by (auto simp: AList.delete_eq)

lemma observe_live_names: "fleet_names (snd (observe_live n live cause att now fl)) = insert n (fleet_names fl)"
  by (auto simp: observe_live_def Let_def fleet_names_def servable_names_def update_keys split: prod.splits option.splits)

definition fleet_named :: "fleet \<Rightarrow> bool" where
  "fleet_named fl = (\<forall>n\<in>fleet_names fl. name_ok n)"

lemma fleet_named_mono: "fleet_named fl \<Longrightarrow> fleet_names fl' \<subseteq> fleet_names fl \<Longrightarrow> fleet_named fl'"
  by (auto simp: fleet_named_def)

lemma observe_live_named: "fleet_named fl \<Longrightarrow> name_ok n \<Longrightarrow> fleet_named (snd (observe_live n live cause att now fl))"
  by (simp add: fleet_named_def observe_live_names)

lemma conn_name_ok: "fleet_named fl \<Longrightarrow> map_of (fl_conns fl) n = Some up \<Longrightarrow> name_ok n"
  by (force simp: fleet_named_def fleet_names_def dest: map_of_SomeD)

lemma fleet_names_gone [simp]: "fleet_names (fl\<lparr>fl_gone := m\<rparr>) = fleet_names fl" "fleet_names (fl\<lparr>fl_unlisted := m\<rparr>) = fleet_names fl"
    "fleet_names (fl\<lparr>fl_last_round := t\<rparr>) = fleet_names fl" "fleet_names (fl\<lparr>fl_held_back := b\<rparr>) = fleet_names fl"
  by (simp_all add: fleet_names_def servable_names_def)

lemma mark_gone_named:
  assumes "fleet_named fl"
  shows "fleet_named (snd (mark_gone n up now fl))"
proof (cases "up = None \<or> map_of (fl_conns fl) n \<noteq> up")
  case True
  with assms show ?thesis by (simp add: mark_gone_def)
next
  case False
  let ?fl = "fl\<lparr>fl_gone := AList.update n (the up) (fl_gone fl)\<rparr>"
  from False assms have ok: "name_ok n" by (auto intro: conn_name_ok)
  have "fleet_named ?fl" using assms by (simp add: fleet_named_def)
  from observe_live_named [OF this ok] have ob: "fleet_named (snd (observe_live n False cause_process_gone False now ?fl))" .
  have upd: "fleet_named (fl2\<lparr>fl_health := AList.update n b (fl_health fl2)\<rparr>)" if "fleet_named fl2" for fl2 b
    using that ok by (auto simp: fleet_named_def fleet_names_def servable_names_def update_keys)
  from False ob upd \<open>fleet_named ?fl\<close> show ?thesis
    by (auto simp: mark_gone_def Let_def split: prod.splits option.splits)
qed

lemma mark_listed_named:
  assumes "fleet_named fl"
  shows "fleet_named (snd (mark_listed n up now fl))"
proof (cases "map_of (fl_health fl) n")
  case None
  with assms show ?thesis by (simp add: mark_listed_def Let_def fleet_named_def)
next
  case (Some b)
  then have "n \<in> fleet_names fl" by (force simp: fleet_names_def dest: map_of_SomeD)
  then have "name_ok n" using assms by (auto simp: fleet_named_def)
  then show ?thesis using assms observe_live_named [of "fl\<lparr>fl_unlisted := m\<rparr>" n True "[]" False now for m]
    by (auto simp: mark_listed_def Let_def fleet_named_def)
qed

lemma settle_names_named:
  "fleet_named fl \<Longrightarrow> list_all name_ok ns \<Longrightarrow> fleet_named (snd (settle_names frozen dialed now ns fl))"
proof (induction ns arbitrary: fl)
  case (Cons n ns)
  let ?o = "observe_live n (conn_live fl n) (settle_cause fl frozen dialed n) (n \<in> set dialed) now fl"
  have "fleet_named (snd ?o)" using Cons.prems by (auto intro: observe_live_named)
  with Cons.IH [of "snd ?o"] Cons.prems show ?case by (auto split: prod.splits)
qed simp

lemma forget_names_keys: "fleet_names (snd (forget_names ns fl)) \<subseteq> fleet_names fl"
proof (induction ns arbitrary: fl)
  case (Cons n ns)
  have "fleet_names (snd (forget_health n fl)) \<subseteq> fleet_names fl"
    using delete_keys [of n "fl_health fl"] by (auto simp: forget_health_def fleet_names_def servable_names_def)
  with Cons.IH [of "snd (forget_health n fl)"] show ?case by (auto split: prod.splits)
qed simp

lemma settle_health_named:
  assumes "fleet_named fl" "list_all name_ok servable"
  shows "fleet_named (snd (settle_health servable keep frozen dialed now fl))"
proof -
  obtain evs fl1 where 1: "settle_names frozen dialed now servable fl = (evs, fl1)" by fastforce
  define ns where "ns = filter (\<lambda>n. n \<notin> set servable \<and> \<not> keep n) (sort (map fst (fl_health fl1)))"
  obtain evs' fl2 where 2: "forget_names ns fl1 = (evs', fl2)" by fastforce
  have "fleet_named fl1" using settle_names_named [OF assms, of frozen dialed now] 1 by simp
  then have "fleet_named fl2" using forget_names_keys [of ns fl1] 2 by (auto intro: fleet_named_mono)
  moreover have "fst ` set (fl_conns fl2) \<union> fst ` set (fl_health fl2) \<subseteq> fleet_names fl2" by (auto simp: fleet_names_def)
  ultimately show ?thesis using 1 2 assms(2)
    by (auto simp: settle_health_def ns_def [symmetric] fleet_named_def fleet_names_def servable_names_def list_all_iff)
qed

section \<open>The table\<close>

definition table_ok :: "schema_lib \<Rightarrow> plan \<Rightarrow> table \<Rightarrow> bool" where
  "table_ok S p routes =
     (distinct (map fst routes) \<and> (\<forall>x\<in>set routes. name_ok (rt_upstream (snd x)) \<and> route_wf S (rt_upstream (snd x)) x \<and> declared_in p (fst x)))"

lemma route_wf_upstream: "route_wf S u x \<Longrightarrow> rt_upstream (snd x) = u"
  by (simp add: route_wf_def)

lemma routes_of_ok: "table_ok S p previous \<Longrightarrow> x \<in> set (routes_of previous u) \<Longrightarrow> route_wf S u x"
  by (auto simp: table_ok_def routes_of_def)

section \<open>Gathering the candidates of a table\<close>

text \<open>A route is served because the quarantine last observed its definition, because an operator approved that definition, or because it was served before.\<close>

definition vouched :: "digest \<Rightarrow> table \<Rightarrow> qstore \<Rightarrow> string \<times> routed \<Rightarrow> bool" where
  "vouched H previous st x = (route_observed H st (snd x) \<or> route_approved H st (snd x) \<or> x \<in> set previous)"

definition gathered :: "discovery \<Rightarrow> table \<Rightarrow> qstore \<Rightarrow> (string \<times> table) list \<Rightarrow> bool" where
  "gathered D previous st cs =
     (qs_inv (dc_digest D) st \<and> distinct (map fst cs)
      \<and> (\<forall>c\<in>set cs. name_ok (fst c) \<and> (\<forall>x\<in>set (snd c). route_wf (dc_lib D) (fst c) x \<and> vouched (dc_digest D) previous st x)))"

lemma update_elem_distinct:
  assumes "distinct (map fst xs)" "x \<in> set (AList.update k v xs)"
  shows "x = (k, v) \<or> x \<in> set xs \<and> fst x \<noteq> k"
proof -
  have "map_of (AList.update k v xs) (fst x) = Some (snd x)"
    using assms by (simp add: map_of_eq_Some_iff AList.distinct_update)
  then show ?thesis using assms(1) by (cases x) (auto simp: update_conv' split: if_splits dest: map_of_SomeD)
qed

lemma vouched_other:
  assumes "\<And>s n. s \<noteq> u \<Longrightarrow> row st' s n = row st s n" "rt_upstream (snd x) \<noteq> u" "vouched H previous st x"
  shows "vouched H previous st' x"
  using assms by (simp add: vouched_def route_observed_def route_approved_def)

lemma gathered_update:
  assumes "gathered D previous st cs" "qs_inv (dc_digest D) st'" "\<And>s n. s \<noteq> u \<Longrightarrow> row st' s n = row st s n" "name_ok u"
    and new: "\<And>x. x \<in> set t \<Longrightarrow> route_wf (dc_lib D) u x \<and> vouched (dc_digest D) previous st' x"
  shows "gathered D previous st' (AList.update u t cs)"
proof -
  have dist: "distinct (map fst cs)"
    and old: "\<And>c. c \<in> set cs \<Longrightarrow> name_ok (fst c) \<and> (\<forall>x\<in>set (snd c). route_wf (dc_lib D) (fst c) x \<and> vouched (dc_digest D) previous st x)"
    using assms(1) by (auto simp: gathered_def)
  have "name_ok (fst c) \<and> (\<forall>x\<in>set (snd c). route_wf (dc_lib D) (fst c) x \<and> vouched (dc_digest D) previous st' x)"
    if "c \<in> set (AList.update u t cs)" for c
    using update_elem_distinct [OF dist that]
  proof
    assume "c \<in> set cs \<and> fst c \<noteq> u"
    then have c: "c \<in> set cs" "fst c \<noteq> u" by auto
    have "vouched (dc_digest D) previous st' x" if "x \<in> set (snd c)" for x
    proof (rule vouched_other [OF assms(3)])
      from old [OF c(1)] that c(2) show "rt_upstream (snd x) \<noteq> u" "vouched (dc_digest D) previous st x"
        using route_wf_upstream [of "dc_lib D" "fst c" x] by auto
    qed
    with old [OF c(1)] show ?thesis by blast
  qed (use assms(4) new in auto)
  then show ?thesis using assms(2) dist by (simp add: gathered_def AList.distinct_update)
qed

lemma gathered_previous:
  assumes "gathered D previous st cs" "table_ok (dc_lib D) p previous" "name_ok u"
    and "qs_inv (dc_digest D) st'" "\<And>s n. s \<noteq> u \<Longrightarrow> row st' s n = row st s n"
  shows "gathered D previous st' (AList.update u (routes_of previous u) cs)"
proof (rule gathered_update [OF assms(1,4,5,3)])
  fix x assume x: "x \<in> set (routes_of previous u)"
  then have "x \<in> set previous" by (simp add: routes_of_def)
  with routes_of_ok [OF assms(2) x] show "route_wf (dc_lib D) u x \<and> vouched (dc_digest D) previous st' x" by (simp add: vouched_def)
qed

lemma gathered_stable:
  assumes "gathered D previous st cs" "name_ok u"
  shows "gathered D previous st (AList.update u (ur_routes (stable_routes_for D u listed st)) cs)"
  by (rule gathered_update [OF assms(1) _ _ assms(2)])
     (use assms stable_routes_spec(2) in \<open>auto simp: gathered_def vouched_def\<close>)

lemma gathered_listed:
  assumes "gathered D previous st cs" "name_ok u" "routes_for D u defs st = (out, rows, st')" "digest32 (dc_digest D)"
  shows "gathered D previous st' (AList.update u (ur_routes out) cs)"
proof -
  have "qs_inv (dc_digest D) st" using assms(1) by (simp add: gathered_def)
  note spec = routes_for_spec [OF assms(3) this assms(4)]
  show ?thesis by (rule gathered_update [OF assms(1) spec(1,4) assms(2)]) (use spec(3) in \<open>auto simp: vouched_def\<close>)
qed

lemma built_table_ok:
  assumes "gathered D previous st cs"
  shows "table_ok (dc_lib D) p (fst (withhold_undeclared p (fst (merge_routes cs))))"
    and "x \<in> set (fst (withhold_undeclared p (fst (merge_routes cs)))) \<Longrightarrow> vouched (dc_digest D) previous st x"
proof -
  have "name_ok (rt_upstream (snd x)) \<and> route_wf (dc_lib D) (rt_upstream (snd x)) x \<and> vouched (dc_digest D) previous st x"
    if "x \<in> set (fst (merge_routes cs))" for x
    using merge_routes_subset [OF that] assms route_wf_upstream unfolding gathered_def by fastforce
  then show "table_ok (dc_lib D) p (fst (withhold_undeclared p (fst (merge_routes cs))))"
    "x \<in> set (fst (withhold_undeclared p (fst (merge_routes cs)))) \<Longrightarrow> vouched (dc_digest D) previous st x"
    using withhold_undeclared_spec merge_routes_map(2) by (auto simp: table_ok_def)
qed

section \<open>What every round keeps\<close>

definition gateway_ok :: "schema_lib \<Rightarrow> digest \<Rightarrow> plan \<Rightarrow> gateway \<Rightarrow> bool" where
  "gateway_ok S H p g =
     (fleet_named (gw_fleet (gt_core g)) \<and> table_ok S p (gw_routes (gt_core g)) \<and> qs_inv H (gw_quarantine (gt_core g))
      \<and> gw_plan (gt_core g) = p \<and> slots_ok (gw_in_use (gt_core g)))"

text \<open>A round runs with the gateway's own schema rules and digest.\<close>

definition runs_with :: "schema_lib \<Rightarrow> digest \<Rightarrow> fleet_env \<Rightarrow> bool" where
  "runs_with S H E = (dc_lib (fv_discovery E) = S \<and> dc_digest (fv_discovery E) = H)"

lemma quiet_trans: "quiet g g1 \<Longrightarrow> quiet g1 g2 \<Longrightarrow> quiet g g2"
proof -
  assume 1: "quiet g g1" and 2: "quiet g1 g2"
  have "g2 = g1\<lparr>gw_audit := gw_audit g2, gw_allowed := gw_allowed g2, gw_denied := gw_denied g2, gw_failed := gw_failed g2\<rparr>"
    using 2 by (simp add: quiet_def)
  also have "\<dots> = g\<lparr>gw_audit := gw_audit g2, gw_allowed := gw_allowed g2, gw_denied := gw_denied g2, gw_failed := gw_failed g2\<rparr>"
    by (subst 1 [unfolded quiet_def]) simp
  finally show "quiet g g2" by (simp add: quiet_def)
qed

lemma write_rows_quiet: "quiet g (write_rows L env i rows g)"
proof (induction L env i rows g rule: write_rows.induct)
  case (2 L env i tool upstream outcome reason rows g)
  have "quiet g (audit_gateway_row L (env i) tool upstream outcome reason g)"
    unfolding audit_gateway_row_def by (metis gw_record_spec(1) prod.collapse)
  from quiet_trans [OF this "2.IH"] show ?case by simp
qed simp

lemma write_rows_fields [simp]:
  "gw_fleet (write_rows L env i rows g) = gw_fleet g" "gw_routes (write_rows L env i rows g) = gw_routes g"
  "gw_quarantine (write_rows L env i rows g) = gw_quarantine g" "gw_plan (write_rows L env i rows g) = gw_plan g"
  "gw_suspended (write_rows L env i rows g) = gw_suspended g" "gw_sent (write_rows L env i rows g) = gw_sent g"
  "gw_in_use (write_rows L env i rows g) = gw_in_use g" "gw_policy (write_rows L env i rows g) = gw_policy g"
  "gw_blocks (write_rows L env i rows g) = gw_blocks g" "gw_counters (write_rows L env i rows g) = gw_counters g"
  "gw_max_calls (write_rows L env i rows g) = gw_max_calls g"
  using quiet_fields [OF write_rows_quiet [of g L env i rows]] by simp_all

lemma settle_ok:
  assumes "gateway_ok S H p g" "list_all name_ok servable"
  shows "gateway_ok S H p (settle E servable keep frozen dialed rows g)"
proof -
  obtain evs fl where h: "settle_health servable keep frozen dialed (fv_settle E) (gw_fleet (gt_core g)) = (evs, fl)" by fastforce
  from assms(1) have "fleet_named (gw_fleet (gt_core g))" by (simp add: gateway_ok_def)
  from settle_health_named [OF this assms(2), of keep frozen dialed "fv_settle E"] h have "fleet_named fl" by simp
  with assms(1) show ?thesis by (simp add: gateway_ok_def settle_def h)
qed

text \<open>An entry passes both gates and spends no budget uncounted.\<close>

definition entry_ok :: "fleet_env \<Rightarrow> string list \<Rightarrow> upstream \<Rightarrow> bool" where
  "entry_ok E uncounted s =
     (upstream_validate (fv_parsers E) s = None \<and> up_name s \<notin> set uncounted \<and> verify_entry (fv_signing E) s = EntryOk)"

text \<open>Its signature could not be checked, which says nothing against it.\<close>

definition entry_unmeasured :: "fleet_env \<Rightarrow> string list \<Rightarrow> upstream \<Rightarrow> bool" where
  "entry_unmeasured E uncounted s =
     (upstream_validate (fv_parsers E) s = None \<and> up_name s \<notin> set uncounted \<and> verify_entry (fv_signing E) s = EntryUnmeasured)"

lemma check_entry_fields:
  "ck_want (check_entry E uncounted s c) = (if entry_ok E uncounted s then AList.update (up_name s) s (ck_want c) else ck_want c)"
  "ck_unmeasured (check_entry E uncounted s c)
     = (if entry_unmeasured E uncounted s then up_name s # ck_unmeasured c else ck_unmeasured c)"
proof -
  obtain rows refused where n: "note_signature (up_name s) (verify_entry (fv_signing E) s) (ck_refused c) = (rows, refused)"
    by (cases "note_signature (up_name s) (verify_entry (fv_signing E) s) (ck_refused c)")
  define v where "v = verify_entry (fv_signing E) s"
  note n = n [folded v_def]
  have want: "ck_want (check_entry E uncounted s c) = (if entry_ok E uncounted s then AList.update (up_name s) s (ck_want c) else ck_want c)"
    and unm: "ck_unmeasured (check_entry E uncounted s c)
     = (if entry_unmeasured E uncounted s then up_name s # ck_unmeasured c else ck_unmeasured c)"
    if "upstream_validate (fv_parsers E) s = None" "up_name s \<notin> set uncounted"
    using that n by (simp_all add: check_entry_def entry_ok_def entry_unmeasured_def v_def [symmetric] Let_def)
  then show "ck_want (check_entry E uncounted s c) = (if entry_ok E uncounted s then AList.update (up_name s) s (ck_want c) else ck_want c)"
    "ck_unmeasured (check_entry E uncounted s c)
     = (if entry_unmeasured E uncounted s then up_name s # ck_unmeasured c else ck_unmeasured c)"
    by (cases "upstream_validate (fv_parsers E) s = None \<and> up_name s \<notin> set uncounted",
        auto simp: check_entry_def entry_ok_def entry_unmeasured_def split: option.splits)
qed

lemma check_entries_fold:
  "ck_want (fold (check_entry E uncounted) entries c)
     = fold (\<lambda>s. AList.update (up_name s) s) (filter (entry_ok E uncounted) entries) (ck_want c)"
  "ck_unmeasured (fold (check_entry E uncounted) entries c)
     = rev (map up_name (filter (entry_unmeasured E uncounted) entries)) @ ck_unmeasured c"
  by (induction entries arbitrary: c) (simp_all add: check_entry_fields)

lemma check_entries_fields:
  "ck_want (check_entries E uncounted entries refused)
     = fold (\<lambda>s. AList.update (up_name s) s) (filter (entry_ok E uncounted) entries) []"
  "ck_unmeasured (check_entries E uncounted entries refused) = rev (map up_name (filter (entry_unmeasured E uncounted) entries))"
  by (simp_all add: check_entries_def Let_def check_entries_fold)

lemma fold_update_elem:
  "x \<in> set (fold (\<lambda>s. AList.update (up_name s) s) ss m) \<Longrightarrow> x \<in> set m \<or> (\<exists>s\<in>set ss. x = (up_name s, s))"
proof (induction ss arbitrary: m)
  case (Cons s ss)
  then have "x \<in> set (AList.update (up_name s) s m) \<or> (\<exists>s\<in>set ss. x = (up_name s, s))" by simp
  then show ?case by (auto dest: update_elem)
qed simp

lemma check_entries_want:
  assumes "x \<in> set (ck_want (check_entries E uncounted entries refused))"
  shows "fst x = up_name (snd x) \<and> snd x \<in> set entries \<and> entry_ok E uncounted (snd x)"
  using fold_update_elem [OF assms [unfolded check_entries_fields]] by auto

lemma check_entries_names:
  "list_all name_ok (map fst (ck_want (check_entries E uncounted entries refused)))"
  using check_entries_want valid_entry_name by (fastforce simp: list_all_iff entry_ok_def)

section \<open>The rounds keep the invariant\<close>

lemma gateway_ok_core:
  "gateway_ok S H p (g\<lparr>gt_dialed := d\<rparr>) = gateway_ok S H p g" "gateway_ok S H p (g\<lparr>gt_confirmed := b\<rparr>) = gateway_ok S H p g"
  "gateway_ok S H p (g\<lparr>gt_listing := l\<rparr>) = gateway_ok S H p g" "gateway_ok S H p (g\<lparr>gt_sig_refused := m\<rparr>) = gateway_ok S H p g"
  by (simp_all add: gateway_ok_def)

lemma table_ok_filter: "table_ok S p routes \<Longrightarrow> table_ok S p (filter P routes)"
  by (auto simp: table_ok_def distinct_map_filter)

lemma suspend_ok: "gateway_ok S H p g \<Longrightarrow> gateway_ok S H p (suspend g)"
  by (simp add: gateway_ok_def suspend_def table_ok_def)

lemma load_listings_core [simp]: "gt_core (load_listings E g) = gt_core g" "gt_closed (load_listings E g) = gt_closed g"
  by (simp_all add: load_listings_def split: option.splits)

lemma bring_up_core:
  "bring_up E s g = (r, g') \<Longrightarrow> \<exists>creds. g' = g\<lparr>gw_creds := creds\<rparr>"
proof -
  assume "bring_up E s g = (r, g')"
  then have "g' = g \<or> (\<exists>creds. g' = g\<lparr>gw_creds := creds\<rparr>)" by (auto simp: bring_up_def split: option.splits)
  moreover have "g = g\<lparr>gw_creds := gw_creds g\<rparr>" by simp
  ultimately show ?thesis by metis
qed

definition connecting_ok :: "discovery \<Rightarrow> gw \<Rightarrow> connecting \<Rightarrow> bool" where
  "connecting_ok D core c =
     (gathered D [] (gw_quarantine (cn_core c)) (cn_candidates c) \<and> list_all name_ok (map fst (cn_conns c))
      \<and> (\<exists>st creds. cn_core c = core\<lparr>gw_quarantine := st, gw_creds := creds\<rparr>))"

lemma connect_entry_ok:
  assumes "connecting_ok (fv_discovery E) core c" "name_ok (up_name s)" "digest32 (dc_digest (fv_discovery E))"
  shows "connecting_ok (fv_discovery E) core (connect_entry E s c)"
proof -
  obtain st creds where core: "cn_core c = core\<lparr>gw_quarantine := st, gw_creds := creds\<rparr>" using assms(1) by (auto simp: connecting_ok_def)
  obtain r core1 where b: "bring_up E s (cn_core c) = (r, core1)" by fastforce
  from bring_up_core [OF b] obtain creds1 where "core1 = (cn_core c)\<lparr>gw_creds := creds1\<rparr>" ..
  with core have core1: "core1 = core\<lparr>gw_quarantine := st, gw_creds := creds1\<rparr>" by simp
  show ?thesis
  proof (cases "\<exists>up defs. r = Some up \<and> fv_list E up = Inr defs")
    case False
    then have "\<exists>fails. connect_entry E s c = c\<lparr>cn_core := core1, cn_failures := fails\<rparr>"
      using b by (cases r; cases "fv_list E (the r)") (auto simp: connect_entry_def Let_def)
    then obtain fails where "connect_entry E s c = c\<lparr>cn_core := core1, cn_failures := fails\<rparr>" ..
    moreover have "\<exists>st creds. core1 = core\<lparr>gw_quarantine := st, gw_creds := creds\<rparr>" using core1 by blast
    moreover have "gw_quarantine core1 = gw_quarantine (cn_core c)" using core core1 by simp
    ultimately show ?thesis using assms(1) by (simp add: connecting_ok_def)
  next
    case True
    then obtain up defs where l: "r = Some up" "fv_list E up = Inr defs" by blast
    obtain out rows st' where rf: "routes_for (fv_discovery E) (up_name s) defs st = (out, rows, st')" by (metis prod_cases3)
    from assms(1) core have "gathered (fv_discovery E) [] st (cn_candidates c)" by (simp add: connecting_ok_def)
    note g = gathered_listed [OF this assms(2) rf assms(3)]
    have c': "connect_entry E s c = c\<lparr>cn_core := core1\<lparr>gw_quarantine := st'\<rparr>, cn_conns := AList.update (up_name s) up (cn_conns c),
        cn_dialed := cn_dialed (connect_entry E s c), cn_candidates := AList.update (up_name s) (ur_routes out) (cn_candidates c),
        cn_failures := cn_failures (connect_entry E s c), cn_rows := cn_rows (connect_entry E s c), cn_listing := cn_listing (connect_entry E s c)\<rparr>"
      using b l rf core1 by (simp add: connect_entry_def Let_def)
    have "core1\<lparr>gw_quarantine := st'\<rparr> = core\<lparr>gw_quarantine := st', gw_creds := creds1\<rparr>" using core1 by simp
    then have "\<exists>st creds. core1\<lparr>gw_quarantine := st'\<rparr> = core\<lparr>gw_quarantine := st, gw_creds := creds\<rparr>" by blast
    moreover have "list_all name_ok (map fst (AList.update (up_name s) up (cn_conns c)))"
      using assms(1,2) update_keys [of "up_name s" up "cn_conns c"] by (simp add: connecting_ok_def list_all_iff)
    ultimately show ?thesis using g by (subst c') (simp add: connecting_ok_def)
  qed
qed

lemma fold_connect_ok:
  assumes "connecting_ok (fv_discovery E) core c" "list_all name_ok (map up_name ss)" "digest32 (dc_digest (fv_discovery E))"
  shows "connecting_ok (fv_discovery E) core (fold (connect_entry E) ss c)"
  using assms by (induction ss arbitrary: c) (auto intro: connect_entry_ok)

lemma stable_candidates_ok:
  assumes "gathered (fv_discovery E) previous st cs" "list_all name_ok (map up_name ready)"
  shows "gathered (fv_discovery E) previous st (stable_candidates E st listing conns ready cs)"
  using assms unfolding stable_candidates_def
  by (induction ready arbitrary: cs) (auto simp: stable_candidate_def Let_def intro: gathered_stable)

lemma swap_ok:
  assumes "gateway_ok S H p g" "list_all name_ok (map fst conns)" "table_ok S p routes"
  shows "gateway_ok S H p (snd (swap conns dialed routes g))"
  using assms by (auto simp: swap_def gateway_ok_def fleet_named_def fleet_names_def servable_names_def list_all_iff)

lemma settle_fields [simp]:
  "gw_routes (gt_core (settle E servable keep frozen dialed rows g)) = gw_routes (gt_core g)"
  "gw_quarantine (gt_core (settle E servable keep frozen dialed rows g)) = gw_quarantine (gt_core g)"
  "gw_suspended (gt_core (settle E servable keep frozen dialed rows g)) = gw_suspended (gt_core g)"
  "gt_confirmed (settle E servable keep frozen dialed rows g) = gt_confirmed g"
  "gt_closed (settle E servable keep frozen dialed rows g) = gt_closed g"
  "gw_policy (gt_core (settle E servable keep frozen dialed rows g)) = gw_policy (gt_core g)"
  "gw_plan (gt_core (settle E servable keep frozen dialed rows g)) = gw_plan (gt_core g)"
  "gw_blocks (gt_core (settle E servable keep frozen dialed rows g)) = gw_blocks (gt_core g)"
  "gw_counters (gt_core (settle E servable keep frozen dialed rows g)) = gw_counters (gt_core g)"
  "gw_in_use (gt_core (settle E servable keep frozen dialed rows g)) = gw_in_use (gt_core g)"
  "gw_max_calls (gt_core (settle E servable keep frozen dialed rows g)) = gw_max_calls (gt_core g)"
  "gw_sent (gt_core (settle E servable keep frozen dialed rows g)) = gw_sent (gt_core g)"
  by (simp_all add: settle_def split: prod.splits)

definition booted :: "fleet_env \<Rightarrow> upstream list \<Rightarrow> gateway \<Rightarrow> connecting" where
  "booted E entries g =
     (let ck = check_entries E [] entries (gt_sig_refused g) in boot_answers E (map snd (ck_want ck)) (boot_start E ck g))"

definition boot_table :: "fleet_env \<Rightarrow> upstream list \<Rightarrow> gateway \<Rightarrow> table" where
  "boot_table E entries g =
     (let ck = check_entries E [] entries (gt_sig_refused g);
          candidates = boot_candidates E (map snd (ck_want ck)) (booted E entries g)
      in fst (withhold_undeclared (gw_plan (gt_core g)) (fst (merge_routes candidates))))"

text \<open>A boot that reads the registry and finds the plan covered: the table it installs, before the liveness of the fleet is settled.\<close>

lemma connect_effect:
  assumes ok: "gateway_ok S H p g" and E: "runs_with S H E" and H: "digest32 H"
    and open_g: "\<not> gt_closed g" and entries: "fv_entries E = Some entries" and covered: "snd (quota_coverage p entries) = []"
  obtains g' servable dialed rows where "snd (connect E g) = settle E servable (\<lambda>_. False) False dialed rows g'"
    "list_all name_ok servable" "gateway_ok S H p g'" "gt_confirmed g'" "\<not> gw_suspended (gt_core g')" "\<not> gt_closed g'"
    "\<And>x. x \<in> set (gw_routes (gt_core g')) \<Longrightarrow> vouched H [] (gw_quarantine (gt_core g')) x"
    "gt_core g' = (gt_core g)\<lparr>gw_fleet := (gw_fleet (gt_core g))\<lparr>fl_last_round := fv_round E, fl_conns := cn_conns (booted E entries g)\<rparr>,
       gw_routes := boot_table E entries g, gw_suspended := False, gw_quarantine := gw_quarantine (cn_core (booted E entries g)),
       gw_creds := gw_creds (cn_core (booted E entries g))\<rparr>"
proof -
  define ck where "ck = check_entries E [] entries (gt_sig_refused g)"
  define ready where "ready = map snd (ck_want ck)"
  define g1 where "g1 = boot_start E ck g"
  define cn where "cn = boot_answers E ready g1"
  define cs where "cs = boot_candidates E ready cn"
  obtain merged conflicts where m: "merge_routes cs = (merged, conflicts)" by fastforce
  obtain routes undeclared where w: "withhold_undeclared p merged = (routes, undeclared)" by fastforce
  define g2 where "g2 = serving (g1\<lparr>gt_core := cn_core cn, gt_listing := cn_listing cn\<rparr>)"
  obtain u probs where q: "quota_coverage p entries = (u, probs)" by fastforce
  have p: "gw_plan (gt_core g) = p" "gw_plan (gt_core g1) = p" using ok by (simp_all add: gateway_ok_def g1_def boot_start_def set_last_round_def)
  have ready_ok: "list_all name_ok (map up_name ready)"
    using check_entries_want [of _ E "[]" entries "gt_sig_refused g"] valid_entry_name
    by (fastforce simp: ready_def ck_def list_all_iff entry_ok_def)
  have core1: "gt_core g1 = (gt_core g)\<lparr>gw_fleet := (gw_fleet (gt_core g))\<lparr>fl_last_round := fv_round E\<rparr>\<rparr>"
    by (simp add: g1_def boot_start_def set_last_round_def)
  have ok1: "gateway_ok S H p g1" using ok by (simp add: gateway_ok_def core1 fleet_named_def)
  have D: "dc_lib (fv_discovery E) = S" "dc_digest (fv_discovery E) = H" using E by (simp_all add: runs_with_def)
  let ?start = "\<lparr>cn_core = gt_core g1, cn_conns = [], cn_dialed = [], cn_candidates = [], cn_failures = [], cn_rows = [],
    cn_listing = gt_listing g1\<rparr>"
  have "connecting_ok (fv_discovery E) (gt_core g1) ?start"
    using ok1 D exI [of "\<lambda>creds. gt_core g1 = (gt_core g1)\<lparr>gw_quarantine := gw_quarantine (gt_core g1), gw_creds := creds\<rparr>" "gw_creds (gt_core g1)"]
    by (auto simp: connecting_ok_def gathered_def gateway_ok_def intro!: exI [of _ "gw_quarantine (gt_core g1)"])
  then have "connecting_ok (fv_discovery E) (gt_core g1) cn"
    unfolding cn_def boot_answers_def by (rule fold_connect_ok) (use ready_ok H D in \<open>simp_all add: list_all_iff\<close>)
  then obtain st creds where cn: "gathered (fv_discovery E) [] st (cn_candidates cn)" "list_all name_ok (map fst (cn_conns cn))"
    "cn_core cn = (gt_core g1)\<lparr>gw_quarantine := st, gw_creds := creds\<rparr>" by (auto simp: connecting_ok_def)
  have gath: "gathered (fv_discovery E) [] st cs"
    unfolding cs_def boot_candidates_def cn(3) using stable_candidates_ok [OF cn(1) ready_ok] by simp
  note built = built_table_ok [OF gath, where p = p, unfolded m fst_conv w D]
  have "qs_inv H st" using gath D by (simp add: gathered_def)
  then have ok2: "gateway_ok S H p g2" using ok1 by (simp add: g2_def serving_def gateway_ok_def cn(3))
  have open2: "\<not> gt_closed g2" using open_g by (simp add: g2_def serving_def g1_def boot_start_def set_last_round_def)
  obtain g3 where sw: "swap (cn_conns cn) (cn_dialed cn) routes g2 = (False, g3)" using open2 by (simp add: swap_def)
  have "snd (connect E g) = settle E (map up_name ready) (\<lambda>_. False) False (map up_name ready) (ck_rows ck @ cn_rows cn) g3"
    using open_g entries covered p q m w sw
    by (simp add: connect_def Let_def ck_def [symmetric] ready_def [symmetric] g1_def [symmetric] cn_def [symmetric] cs_def [symmetric]
        g2_def [symmetric])
  moreover have "gateway_ok S H p g3" using swap_ok [OF ok2 cn(2) built(1), of "cn_dialed cn"] sw by simp
  moreover have "gt_confirmed g3" "\<not> gw_suspended (gt_core g3)" "\<not> gt_closed g3" using open2 sw by (auto simp: swap_def g2_def serving_def)
  moreover have booted: "booted E entries g = cn"
    unfolding booted_def Let_def ck_def [symmetric] ready_def [symmetric] g1_def [symmetric] cn_def [symmetric] ..
  moreover have "boot_table E entries g = routes"
    unfolding boot_table_def Let_def booted ck_def [symmetric] ready_def [symmetric] cs_def [symmetric] by (simp add: m w p)
  moreover have core3: "gt_core g3 = (gt_core g)\<lparr>gw_fleet := (gw_fleet (gt_core g))\<lparr>fl_last_round := fv_round E, fl_conns := cn_conns cn\<rparr>,
      gw_routes := routes, gw_suspended := False, gw_quarantine := gw_quarantine (cn_core cn), gw_creds := gw_creds (cn_core cn)\<rparr>"
    using open2 sw by (auto simp: swap_def g2_def serving_def cn(3) core1)
  moreover have "x \<in> set (gw_routes (gt_core g3)) \<Longrightarrow> vouched H [] (gw_quarantine (gt_core g3)) x" for x
    using built(2) by (simp add: core3 cn(3))
  ultimately show thesis using that [of "map up_name ready"] ready_ok by metis
qed

lemma connect_ok:
  assumes "gateway_ok S H p g" "runs_with S H E" "digest32 H"
  shows "gateway_ok S H p (snd (connect E g))"
proof -
  have empty: "gateway_ok S H p (snd (swap [] [] [] g))" by (rule swap_ok [OF assms(1)]) (simp_all add: table_ok_def)
  have p: "gw_plan (gt_core g) = p" using assms(1) by (simp add: gateway_ok_def)
  consider "gt_closed g" | "\<not> gt_closed g" "fv_entries E = None"
    | entries where "\<not> gt_closed g" "fv_entries E = Some entries" "snd (quota_coverage p entries) \<noteq> []"
    | entries where "\<not> gt_closed g" "fv_entries E = Some entries" "snd (quota_coverage p entries) = []" by blast
  then show ?thesis
  proof cases
    case (4 entries)
    from connect_effect [OF assms this] settle_ok show ?thesis by metis
  qed (use assms(1) empty p in \<open>auto simp: connect_def suspend_ok split: prod.splits\<close>)
qed

end
