(* ===== verification/Reconcile_Safety.thy ===== *)
theory Reconcile_Safety
  imports Fleet_Safety
begin

text \<open>
  The exact effect of a reconciliation: which connection each name has afterwards, as a function of the registry's entries and of what was there before, and which
  routes remain.
\<close>

section \<open>The specification\<close>

text \<open>The entry that may be served under a name, and whether the name's entry could not be checked.\<close>

definition servable_entry :: "fleet_env \<Rightarrow> string list \<Rightarrow> upstream list \<Rightarrow> string \<Rightarrow> upstream option" where
  "servable_entry E uncounted entries n = find (\<lambda>s. up_name s = n \<and> entry_ok E uncounted s) (rev entries)"

definition unmeasured_name :: "fleet_env \<Rightarrow> string list \<Rightarrow> upstream list \<Rightarrow> string \<Rightarrow> bool" where
  "unmeasured_name E uncounted entries n = list_ex (\<lambda>s. up_name s = n \<and> entry_unmeasured E uncounted s) entries"

definition dialled :: "fleet_env \<Rightarrow> upstream \<Rightarrow> conn option" where
  "dialled E s = Option.bind (resolve_env (fv_resolve E) (up_env s) []) (fv_dial E (spec_for s))"

text \<open>A connection is kept for an entry when it was dialled for that entry as it is now and was not found dead.\<close>

definition still_good :: "gateway \<Rightarrow> string \<Rightarrow> upstream \<Rightarrow> bool" where
  "still_good g n s =
     (map_of (fl_conns (gw_fleet (gt_core g))) n \<noteq> None
      \<and> (case map_of (gt_dialed g) n of None \<Rightarrow> False | Some was \<Rightarrow> \<not> spec_changed was s)
      \<and> map_of (fl_gone (gw_fleet (gt_core g))) n \<noteq> map_of (fl_conns (gw_fleet (gt_core g))) n)"

definition reconciled :: "fleet_env \<Rightarrow> upstream list \<Rightarrow> gateway \<Rightarrow> string \<Rightarrow> conn option" where
  "reconciled E entries g n =
     (let (uncounted, problems) = quota_coverage (gw_plan (gt_core g)) entries;
          current = map_of (fl_conns (gw_fleet (gt_core g))) n
      in case servable_entry E uncounted entries n of
           None \<Rightarrow> if unmeasured_name E uncounted entries n then current else None
         | Some s \<Rightarrow> if still_good g n s then current else if problems \<noteq> [] then None else dialled E s)"

definition keeps_routes :: "fleet_env \<Rightarrow> upstream list \<Rightarrow> gateway \<Rightarrow> string \<Rightarrow> bool" where
  "keeps_routes E entries g n =
     (let uncounted = fst (quota_coverage (gw_plan (gt_core g)) entries)
      in servable_entry E uncounted entries n \<noteq> None \<or> unmeasured_name E uncounted entries n)"

section \<open>What is closed\<close>

lemma map_of_fold_update:
  "map_of (fold (\<lambda>s. AList.update (up_name s) s) ss m) n
     = (case find (\<lambda>s. up_name s = n) (rev ss) of None \<Rightarrow> map_of m n | Some s \<Rightarrow> Some s)"
proof (induction ss rule: rev_induct)
  case (snoc s ss)
  then show ?case by (simp add: update_conv')
qed simp

lemma find_filter: "find P (filter Q xs) = find (\<lambda>x. P x \<and> Q x) xs"
  by (induction xs) auto

lemma wanted_entry:
  "map_of (ck_want (check_entries E uncounted entries refused)) n = servable_entry E uncounted entries n"
  by (simp add: check_entries_fields map_of_fold_update rev_filter find_filter servable_entry_def split: option.splits)

lemma unmeasured_entry:
  "n \<in> set (ck_unmeasured (check_entries E uncounted entries refused)) \<longleftrightarrow> unmeasured_name E uncounted entries n"
  by (auto simp: check_entries_fields unmeasured_name_def list_ex_iff)

definition closes :: "(string \<times> upstream) list \<Rightarrow> string list \<Rightarrow> (string \<times> upstream) list \<Rightarrow> (string \<times> conn) list \<Rightarrow> (string \<times> conn) list \<Rightarrow> string \<Rightarrow> bool" where
  "closes want unmeasured dialed live gone n =
     (case map_of want n of
        None \<Rightarrow> n \<notin> set unmeasured
      | Some s \<Rightarrow> (case map_of dialed n of None \<Rightarrow> True | Some was \<Rightarrow> spec_changed was s)
                   \<or> (map_of gone n \<noteq> None \<and> map_of gone n = map_of live n))"

lemma take_gone_spec:
  "take_gone n live fl = (map_of (fl_gone fl) n \<noteq> None \<and> map_of (fl_gone fl) n = live, fl\<lparr>fl_gone := AList.delete n (fl_gone fl)\<rparr>)"
proof (cases "map_of (fl_gone fl) n")
  case None
  then have "AList.delete n (fl_gone fl) = fl_gone fl" by (simp add: map_of_eq_None_iff delete_id)
  with None show ?thesis by (simp add: take_gone_def)
qed (auto simp: take_gone_def)

lemma closes_deleted:
  "closes want unmeasured dialed live (AList.delete n gone) m
     = (if m = n then closes want unmeasured dialed live [] m else closes want unmeasured dialed live gone m)"
  by (auto simp: closes_def AList.delete_conv' split: option.splits)

lemma plan_removals_spec:
  assumes "plan_removals want unmeasured dialed live names fl = (remove, drops, fl')"
  shows "set remove = {n \<in> set names. closes want unmeasured dialed live (fl_gone fl) n}
    \<and> set drops = {n \<in> set names. map_of want n = None \<and> n \<notin> set unmeasured}
    \<and> (\<exists>gone. fl' = fl\<lparr>fl_gone := gone\<rparr>)"
  using assms
proof (induction names arbitrary: fl remove drops fl')
  case Nil
  then have "fl' = fl\<lparr>fl_gone := fl_gone fl\<rparr>" by simp
  then have "\<exists>gone. fl' = fl\<lparr>fl_gone := gone\<rparr>" by blast
  with Nil show ?case by simp
next
  case (Cons n names)
  let ?c = "closes want unmeasured dialed live" and ?fl = "fl\<lparr>fl_gone := AList.delete n (fl_gone fl)\<rparr>"
  have weaker: "?c [] n \<Longrightarrow> ?c gone n" for gone by (auto simp: closes_def split: option.splits)
  show ?case
  proof (cases "map_of want n")
    case None
    obtain r d f where rec: "plan_removals want unmeasured dialed live names fl = (r, d, f)" by (metis prod_cases3)
    from Cons.IH [OF rec] Cons.prems None rec show ?thesis by (auto simp: closes_def split: if_splits)
  next
    case (Some s)
    show ?thesis
    proof (cases "case map_of dialed n of None \<Rightarrow> True | Some was \<Rightarrow> spec_changed was s")
      case True
      obtain r d f where rec: "plan_removals want unmeasured dialed live names fl = (r, d, f)" by (metis prod_cases3)
      have "?c (fl_gone fl) n" using Some True by (auto simp: closes_def)
      with Cons.IH [OF rec] Cons.prems Some True rec show ?thesis by auto
    next
      case False
      obtain r d f where rec: "plan_removals want unmeasured dialed live names ?fl = (r, d, f)" by (metis prod_cases3)
      have c: "?c (fl_gone fl) n \<longleftrightarrow> map_of (fl_gone fl) n \<noteq> None \<and> map_of (fl_gone fl) n = map_of live n" "\<not> ?c [] n"
        using Some False by (auto simp: closes_def)
      have tg: "take_gone n (map_of live n) fl = (?c (fl_gone fl) n, ?fl)" by (simp only: take_gone_spec c(1))
      have "set r = {m \<in> set names. m \<noteq> n \<and> ?c (fl_gone fl) m}"
        using Cons.IH [OF rec] c(2) by (auto simp: closes_deleted split: if_splits)
      moreover have "set d = {m \<in> set names. map_of want m = None \<and> m \<notin> set unmeasured}" "\<exists>gone. f = fl\<lparr>fl_gone := gone\<rparr>"
        using Cons.IH [OF rec] by auto
      moreover have "plan_removals want unmeasured dialed live (n # names) fl = (if ?c (fl_gone fl) n then (n # r, d, f) else (r, d, f))"
        by (cases "?c (fl_gone fl) n") (simp_all add: Some False tg rec)
      then have "remove = (if ?c (fl_gone fl) n then n # r else r)" "drops = d" "fl' = f"
        using Cons.prems by (simp_all split: if_splits)
      moreover have "{m \<in> set (n # names). ?c (fl_gone fl) m} = (if ?c (fl_gone fl) n then insert n {m \<in> set names. m \<noteq> n \<and> ?c (fl_gone fl) m}
          else {m \<in> set names. m \<noteq> n \<and> ?c (fl_gone fl) m})"
        by auto
      moreover have "{m \<in> set (n # names). map_of want m = None \<and> m \<notin> set unmeasured}
          = {m \<in> set names. map_of want m = None \<and> m \<notin> set unmeasured}" using Some by auto
      ultimately show ?thesis by simp
    qed
  qed
qed

section \<open>What is dialled\<close>

lemma bring_up_dialled: "fst (bring_up E s core) = dialled E s"
  by (simp add: bring_up_def dialled_def split: option.splits)

lemma dial_all_spec:
  assumes "dial_all E want names core = (add, fails, core')"
  shows "map_of (fold (\<lambda>(name, up, s). AList.update name up) add m) n
      = (if n \<in> set names \<and> dialled E (the (map_of want n)) \<noteq> None then dialled E (the (map_of want n)) else map_of m n)
    \<and> fst ` set add \<subseteq> set names \<and> (\<exists>creds. core' = core\<lparr>gw_creds := creds\<rparr>)"
  using assms
proof (induction names arbitrary: core add fails core' m)
  case Nil
  moreover have "core = core\<lparr>gw_creds := gw_creds core\<rparr>" by simp
  ultimately show ?case by (auto intro!: exI [of _ "gw_creds core"])
next
  case (Cons a names)
  obtain r core1 where b: "bring_up E (the (map_of want a)) core = (r, core1)" by fastforce
  then have r: "dialled E (the (map_of want a)) = r" using bring_up_dialled [of E "the (map_of want a)" core] by simp
  obtain add1 fails1 core2 where rec: "dial_all E want names core1 = (add1, fails1, core2)" by (metis prod_cases3)
  from bring_up_core [OF b] obtain c1 where c1: "core1 = core\<lparr>gw_creds := c1\<rparr>" ..
  from Cons.IH [OF rec] obtain c2 where "core2 = core1\<lparr>gw_creds := c2\<rparr>" by blast
  then have core2: "\<exists>creds. core2 = core\<lparr>gw_creds := creds\<rparr>" using c1 by auto
  show ?case
  proof (cases r)
    case None
    with Cons.prems b rec have "add = add1" "core' = core2" by simp_all
    with Cons.IH [OF rec, of m] core2 r None show ?thesis by auto
  next
    case (Some up)
    with Cons.prems b rec have add: "add = (a, up, the (map_of want a)) # add1" and "core' = core2" by simp_all
    have keys: "fst ` set add \<subseteq> set (a # names)" using Cons.IH [OF rec] add by auto
    have "map_of (fold (\<lambda>(name, up, s). AList.update name up) add m) n
        = map_of (fold (\<lambda>(name, up, s). AList.update name up) add1 (AList.update a up m)) n" by (simp add: add)
    also have "\<dots> = (if n \<in> set names \<and> dialled E (the (map_of want n)) \<noteq> None then dialled E (the (map_of want n))
        else map_of (AList.update a up m) n)" using Cons.IH [OF rec] by blast
    also have "\<dots> = (if n \<in> set (a # names) \<and> dialled E (the (map_of want n)) \<noteq> None then dialled E (the (map_of want n)) else map_of m n)"
      using r Some by (auto simp: update_conv')
    finally show ?thesis using keys core2 \<open>core' = core2\<close> by blast
  qed
qed

lemma map_of_without: "map_of (without names xs) n = (if n \<in> set names then None else map_of xs n)"
  by (induction xs) (auto simp: without_def)

lemma retire_fields:
  assumes "retire names drops g = (False, g')"
  shows "fl_conns (gw_fleet (gt_core g')) = without names (fl_conns (gw_fleet (gt_core g)))"
    "gw_routes (gt_core g') = filter (\<lambda>x. rt_upstream (snd x) \<notin> set drops) (gw_routes (gt_core g))"
    "gw_plan (gt_core g') = gw_plan (gt_core g)" "gw_quarantine (gt_core g') = gw_quarantine (gt_core g)"
    "gw_suspended (gt_core g') = gw_suspended (gt_core g)" "gw_in_use (gt_core g') = gw_in_use (gt_core g)"
    "fleet_names (gw_fleet (gt_core g')) \<subseteq> fleet_names (gw_fleet (gt_core g))" "gt_closed g' = gt_closed g"
  using assms
  by (auto simp: retire_def without_def Let_def fleet_names_def servable_names_def split: if_splits)

lemma retire_open: "\<not> gt_closed g \<Longrightarrow> \<exists>g'. retire names drops g = (False, g')"
  by (simp add: retire_def Let_def)

lemma adopt_fields:
  assumes "adopt add g = (False, g')"
  shows "fl_conns (gw_fleet (gt_core g')) = fold (\<lambda>(name, up, s). AList.update name up) add (fl_conns (gw_fleet (gt_core g)))"
    "gw_routes (gt_core g') = gw_routes (gt_core g)" "gw_plan (gt_core g') = gw_plan (gt_core g)"
    "gw_quarantine (gt_core g') = gw_quarantine (gt_core g)" "gw_suspended (gt_core g') = gw_suspended (gt_core g)"
    "gw_in_use (gt_core g') = gw_in_use (gt_core g)" "gt_confirmed g' = gt_confirmed g" "gt_closed g' = gt_closed g"
    "fl_health (gw_fleet (gt_core g')) = fl_health (gw_fleet (gt_core g))" "fl_servable (gw_fleet (gt_core g')) = fl_servable (gw_fleet (gt_core g))"
  using assms by (auto simp: adopt_def Let_def split: if_splits)

lemma adopt_open: "\<not> gt_closed g \<Longrightarrow> \<exists>g'. adopt add g = (False, g')"
  by (simp add: adopt_def Let_def)

section \<open>The round\<close>

lemma fold_update_keys: "fst ` set (fold (\<lambda>(name, up, s). AList.update name up) add m) = fst ` set add \<union> fst ` set m"
proof (induction add arbitrary: m)
  case (Cons x add)
  obtain name up s where x: "x = (name, up, s)" by (cases x)
  show ?case using Cons [of "AList.update name up m"] by (simp add: x update_keys del: set_map)
qed simp

lemma reconcile_effect:
  assumes open_g: "\<not> gt_closed g" and entries: "fv_entries E = Some entries"
  obtains g' servable keep frozen dialed rows where "snd (reconcile E g) = settle E servable keep frozen dialed rows g'"
    "list_all name_ok servable" "gt_confirmed g'" "\<not> gt_closed g'"
    "\<And>n. map_of (fl_conns (gw_fleet (gt_core g'))) n = reconciled E entries g n"
    "gw_routes (gt_core g') = filter (\<lambda>x. keeps_routes E entries g (rt_upstream (snd x))) (gw_routes (gt_core g))"
    "gw_plan (gt_core g') = gw_plan (gt_core g)" "gw_quarantine (gt_core g') = gw_quarantine (gt_core g)"
    "gw_suspended (gt_core g') = gw_suspended (gt_core g)" "gw_in_use (gt_core g') = gw_in_use (gt_core g)"
    "\<And>n. n \<in> fleet_names (gw_fleet (gt_core g')) \<Longrightarrow> n \<in> fleet_names (gw_fleet (gt_core g)) \<or> name_ok n"
proof -
  let ?fl = "gw_fleet (gt_core g)"
  define live where "live = fl_conns ?fl"
  obtain uncounted problems where q: "quota_coverage (gw_plan (gt_core g)) entries = (uncounted, problems)" by fastforce
  define g1 where "g1 = set_last_round (fv_round E) g"
  define ck where "ck = check_entries E uncounted entries (gt_sig_refused g1)"
  define g2 where "g2 = g1\<lparr>gt_sig_refused := ck_refused ck\<rparr>"
  obtain remove drops fl where pr: "plan_removals (ck_want ck) (ck_unmeasured ck) (gt_dialed g) live (sort (map fst live)) (gw_fleet (gt_core g1))
      = (remove, drops, fl)" by (metis prod_cases3)
  define g3 where "g3 = g2\<lparr>gt_core := (gt_core g1)\<lparr>gw_fleet := fl\<rparr>\<rparr>"
  define stale where "stale = filter (\<lambda>u. map_of (ck_want ck) u = None \<and> u \<notin> set (ck_unmeasured ck)) (map (\<lambda>x. rt_upstream (snd x)) (gw_routes (gt_core g1)))"
  have open3: "\<not> gt_closed g3" using open_g by (simp add: g3_def g2_def g1_def set_last_round_def)
  obtain g4 where re: "retire remove (drops @ stale) g3 = (False, g4)" using retire_open [OF open3] by blast
  define to_dial where "to_dial = (if problems \<noteq> [] then []
      else filter (\<lambda>name. map_of live name = None \<or> name \<in> set remove) (sort (map fst (ck_want ck))))"
  obtain add fails core where da: "dial_all E (ck_want ck) to_dial (gt_core g4) = (add, fails, core)" by (metis prod_cases3)
  define g5 where "g5 = confirm (g4\<lparr>gt_core := core\<rparr>)"
  note r = retire_fields [OF re]
  have open5: "\<not> gt_closed g5" using r(8) open3 by (simp add: g5_def confirm_def)
  obtain g6 where ad: "adopt add g5 = (False, g6)" using adopt_open [OF open5] by blast
  note a = adopt_fields [OF ad]
  have plan1: "gw_plan (gt_core g1) = gw_plan (gt_core g)" by (simp add: g1_def set_last_round_def)
  have frozen5: "problems \<noteq> [] \<Longrightarrow> confirm g4 = g5" using da by (auto simp: to_dial_def g5_def)
  have res: "snd (reconcile E g) = settle E (sort (map fst (ck_want ck))) (\<lambda>name. name \<in> set (ck_unmeasured ck)) (problems \<noteq> []) to_dial (ck_rows ck) g6"
    using open_g entries q pr re da ad plan1 frozen5
    by (cases "problems = []")
       (simp_all add: reconcile_def Let_def live_def [symmetric] g1_def [symmetric] ck_def [symmetric] g2_def [symmetric] g3_def [symmetric]
        stale_def [symmetric] to_dial_def g5_def [symmetric])
  have want: "map_of (ck_want ck) n = servable_entry E uncounted entries n" for n by (simp add: ck_def wanted_entry)
  have unm: "n \<in> set (ck_unmeasured ck) \<longleftrightarrow> unmeasured_name E uncounted entries n" for n by (simp add: ck_def unmeasured_entry)
  have fl2: "gw_fleet (gt_core g1) = ?fl\<lparr>fl_last_round := fv_round E\<rparr>" by (simp add: g1_def set_last_round_def)
  have "set remove = {n \<in> set (sort (map fst live)). closes (ck_want ck) (ck_unmeasured ck) (gt_dialed g) live (fl_gone (gw_fleet (gt_core g1))) n}"
    and drops: "set drops = {n \<in> set (sort (map fst live)). map_of (ck_want ck) n = None \<and> n \<notin> set (ck_unmeasured ck)}"
    and "\<exists>gone. fl = (gw_fleet (gt_core g1))\<lparr>fl_gone := gone\<rparr>"
    using plan_removals_spec [OF pr] by blast+
  then obtain gone where remove: "set remove = {n \<in> fst ` set live. closes (ck_want ck) (ck_unmeasured ck) (gt_dialed g) live (fl_gone ?fl) n}"
    and fl: "fl = ?fl\<lparr>fl_last_round := fv_round E, fl_gone := gone\<rparr>" using fl2 by auto
  have core3: "gt_core g3 = (gt_core g)\<lparr>gw_fleet := fl\<rparr>" by (simp add: g3_def g2_def g1_def set_last_round_def)
  note d = dial_all_spec [OF da]
  obtain creds where core: "core = (gt_core g4)\<lparr>gw_creds := creds\<rparr>" using d by blast
  have core5: "gt_core g5 = (gt_core g4)\<lparr>gw_creds := creds\<rparr>" by (simp add: g5_def confirm_def core)
  have conns: "map_of (fl_conns (gw_fleet (gt_core g6))) n = reconciled E entries g n" for n
  proof -
    have removed: "n \<in> set remove \<longleftrightarrow> map_of live n \<noteq> None \<and> closes (ck_want ck) (ck_unmeasured ck) (gt_dialed g) live (fl_gone ?fl) n"
      using remove by (simp add: map_of_eq_None_iff)
    have "n \<in> fst ` set (ck_want ck) \<longleftrightarrow> map_of (ck_want ck) n \<noteq> None" by (simp add: map_of_eq_None_iff)
    then have dial: "n \<in> set to_dial \<longleftrightarrow> problems = [] \<and> map_of (ck_want ck) n \<noteq> None \<and> (map_of live n = None \<or> n \<in> set remove)"
      by (auto simp: to_dial_def)
    have conns5: "fl_conns (gw_fleet (gt_core g5)) = without remove live" using r(1) core3 fl by (simp add: core5 live_def)
    have "map_of (fl_conns (gw_fleet (gt_core g6))) n = (if n \<in> set to_dial \<and> dialled E (the (map_of (ck_want ck) n)) \<noteq> None
        then dialled E (the (map_of (ck_want ck) n)) else if n \<in> set remove then None else map_of live n)"
      unfolding a(1) conns5 conjunct1 [OF d] map_of_without ..
    also have "\<dots> = reconciled E entries g n"
      unfolding reconciled_def q still_good_def
      by (cases "servable_entry E uncounted entries n"; cases "map_of live n")
         (auto simp: dial removed want unm closes_def live_def split: option.splits)
    finally show ?thesis .
  qed
  have "rt_upstream (snd x) \<notin> set (drops @ stale) \<longleftrightarrow> keeps_routes E entries g (rt_upstream (snd x))"
    if "x \<in> set (gw_routes (gt_core g))" for x
    using that drops core3 by (auto simp: stale_def keeps_routes_def q want unm g1_def set_last_round_def)
  from filter_cong [OF refl this]
  have routes: "gw_routes (gt_core g6) = filter (\<lambda>x. keeps_routes E entries g (rt_upstream (snd x))) (gw_routes (gt_core g))"
    using r(2) a(2) core5 core3 by simp
  have names: "list_all name_ok (sort (map fst (ck_want ck)))"
    using check_entries_names [of E uncounted entries "gt_sig_refused g1"] by (simp add: ck_def list_all_iff)
  have "set to_dial \<subseteq> set (sort (map fst (ck_want ck)))" by (auto simp: to_dial_def)
  moreover have "fst ` set add \<subseteq> set to_dial" using d by blast
  ultimately have "fst ` set add \<subseteq> set (sort (map fst (ck_want ck)))" by blast
  then have new: "n \<in> fst ` set add \<Longrightarrow> name_ok n" for n using names unfolding list_all_iff by blast
  have sub: "fleet_names (gw_fleet (gt_core g4)) \<subseteq> fleet_names ?fl" using r(7) by (simp add: core3 fl)
  have "n \<in> fleet_names ?fl \<or> name_ok n" if "n \<in> fleet_names (gw_fleet (gt_core g6))" for n
    using that sub new a(1,9,10) core5 by (auto simp: fleet_names_def servable_names_def fold_update_keys)
  with that [OF res names] conns routes r a open5 show thesis
    by (simp add: core core3 g5_def confirm_def)
qed

text \<open>Settling the liveness of a fleet leaves its connections and their markers alone.\<close>

definition same_conns :: "fleet \<Rightarrow> fleet \<Rightarrow> bool" where
  "same_conns fl fl' = (fl_conns fl' = fl_conns fl \<and> fl_gone fl' = fl_gone fl \<and> fl_unlisted fl' = fl_unlisted fl)"

lemma settle_names_conns: "same_conns fl (snd (settle_names frozen dialed now ns fl))"
proof (induction ns arbitrary: fl)
  case Nil
  show ?case by (simp add: same_conns_def)
next
  case (Cons n ns)
  let ?o = "observe_live n (conn_live fl n) (settle_cause fl frozen dialed n) (n \<in> set dialed) now fl"
  from Cons [of "snd ?o"] show ?case
    by (simp only: settle_names.simps case_prod_beta snd_conv observe_live_conns same_conns_def)
qed

lemma forget_names_conns: "same_conns fl (snd (forget_names ns fl))"
proof (induction ns arbitrary: fl)
  case Nil
  show ?case by (simp add: same_conns_def)
next
  case (Cons n ns)
  have "same_conns fl (snd (forget_health n fl))" by (simp add: forget_health_def same_conns_def)
  with Cons [of "snd (forget_health n fl)"] show ?case
    by (simp only: forget_names.simps case_prod_beta snd_conv same_conns_def)
qed

lemma settle_conns [simp]:
  "fl_conns (gw_fleet (gt_core (settle E servable keep frozen dialed rows g))) = fl_conns (gw_fleet (gt_core g))"
  "fl_gone (gw_fleet (gt_core (settle E servable keep frozen dialed rows g))) = fl_gone (gw_fleet (gt_core g))"
  "fl_unlisted (gw_fleet (gt_core (settle E servable keep frozen dialed rows g))) = fl_unlisted (gw_fleet (gt_core g))"
  using settle_names_conns [unfolded same_conns_def] forget_names_conns [unfolded same_conns_def]
  by (simp_all add: settle_def settle_health_def case_prod_beta)

lemma reconcile_ok:
  assumes ok: "gateway_ok S H p g"
  shows "gateway_ok S H p (snd (reconcile E g))"
proof (cases "gt_closed g \<or> fv_entries E = None")
  case True
  then show ?thesis using ok suspend_ok [OF ok] by (auto simp: reconcile_def)
next
  case False
  then obtain entries where "\<not> gt_closed g" "fv_entries E = Some entries" by auto
  from reconcile_effect [OF this] show ?thesis
  proof cases
    case (1 g' servable keep frozen dialed rows)
    from ok have "fleet_named (gw_fleet (gt_core g'))" using 1(11) by (auto simp: gateway_ok_def fleet_named_def)
    with ok have "gateway_ok S H p g'" by (simp add: gateway_ok_def 1 table_ok_filter)
    from settle_ok [OF this 1(2)] show ?thesis by (simp add: 1(1))
  qed
qed

text \<open>
  C27 (functional): a reconciliation that reads the registry leaves under every name exactly the connection the specification says: the current one when the name's entry
  could not be checked or is servable, unchanged and not found dead; a newly dialled one when the entry is servable and there was none, or it had changed, or was found dead,
  and never while the plan and the registry disagree; and none otherwise. Of the routes it keeps exactly those of backends that are servable or could not be checked, and it
  does not lift a suspension.
\<close>
theorem reconcile_exact:
  assumes "\<not> gt_closed g" "fv_entries E = Some entries"
  shows "map_of (fl_conns (gw_fleet (gt_core (snd (reconcile E g))))) n = reconciled E entries g n
    \<and> gw_routes (gt_core (snd (reconcile E g))) = filter (\<lambda>x. keeps_routes E entries g (rt_upstream (snd x))) (gw_routes (gt_core g))
    \<and> gw_suspended (gt_core (snd (reconcile E g))) = gw_suspended (gt_core g)"
  using reconcile_effect [OF assms] by (metis settle_conns(1) settle_fields(1,3))

end
