(* ===== verification/Fleet_Reload.thy ===== *)
theory Fleet_Reload
  imports Reconcile_Safety
begin

text \<open>
  Model of \<open>internal/gateway/reload.go\<close> (\<open>ApplyPolicy\<close>, \<open>RoutedTools\<close>, \<open>Redial\<close>, \<open>BackendState\<close>) and of \<open>Close\<close> of \<open>internal/gateway/endpoint.go\<close>: what an operator changes in a running
  gateway. Each takes the gateway's lock over everything it changes, so each is one step.
\<close>

section \<open>Operations\<close>

text \<open>\<open>entries\<close> is what the registry answers. A missing policy or quota gate, which the source refuses, is not a value here.\<close>

definition apply_policy :: "upstream list option \<Rightarrow> policy \<Rightarrow> plan \<Rightarrow> gateway \<Rightarrow> fleet_error option \<times> gateway" where
  "apply_policy entries pol p g =
     (if gt_closed g then (Some FleetClosed, g)
      else case entries of
        None \<Rightarrow> (Some FleetRegistryUnavailable, g)
      | Some entries \<Rightarrow>
          (case quota_coverage p entries of (_, problems) \<Rightarrow>
             if problems \<noteq> [] then (Some (FleetCoverage problems), g)
             else let core = gt_core g;
                      undeclared = undeclared_quota_tools p (map fst (gw_routes core))
                  in (None, g\<lparr>gt_core := core\<lparr>gw_policy := pol, gw_plan := p,
                        gw_routes := filter (\<lambda>x. fst x \<notin> set undeclared) (gw_routes core)\<rparr>\<rparr>)))"

definition routed_tools :: "gateway \<Rightarrow> string list" where
  "routed_tools g = sort (map fst (gw_routes (gt_core g)))"

definition cause_redial :: string where "cause_redial = ''redial''"

datatype redial_error = RedialClosed | RedialNotServable string | RedialHeldBack string

definition redial_mark :: "gotime \<Rightarrow> string \<Rightarrow> conn \<Rightarrow> fleet \<Rightarrow> health_event option \<times> fleet" where
  "redial_mark now name up fl =
     (let fl = fl\<lparr>fl_gone := AList.update name up (fl_gone fl)\<rparr>
      in if map_of (fl_health fl) name \<noteq> None then observe_live name False cause_redial False now fl else (None, fl))"

definition redial :: "libs \<Rightarrow> (nat \<Rightarrow> call_env) \<Rightarrow> gotime \<Rightarrow> string \<Rightarrow> gateway \<Rightarrow> (redial_error + bool) \<times> gateway" where
  "redial L env now name g =
     (let fl = gw_fleet (gt_core g); live = map_of (fl_conns fl) name
      in if gt_closed g then (Inl RedialClosed, g)
         else if live = None \<and> \<not> (case fl_servable fl of None \<Rightarrow> False | Some s \<Rightarrow> name \<in> set s) then (Inl (RedialNotServable name), g)
         else if fl_held_back fl then (Inl (RedialHeldBack name), g)
         else case live of
           None \<Rightarrow> (Inr False, g)
         | Some up \<Rightarrow>
             if map_of (fl_gone fl) name = Some up then (Inr False, g)
             else (case redial_mark now name up fl of (ev, fl) \<Rightarrow>
                     (Inr True, g\<lparr>gt_core := write_rows L env 0 (health_rows L [ev]) ((gt_core g)\<lparr>gw_fleet := fl\<rparr>)\<rparr>)))"

definition backend_state :: "gateway \<Rightarrow> string \<Rightarrow> (bool \<times> string) option" where
  "backend_state g name = map_option (\<lambda>b. (bh_live b, bh_cause b)) (map_of (fl_health (gw_fleet (gt_core g))) name)"

definition close_gateway :: "gateway \<Rightarrow> gateway" where
  "close_gateway g =
     (if gt_closed g then g
      else let core = gt_core g
           in g\<lparr>gt_closed := True, gt_dialed := [],
                gt_core := core\<lparr>gw_fleet := (gw_fleet core)\<lparr>fl_conns := [], fl_gone := []\<rparr>, gw_creds := [], gw_routes := []\<rparr>\<rparr>)"

section \<open>What they keep\<close>

lemma apply_policy_ok:
  assumes "gateway_ok S H p g" "apply_policy entries pol p' g = (err, g')"
  shows "gateway_ok S H (if err = None then p' else p) g'"
    "set (gw_routes (gt_core g')) \<subseteq> set (gw_routes (gt_core g))"
    "gw_quarantine (gt_core g') = gw_quarantine (gt_core g)" "gw_sent (gt_core g') = gw_sent (gt_core g)"
    "gw_suspended (gt_core g') = gw_suspended (gt_core g)" "gt_confirmed g' = gt_confirmed g"
proof -
  let ?routes = "gw_routes (gt_core g)"
  define kept where "kept = filter (\<lambda>x. fst x \<notin> set (undeclared_quota_tools p' (map fst ?routes))) ?routes"
  have "kept = fst (withhold_undeclared p' ?routes)" by (simp add: kept_def withhold_undeclared_def Let_def)
  then have kept: "set kept \<subseteq> set ?routes" "table_ok S p' kept"
    using withhold_undeclared_spec(1) [of _ p' ?routes] withhold_undeclared_spec(2) [of ?routes p'] assms(1) by (auto simp: gateway_ok_def table_ok_def)
  have "err \<noteq> None \<and> g' = g \<or> err = None \<and> g' = g\<lparr>gt_core := (gt_core g)\<lparr>gw_policy := pol, gw_plan := p', gw_routes := kept\<rparr>\<rparr>"
    using assms(2) by (auto simp: apply_policy_def Let_def kept_def split: if_splits option.splits prod.splits)
  then show "gateway_ok S H (if err = None then p' else p) g'"
    "set (gw_routes (gt_core g')) \<subseteq> set (gw_routes (gt_core g))"
    "gw_quarantine (gt_core g') = gw_quarantine (gt_core g)" "gw_sent (gt_core g') = gw_sent (gt_core g)"
    "gw_suspended (gt_core g') = gw_suspended (gt_core g)" "gt_confirmed g' = gt_confirmed g"
    using assms(1) kept by (auto simp: gateway_ok_def)
qed

lemma redial_ok:
  assumes "gateway_ok S H p g"
  shows "gateway_ok S H p (snd (redial L env now name g))"
    "gw_routes (gt_core (snd (redial L env now name g))) = gw_routes (gt_core g)"
    "gw_quarantine (gt_core (snd (redial L env now name g))) = gw_quarantine (gt_core g)"
    "gw_sent (gt_core (snd (redial L env now name g))) = gw_sent (gt_core g)"
    "gw_suspended (gt_core (snd (redial L env now name g))) = gw_suspended (gt_core g)"
    "gt_confirmed (snd (redial L env now name g)) = gt_confirmed g"
proof -
  have "snd (redial L env now name g) = g \<or> (\<exists>ev fl. fleet_named fl
      \<and> snd (redial L env now name g) = g\<lparr>gt_core := write_rows L env 0 (health_rows L [ev]) ((gt_core g)\<lparr>gw_fleet := fl\<rparr>)\<rparr>)"
  proof (cases "snd (redial L env now name g) = g")
    case False
    then obtain up ev fl where up: "map_of (fl_conns (gw_fleet (gt_core g))) name = Some up"
      and m: "redial_mark now name up (gw_fleet (gt_core g)) = (ev, fl)"
      and r: "snd (redial L env now name g) = g\<lparr>gt_core := write_rows L env 0 (health_rows L [ev]) ((gt_core g)\<lparr>gw_fleet := fl\<rparr>)\<rparr>"
      by (cases "map_of (fl_conns (gw_fleet (gt_core g))) name")
        (auto simp: redial_def Let_def split: if_splits prod.splits)
    have n: "fleet_named (gw_fleet (gt_core g))" using assms by (simp add: gateway_ok_def)
    define fl0 where "fl0 = (gw_fleet (gt_core g))\<lparr>fl_gone := AList.update name up (fl_gone (gw_fleet (gt_core g)))\<rparr>"
    have "fleet_named fl0" using n by (simp add: fl0_def fleet_named_def)
    then have "fleet_named (snd (redial_mark now name up (gw_fleet (gt_core g))))"
      using observe_live_named [OF _ conn_name_ok [OF n up]] by (simp add: redial_mark_def Let_def fl0_def [symmetric])
    with m r show ?thesis by auto
  qed simp
  then show "gateway_ok S H p (snd (redial L env now name g))"
    "gw_routes (gt_core (snd (redial L env now name g))) = gw_routes (gt_core g)"
    "gw_quarantine (gt_core (snd (redial L env now name g))) = gw_quarantine (gt_core g)"
    "gw_sent (gt_core (snd (redial L env now name g))) = gw_sent (gt_core g)"
    "gw_suspended (gt_core (snd (redial L env now name g))) = gw_suspended (gt_core g)"
    "gt_confirmed (snd (redial L env now name g)) = gt_confirmed g"
    using assms by (auto simp: gateway_ok_def)
qed

lemma close_ok:
  assumes "gateway_ok S H p g"
  shows "gateway_ok S H p (close_gateway g)" "set (gw_routes (gt_core (close_gateway g))) \<subseteq> set (gw_routes (gt_core g))"
    "gw_quarantine (gt_core (close_gateway g)) = gw_quarantine (gt_core g)" "gw_sent (gt_core (close_gateway g)) = gw_sent (gt_core g)"
    "gw_suspended (gt_core (close_gateway g)) = gw_suspended (gt_core g)" "gt_confirmed (close_gateway g) = gt_confirmed g"
  using assms by (auto simp: close_gateway_def Let_def gateway_ok_def table_ok_def fleet_named_def fleet_names_def servable_names_def)

end
