(* ===== verification/Fleet_Rounds.thy ===== *)
theory Fleet_Rounds
  imports Fleet_Reload Quarantine_History Dispatch_Sample
begin

text \<open>
  The refresh, and the gateway as a state machine: boots, reconciliations, refreshes, calls, policy reloads, redials, the shutdown, and what operators do to the
  quarantine and the blocklist meanwhile, in any order.
\<close>

section \<open>Refresh\<close>

definition refreshing_ok :: "discovery \<Rightarrow> table \<Rightarrow> gw \<Rightarrow> refreshing \<Rightarrow> bool" where
  "refreshing_ok D previous core r =
     (gathered D previous (gw_quarantine (rf_core r)) (rf_candidates r) \<and> fleet_named (gw_fleet (rf_core r))
      \<and> (\<exists>st fl. rf_core r = core\<lparr>gw_quarantine := st, gw_fleet := fl\<rparr>))"

lemma refreshing_okI:
  assumes "rf_core r = core\<lparr>gw_quarantine := st, gw_fleet := fl\<rparr>" "gathered D previous st (rf_candidates r)" "fleet_named fl"
  shows "refreshing_ok D previous core r"
  using assms unfolding refreshing_ok_def by auto

lemma refresh_answer_ok:
  assumes ok: "refreshing_ok (fv_discovery E) previous core r" and name: "name_ok name"
    and prev: "table_ok (dc_lib (fv_discovery E)) p previous" and H: "digest32 (dc_digest (fv_discovery E))"
  shows "refreshing_ok (fv_discovery E) previous core (refresh_answer E previous (name, up) r)"
proof -
  let ?D = "fv_discovery E"
  obtain st fl where core: "rf_core r = core\<lparr>gw_quarantine := st, gw_fleet := fl\<rparr>" using ok by (auto simp: refreshing_ok_def)
  then have g: "gathered ?D previous st (rf_candidates r)" and n: "fleet_named fl" using ok by (simp_all add: refreshing_ok_def)
  have q: "qs_inv (dc_digest ?D) st" using g by (simp add: gathered_def)
  show ?thesis
  proof (cases "fv_list E up")
    case (Inl f)
    define fl' where "fl' = (if f = ListGone then snd (mark_gone name (Some up) (fv_event E) fl) else fl)"
    have "fleet_named fl'" using n by (simp add: fl'_def mark_gone_named)
    moreover have "rf_core (refresh_answer E previous (name, up) r) = core\<lparr>gw_quarantine := st, gw_fleet := fl'\<rparr>"
      using Inl core by (simp add: refresh_answer_def fl'_def with_fleet_def Let_def case_prod_beta)
    moreover have "gathered ?D previous st (rf_candidates (refresh_answer E previous (name, up) r))"
    proof -
      define listed where "listed = listing_for (rf_listing r) name"
      have "rf_candidates (refresh_answer E previous (name, up) r)
          = AList.update name (if f = ListGone \<and> \<not> ur_unmeasured (stable_routes_for ?D name listed st) then ur_routes (stable_routes_for ?D name listed st)
              else routes_of previous name) (rf_candidates r)"
        using Inl core by (simp add: refresh_answer_def unlisted_routes_def with_fleet_def Let_def case_prod_beta listed_def)
      then show ?thesis using gathered_stable [OF g name] gathered_previous [OF g prev name q] by simp
    qed
    ultimately show ?thesis by (rule refreshing_okI [rotated 2]) 
  next
    case (Inr defs)
    obtain out rows st' where rf: "routes_for ?D name defs st = (out, rows, st')" by (metis prod_cases3)
    note spec = routes_for_spec [OF rf q H]
    show ?thesis
    proof (cases "ur_unmeasured out")
      case True
      have "rf_core (refresh_answer E previous (name, up) r) = core\<lparr>gw_quarantine := st', gw_fleet := fl\<rparr>"
        "rf_candidates (refresh_answer E previous (name, up) r) = AList.update name (routes_of previous name) (rf_candidates r)"
        using Inr core rf True by (simp_all add: refresh_answer_def Let_def)
      with gathered_previous [OF g prev name spec(1,4)] n show ?thesis by (simp add: refreshing_okI)
    next
      case False
      define fl' where "fl' = snd (mark_listed name (Some up) (fv_event E) fl)"
      have "fleet_named fl'" using n by (simp add: fl'_def mark_listed_named)
      moreover have "rf_core (refresh_answer E previous (name, up) r) = core\<lparr>gw_quarantine := st', gw_fleet := fl'\<rparr>"
        "rf_candidates (refresh_answer E previous (name, up) r) = AList.update name (ur_routes out) (rf_candidates r)"
        using Inr core rf False by (simp_all add: refresh_answer_def with_fleet_def Let_def case_prod_beta fl'_def)
      ultimately show ?thesis using gathered_listed [OF g name rf H] by (simp add: refreshing_okI)
    qed
  qed
qed

lemma down_routes_ok:
  assumes ok: "refreshing_ok (fv_discovery E) previous core r" and name: "name_ok name"
    and prev: "table_ok (dc_lib (fv_discovery E)) p previous"
  shows "refreshing_ok (fv_discovery E) previous core (down_routes E previous name r)"
proof -
  let ?st = "gw_quarantine (rf_core r)"
  have g: "gathered (fv_discovery E) previous ?st (rf_candidates r)" using ok by (simp add: refreshing_ok_def)
  then have "qs_inv (dc_digest (fv_discovery E)) ?st" by (simp add: gathered_def)
  with gathered_stable [OF g name] gathered_previous [OF g prev name]
  have "gathered (fv_discovery E) previous ?st (rf_candidates (down_routes E previous name r))" by (simp add: down_routes_def Let_def)
  with ok show ?thesis by (simp add: refreshing_ok_def down_routes_def Let_def)
qed

lemma fold_refresh_ok:
  assumes "table_ok (dc_lib (fv_discovery E)) p previous" "digest32 (dc_digest (fv_discovery E))"
  shows "refreshing_ok (fv_discovery E) previous core r \<Longrightarrow> list_all (\<lambda>x. name_ok (fst x)) conns \<Longrightarrow>
      refreshing_ok (fv_discovery E) previous core (fold (refresh_answer E previous) conns r)"
    and "refreshing_ok (fv_discovery E) previous core r \<Longrightarrow> list_all name_ok names \<Longrightarrow>
      refreshing_ok (fv_discovery E) previous core (fold (down_routes E previous) names r)"
proof -
  show "refreshing_ok (fv_discovery E) previous core r \<Longrightarrow> list_all (\<lambda>x. name_ok (fst x)) conns \<Longrightarrow>
      refreshing_ok (fv_discovery E) previous core (fold (refresh_answer E previous) conns r)"
  proof (induction conns arbitrary: r)
    case (Cons x conns)
    obtain n up where x: "x = (n, up)" by (cases x)
    have "refreshing_ok (fv_discovery E) previous core (refresh_answer E previous (n, up) r)"
      by (rule refresh_answer_ok [OF Cons.prems(1) _ assms]) (use Cons.prems(2) x in simp)
    with Cons x show ?case by simp
  qed simp
  show "refreshing_ok (fv_discovery E) previous core r \<Longrightarrow> list_all name_ok names \<Longrightarrow>
      refreshing_ok (fv_discovery E) previous core (fold (down_routes E previous) names r)"
    by (induction names arbitrary: r) (auto intro: down_routes_ok [OF _ _ assms(1)])
qed

lemma refresh_effect:
  assumes ok: "gateway_ok S H p g" and E: "runs_with S H E" and H: "digest32 H" and open_g: "\<not> gt_closed g"
  shows "gateway_ok S H p (snd (refresh E g))"
    and "gt_confirmed (snd (refresh E g)) = gt_confirmed g"
    and "gt_confirmed g \<Longrightarrow> \<not> gw_suspended (gt_core (snd (refresh E g)))"
    and "gt_confirmed g \<Longrightarrow> x \<in> set (gw_routes (gt_core (snd (refresh E g))))
      \<Longrightarrow> vouched H (gw_routes (gt_core g)) (gw_quarantine (gt_core (snd (refresh E g)))) x"
    and "\<not> gt_confirmed g \<Longrightarrow> gw_routes (gt_core (snd (refresh E g))) = gw_routes (gt_core g)
      \<and> gw_suspended (gt_core (snd (refresh E g))) = gw_suspended (gt_core g)"
    and "gw_sent (gt_core (snd (refresh E g))) = gw_sent (gt_core g)"
proof -
  let ?conns = "fl_conns (gw_fleet (gt_core g))" and ?prev = "gw_routes (gt_core g)"
  define start where "start = \<lparr>rf_core = gt_core g, rf_candidates = [], rf_failures = [], rf_rows = [], rf_events = [], rf_listing = gt_listing g\<rparr>"
  define r1 where "r1 = fold (refresh_answer E ?prev) (sort_key (\<lambda>x. fv_rank E (fst x)) (sort_key fst ?conns)) start"
  define r2 where "r2 = fold (down_routes E ?prev) (servable_not_connected (gw_fleet (rf_core r1)) ?conns) r1"
  obtain merged conflicts where m: "merge_routes (rf_candidates r2) = (merged, conflicts)" by fastforce
  obtain routes undeclared where w: "withhold_undeclared p merged = (routes, undeclared)" by fastforce
  define g1 where "g1 = g\<lparr>gt_core := rf_core r2, gt_listing := rf_listing r2\<rparr>"
  have D: "dc_lib (fv_discovery E) = S" "dc_digest (fv_discovery E) = H" using E by (simp_all add: runs_with_def)
  have okf: "fleet_named (gw_fleet (gt_core g))" "table_ok S p ?prev" "qs_inv H (gw_quarantine (gt_core g))" "gw_plan (gt_core g) = p"
    "slots_ok (gw_in_use (gt_core g))"
    using ok by (simp_all add: gateway_ok_def)
  note folds = fold_refresh_ok [of E p ?prev, unfolded D, OF okf(2) H]
  have "refreshing_ok (fv_discovery E) ?prev (gt_core g) start"
    by (rule refreshing_okI [where st = "gw_quarantine (gt_core g)" and fl = "gw_fleet (gt_core g)"])
       (use okf D in \<open>simp_all add: start_def gathered_def\<close>)
  then have "refreshing_ok (fv_discovery E) ?prev (gt_core g) r1"
    unfolding r1_def by (rule folds(1)) (use okf(1) in \<open>auto simp: list_all_iff fleet_named_def fleet_names_def\<close>)
  moreover from this have "list_all name_ok (servable_not_connected (gw_fleet (rf_core r1)) ?conns)"
    by (auto simp: servable_not_connected_def list_all_iff refreshing_ok_def fleet_named_def fleet_names_def servable_names_def
        split: option.splits)
  ultimately have r2: "refreshing_ok (fv_discovery E) ?prev (gt_core g) r2" unfolding r2_def by (rule folds(2))
  then obtain st fl where core: "rf_core r2 = (gt_core g)\<lparr>gw_quarantine := st, gw_fleet := fl\<rparr>"
    and gath: "gathered (fv_discovery E) ?prev st (rf_candidates r2)" and named: "fleet_named fl" by (auto simp: refreshing_ok_def)
  note built = built_table_ok [OF gath, where p = p, unfolded m fst_conv w D]
  have q: "qs_inv H st" using gath D by (simp add: gathered_def)
  obtain g2 where sw: "swap_routes routes g1 = (False, g2)" using open_g by (cases "gt_confirmed g") (simp_all add: swap_routes_def g1_def)
  define rows where "rows = rf_rows r2 @ health_rows (fv_libs E) (rf_events r2)"
  have res: "snd (refresh E g) = g2\<lparr>gt_core := write_rows (fv_libs E) (fv_rows E) 0 rows (gt_core g2)\<rparr>"
    using open_g m w sw okf(4)
    by (simp add: refresh_def Let_def start_def [symmetric] r1_def [symmetric] r2_def [symmetric] g1_def [symmetric] rows_def)
  have g2: "gt_core g2 = (if gt_confirmed g then (rf_core r2)\<lparr>gw_routes := routes, gw_suspended := False\<rparr> else rf_core r2)"
    "gt_confirmed g2 = gt_confirmed g"
    using sw open_g by (auto simp: swap_routes_def g1_def split: if_splits)
  show "gateway_ok S H p (snd (refresh E g))" using okf q named built(1) by (simp add: gateway_ok_def res g2 core)
  show "gt_confirmed (snd (refresh E g)) = gt_confirmed g" by (simp add: res g2)
  show "gt_confirmed g \<Longrightarrow> \<not> gw_suspended (gt_core (snd (refresh E g)))" by (simp add: res g2)
  show "gt_confirmed g \<Longrightarrow> x \<in> set (gw_routes (gt_core (snd (refresh E g))))
      \<Longrightarrow> vouched H ?prev (gw_quarantine (gt_core (snd (refresh E g)))) x" using built(2) by (simp add: res g2 core)
  show "\<not> gt_confirmed g \<Longrightarrow> gw_routes (gt_core (snd (refresh E g))) = ?prev
      \<and> gw_suspended (gt_core (snd (refresh E g))) = gw_suspended (gt_core g)" by (simp add: res g2 core)
  show "gw_sent (gt_core (snd (refresh E g))) = gw_sent (gt_core g)" by (simp add: res g2 core)
qed

section \<open>Calls\<close>

text \<open>What a call leaves alone, whatever becomes of it.\<close>

definition leaves :: "gw \<Rightarrow> gw \<Rightarrow> bool" where
  "leaves g g' =
     (gw_routes g' = gw_routes g \<and> gw_quarantine g' = gw_quarantine g \<and> gw_plan g' = gw_plan g \<and> gw_suspended g' = gw_suspended g
      \<and> (fleet_named (gw_fleet g) \<longrightarrow> fleet_named (gw_fleet g')))"

lemma leaves_trans: "leaves g g1 \<Longrightarrow> leaves g1 g2 \<Longrightarrow> leaves g g2"
  by (simp add: leaves_def)

lemma quiet_leaves: "quiet g g' \<Longrightarrow> leaves g g'"
  by (simp add: leaves_def quiet_fields)

lemma leaves_updates [simp]:
  "leaves g (g\<lparr>gw_counters := q\<rparr>)" "leaves g (g\<lparr>gw_in_use := m\<rparr>)" "leaves g (g\<lparr>gw_sent := s\<rparr>)" "leaves g (free_slot c g)" "leaves g g"
  by (simp_all add: leaves_def free_slot_def)

lemma audit_leaves:
  "leaves g (audit_refusal L e k c tool upstream reason g)" "leaves g (audit_failure L e k c tool upstream f g)"
  "leaves g (record_panic L e c tool upstream d g)" "leaves g (write_health_event L e ev g)"
proof -
  have "quiet g (snd (gw_record L e k c tool upstream outcome reason g))" for k c tool upstream outcome reason
    by (metis gw_record_spec(1) prod.collapse)
  then show "leaves g (audit_refusal L e k c tool upstream reason g)" "leaves g (audit_failure L e k c tool upstream f g)"
    "leaves g (record_panic L e c tool upstream d g)" "leaves g (write_health_event L e ev g)"
    by (simp_all add: quiet_leaves audit_refusal_def audit_failure_def record_panic_def write_health_event_def audit_gateway_row_def
        split: prod.splits)
qed

lemma note_gone_leaves: "leaves g (step_state (note_gone L e rt up f g))"
proof -
  obtain ev fl where m: "mark_gone (rt_upstream rt) (Some up) (ce_clock e ClockGone) (gw_fleet g) = (ev, fl)" by fastforce
  with mark_gone_named [of "gw_fleet g" "rt_upstream rt" "Some up" "ce_clock e ClockGone"]
  have fl: "leaves g (g\<lparr>gw_fleet := fl\<rparr>)" by (simp add: leaves_def)
  with m leaves_trans [OF fl audit_leaves(4)] show ?thesis by (simp add: note_gone_def split: option.splits)
qed

lemma fail_call_leaves: "leaves g (step_state (fail_call L e c tool upstream f err g))"
  by (simp add: fail_call_def audit_leaves)

lemma deliver_leaves: "leaves g (step_state (deliver L e c tool args rt (Some up) n g))"
proof -
  define g1 where "g1 = g\<lparr>gw_sent := gw_sent g @ [(up, rt_original rt, args)]\<rparr>"
  have finish: "leaves g1 (step_state (finish_result L e c tool rt n res g1))" for res
    by (auto simp: finish_result_def fail_call_leaves split: option.splits result_problem.splits sum.splits)
  have failed: "leaves g1 (step_state (step_bind (note_gone L e rt up f g1)
      (\<lambda>_ g. fail_call L e c tool (rt_upstream rt) f (call_error e rt n f g) g) :: (call_result \<times> notice option) step))" for f
    using note_gone_leaves [of g1 L e rt up f] leaves_trans [OF _ fail_call_leaves] by (cases "note_gone L e rt up f g1") simp_all
  have "leaves g g1" by (simp add: g1_def)
  moreover have "leaves g1 (step_state (deliver L e c tool args rt (Some up) n g))"
    using finish failed by (simp add: deliver_def Let_def g1_def [symmetric] split: sum.splits)
  ultimately show ?thesis by (rule leaves_trans)
qed

lemma charged_leaves:
  assumes "charged L e c tool rt n g = Go x g1"
  shows "leaves g g1"
proof -
  from assms obtain y g0 where "charge_call L e c tool rt n g = Go y g0" "record_allowed L e c tool rt g0 = Go x g1" by (auto simp: step_bind_eq)
  then show ?thesis using charge_call_cases(1) quiet_leaves [OF record_allowed_Go(1)] leaves_trans [OF leaves_updates(1)] by blast
qed

lemma dispatch_leaves:
  assumes "dispatch L e c tool args g = (res, g')" "routes_named g" "slots_ok (gw_in_use g)"
  shows "leaves g g' \<and> slots_ok (gw_in_use g')"
  using assms
proof (cases rule: dispatch_cases)
  case (refused err)
  then show ?thesis using assms(3) by (auto simp: refused_once_def quiet_fields intro: quiet_leaves)
next
  case (unrecorded rt up)
  then show ?thesis using assms(3) quiet_fields(5) [OF unrecorded(5)] leaves_trans [OF leaves_updates(1) quiet_leaves [OF unrecorded(5)]] by simp
next
  case panicked
  then show ?thesis using assms(3) audit_leaves(3) settles_fields(4) [OF audit_settles(3)] by simp
next
  case (panicked_charged rt up)
  then show ?thesis using assms(3) leaves_trans [OF leaves_updates(1) audit_leaves(3)] settles_fields(4) [OF audit_settles(3)] by simp
next
  case (sent rt up n slots g1)
  let ?d = "deliver L e c tool args rt (Some up) n g1"
  have "leaves g g1" using leaves_trans [OF leaves_updates(2) charged_leaves [OF sent(3)]] .
  moreover have "leaves g1 (free_slot c (step_state ?d))" by (rule leaves_trans [OF deliver_leaves leaves_updates(4)])
  moreover have "leaves (free_slot c (step_state ?d)) g'"
    using sent(4) by (cases ?d) (simp_all add: conclude_def contain_panic_def audit_leaves)
  ultimately have "leaves g g'" by (blast intro: leaves_trans)
  with dispatch_sent_state(5) [OF sent(2) assms(3) sent(3,4)] assms(3) show ?thesis by simp
qed

section \<open>The gateway as a state machine\<close>

datatype gateway_op =
    Connects fleet_env
  | Reconciles fleet_env
  | Refreshes fleet_env
  | Calls libs call_env caller string string
  | AppliesPolicy "upstream list option" policy plan
  | Redials libs "nat \<Rightarrow> call_env" gotime string
  | Closes
  | Vets digest qcall
  | Moderates bstore

text \<open>The operator's commands run in another process, on the same database: \<open>Vets\<close> is one operation on the quarantine, \<open>Moderates\<close> leaves some blocklist.\<close>

inductive gateway_step :: "gateway \<Rightarrow> gateway_op \<Rightarrow> gateway \<Rightarrow> bool" where
  connects: "gateway_step g (Connects E) (snd (connect E g))"
| reconciles: "gateway_step g (Reconciles E) (snd (reconcile E g))"
| refreshes: "gateway_step g (Refreshes E) (snd (refresh E g))"
| calls: "dispatch L e c tool args (gt_core g) = (res, core) \<Longrightarrow> gateway_step g (Calls L e c tool args) (g\<lparr>gt_core := core\<rparr>)"
| applies: "gateway_step g (AppliesPolicy entries pol p) (snd (apply_policy entries pol p g))"
| redials: "gateway_step g (Redials L env now name) (snd (redial L env now name g))"
| closes: "gateway_step g Closes (close_gateway g)"
| vets: "gateway_step g (Vets H call) (g\<lparr>gt_core := (gt_core g)\<lparr>gw_quarantine := qstep H (gw_quarantine (gt_core g)) call\<rparr>\<rparr>)"
| moderates: "gateway_step g (Moderates b) (g\<lparr>gt_core := (gt_core g)\<lparr>gw_blocks := b\<rparr>\<rparr>)"

inductive gateway_runs :: "gateway \<Rightarrow> gateway_op list \<Rightarrow> gateway \<Rightarrow> bool" where
  start: "gateway_runs g [] g"
| further: "gateway_runs g ops g1 \<Longrightarrow> gateway_step g1 op g2 \<Longrightarrow> gateway_runs g (ops @ [op]) g2"

inductive_cases gateway_stepE: "gateway_step g op g'"
inductive_simps gateway_step_simps:
  "gateway_step g (Connects E) g'" "gateway_step g (Reconciles E) g'" "gateway_step g (Refreshes E) g'" "gateway_step g (Calls L e c tool args) g'"
  "gateway_step g (AppliesPolicy entries pol p) g'" "gateway_step g (Redials L env now name) g'" "gateway_step g Closes g'"
  "gateway_step g (Vets H call) g'" "gateway_step g (Moderates b) g'"

fun op_with :: "schema_lib \<Rightarrow> digest \<Rightarrow> gateway_op \<Rightarrow> bool" where
  "op_with S H (Connects E) = runs_with S H E"
| "op_with S H (Reconciles E) = runs_with S H E"
| "op_with S H (Refreshes E) = runs_with S H E"
| "op_with S H (Vets H' call) = (H' = H)"
| "op_with S H _ = True"

lemma table_ok_named: "table_ok S p (gw_routes g) \<Longrightarrow> routes_named g"
  by (auto simp: table_ok_def routes_named_def name_ok_def dest!: map_of_SomeD)

lemma call_leaves:
  assumes "gateway_ok S H p g" "dispatch L e c tool args (gt_core g) = (res, core)"
  shows "leaves (gt_core g) core \<and> gateway_ok S H p (g\<lparr>gt_core := core\<rparr>)"
proof -
  have "routes_named (gt_core g)" "slots_ok (gw_in_use (gt_core g))" using assms(1) by (auto simp: gateway_ok_def intro: table_ok_named)
  from dispatch_leaves [OF assms(2) this] assms(1) show ?thesis by (simp add: gateway_ok_def leaves_def)
qed

lemma refresh_ok:
  assumes "gateway_ok S H p g" "runs_with S H E" "digest32 H"
  shows "gateway_ok S H p (snd (refresh E g))"
  using assms refresh_effect(1) [OF assms] by (cases "gt_closed g") (simp_all add: refresh_def)

text \<open>The invariant, under the plan in force.\<close>

definition sound_gateway :: "schema_lib \<Rightarrow> digest \<Rightarrow> gateway \<Rightarrow> bool" where
  "sound_gateway S H g = gateway_ok S H (gw_plan (gt_core g)) g"

lemma gateway_ok_sound: "gateway_ok S H p g \<Longrightarrow> sound_gateway S H g"
  by (simp add: sound_gateway_def gateway_ok_def)

lemma apply_policy_sound:
  assumes "sound_gateway S H g"
  shows "sound_gateway S H (snd (apply_policy entries pol p g))"
  using apply_policy_ok(1) [OF assms [unfolded sound_gateway_def] prod.collapse [symmetric]] by (rule gateway_ok_sound)

lemma qstep_inv: "digest32 H \<Longrightarrow> qs_inv H st \<Longrightarrow> qs_inv H (qstep H st call)"
  using qstore.step_inv [of H st call] by (simp add: checked_inv_def)

lemma gateway_step_ok:
  assumes "gateway_step g op g'" "sound_gateway S H g" "op_with S H op" "digest32 H"
  shows "sound_gateway S H g'"
proof -
  note ok = assms(2) [unfolded sound_gateway_def]
  show ?thesis
    using assms(1)
  proof cases
    case (connects E)
    then show ?thesis using gateway_ok_sound [OF connect_ok [OF ok _ assms(4)]] assms(3) by simp
  next
    case (reconciles E)
    then show ?thesis using gateway_ok_sound [OF reconcile_ok [OF ok]] by simp
  next
    case (refreshes E)
    then show ?thesis using gateway_ok_sound [OF refresh_ok [OF ok _ assms(4)]] assms(3) by simp
  next
    case (calls L e c tool args res core)
    then show ?thesis using gateway_ok_sound [OF conjunct2 [OF call_leaves [OF ok calls(3)]]] by simp
  next
    case (applies entries pol p)
    then show ?thesis using apply_policy_sound [OF assms(2)] by simp
  next
    case (redials L env now name)
    then show ?thesis using gateway_ok_sound [OF redial_ok(1) [OF ok]] by simp
  next
    case closes
    then show ?thesis using gateway_ok_sound [OF close_ok(1) [OF ok]] by simp
  next
    case (vets H' call)
    then show ?thesis using assms(2,3,4) by (simp add: sound_gateway_def gateway_ok_def qstep_inv)
  next
    case (moderates b)
    then show ?thesis using assms(2) by (simp add: sound_gateway_def gateway_ok_def)
  qed
qed

lemma gateway_runs_ok:
  assumes "gateway_runs g ops g'" "sound_gateway S H g" "list_all (op_with S H) ops" "digest32 H"
  shows "sound_gateway S H g'"
  using assms by (induction rule: gateway_runs.induct) (auto intro: gateway_step_ok)

text \<open>A gateway as it is made: nothing connected, nothing served, no call in flight.\<close>

definition fresh_gateway :: "digest \<Rightarrow> gateway \<Rightarrow> bool" where
  "fresh_gateway H g =
     (let core = gt_core g; fl = gw_fleet core
      in gw_routes core = [] \<and> fl_conns fl = [] \<and> fl_health fl = [] \<and> fl_servable fl = None \<and> gw_in_use core = []
         \<and> qs_inv H (gw_quarantine core))"

lemma fresh_gateway_ok: "fresh_gateway H g \<Longrightarrow> sound_gateway S H g"
  by (simp add: sound_gateway_def fresh_gateway_def Let_def gateway_ok_def fleet_named_def fleet_names_def servable_names_def table_ok_def slots_ok_def)

section \<open>What is served\<close>

lemma split_table_name:
  assumes "table_ok S p routes" "map_of routes name = Some rt"
  shows "split_namespaced name = Some (rt_upstream rt, rt_original rt)"
proof -
  have "(name, rt) \<in> set routes" using assms(2) by (rule map_of_SomeD)
  then have "name_ok (rt_upstream rt)" "name = namespaced (rt_upstream rt) (rt_original rt)" "valid_tool_name (rt_original rt)"
    using assms(1) by (auto simp: table_ok_def route_wf_def)
  then show ?thesis by (auto simp: name_ok_def split_namespaced_iff valid_tool_name_def)
qed

text \<open>
  C25 (invariant): whatever sequence of boots, reconciliations, refreshes, calls, policy reloads, redials and operator commands a gateway goes through, every name it serves splits into the backend that serves it and the
  tool's own name there, that name is a valid tool name, the definition is within the size limit and its schemas pass the gateway's rules, and a tool of a backend with a
  budget is declared in the plan in force.
\<close>
theorem served_table_sound:
  assumes "fresh_gateway H g" "gateway_runs g ops g'" "list_all (op_with S H) ops" "digest32 H"
    and "map_of (gw_routes (gt_core g')) name = Some rt"
  shows "split_namespaced name = Some (rt_upstream rt, rt_original rt) \<and> valid_tool_name (rt_original rt)
    \<and> rt_original rt = td_name (rt_def rt) \<and> definition_size (rt_def rt) \<le> max_tool_definition_bytes
    \<and> validate_schema S (td_input (rt_def rt)) = None \<and> resolve_output_schema S (td_output (rt_def rt)) = Some (rt_output rt)
    \<and> (rt_upstream rt \<in> set (budgeted (gw_plan (gt_core g'))) \<longrightarrow> is_declared (gw_plan (gt_core g')) name)"
proof -
  let ?p = "gw_plan (gt_core g')"
  have ok: "table_ok S ?p (gw_routes (gt_core g'))"
    using gateway_runs_ok [OF assms(2) fresh_gateway_ok [OF assms(1)] assms(3,4)] by (simp add: sound_gateway_def gateway_ok_def)
  have "(name, rt) \<in> set (gw_routes (gt_core g'))" using assms(5) by (rule map_of_SomeD)
  then have wf: "route_wf S (rt_upstream rt) (name, rt)" and "declared_in ?p name" using ok by (auto simp: table_ok_def)
  then have "rt_upstream rt \<in> set (budgeted ?p) \<longrightarrow> is_declared ?p name"
    using split_table_name [OF ok assms(5)] by (simp add: declared_in_def)
  with split_table_name [OF ok assms(5)] wf show ?thesis unfolding route_wf_def snd_conv by blast
qed

text \<open>A step adds to the table only what the quarantine vouches for.\<close>

lemma step_routes:
  assumes "gateway_step g op g'" "sound_gateway S H g" "op_with S H op" "digest32 H" "x \<in> set (gw_routes (gt_core g'))"
  shows "vouched H (gw_routes (gt_core g)) (gw_quarantine (gt_core g')) x"
proof -
  let ?p = "gw_plan (gt_core g)"
  note ok = assms(2) [unfolded sound_gateway_def]
  show ?thesis
    using assms(1)
  proof cases
    case (connects E)
    consider "gt_closed g" | "\<not> gt_closed g" "fv_entries E = None"
      | entries where "\<not> gt_closed g" "fv_entries E = Some entries" "snd (quota_coverage ?p entries) \<noteq> []"
      | entries where "\<not> gt_closed g" "fv_entries E = Some entries" "snd (quota_coverage ?p entries) = []" by blast
    then show ?thesis
    proof cases
      case (4 entries)
      have E: "runs_with S H E" using assms(3) connects by simp
      from connect_effect [OF ok E assms(4) 4] have "vouched H [] (gw_quarantine (gt_core g')) x"
        using assms(5) unfolding connects(2) by (metis settle_fields(1,2))
      then show ?thesis by (auto simp: vouched_def)
    qed (use assms(5) connects in \<open>auto simp: connect_def suspend_def swap_def vouched_def split: prod.splits\<close>)
  next
    case (reconciles E)
    show ?thesis
    proof (cases "gt_closed g \<or> fv_entries E = None")
      case True
      then show ?thesis using assms(5) reconciles by (auto simp: reconcile_def suspend_def vouched_def split: if_splits)
    next
      case False
      then obtain entries where "\<not> gt_closed g" "fv_entries E = Some entries" by auto
      from reconcile_effect [OF this] have "x \<in> set (gw_routes (gt_core g))" using assms(5) reconciles by (metis filter_is_subset settle_fields(1) subsetD)
      then show ?thesis by (simp add: vouched_def)
    qed
  next
    case (refreshes E)
    have E: "runs_with S H E" using assms(3) refreshes by simp
    show ?thesis
    proof (cases "gt_closed g")
      case True
      then show ?thesis using assms(5) refreshes by (simp add: refresh_def vouched_def)
    next
      case False
      note eff = refresh_effect [OF ok E assms(4) False]
      show ?thesis using assms(5) eff(4) [of x] eff(5) refreshes by (cases "gt_confirmed g") (simp_all add: vouched_def)
    qed
  next
    case (calls L e c tool args res core)
    then show ?thesis using call_leaves [OF ok] assms(5) by (auto simp: leaves_def vouched_def)
  next
    case (applies entries pol p)
    have "set (gw_routes (gt_core g')) \<subseteq> set (gw_routes (gt_core g))"
      unfolding applies(2) by (rule apply_policy_ok(2) [OF ok prod.collapse [symmetric]])
    then show ?thesis using assms(5) by (auto simp: vouched_def)
  next
    case (redials L env now name)
    then show ?thesis using redial_ok(2) [OF ok, of L env now name] assms(5) by (simp add: vouched_def)
  next
    case closes
    then show ?thesis using close_ok(2) [OF ok] assms(5) by (auto simp: vouched_def)
  next
    case (vets H' call)
    then show ?thesis using assms(5) by (simp add: vouched_def)
  next
    case (moderates b)
    then show ?thesis using assms(5) by (simp add: vouched_def)
  qed
qed

text \<open>
  (safety) a route enters the table, at a boot or a refresh, only with a definition that the quarantine, as it then stands, has just observed for that tool, or, for a
  backend that is down, with the definition an operator approved; no other step adds one. So a definition the backend changed is not served before the
  quarantine has seen the change.
\<close>
theorem new_routes_vouched:
  assumes "fresh_gateway H g0" "gateway_runs g0 ops g" "list_all (op_with S H) ops" "digest32 H"
    and "gateway_step g op g'" "op_with S H op"
    and "map_of (gw_routes (gt_core g')) name = Some rt" "map_of (gw_routes (gt_core g)) name \<noteq> Some rt"
  shows "route_observed H (gw_quarantine (gt_core g')) rt \<or> route_approved H (gw_quarantine (gt_core g')) rt"
proof -
  have ok: "sound_gateway S H g" by (rule gateway_runs_ok [OF assms(2) fresh_gateway_ok [OF assms(1)] assms(3,4)])
  have "(name, rt) \<in> set (gw_routes (gt_core g'))" using assms(7) by (rule map_of_SomeD)
  from step_routes [OF assms(5) ok assms(6,4) this] have v: "vouched H (gw_routes (gt_core g)) (gw_quarantine (gt_core g')) (name, rt)" .
  have "(name, rt) \<notin> set (gw_routes (gt_core g))" using ok assms(8) by (auto simp: sound_gateway_def gateway_ok_def table_ok_def)
  with v show ?thesis by (simp add: vouched_def)
qed

section \<open>Suspension\<close>

text \<open>A step in which the registry is not read.\<close>

fun unread :: "gateway_op \<Rightarrow> bool" where
  "unread (Connects E) = (fv_entries E = None)"
| "unread (Reconciles E) = (fv_entries E = None)"
| "unread _ = True"

definition suspended_gateway :: "gateway \<Rightarrow> bool" where
  "suspended_gateway g = (gw_suspended (gt_core g) \<and> gw_routes (gt_core g) = [] \<and> \<not> gt_confirmed g)"

lemma suspended_call:
  assumes "dispatch L e c tool args g = (res, g')" "gw_suspended g" "routes_named g" "slots_ok (gw_in_use g)"
  shows "gw_sent g' = gw_sent g"
  using assms(1,3,4)
proof (cases rule: dispatch_cases)
  case (refused err)
  then show ?thesis by (simp add: refused_once_def quiet_fields)
next
  case panicked
  then show ?thesis using settles_fields(9) [OF audit_settles(3)] by simp
qed (use assms(2) in \<open>simp_all add: gates_open_def\<close>)

lemma suspended_step:
  assumes "gateway_step g op g'" "sound_gateway S H g" "op_with S H op" "digest32 H" "unread op" "suspended_gateway g"
  shows "suspended_gateway g' \<and> gw_sent (gt_core g') = gw_sent (gt_core g)"
proof -
  note ok = assms(2) [unfolded sound_gateway_def]
  show ?thesis
    using assms(1)
  proof cases
    case (connects E)
    then show ?thesis using assms(5,6) by (auto simp: connect_def suspended_gateway_def suspend_def swap_def)
  next
    case (reconciles E)
    then show ?thesis using assms(5,6) by (auto simp: reconcile_def suspended_gateway_def suspend_def)
  next
    case (refreshes E)
    have E: "runs_with S H E" using assms(3) refreshes by simp
    show ?thesis
    proof (cases "gt_closed g")
      case True
      then show ?thesis using assms(6) refreshes by (simp add: refresh_def)
    next
      case False
      note eff = refresh_effect [OF ok E assms(4) False]
      show ?thesis using eff(2,5,6) assms(6) refreshes by (simp add: suspended_gateway_def)
    qed
  next
    case (calls L e c tool args res core)
    have "routes_named (gt_core g)" "slots_ok (gw_in_use (gt_core g))" using ok by (auto simp: gateway_ok_def intro: table_ok_named)
    with suspended_call [OF calls(3)] call_leaves [OF ok calls(3)] calls assms(6) show ?thesis
      by (simp add: suspended_gateway_def leaves_def)
  next
    case (applies entries pol p)
    note a = apply_policy_ok [OF ok prod.collapse [symmetric], of entries pol p]
    from a(2,4-6) assms(6) show ?thesis unfolding applies by (auto simp: suspended_gateway_def)
  next
    case (redials L env now name)
    then show ?thesis using redial_ok [OF ok, of L env now name] assms(6) by (simp add: suspended_gateway_def)
  next
    case closes
    then show ?thesis using close_ok [OF ok] assms(6) by (auto simp: suspended_gateway_def)
  next
    case (vets H' call)
    then show ?thesis using assms(6) by (simp add: suspended_gateway_def)
  next
    case (moderates b)
    then show ?thesis using assms(6) by (simp add: suspended_gateway_def)
  qed
qed

lemma suspended_runs:
  assumes "gateway_runs g ops g'" "sound_gateway S H g" "list_all (\<lambda>op. op_with S H op \<and> unread op) ops" "digest32 H" "suspended_gateway g"
  shows "suspended_gateway g' \<and> gw_sent (gt_core g') = gw_sent (gt_core g)"
  using assms
proof (induction rule: gateway_runs.induct)
  case (further g ops g1 op g2)
  have "list_all (op_with S H) ops" using further.prems(2) by (auto simp: list_all_iff)
  from gateway_runs_ok [OF further(1) further.prems(1) this further.prems(3)] have ok: "sound_gateway S H g1" .
  from further have 1: "suspended_gateway g1 \<and> gw_sent (gt_core g1) = gw_sent (gt_core g)" by simp
  with suspended_step [OF further(2) ok] further.prems show ?case by simp
qed simp

text \<open>
  C26 (safety): once a reconciliation found the registry unreadable, the gateway serves nothing and sends nothing to any backend, through any number of refreshes, calls, policy reloads,
  redials and operator commands and further attempts that do not read the registry either; a refresh alone never brings the table back.
\<close>
theorem unreadable_registry_stops_service:
  assumes "fresh_gateway H g0" "gateway_runs g0 ops0 g" "list_all (op_with S H) ops0" "digest32 H"
    and "\<not> gt_closed g" "fv_entries E = None" "\<not> fv_ctx_ended E"
    and "gateway_runs (snd (reconcile E g)) ops g'" "list_all (\<lambda>op. op_with S H op \<and> unread op) ops"
  shows "gw_suspended (gt_core g') \<and> gw_routes (gt_core g') = [] \<and> gw_sent (gt_core g') = gw_sent (gt_core g)"
proof -
  have ok: "sound_gateway S H g" by (rule gateway_runs_ok [OF assms(2) fresh_gateway_ok [OF assms(1)] assms(3,4)])
  have r: "snd (reconcile E g) = suspend g" using assms(5,6,7) by (simp add: reconcile_def)
  have "suspended_gateway (suspend g)" "gw_sent (gt_core (suspend g)) = gw_sent (gt_core g)"
    by (simp_all add: suspended_gateway_def suspend_def)
  with suspended_runs [OF assms(8) _ assms(9,4)] gateway_ok_sound [OF reconcile_ok [OF ok [unfolded sound_gateway_def], of E]] show ?thesis
    unfolding r by (simp add: suspended_gateway_def)
qed

section \<open>A concrete gateway\<close>

definition sample_schemas :: schema_lib where
  "sample_schemas = \<lparr>sl_probe = (\<lambda>_. ProbeObject (Some (TypeString ''object''))), sl_tree = (\<lambda>_. Some (HeaderProp ''object'' None [])),
     sl_string = (\<lambda>s. Some s), sl_compile = (\<lambda>_. None)\<rparr>"

definition sample_registered :: upstream where
  "sample_registered = sample_upstream\<lparr>up_name := ''threatintel'', up_env := []\<rparr>"

definition sample_round :: fleet_env where
  "sample_round = \<lparr>fv_libs = sample_libs, fv_rows = (\<lambda>_. sample_env), fv_entries = Some [sample_registered], fv_ctx_ended = False,
     fv_parsers = sample_parsers,
     fv_signing = \<lparr>sn_store = None, sn_broken = False, sn_verify = (\<lambda>_ _ _. False), sn_digest = sample_digest, sn_trusted = [], sn_required = False\<rparr>,
     fv_discovery = \<lparr>dc_lib = sample_schemas, dc_digest = sample_digest, dc_fault = (\<lambda>_. False), dc_definition_fault = (\<lambda>_. False), dc_now = 7\<rparr>,
     fv_resolve = (\<lambda>_. None), fv_dial = (\<lambda>_ _. Some 4),
     fv_list = (\<lambda>_. Inr [\<lparr>td_name = ''lookup_ip'', td_description = ''d'', td_input = ''{}'', td_output = [], td_class = class_safe\<rparr>]),
     fv_rank = (\<lambda>_. 0), fv_stored = None, fv_round = \<lparr>g_ns = 100, g_off = 0\<rparr>, fv_settle = \<lparr>g_ns = 101, g_off = 0\<rparr>,
     fv_event = \<lparr>g_ns = 102, g_off = 0\<rparr>\<rparr>"

definition sample_outage :: fleet_env where
  "sample_outage = sample_round\<lparr>fv_entries := None\<rparr>"

definition sample_gateway :: gateway where
  "sample_gateway = \<lparr>gt_core = sample_gw\<lparr>gw_routes := [], gw_quarantine := empty_qstore,
       gw_fleet := (gw_fleet sample_gw)\<lparr>fl_conns := []\<rparr>\<rparr>,
     gt_dialed = [], gt_confirmed = False, gt_closed = False, gt_listing = [], gt_listing_loaded = False, gt_sig_refused = []\<rparr>"

lemma sample_fresh: "fresh_gateway sample_digest sample_gateway"
  by (simp add: fresh_gateway_def sample_gateway_def sample_gw_def empty_qstore_inv)

lemma sample_ok: "gateway_ok S sample_digest sample_plan sample_gateway"
  using fresh_gateway_ok [OF sample_fresh, of S] by (simp add: sound_gateway_def sample_gateway_def sample_gw_def)

lemma sample_round_with: "runs_with sample_schemas sample_digest sample_round" "runs_with sample_schemas sample_digest sample_outage"
  by (simp_all add: runs_with_def sample_round_def sample_outage_def)

lemma sample_connects: "gateway_runs sample_gateway [Connects sample_round] (snd (connect sample_round sample_gateway))"
  using further [OF start connects] by simp

lemma sample_table:
  "case map_of (boot_table sample_round [sample_registered] sample_gateway) ''threatintel.lookup_ip'' of
     None \<Rightarrow> False
   | Some rt \<Rightarrow> rt_upstream rt = ''threatintel''"
  by code_simp

lemma connected_table:
  "gt_core g' = (gt_core g)\<lparr>gw_fleet := fl, gw_routes := t, gw_suspended := b, gw_quarantine := st, gw_creds := m\<rparr> \<Longrightarrow> gw_routes (gt_core g') = t"
  by simp

lemma sample_connected:
  "\<exists>rt. map_of (gw_routes (gt_core (snd (connect sample_round sample_gateway)))) ''threatintel.lookup_ip'' = Some rt
     \<and> rt_upstream rt = ''threatintel''"
  "\<not> gt_closed (snd (connect sample_round sample_gateway))"
proof -
  have "snd (quota_coverage sample_plan [sample_registered]) = []" by code_simp
  moreover have "\<not> gt_closed sample_gateway" "fv_entries sample_round = Some [sample_registered]"
    by (simp_all add: sample_gateway_def sample_round_def)
  ultimately obtain g' servable dialed rows where
    c: "snd (connect sample_round sample_gateway) = settle sample_round servable (\<lambda>_. False) False dialed rows g'"
      "gw_routes (gt_core g') = boot_table sample_round [sample_registered] sample_gateway" "\<not> gt_closed g'"
    using connect_effect [OF sample_ok sample_round_with(1) sample_digest32] by (metis connected_table)
  then show "\<not> gt_closed (snd (connect sample_round sample_gateway))" by simp
  from c sample_table show "\<exists>rt. map_of (gw_routes (gt_core (snd (connect sample_round sample_gateway)))) ''threatintel.lookup_ip'' = Some rt
     \<and> rt_upstream rt = ''threatintel''" by (auto split: option.splits)
qed

theorem served_table_sound_witness:
  "\<exists>rt. map_of (gw_routes (gt_core (snd (connect sample_round sample_gateway)))) ''threatintel.lookup_ip'' = Some rt
     \<and> split_namespaced ''threatintel.lookup_ip'' = Some (rt_upstream rt, rt_original rt) \<and> is_declared sample_plan ''threatintel.lookup_ip''"
proof -
  obtain rt where rt: "map_of (gw_routes (gt_core (snd (connect sample_round sample_gateway)))) ''threatintel.lookup_ip'' = Some rt"
    "rt_upstream rt = ''threatintel''" using sample_connected(1) by blast
  have "list_all (op_with sample_schemas sample_digest) [Connects sample_round]" using sample_round_with by simp
  note sound = served_table_sound [OF sample_fresh sample_connects this sample_digest32 rt(1)]
  have "gw_plan (gt_core (snd (connect sample_round sample_gateway))) = sample_plan"
    using connect_ok [OF sample_ok sample_round_with(1) sample_digest32] by (simp add: gateway_ok_def)
  with sound rt show ?thesis
    by (simp add: budgeted_def sample_plan_def sample_provider_def)
qed

theorem new_routes_vouched_witness:
  "\<exists>rt. map_of (gw_routes (gt_core (snd (connect sample_round sample_gateway)))) ''threatintel.lookup_ip'' = Some rt
     \<and> (route_observed sample_digest (gw_quarantine (gt_core (snd (connect sample_round sample_gateway)))) rt
        \<or> route_approved sample_digest (gw_quarantine (gt_core (snd (connect sample_round sample_gateway)))) rt)"
proof -
  obtain rt where rt: "map_of (gw_routes (gt_core (snd (connect sample_round sample_gateway)))) ''threatintel.lookup_ip'' = Some rt"
    using sample_connected(1) by blast
  have "map_of (gw_routes (gt_core sample_gateway)) ''threatintel.lookup_ip'' \<noteq> Some rt" by (simp add: sample_gateway_def)
  from new_routes_vouched [OF sample_fresh start _ sample_digest32 connects, of sample_schemas sample_round _ rt, OF _ _ rt this]
  show ?thesis using rt sample_round_with by simp
qed

theorem unreadable_registry_stops_service_witness:
  "gw_routes (gt_core (snd (refresh sample_round (snd (reconcile sample_outage (snd (connect sample_round sample_gateway))))))) = []"
proof -
  let ?g = "snd (reconcile sample_outage (snd (connect sample_round sample_gateway)))"
  have ops: "list_all (op_with sample_schemas sample_digest) [Connects sample_round]" using sample_round_with by simp
  have run: "gateway_runs ?g [Refreshes sample_round] (snd (refresh sample_round ?g))" using further [OF start refreshes] by simp
  have "fv_entries sample_outage = None" "\<not> fv_ctx_ended sample_outage" by (simp_all add: sample_outage_def sample_round_def)
  from unreadable_registry_stops_service [OF sample_fresh sample_connects ops sample_digest32 sample_connected(2) this run] sample_round_with
  show ?thesis by simp
qed

theorem reconcile_exact_witness:
  "map_of (fl_conns (gw_fleet (gt_core (snd (reconcile sample_round sample_gateway))))) ''threatintel'' = Some 4"
proof -
  have "reconciled sample_round [sample_registered] sample_gateway ''threatintel'' = Some 4" by code_simp
  moreover have "\<not> gt_closed sample_gateway" "fv_entries sample_round = Some [sample_registered]"
    by (simp_all add: sample_gateway_def sample_round_def)
  ultimately show ?thesis using reconcile_exact [of sample_gateway sample_round "[sample_registered]" "''threatintel''"] by simp
qed

end
