(* ===== verification/Fleet_History.thy ===== *)
theory Fleet_History
  imports Fleet_Rounds
begin

text \<open>
  What a running gateway does to the quarantine: rounds hand it observations and nothing else, so every approval, clearance and withdrawal in its history is an operator's command.
\<close>

section \<open>Observations only\<close>

definition is_observation :: "qcall \<Rightarrow> bool" where
  "is_observation c = (case snd (snd c) of QObserve _ _ _ \<Rightarrow> True | _ \<Rightarrow> False)"

definition observed_on :: "digest \<Rightarrow> qstore \<Rightarrow> qstore \<Rightarrow> bool" where
  "observed_on H st st' = (\<exists>calls. list_all is_observation calls \<and> st' = foldl (qstep H) st calls)"

lemma observed_on_refl [simp]: "observed_on H st st"
  by (auto simp: observed_on_def intro!: exI [of _ "[]"])

lemma observed_on_trans:
  assumes "observed_on H st st1" "observed_on H st1 st2"
  shows "observed_on H st st2"
proof -
  obtain xs ys where "list_all is_observation xs" "st1 = foldl (qstep H) st xs" "list_all is_observation ys" "st2 = foldl (qstep H) st1 ys"
    using assms by (auto simp: observed_on_def)
  then show ?thesis unfolding observed_on_def by (intro exI [of _ "xs @ ys"]) (auto simp: list_all_iff)
qed

lemma observe_observes: "observe H fault now s i c st = (r, st') \<Longrightarrow> observed_on H st st'"
  unfolding observed_on_def by (intro exI [of _ "[(fault, now, QObserve s i c)]"]) (simp add: is_observation_def qstep_def)

text \<open>A fold whose every step only observes, only observes.\<close>

lemma fold_observes:
  assumes "\<And>x s. observed_on H (store s) (store (f x s))"
  shows "observed_on H (store s) (store (fold f xs s))"
proof (induction xs arbitrary: s)
  case (Cons x xs)
  have "observed_on H (store s) (store (f x s))" by (rule assms)
  from observed_on_trans [OF this Cons.IH] show ?case by simp
qed simp

lemma fail_tool_store [simp]: "ob_store (fail_tool f s) = ob_store s"
  by (simp add: fail_tool_def)

lemma add_route_store [simp]: "ob_store (add_route u d schema s) = ob_store s"
  by (simp add: add_route_def Let_def)

lemma observe_tool_observes: "observed_on (dc_digest D) (ob_store s) (ob_store (observe_tool D u d s))"
  by (auto simp: observe_tool_def Let_def observe_observes split: option.splits prod.splits sum.splits)

lemma routes_for_observes:
  assumes "routes_for D u defs st = (out, rows, st')"
  shows "observed_on (dc_digest D) st st'"
proof -
  have "observed_on (dc_digest D) (ob_store s) (ob_store (fold (observe_tool D u) defs s))" for s
    by (rule fold_observes) (rule observe_tool_observes)
  from this [of "\<lparr>ob_out = \<lparr>ur_routes = [], ur_failures = [], ur_unmeasured = False\<rparr>, ob_dupes = [], ob_rows = [], ob_store = st\<rparr>"] assms
  show ?thesis by (auto simp: routes_for_def Let_def)
qed

lemma connect_entry_observes:
  "observed_on (dc_digest (fv_discovery E)) (gw_quarantine (cn_core c)) (gw_quarantine (cn_core (connect_entry E s c)))"
proof -
  have q: "gw_quarantine core = gw_quarantine (cn_core c)" if "bring_up E s (cn_core c) = (up, core)" for up core
    using that by (auto simp: bring_up_def split: option.splits)
  obtain up core where b: "bring_up E s (cn_core c) = (up, core)" by fastforce
  show ?thesis
  proof (cases "\<exists>u defs. up = Some u \<and> fv_list E u = Inr defs")
    case True
    then obtain u defs where u: "up = Some u" "fv_list E u = Inr defs" by blast
    obtain out rows st where r: "routes_for (fv_discovery E) (up_name s) defs (gw_quarantine core) = (out, rows, st)" by (metis prod_cases3)
    from routes_for_observes [OF r] b u r q [OF b] show ?thesis by (simp add: connect_entry_def Let_def)
  next
    case False
    then show ?thesis using b q [OF b] by (cases up) (auto simp: connect_entry_def Let_def split: sum.splits)
  qed
qed

lemma refresh_answer_observes:
  "observed_on (dc_digest (fv_discovery E)) (gw_quarantine (rf_core r)) (gw_quarantine (rf_core (refresh_answer E prev x r)))"
proof -
  obtain name up where x: "x = (name, up)" by fastforce
  show ?thesis
  proof (cases "fv_list E up")
    case (Inl f)
    then show ?thesis by (simp add: x refresh_answer_def with_fleet_def Let_def split: prod.splits)
  next
    case (Inr defs)
    obtain out rows st where r: "routes_for (fv_discovery E) name defs (gw_quarantine (rf_core r)) = (out, rows, st)" by (metis prod_cases3)
    from routes_for_observes [OF r] Inr r show ?thesis by (simp add: x refresh_answer_def with_fleet_def Let_def split: prod.splits)
  qed
qed

lemma down_routes_quarantine: "gw_quarantine (rf_core (down_routes E prev name r)) = gw_quarantine (rf_core r)"
  by (simp add: down_routes_def Let_def)

section \<open>Rounds\<close>

lemma swap_quarantine [simp]: "gw_quarantine (gt_core (snd (swap conns dialed routes g))) = gw_quarantine (gt_core g)"
  by (simp add: swap_def)

lemma boot_start_quarantine [simp]: "gw_quarantine (gt_core (boot_start E ck g)) = gw_quarantine (gt_core g)"
  by (simp add: boot_start_def set_last_round_def load_listings_def split: option.splits)

lemma connect_observes:
  assumes ok: "gateway_ok S H p g" and E: "runs_with S H E" and H: "digest32 H"
  shows "observed_on H (gw_quarantine (gt_core g)) (gw_quarantine (gt_core (snd (connect E g))))"
proof -
  have p: "gw_plan (gt_core g) = p" using ok by (simp add: gateway_ok_def)
  have D: "dc_digest (fv_discovery E) = H" using E by (simp add: runs_with_def)
  consider "gt_closed g" | "\<not> gt_closed g" "fv_entries E = None"
    | entries where "\<not> gt_closed g" "fv_entries E = Some entries" "snd (quota_coverage p entries) \<noteq> []"
    | entries where "\<not> gt_closed g" "fv_entries E = Some entries" "snd (quota_coverage p entries) = []" by blast
  then show ?thesis
  proof cases
    case (4 entries)
    obtain g' servable dialed rows where c: "snd (connect E g) = settle E servable (\<lambda>_. False) False dialed rows g'"
      "gw_quarantine (gt_core g') = gw_quarantine (cn_core (booted E entries g))"
      by (rule connect_effect [OF ok E H 4]) simp
    have "observed_on (dc_digest (fv_discovery E)) (gw_quarantine (cn_core c)) (gw_quarantine (cn_core (fold (connect_entry E) es c)))" for es c
      by (rule fold_observes [where store = "\<lambda>c. gw_quarantine (cn_core c)"]) (rule connect_entry_observes)
    then have "observed_on H (gw_quarantine (gt_core g)) (gw_quarantine (cn_core (booted E entries g)))"
      unfolding D booted_def boot_answers_def Let_def
      by (metis (no_types, lifting) boot_start_quarantine connecting.select_convs(1))
    with c show ?thesis by simp
  qed (use p in \<open>auto simp: connect_def suspend_def split: prod.splits\<close>)
qed

lemma refresh_observes:
  assumes "runs_with S H E"
  shows "observed_on H (gw_quarantine (gt_core g)) (gw_quarantine (gt_core (snd (refresh E g))))"
proof (cases "gt_closed g")
  case True
  then show ?thesis by (simp add: refresh_def)
next
  case False
  let ?conns = "fl_conns (gw_fleet (gt_core g))" and ?prev = "gw_routes (gt_core g)"
  define start where "start = \<lparr>rf_core = gt_core g, rf_candidates = [], rf_failures = [], rf_rows = [], rf_events = [], rf_listing = gt_listing g\<rparr>"
  define r1 where "r1 = fold (refresh_answer E ?prev) (sort_key (\<lambda>x. fv_rank E (fst x)) (sort_key fst ?conns)) start"
  define r2 where "r2 = fold (down_routes E ?prev) (servable_not_connected (gw_fleet (rf_core r1)) ?conns) r1"
  have D: "dc_digest (fv_discovery E) = H" using assms by (simp add: runs_with_def)
  have "observed_on H (gw_quarantine (rf_core start)) (gw_quarantine (rf_core r1))"
    unfolding r1_def by (rule fold_observes [where store = "\<lambda>r. gw_quarantine (rf_core r)"]) (rule refresh_answer_observes [of E, unfolded D])
  moreover have "gw_quarantine (rf_core (fold (down_routes E ?prev) names r)) = gw_quarantine (rf_core r)" for names r
    by (induction names arbitrary: r) (simp_all add: down_routes_quarantine)
  moreover have "gw_quarantine (gt_core (snd (refresh E g))) = gw_quarantine (rf_core r2)"
    using False
    by (auto simp: refresh_def Let_def start_def [symmetric] r1_def [symmetric] r2_def [symmetric] swap_routes_def split: prod.splits if_splits)
  ultimately show ?thesis by (simp add: start_def r2_def)
qed

lemma reconcile_quarantine: "gw_quarantine (gt_core (snd (reconcile E g))) = gw_quarantine (gt_core g)"
proof (cases "gt_closed g \<or> fv_entries E = None")
  case True
  then show ?thesis by (auto simp: reconcile_def suspend_def)
next
  case False
  then obtain entries where "\<not> gt_closed g" "fv_entries E = Some entries" by auto
  from reconcile_effect [OF this] show ?thesis by (metis settle_fields(2))
qed

section \<open>The history of a run\<close>

fun vettings :: "gateway_op list \<Rightarrow> qcall list" where
  "vettings [] = []"
| "vettings (Vets H call # ops) = call # vettings ops"
| "vettings (_ # ops) = vettings ops"

lemma vettings_append: "vettings (ops @ ops') = vettings ops @ vettings ops'"
  by (induction ops rule: vettings.induct) simp_all

text \<open>The operators' commands among the operations on the quarantine, in order.\<close>

definition commands :: "qcall list \<Rightarrow> qcall list" where
  "commands calls = filter (\<lambda>c. \<not> is_observation c) calls"

lemma step_history:
  assumes "gateway_step g op g'" "sound_gateway S H g" "op_with S H op" "digest32 H"
  shows "\<exists>calls. gw_quarantine (gt_core g') = foldl (qstep H) (gw_quarantine (gt_core g)) calls \<and> commands calls = commands (vettings [op])"
proof -
  note ok = assms(2) [unfolded sound_gateway_def]
  have quiet: ?thesis if on: "observed_on H (gw_quarantine (gt_core g)) (gw_quarantine (gt_core g'))" and no: "vettings [op] = []"
  proof -
    obtain calls where c: "list_all is_observation calls" "gw_quarantine (gt_core g') = foldl (qstep H) (gw_quarantine (gt_core g)) calls"
      using on by (auto simp: observed_on_def)
    moreover have "commands calls = []" using c(1) by (auto simp: commands_def filter_empty_conv list_all_iff)
    ultimately show ?thesis using no by (intro exI [of _ calls]) (simp add: commands_def)
  qed
  have same: ?thesis if "gw_quarantine (gt_core g') = gw_quarantine (gt_core g)" "vettings [op] = []" using quiet that by simp
  show ?thesis
    using assms(1)
  proof cases
    case (connects E)
    then show ?thesis using quiet connect_observes [OF ok _ assms(4)] assms(3) by simp
  next
    case (reconciles E)
    then show ?thesis using same reconcile_quarantine by simp
  next
    case (refreshes E)
    then show ?thesis using quiet refresh_observes assms(3) by simp
  next
    case (calls L e c tool args res core)
    then show ?thesis using same call_leaves [OF ok calls(3)] by (simp add: leaves_def)
  next
    case (applies entries pol p)
    then show ?thesis using same apply_policy_ok(3) [OF ok prod.collapse [symmetric], of entries pol p] by simp
  next
    case (redials L env now name)
    then show ?thesis using same redial_ok(3) [OF ok] by simp
  next
    case closes
    then show ?thesis using same close_ok(3) [OF ok] by simp
  next
    case (vets H' call)
    then show ?thesis using assms(3) by (intro exI [of _ "[call]"]) simp
  next
    case (moderates b)
    then show ?thesis using same by simp
  qed
qed

lemma run_history:
  assumes "gateway_runs g ops g'" "sound_gateway S H g" "list_all (op_with S H) ops" "digest32 H"
  shows "\<exists>calls. gw_quarantine (gt_core g') = foldl (qstep H) (gw_quarantine (gt_core g)) calls \<and> commands calls = commands (vettings ops)"
  using assms
proof (induction rule: gateway_runs.induct)
  case (start g)
  then show ?case by (intro exI [of _ "[]"]) simp
next
  case (further g ops g1 op g2)
  have ops: "list_all (op_with S H) ops" "op_with S H op" using further.prems(2) by auto
  obtain calls where c: "gw_quarantine (gt_core g1) = foldl (qstep H) (gw_quarantine (gt_core g)) calls" "commands calls = commands (vettings ops)"
    using further.IH [OF further.prems(1) ops(1) further.prems(3)] by blast
  have "sound_gateway S H g1" by (rule gateway_runs_ok [OF further(1) further.prems(1) ops(1) further.prems(3)])
  from step_history [OF further(2) this ops(2) further.prems(3)] obtain calls' where
    c': "gw_quarantine (gt_core g2) = foldl (qstep H) (gw_quarantine (gt_core g1)) calls'" "commands calls' = commands (vettings [op])" by blast
  show ?case using c c' by (intro exI [of _ "calls @ calls'"]) (simp add: vettings_append commands_def)
qed

end
