(* ===== verification/Egress.thy ===== *)
theory Egress
  imports Prelude "HOL-Library.Word"
begin

text \<open>
  Model of \<open>internal/gateway/resthttp/egress.go\<close>: which addresses the REST transport may connect to (\<open>refuseAddr\<close>, \<open>embeddedIPv4\<close>), the dial that
  checks every resolved address first (\<open>dialPinned\<close>) and the check on the socket (\<open>controlCheck\<close>). Addresses are words at their width; the predicates of
  \<open>net/netip\<close> that the code calls are written out on them. The resolver, the parsers of \<open>net/netip\<close> and \<open>net\<close>, and the outcome of each connection
  attempt are arguments.
\<close>

unbundle bit_operations_syntax

section \<open>Addresses\<close>

datatype addr = NoAddr | Addr4 "32 word" | Addr6 "128 word" string

definition in_prefix4 :: "32 word \<Rightarrow> nat \<Rightarrow> 32 word \<Rightarrow> bool" where
  "in_prefix4 p n a = (drop_bit (32 - n) a = drop_bit (32 - n) p)"

definition in_prefix6 :: "128 word \<Rightarrow> nat \<Rightarrow> 128 word \<Rightarrow> bool" where
  "in_prefix6 p n a = (drop_bit (128 - n) a = drop_bit (128 - n) p)"

definition cgnat :: "32 word" where "cgnat = 0x64400000"
definition this_network :: "32 word" where "this_network = 0"
definition broadcast :: "32 word" where "broadcast = 0xFFFFFFFF"
definition nat64 :: "128 word" where "nat64 = 0x0064FF9B000000000000000000000000"
definition nat64_local :: "128 word" where "nat64_local = 0x0064FF9B000100000000000000000000"
definition six_to_four :: "128 word" where "six_to_four = 0x20020000000000000000000000000000"
definition mapped :: "128 word" where "mapped = 0x00000000000000000000FFFF00000000"

text \<open>\<open>Addr.Unmap\<close>: an IPv4-mapped address is the IPv4 address it maps; the zone goes with it.\<close>

definition unmap :: "addr \<Rightarrow> addr" where
  "unmap a = (case a of Addr6 w z \<Rightarrow> if in_prefix6 mapped 96 w then Addr4 (ucast w) else a | _ \<Rightarrow> a)"

definition is_unspecified :: "addr \<Rightarrow> bool" where
  "is_unspecified a = (a = Addr4 0 \<or> a = Addr6 0 [])"

definition is_loopback :: "addr \<Rightarrow> bool" where
  "is_loopback a =
     (case unmap a of Addr4 w \<Rightarrow> in_prefix4 0x7F000000 8 w | Addr6 w _ \<Rightarrow> w = 1 | NoAddr \<Rightarrow> False)"

definition is_private :: "addr \<Rightarrow> bool" where
  "is_private a =
     (case unmap a of
        Addr4 w \<Rightarrow> in_prefix4 0x0A000000 8 w \<or> in_prefix4 0xAC100000 12 w \<or> in_prefix4 0xC0A80000 16 w
      | Addr6 w _ \<Rightarrow> in_prefix6 0xFC000000000000000000000000000000 7 w
      | NoAddr \<Rightarrow> False)"

definition is_link_local_unicast :: "addr \<Rightarrow> bool" where
  "is_link_local_unicast a =
     (case unmap a of
        Addr4 w \<Rightarrow> in_prefix4 0xA9FE0000 16 w
      | Addr6 w _ \<Rightarrow> in_prefix6 0xFE800000000000000000000000000000 10 w
      | NoAddr \<Rightarrow> False)"

definition is_multicast :: "addr \<Rightarrow> bool" where
  "is_multicast a =
     (case unmap a of
        Addr4 w \<Rightarrow> in_prefix4 0xE0000000 4 w
      | Addr6 w _ \<Rightarrow> in_prefix6 0xFF000000000000000000000000000000 8 w
      | NoAddr \<Rightarrow> False)"

definition is_link_local_multicast :: "addr \<Rightarrow> bool" where
  "is_link_local_multicast a =
     (case unmap a of
        Addr4 w \<Rightarrow> in_prefix4 0xE0000000 24 w
      | Addr6 w _ \<Rightarrow> drop_bit 112 w AND 0xFF0F = 0xFF02
      | NoAddr \<Rightarrow> False)"

definition is_interface_local_multicast :: "addr \<Rightarrow> bool" where
  "is_interface_local_multicast a =
     (case unmap a of Addr6 w _ \<Rightarrow> drop_bit 112 w AND 0xFF0F = 0xFF01 | _ \<Rightarrow> False)"

definition is_global_unicast :: "addr \<Rightarrow> bool" where
  "is_global_unicast a =
     (case unmap a of
        NoAddr \<Rightarrow> False
      | Addr4 w \<Rightarrow> w \<noteq> 0 \<and> w \<noteq> broadcast \<and> \<not> is_loopback a \<and> \<not> is_multicast a \<and> \<not> is_link_local_unicast a
      | Addr6 w z \<Rightarrow> unmap a \<noteq> Addr6 0 [] \<and> \<not> is_loopback a \<and> \<not> is_multicast a \<and> \<not> is_link_local_unicast a)"

section \<open>The policy\<close>

datatype egress_refusal =
    InvalidAddress | Zoned | Embeds egress_refusal | Unspecified | ThisNetwork | Loopback | Private | LinkLocal
  | Multicast | Broadcast | CarrierNat | NotGlobal | NotTcp | BadAddress | BadPort

definition embedded_ipv4 :: "128 word \<Rightarrow> 32 word" where
  "embedded_ipv4 w = (if in_prefix6 six_to_four 16 w then ucast (drop_bit 80 w) else ucast w)"

definition embeds :: "addr \<Rightarrow> bool" where
  "embeds a =
     (case a of Addr6 w _ \<Rightarrow> in_prefix6 nat64 96 w \<or> in_prefix6 nat64_local 48 w \<or> in_prefix6 six_to_four 16 w | _ \<Rightarrow> False)"

definition refuse_class :: "addr \<Rightarrow> egress_refusal option" where
  "refuse_class a =
     (if is_unspecified a then Some Unspecified
      else if (case a of Addr4 w \<Rightarrow> in_prefix4 this_network 8 w | _ \<Rightarrow> False) then Some ThisNetwork
      else if is_loopback a then Some Loopback
      else if is_private a then Some Private
      else if is_link_local_unicast a then Some LinkLocal
      else if is_multicast a \<or> is_link_local_multicast a \<or> is_interface_local_multicast a then Some Multicast
      else if a = Addr4 broadcast then Some Broadcast
      else if (case a of Addr4 w \<Rightarrow> in_prefix4 cgnat 10 w | _ \<Rightarrow> False) then Some CarrierNat
      else if \<not> is_global_unicast a then Some NotGlobal
      else None)"

text \<open>The recursion of the source: the address an IPv6 address embeds is judged by the same function. It is an IPv4 address, which embeds nothing.\<close>

function refuse_addr :: "addr \<Rightarrow> egress_refusal option" where
  "refuse_addr a =
     (if a = NoAddr then Some InvalidAddress
      else if (case a of Addr6 _ z \<Rightarrow> z \<noteq> [] | _ \<Rightarrow> False) then Some Zoned
      else let a = unmap a
           in if embeds a
              then (case a of Addr6 w _ \<Rightarrow> map_option Embeds (refuse_addr (Addr4 (embedded_ipv4 w))) | _ \<Rightarrow> None)
              else refuse_class a)"
  by pat_completeness auto
termination
  by (relation "measure (\<lambda>a. case a of Addr6 _ _ \<Rightarrow> 1 | _ \<Rightarrow> 0)")
    (auto simp: embeds_def unmap_def split: addr.splits if_splits)

declare refuse_addr.simps [simp del]

section \<open>Dialling\<close>

record egress_env =
  eg_lookup :: "string \<Rightarrow> addr list option"
  eg_parse_addr :: "string \<Rightarrow> addr option"
  eg_split_host_port :: "string \<Rightarrow> (string \<times> string) option"
  eg_parse_port :: "string \<Rightarrow> nat option"
  eg_parse_addr_port :: "string \<Rightarrow> addr option"
  eg_connect :: "nat \<Rightarrow> addr \<Rightarrow> nat \<Rightarrow> nat option"
  eg_ctx_ended :: "nat \<Rightarrow> bool"

datatype dial_result = Refused egress_refusal | ResolveFailed | NoAddresses | DialFailed | Dialled nat

definition tcp_networks :: "string list" where
  "tcp_networks = [''tcp'', ''tcp4'', ''tcp6'']"

text \<open>The attempts, in order, with the address and port of each; the connection is a number.\<close>

fun try_addrs :: "egress_env \<Rightarrow> nat \<Rightarrow> nat \<Rightarrow> addr list \<Rightarrow> (addr \<times> nat) list \<times> dial_result" where
  "try_addrs E port i [] = ([], DialFailed)"
| "try_addrs E port i (a # addrs) =
     (case eg_connect E i (unmap a) port of
        Some conn \<Rightarrow> ([(unmap a, port)], Dialled conn)
      | None \<Rightarrow>
          if eg_ctx_ended E i then ([(unmap a, port)], DialFailed)
          else (case try_addrs E port (i + 1) addrs of (tried, res) \<Rightarrow> ((unmap a, port) # tried, res)))"

fun first_refusal :: "addr list \<Rightarrow> egress_refusal option" where
  "first_refusal [] = None"
| "first_refusal (a # addrs) = (case refuse_addr a of Some r \<Rightarrow> Some r | None \<Rightarrow> first_refusal addrs)"

definition resolve_host :: "egress_env \<Rightarrow> string \<Rightarrow> dial_result + addr list" where
  "resolve_host E host =
     (case eg_parse_addr E host of
        Some a \<Rightarrow> Inr [a]
      | None \<Rightarrow>
          (case eg_lookup E host of
             None \<Rightarrow> Inl ResolveFailed
           | Some addrs \<Rightarrow> if addrs = [] then Inl NoAddresses else Inr addrs))"

definition dial_pinned :: "egress_env \<Rightarrow> string \<Rightarrow> string \<Rightarrow> (addr \<times> nat) list \<times> dial_result" where
  "dial_pinned E network address =
     (if network \<notin> set tcp_networks then ([], Refused NotTcp)
      else case eg_split_host_port E address of
        None \<Rightarrow> ([], Refused BadAddress)
      | Some (host, port_text) \<Rightarrow>
          (case eg_parse_port E port_text of
             None \<Rightarrow> ([], Refused BadPort)
           | Some port \<Rightarrow>
               (case resolve_host E host of
                  Inl res \<Rightarrow> ([], res)
                | Inr addrs \<Rightarrow>
                    (case first_refusal addrs of
                       Some r \<Rightarrow> ([], Refused r)
                     | None \<Rightarrow> try_addrs E port 0 addrs))))"

definition control_check :: "egress_env \<Rightarrow> string \<Rightarrow> string \<Rightarrow> egress_refusal option" where
  "control_check E network address =
     (if network \<notin> set tcp_networks then Some NotTcp
      else case eg_parse_addr_port E address of None \<Rightarrow> Some BadAddress | Some a \<Rightarrow> refuse_addr a)"

section \<open>The policy in numbers\<close>

definition quad :: "nat \<Rightarrow> nat \<Rightarrow> nat \<Rightarrow> nat \<Rightarrow> nat" where
  "quad a b c d = ((a * 256 + b) * 256 + c) * 256 + d"

text \<open>The IPv4 addresses a connection may go to, by their numeric ranges.\<close>

definition public4 :: "nat \<Rightarrow> bool" where
  "public4 v =
     (\<not> v \<le> quad 0 255 255 255
      \<and> \<not> (quad 10 0 0 0 \<le> v \<and> v \<le> quad 10 255 255 255)
      \<and> \<not> (quad 100 64 0 0 \<le> v \<and> v \<le> quad 100 127 255 255)
      \<and> \<not> (quad 127 0 0 0 \<le> v \<and> v \<le> quad 127 255 255 255)
      \<and> \<not> (quad 169 254 0 0 \<le> v \<and> v \<le> quad 169 254 255 255)
      \<and> \<not> (quad 172 16 0 0 \<le> v \<and> v \<le> quad 172 31 255 255)
      \<and> \<not> (quad 192 168 0 0 \<le> v \<and> v \<le> quad 192 168 255 255)
      \<and> \<not> (quad 224 0 0 0 \<le> v \<and> v \<le> quad 239 255 255 255)
      \<and> v \<noteq> quad 255 255 255 255)"

text \<open>The IPv6 addresses that embed no IPv4 address and may be reached: not \<open>::\<close>, not \<open>::1\<close>, not in \<open>fc00::/7\<close>, \<open>fe80::/10\<close> or \<open>ff00::/8\<close>.\<close>

definition public6 :: "nat \<Rightarrow> bool" where
  "public6 v = (1 < v \<and> v div 2 ^ 121 \<noteq> 126 \<and> v div 2 ^ 118 \<noteq> 1018 \<and> v div 2 ^ 120 \<noteq> 255)"

definition reachable_addr :: "addr \<Rightarrow> bool" where
  "reachable_addr a =
     (case a of
        NoAddr \<Rightarrow> False
      | Addr4 w \<Rightarrow> public4 (unat w)
      | Addr6 w z \<Rightarrow>
          z = [] \<and>
          (let v = unat w
           in if v div 2 ^ 32 = 0xFFFF then public4 (v mod 2 ^ 32)
              else if v div 2 ^ 112 = 0x2002 then public4 (v div 2 ^ 80 mod 2 ^ 32)
              else if v div 2 ^ 32 = 0x64FF9B0000000000000000 \<or> v div 2 ^ 80 = 0x64FF9B0001 then public4 (v mod 2 ^ 32)
              else public6 v))"

lemma in_prefix4_div: "in_prefix4 p n a \<longleftrightarrow> unat a div 2 ^ (32 - n) = unat p div 2 ^ (32 - n)"
  unfolding in_prefix4_def word_unat_eq_iff unat_drop_bit_eq by (simp add: drop_bit_eq_div)

lemma in_prefix6_div: "in_prefix6 p n a \<longleftrightarrow> unat a div 2 ^ (128 - n) = unat p div 2 ^ (128 - n)"
  unfolding in_prefix6_def word_unat_eq_iff unat_drop_bit_eq by (simp add: drop_bit_eq_div)

lemma div_range: "0 < d \<Longrightarrow> v div d = c \<longleftrightarrow> c * d \<le> v \<and> v \<le> c * d + (d - 1)" for v d c :: nat
proof -
  assume d: "0 < d"
  have "v div d = c \<longleftrightarrow> c * d \<le> v \<and> v < Suc c * d"
    using d by (metis div_less_iff_less_mult less_Suc_eq_le less_eq_div_iff_mult_less_eq order_antisym_conv order_refl)
  also have "v < Suc c * d \<longleftrightarrow> v \<le> c * d + (d - 1)" using d by auto
  finally show ?thesis .
qed

lemma refuse_class_None:
  "refuse_class a = None \<longleftrightarrow>
     \<not> is_unspecified a \<and> \<not> is_loopback a \<and> \<not> is_private a \<and> \<not> is_link_local_unicast a \<and> \<not> is_multicast a
     \<and> \<not> is_link_local_multicast a \<and> \<not> is_interface_local_multicast a \<and> a \<noteq> Addr4 broadcast \<and> is_global_unicast a
     \<and> (case a of Addr4 w \<Rightarrow> \<not> in_prefix4 this_network 8 w \<and> \<not> in_prefix4 cgnat 10 w | _ \<Rightarrow> True)"
  by (simp add: refuse_class_def split: addr.splits)

lemma unmap4 [simp]: "unmap (Addr4 w) = Addr4 w"
  by (simp add: unmap_def)

lemma class4:
  defines "v \<equiv> \<lambda>w. unat (w :: 32 word)"
  shows "is_loopback (Addr4 w) \<longleftrightarrow> 2130706432 \<le> v w \<and> v w \<le> 2147483647"
    "is_private (Addr4 w) \<longleftrightarrow> 167772160 \<le> v w \<and> v w \<le> 184549375 \<or> 2886729728 \<le> v w \<and> v w \<le> 2887778303
       \<or> 3232235520 \<le> v w \<and> v w \<le> 3232301055"
    "is_link_local_unicast (Addr4 w) \<longleftrightarrow> 2851995648 \<le> v w \<and> v w \<le> 2852061183"
    "is_multicast (Addr4 w) \<longleftrightarrow> 3758096384 \<le> v w \<and> v w \<le> 4026531839"
    "is_link_local_multicast (Addr4 w) \<longleftrightarrow> 3758096384 \<le> v w \<and> v w \<le> 3758096639"
    "in_prefix4 this_network 8 w \<longleftrightarrow> v w \<le> 16777215"
    "in_prefix4 cgnat 10 w \<longleftrightarrow> 1681915904 \<le> v w \<and> v w \<le> 1686110207"
    "w = 0 \<longleftrightarrow> v w = 0" "w = broadcast \<longleftrightarrow> v w = 4294967295"
  unfolding v_def
  by (simp_all add: is_loopback_def is_private_def is_link_local_unicast_def is_multicast_def is_link_local_multicast_def
      in_prefix4_div div_range this_network_def cgnat_def broadcast_def word_unat_eq_iff)

lemma public4_numbers:
  "public4 v \<longleftrightarrow> \<not> v \<le> 16777215 \<and> \<not> (167772160 \<le> v \<and> v \<le> 184549375) \<and> \<not> (1681915904 \<le> v \<and> v \<le> 1686110207)
     \<and> \<not> (2130706432 \<le> v \<and> v \<le> 2147483647) \<and> \<not> (2851995648 \<le> v \<and> v \<le> 2852061183)
     \<and> \<not> (2886729728 \<le> v \<and> v \<le> 2887778303) \<and> \<not> (3232235520 \<le> v \<and> v \<le> 3232301055)
     \<and> \<not> (3758096384 \<le> v \<and> v \<le> 4026531839) \<and> v \<noteq> 4294967295"
  by (simp add: public4_def quad_def)

lemma refuse_class4: "refuse_class (Addr4 w) = None \<longleftrightarrow> public4 (unat w)"
proof -
  define v where "v = unat w"
  have iface: "\<not> is_interface_local_multicast (Addr4 w)" by (simp add: is_interface_local_multicast_def)
  have zero: "v = 0 \<Longrightarrow> 0 \<le> v \<and> v \<le> 16777215" and local_multicast: "v \<le> 3758096639 \<Longrightarrow> v \<le> 4026531839" by simp_all
  show ?thesis
    unfolding refuse_class_None addr.case public4_numbers is_unspecified_def is_global_unicast_def unmap4
    unfolding class4 addr.inject v_def [symmetric] using iface zero local_multicast by blast
qed

lemma refuse_addr4: "refuse_addr (Addr4 w) = refuse_class (Addr4 w)"
  by (subst refuse_addr.simps) (simp add: embeds_def)

lemma prefix6:
  defines "v \<equiv> \<lambda>w. unat (w :: 128 word)"
  shows "in_prefix6 mapped 96 w \<longleftrightarrow> v w div 2 ^ 32 = 0xFFFF" "in_prefix6 six_to_four 16 w \<longleftrightarrow> v w div 2 ^ 112 = 0x2002"
    "in_prefix6 nat64 96 w \<longleftrightarrow> v w div 2 ^ 32 = 0x64FF9B0000000000000000" "in_prefix6 nat64_local 48 w \<longleftrightarrow> v w div 2 ^ 80 = 0x64FF9B0001"
    "in_prefix6 0xFC000000000000000000000000000000 7 w \<longleftrightarrow> v w div 2 ^ 121 = 126"
    "in_prefix6 0xFE800000000000000000000000000000 10 w \<longleftrightarrow> v w div 2 ^ 118 = 1018"
    "in_prefix6 0xFF000000000000000000000000000000 8 w \<longleftrightarrow> v w div 2 ^ 120 = 255"
  unfolding v_def in_prefix6_div mapped_def six_to_four_def nat64_def nat64_local_def by simp_all

lemma low_bits: "unat (ucast w :: 32 word) = unat w mod 2 ^ 32" for w :: "128 word"
  by (simp add: unsigned_ucast_eq take_bit_eq_mod)

lemma embedded_numbers:
  "unat (embedded_ipv4 w) = (if unat w div 2 ^ 112 = 0x2002 then unat w div 2 ^ 80 mod 2 ^ 32 else unat w mod 2 ^ 32)"
proof -
  have "unat (drop_bit 80 w) = unat w div 2 ^ 80" unfolding unat_drop_bit_eq by (simp add: drop_bit_eq_div)
  then show ?thesis unfolding embedded_ipv4_def prefix6 by (simp add: low_bits del: div_exp_eq)
qed

text \<open>Link-local and interface-local multicast are multicast.\<close>

lemma high_byte:
  fixes u :: nat
  assumes "u < 2 ^ 16" "(u AND 0xFF0F) div 256 = 255"
  shows "u div 256 = 255"
proof -
  have "(u AND 0xFF0F) div 256 = drop_bit 8 (u AND 0xFF0F)" by (simp add: drop_bit_eq_div)
  also have "\<dots> = drop_bit 8 u AND drop_bit 8 0xFF0F" by (rule drop_bit_and)
  also have "(drop_bit 8 0xFF0F :: nat) = mask 8" by (simp add: drop_bit_eq_div mask_eq_exp_minus_1)
  also have "drop_bit 8 u AND mask 8 = u div 256 mod 256" by (simp add: take_bit_eq_mask [symmetric] take_bit_eq_mod drop_bit_eq_div)
  also have "\<dots> = u div 256" using assms(1) by simp
  finally show ?thesis using assms(2) by simp
qed

lemma local_multicast6:
  fixes w :: "128 word"
  assumes "drop_bit 112 w AND 0xFF0F = 0xFF02 \<or> drop_bit 112 w AND 0xFF0F = 0xFF01"
  shows "in_prefix6 0xFF000000000000000000000000000000 8 w"
proof -
  define u where "u = unat w div 2 ^ 112"
  have u: "unat (drop_bit 112 w) = u" unfolding unat_drop_bit_eq u_def by (simp add: drop_bit_eq_div)
  have "unat w < 2 ^ 128" using unsigned_less [of w] by simp
  then have "u < 2 ^ 16" unfolding u_def by (simp add: div_less_iff_less_mult)
  have "unat (drop_bit 112 w AND 0xFF0F) = (u AND 0xFF0F)" unfolding unsigned_and_eq u by simp
  with assms have "(u AND 0xFF0F) = 0xFF02 \<or> (u AND 0xFF0F) = 0xFF01" by auto
  then have "(u AND 0xFF0F) div 256 = 255" by auto
  with high_byte [OF \<open>u < 2 ^ 16\<close>] have "u div 256 = 255" by simp
  then show ?thesis unfolding prefix6 u_def by (simp add: div_mult2_eq [symmetric])
qed

lemma unmap6: "\<not> in_prefix6 mapped 96 w \<Longrightarrow> unmap (Addr6 w z) = Addr6 w z" "in_prefix6 mapped 96 w \<Longrightarrow> unmap (Addr6 w z) = Addr4 (ucast w)"
  by (simp_all add: unmap_def)

lemma refuse_class6:
  assumes "\<not> in_prefix6 mapped 96 w"
  shows "refuse_class (Addr6 w []) = None \<longleftrightarrow> public6 (unat w)"
proof -
  let ?a = "Addr6 w []"
  note um = unmap6(1) [OF assms, of "[]"]
  have small: "w = 0 \<longleftrightarrow> unat w = 0" "w = 1 \<longleftrightarrow> unat w = 1" by (simp_all add: word_unat_eq_iff)
  have "is_link_local_multicast ?a \<Longrightarrow> is_multicast ?a" "is_interface_local_multicast ?a \<Longrightarrow> is_multicast ?a"
    using local_multicast6 [of w] by (auto simp: is_link_local_multicast_def is_interface_local_multicast_def is_multicast_def um)
  then have "refuse_class ?a = None \<longleftrightarrow> \<not> is_unspecified ?a \<and> \<not> is_loopback ?a \<and> \<not> is_private ?a \<and> \<not> is_link_local_unicast ?a \<and> \<not> is_multicast ?a"
    unfolding refuse_class_None by (auto simp: is_global_unicast_def um is_unspecified_def)
  also have "\<dots> \<longleftrightarrow> public6 (unat w)"
    by (auto simp: is_unspecified_def is_loopback_def is_private_def is_link_local_unicast_def is_multicast_def um prefix6 small public6_def
        simp del: div_exp_eq)
  finally show ?thesis .
qed

text \<open>
  C28 (bounds): an address is let through exactly when it is a public one by its number: for IPv4, outside the listed ranges; for IPv6, without a zone and either embedding an
  IPv4 address (mapped, NAT64 under either prefix, 6to4) that is itself public, or embedding none and outside loopback, private, link-local and multicast space.
\<close>
theorem refuse_addr_exact: "refuse_addr a = None \<longleftrightarrow> reachable_addr a"
proof (cases a)
  case NoAddr
  then show ?thesis by (subst refuse_addr.simps) (simp add: reachable_addr_def)
next
  case (Addr4 w)
  then show ?thesis by (simp add: refuse_addr4 refuse_class4 reachable_addr_def)
next
  case (Addr6 w z)
  show ?thesis
  proof (cases "z = []")
    case False
    with Addr6 show ?thesis by (subst refuse_addr.simps) (simp add: reachable_addr_def)
  next
    case True
    show ?thesis
    proof (cases "in_prefix6 mapped 96 w")
      case m: True
      have "refuse_addr a = refuse_class (Addr4 (ucast w))" using Addr6 True m by (subst refuse_addr.simps) (simp add: unmap6 embeds_def)
      then show ?thesis using Addr6 True m by (simp add: refuse_class4 low_bits reachable_addr_def prefix6)
    next
      case m: False
      have e: "embeds (Addr6 w []) \<longleftrightarrow> in_prefix6 nat64 96 w \<or> in_prefix6 nat64_local 48 w \<or> in_prefix6 six_to_four 16 w"
        by (simp add: embeds_def)
      have r: "refuse_addr a = (if embeds a then map_option Embeds (refuse_class (Addr4 (embedded_ipv4 w))) else refuse_class a)"
        using Addr6 True m by (subst refuse_addr.simps) (simp add: unmap6 refuse_addr4)
      show ?thesis
        unfolding r using Addr6 True m refuse_class6 [OF m]
        by (auto simp: refuse_class4 embedded_numbers reachable_addr_def e prefix6 Let_def simp del: div_exp_eq)
    qed
  qed
qed

section \<open>What is checked is what is dialled\<close>

lemma first_refusal_None: "first_refusal addrs = None \<longleftrightarrow> list_all (\<lambda>a. refuse_addr a = None) addrs"
  by (induction addrs) (auto split: option.splits)

lemma try_addrs_spec:
  assumes "try_addrs E port i addrs = (tried, res)"
  shows "set tried \<subseteq> (\<lambda>a. (unmap a, port)) ` set addrs
    \<and> (\<forall>conn. res = Dialled conn \<longrightarrow> tried \<noteq> [] \<and> (\<exists>j. eg_connect E j (fst (last tried)) port = Some conn))"
  using assms
proof (induction addrs arbitrary: i tried res)
  case (Cons a addrs)
  obtain tried' res' where rest: "try_addrs E port (i + 1) addrs = (tried', res')" by fastforce
  show ?case
  proof (cases "eg_connect E i (unmap a) port = None \<and> \<not> eg_ctx_ended E i")
    case True
    with Cons.prems rest have "tried = (unmap a, port) # tried'" "res = res'" by auto
    with Cons.IH [OF rest] show ?thesis by auto
  next
    case False
    with Cons.prems show ?thesis by (auto split: option.splits if_splits)
  qed
qed simp

lemma unmap_reachable: "refuse_addr a = None \<Longrightarrow> refuse_addr (unmap a) = None"
  by (cases a) (auto simp: refuse_addr.simps [of "Addr6 _ _"] unmap_def refuse_addr4 embeds_def split: if_splits)


definition sample_egress :: egress_env where
  "sample_egress = \<lparr>eg_lookup = (\<lambda>_. Some [Addr4 0x08080808, Addr4 0xA9FEA9FE]), eg_parse_addr = (\<lambda>_. None),
     eg_split_host_port = (\<lambda>_. Some (''api.example'', ''443'')), eg_parse_port = (\<lambda>_. Some 443), eg_parse_addr_port = (\<lambda>_. None),
     eg_connect = (\<lambda>_ _ _. Some 1), eg_ctx_ended = (\<lambda>_. False)\<rparr>"


end
