(* ===== verification/Rest_Path.thy ===== *)
theory Rest_Path
  imports Registry
begin

text \<open>
  Model of the path handling of the REST transport: \<open>ParsePath\<close> and \<open>isPathChar\<close> of \<open>internal/gateway/resthttp/operation.go\<close>, \<open>fillPath\<close> and
  \<open>validPathValue\<close> of \<open>internal/gateway/resthttp/resthttp.go\<close>, with \<open>url.PathEscape\<close> and \<open>url.PathUnescape\<close> as the standard library has them. Strings are
  bytes. An operation's path is a template that was reviewed and signed; the values come with each call.
\<close>

section \<open>Lists\<close>

fun split_on :: "'a \<Rightarrow> 'a list \<Rightarrow> 'a list list" where
  "split_on x [] = [[]]"
| "split_on x (y # ys) =
     (if y = x then [] # split_on x ys
      else case split_on x ys of [] \<Rightarrow> [[y]] | g # gs \<Rightarrow> (y # g) # gs)"

fun doubled :: "'a \<Rightarrow> 'a list \<Rightarrow> bool" where
  "doubled x (y # z # zs) = (y = x \<and> z = x \<or> doubled x (z # zs))"
| "doubled x _ = False"

section \<open>Templates\<close>

datatype path_problem =
    PathEmpty | PathLong nat | PathNoSlash | PathDoubleSlash | PathUnterminated | PathNested | PathTemplateName string
  | PathTemplateTwice string | PathStrayBrace | PathQueryOrFragment | PathPercent | PathByte char | PathDotSegment string

definition max_path_len :: int where
  "max_path_len = 2048"

definition is_path_char :: "char \<Rightarrow> bool" where
  "is_path_char c = (is_alnum c \<or> c \<in> set (''-._~!$&'' @ [CHR 0x27] @ ''()*+,;=:@/''))"

definition template_name :: "string \<Rightarrow> bool" where
  "template_name name = (name \<noteq> [] \<and> list_all (\<lambda>c. is_alnum c \<or> c \<in> set ''_.-'') name)"

function scan_path :: "string \<Rightarrow> string list \<Rightarrow> path_problem + string list" where
  "scan_path [] names = Inr names"
| "scan_path (c # rest) names =
     (if c = CHR ''{'' then
        (case cut_at (CHR ''}'') rest of
           None \<Rightarrow> Inl PathUnterminated
         | Some (name, rest') \<Rightarrow>
             if CHR ''{'' \<in> set name \<or> CHR ''/'' \<in> set name then Inl PathNested
             else if \<not> template_name name then Inl (PathTemplateName name)
             else if name \<in> set names then Inl (PathTemplateTwice name)
             else scan_path rest' (names @ [name]))
      else if c = CHR ''}'' then Inl PathStrayBrace
      else if c = CHR ''?'' \<or> c = CHR ''#'' then Inl PathQueryOrFragment
      else if c = CHR ''%'' then Inl PathPercent
      else if \<not> is_path_char c then Inl (PathByte c)
      else scan_path rest names)"
  by pat_completeness auto
termination
  by (relation "measure (\<lambda>(s, _). length s)") (auto simp: cut_at_iff)

definition segment_head :: "string \<Rightarrow> string" where
  "segment_head seg = takeWhile (\<lambda>c. c \<noteq> CHR '';'') seg"

definition dot_segment :: "string \<Rightarrow> bool" where
  "dot_segment seg = (segment_head seg = ''.'' \<or> segment_head seg = ''..'')"

definition parse_path :: "string \<Rightarrow> path_problem + string list" where
  "parse_path path =
     (if path = [] then Inl PathEmpty
      else if int (length path) > max_path_len then Inl (PathLong (length path))
      else if hd path \<noteq> CHR ''/'' then Inl PathNoSlash
      else if doubled (CHR ''/'') path then Inl PathDoubleSlash
      else case scan_path path [] of
        Inl err \<Rightarrow> Inl err
      | Inr names \<Rightarrow>
          (case find dot_segment (split_on (CHR ''/'') (tl path)) of
             Some seg \<Rightarrow> Inl (PathDotSegment seg)
           | None \<Rightarrow> Inr names))"

section \<open>Escaping\<close>

definition unescaped_in_segment :: "char \<Rightarrow> bool" where
  "unescaped_in_segment c = (is_alnum c \<or> c \<in> set ''-_.~$&+:=@'')"

definition upper_hex :: "nat \<Rightarrow> char" where
  "upper_hex n = ''0123456789ABCDEF'' ! n"

definition escape_byte :: "char \<Rightarrow> string" where
  "escape_byte c =
     (if unescaped_in_segment c then [c]
      else [CHR ''%'', upper_hex (of_char c div 16), upper_hex (of_char c mod 16)])"

definition url_path_escape :: "string \<Rightarrow> string" where
  "url_path_escape v = concat (map escape_byte v)"

definition unhex :: "char \<Rightarrow> nat option" where
  "unhex c =
     (if CHR ''0'' \<le> c \<and> c \<le> CHR ''9'' then Some (of_char c - 48)
      else if CHR ''a'' \<le> c \<and> c \<le> CHR ''f'' then Some (of_char c - 97 + 10)
      else if CHR ''A'' \<le> c \<and> c \<le> CHR ''F'' then Some (of_char c - 65 + 10)
      else None)"

fun url_path_unescape :: "string \<Rightarrow> string option" where
  "url_path_unescape [] = Some []"
| "url_path_unescape (c # s) =
     (if c = CHR ''%'' then
        (case s of
           a # b # s' \<Rightarrow>
             (case (unhex a, unhex b) of
                (Some x, Some y) \<Rightarrow> map_option (Cons (char_of (16 * x + y))) (url_path_unescape s')
              | _ \<Rightarrow> None)
         | _ \<Rightarrow> None)
      else map_option (Cons c) (url_path_unescape s))"

section \<open>Values\<close>

datatype value_problem = ValueEmpty | ValueDots | ValueSlash | ValueControl

definition valid_path_value :: "string \<Rightarrow> value_problem option" where
  "valid_path_value v =
     (if v = [] then Some ValueEmpty
      else if v = ''.'' \<or> v = ''..'' then Some ValueDots
      else if CHR ''/'' \<in> set v then Some ValueSlash
      else if list_ex (\<lambda>c. (of_char c :: nat) < 0x20 \<or> (of_char c :: nat) = 0x7F) v then Some ValueControl
      else None)"

text \<open>A template that was parsed has an end; on one that was not, the slice expression of the source panics.\<close>

datatype fill_problem = FillMissing string | FillPanics

function fill_path :: "string \<Rightarrow> (string \<rightharpoonup> string) \<Rightarrow> fill_problem + string" where
  "fill_path [] vals = Inr []"
| "fill_path (c # rest) vals =
     (if c \<noteq> CHR ''{'' then map_sum id (Cons c) (fill_path rest vals)
      else case cut_at (CHR ''}'') rest of
        None \<Rightarrow> Inl FillPanics
      | Some (name, rest') \<Rightarrow>
          (case vals name of
             None \<Rightarrow> Inl (FillMissing name)
           | Some v \<Rightarrow> map_sum id (\<lambda>p. url_path_escape v @ p) (fill_path rest' vals)))"
  by pat_completeness auto
termination
  by (relation "measure (\<lambda>(s, _). length s)") (auto simp: cut_at_iff)

section \<open>Escaping and its inverse\<close>

lemma upper_hex_digits:
  fixes n :: nat
  assumes "n < 16"
  shows "unhex (upper_hex n) = Some n" "unescaped_in_segment (upper_hex n)" "upper_hex n \<noteq> CHR ''%''"
proof -
  have "list_all (\<lambda>n. unhex (upper_hex n) = Some n \<and> unescaped_in_segment (upper_hex n) \<and> upper_hex n \<noteq> CHR ''%'') [0..<16]"
    by code_simp
  then show "unhex (upper_hex n) = Some n" "unescaped_in_segment (upper_hex n)" "upper_hex n \<noteq> CHR ''%''"
    using assms by (simp_all add: list_all_iff)
qed

lemma not_unescaped: "\<not> unescaped_in_segment c"
  if "c \<in> set ''/;?#%{}''" for c
proof -
  have "list_all (\<lambda>c. \<not> unescaped_in_segment c) ''/;?#%{}''" by code_simp
  with that show ?thesis unfolding list_all_iff by blast
qed

lemma byte_digits: "(of_char c :: nat) div 16 < 16" "(of_char c :: nat) mod 16 < 16"
proof -
  have "(of_char c :: nat) < 16 * 16" by simp
  then show "(of_char c :: nat) div 16 < 16" by (simp add: less_mult_imp_div_less)
qed simp

lemma escape_byte_image: "d \<in> set (escape_byte c) \<Longrightarrow> d = CHR ''%'' \<or> unescaped_in_segment d"
  using upper_hex_digits(2) byte_digits [of c] by (auto simp: escape_byte_def split: if_splits)

lemma escape_byte_nonempty [simp]: "escape_byte c \<noteq> []"
  by (simp add: escape_byte_def)

lemma path_unescape_escape_byte:
  "url_path_unescape (escape_byte c @ s) = map_option (Cons c) (url_path_unescape s)"
proof (cases "unescaped_in_segment c")
  case True
  then have "c \<noteq> CHR ''%''" using not_unescaped [of "CHR ''%''"] by auto
  with True show ?thesis by (simp add: escape_byte_def)
next
  case False
  then show ?thesis by (simp add: escape_byte_def upper_hex_digits(1) byte_digits)
qed

lemma path_unescape_escape [simp]: "url_path_unescape (url_path_escape v) = Some v"
  by (induction v) (simp_all add: url_path_escape_def path_unescape_escape_byte)

lemma path_escape_empty [simp]: "url_path_escape v = [] \<longleftrightarrow> v = []"
  by (cases v) (simp_all add: url_path_escape_def)

lemma path_escape_inj: "url_path_escape v = url_path_escape w \<longleftrightarrow> v = w"
  by (metis path_unescape_escape option.inject)

lemma path_escape_image: "d \<in> set (url_path_escape v) \<Longrightarrow> d = CHR ''%'' \<or> unescaped_in_segment d"
  using escape_byte_image by (auto simp: url_path_escape_def)

lemma path_escape_avoids: "c \<in> set ''/;?#{}'' \<Longrightarrow> c \<notin> set (url_path_escape v)"
  using path_escape_image [of c v] not_unescaped [of c] by auto

lemma path_escape_dots: "url_path_escape ''.'' = ''.''" "url_path_escape ''..'' = ''..''"
  by code_simp+

section \<open>Templates as tokens\<close>

text \<open>A template read as literal bytes and named places; \<open>src\<close> writes it back, \<open>filled\<close> puts escaped values in the places.\<close>

datatype ptok = Lit char | Tmpl string

fun src :: "ptok \<Rightarrow> string" where
  "src (Lit c) = [c]"
| "src (Tmpl n) = CHR ''{'' # n @ ''}''"

fun filled :: "(string \<rightharpoonup> string) \<Rightarrow> ptok \<Rightarrow> string" where
  "filled vals (Lit c) = [c]"
| "filled vals (Tmpl n) = (case vals n of Some v \<Rightarrow> url_path_escape v | None \<Rightarrow> [])"

fun tok_ok :: "ptok \<Rightarrow> bool" where
  "tok_ok (Lit c) = is_path_char c"
| "tok_ok (Tmpl n) = template_name n"

definition tok_names :: "ptok list \<Rightarrow> string list" where
  "tok_names toks = concat (map (\<lambda>t. case t of Lit _ \<Rightarrow> [] | Tmpl n \<Rightarrow> [n]) toks)"

lemma tok_names_simps [simp]:
  "tok_names [] = []" "tok_names (Lit c # ts) = tok_names ts" "tok_names (Tmpl n # ts) = n # tok_names ts"
  by (simp_all add: tok_names_def)

lemma tok_names_iff: "n \<in> set (tok_names ts) \<longleftrightarrow> Tmpl n \<in> set ts"
  by (induction ts rule: list.induct) (auto simp: tok_names_def split: ptok.splits)

text \<open>A scanned template is a list of tokens, and filling it fills each token.\<close>

definition fills :: "(string \<rightharpoonup> string) \<Rightarrow> ptok list \<Rightarrow> bool" where
  "fills vals toks =
     (case fill_path (concat (map src toks)) vals of
        Inr p \<Rightarrow> (\<forall>n \<in> set (tok_names toks). vals n \<noteq> None) \<and> p = concat (map (filled vals) toks)
      | Inl (FillMissing n) \<Rightarrow> n \<in> set (tok_names toks) \<and> vals n = None
      | Inl FillPanics \<Rightarrow> False)"

lemma path_char_not_brace: "is_path_char c \<Longrightarrow> c \<notin> set ''{}?#%''"
proof
  assume "is_path_char c" "c \<in> set ''{}?#%''"
  moreover have "list_all (\<lambda>c. \<not> is_path_char c) ''{}?#%''" by code_simp
  ultimately show False unfolding list_all_iff by blast
qed

lemma template_name_plain: "template_name n \<Longrightarrow> c \<in> set ''{}/;?#'' \<Longrightarrow> c \<notin> set n"
proof
  assume "template_name n" "c \<in> set n" "c \<in> set ''{}/;?#''"
  moreover have "list_all (\<lambda>c. \<not> (is_alnum c \<or> c \<in> set ''_.-'')) ''{}/;?#''" by code_simp
  ultimately show False unfolding template_name_def list_all_iff by blast
qed

lemma scan_path_tokens:
  "scan_path t names = Inr names' \<Longrightarrow>
   \<exists>toks. t = concat (map src toks) \<and> list_all tok_ok toks \<and> names' = names @ tok_names toks"
proof (induction t names arbitrary: names' rule: scan_path.induct)
  case (1 names)
  then show ?case by (intro exI [of _ "[]"]) simp
next
  case (2 c rest names)
  show ?case
  proof (cases "c = CHR ''{''")
    case True
    with 2(3) obtain name rest' where cut: "cut_at (CHR ''}'') rest = Some (name, rest')"
      and n: "\<not> (CHR ''{'' \<in> set name \<or> CHR ''/'' \<in> set name)" "template_name name" "name \<notin> set names"
      and r: "scan_path rest' (names @ [name]) = Inr names'"
      by (auto split: option.splits if_splits)
    from 2(1) [OF True cut refl n(1) _ n(3) r] n(2) obtain toks where t: "rest' = concat (map src toks)" "list_all tok_ok toks"
      "names' = names @ [name] @ tok_names toks" by auto
    with n cut True show ?thesis
      by (intro exI [of _ "Tmpl name # toks"]) (auto simp: cut_at_iff)
  next
    case False
    with 2(3) have c: "c \<noteq> CHR ''}''" "\<not> (c = CHR ''?'' \<or> c = CHR ''#'')" "c \<noteq> CHR ''%''" "is_path_char c"
      and r: "scan_path rest names = Inr names'"
      by (auto split: if_splits)
    from 2(2) [OF False c(1-3) _ r] c(4) obtain toks where t: "rest = concat (map src toks)" "list_all tok_ok toks"
      "names' = names @ tok_names toks" by auto
    with c show ?thesis by (intro exI [of _ "Lit c # toks"]) auto
  qed
qed

lemma fill_path_tokens: "list_all tok_ok toks \<Longrightarrow> fills vals toks"
proof (induction toks)
  case Nil
  then show ?case by (simp add: fills_def)
next
  case (Cons tok toks)
  then have IH: "fills vals toks" by simp
  show ?case
  proof (cases tok)
    case (Lit c)
    then have "c \<noteq> CHR ''{''" using Cons.prems path_char_not_brace [of c] by auto
    with IH Lit show ?thesis by (auto simp: fills_def split: sum.splits fill_problem.splits)
  next
    case (Tmpl n)
    then have "cut_at (CHR ''}'') (n @ ''}'' @ concat (map src toks)) = Some (n, concat (map src toks))"
      using Cons.prems template_name_plain [of n "CHR ''}''"] by (simp add: cut_at_iff)
    with IH Tmpl show ?thesis by (auto simp: fills_def split: sum.splits option.splits fill_problem.splits)
  qed
qed

section \<open>Renderings that keep a separator\<close>

text \<open>
  A rendering of tokens keeps the byte \<open>x\<close> when exactly the token \<open>Lit x\<close> renders to it. Both writing a template and filling it keep \<open>/\<close> and \<open>;\<close>, so both
  have the segments of the token list.
\<close>

definition keeps :: "(ptok \<Rightarrow> string) \<Rightarrow> char \<Rightarrow> ptok list \<Rightarrow> bool" where
  "keeps f x toks = (\<forall>t \<in> set toks. if t = Lit x then f t = [x] else f t \<noteq> [] \<and> x \<notin> set (f t))"

lemma keeps_simps [simp]:
  "keeps f x []"
  "keeps f x (t # ts) \<longleftrightarrow> (if t = Lit x then f t = [x] else f t \<noteq> [] \<and> x \<notin> set (f t)) \<and> keeps f x ts"
  by (auto simp: keeps_def)

lemma split_on_nonempty [simp]: "split_on x xs \<noteq> []"
  by (induction xs) (auto split: list.splits)

lemma split_on_append:
  "x \<notin> set ys \<Longrightarrow> split_on x (ys @ zs) = (ys @ hd (split_on x zs)) # tl (split_on x zs)"
  by (induction ys) (auto split: list.splits)

lemma split_on_rendered:
  "keeps f x toks \<Longrightarrow> split_on x (concat (map f toks)) = map (\<lambda>seg. concat (map f seg)) (split_on (Lit x) toks)"
proof (induction toks)
  case (Cons t toks)
  then show ?case
    by (cases "split_on (Lit x) toks") (auto simp: split_on_append split: if_splits)
qed simp

lemma split_on_sub: "seg \<in> set (split_on x xs) \<Longrightarrow> set seg \<subseteq> set xs"
  by (induction xs arbitrary: seg) (fastforce split: if_splits list.splits)+

lemma doubled_append: "ys \<noteq> [] \<Longrightarrow> x \<notin> set ys \<Longrightarrow> doubled x (ys @ zs) = doubled x zs"
proof (induction ys)
  case (Cons y ys)
  then show ?case by (cases ys; cases zs) auto
qed simp

lemma doubled_rendered: "keeps f x toks \<Longrightarrow> doubled x (concat (map f toks)) = doubled (Lit x) toks"
proof (induction toks)
  case (Cons t toks)
  show ?case
  proof (cases "t = Lit x")
    case True
    have *: "doubled x (x # zs) \<longleftrightarrow> (\<exists>ws. zs = x # ws) \<or> doubled x zs" for x :: 'b and zs by (cases zs) auto
    have "(\<exists>ws. concat (map f toks) = x # ws) \<longleftrightarrow> (\<exists>ws. toks = Lit x # ws)"
      using Cons.prems by (cases toks) (auto simp: append_eq_Cons_conv split: if_splits)
    with True Cons show ?thesis by (simp add: *)
  next
    case False
    then have "doubled (Lit x) (t # toks) = doubled (Lit x) toks" by (cases toks) auto
    with False Cons show ?thesis by (simp add: doubled_append)
  qed
qed simp

lemma takeWhile_rendered:
  "keeps f x toks \<Longrightarrow> takeWhile (\<lambda>c. c \<noteq> x) (concat (map f toks)) = concat (map f (takeWhile (\<lambda>t. t \<noteq> Lit x) toks))"
proof (induction toks)
  case (Cons t toks)
  then show ?case by (auto simp: takeWhile_append split: if_splits)
qed simp

lemma keeps_subset: "keeps f x toks \<Longrightarrow> set seg \<subseteq> set toks \<Longrightarrow> keeps f x seg"
  by (auto simp: keeps_def)

section \<open>Filled paths\<close>

definition values_ok :: "(string \<rightharpoonup> string) \<Rightarrow> ptok list \<Rightarrow> bool" where
  "values_ok vals toks = (\<forall>n \<in> set (tok_names toks). \<exists>v. vals n = Some v \<and> valid_path_value v = None)"

lemma values_ok_cases:
  "values_ok vals toks \<Longrightarrow> Tmpl n \<in> set toks \<Longrightarrow>
   \<exists>v. vals n = Some v \<and> v \<noteq> [] \<and> v \<noteq> ''.'' \<and> v \<noteq> ''..''"
  by (fastforce simp: values_ok_def tok_names_iff valid_path_value_def split: if_splits)

lemma filled_tmpl:
  assumes "values_ok vals toks" "Tmpl n \<in> set toks"
  shows "filled vals (Tmpl n) \<noteq> []" "filled vals (Tmpl n) \<noteq> ''.''" "filled vals (Tmpl n) \<noteq> ''..''"
    "c \<in> set ''/;?#'' \<Longrightarrow> c \<notin> set (filled vals (Tmpl n))"
proof -
  obtain v where v: "vals n = Some v" "v \<noteq> []" "v \<noteq> ''.''" "v \<noteq> ''..''" using values_ok_cases [OF assms] by blast
  then show "filled vals (Tmpl n) \<noteq> []" by simp
  show "filled vals (Tmpl n) \<noteq> ''.''" "filled vals (Tmpl n) \<noteq> ''..''"
    using v path_escape_inj [of v "''.''"] path_escape_inj [of v "''..''"] by (simp_all add: path_escape_dots)
  show "c \<in> set ''/;?#'' \<Longrightarrow> c \<notin> set (filled vals (Tmpl n))" using v path_escape_avoids [of c v] by auto
qed

lemma keeps_filled: "values_ok vals toks \<Longrightarrow> x \<in> set ''/;'' \<Longrightarrow> keeps (filled vals) x toks"
  unfolding keeps_def
proof
  fix t assume a: "values_ok vals toks" "x \<in> set ''/;''" "t \<in> set toks"
  then show "if t = Lit x then filled vals t = [x] else filled vals t \<noteq> [] \<and> x \<notin> set (filled vals t)"
    using filled_tmpl(1) [of vals toks] filled_tmpl(4) [of vals toks _ x] by (cases t) auto
qed

lemma keeps_src: "list_all tok_ok toks \<Longrightarrow> x \<in> set ''/;'' \<Longrightarrow> keeps src x toks"
  unfolding keeps_def
proof
  fix t assume "list_all tok_ok toks" "x \<in> set ''/;''" "t \<in> set toks"
  then show "if t = Lit x then src t = [x] else src t \<noteq> [] \<and> x \<notin> set (src t)"
    using template_name_plain [of _ x] by (cases t) (auto simp: list_all_iff)
qed

lemma filled_dots:
  assumes "values_ok vals toks" "concat (map (filled vals) toks) \<in> {''.'', ''..''}"
  shows "concat (map src toks) = concat (map (filled vals) toks)"
proof -
  have lit: "tok = Lit (CHR ''.'')" if "tok \<in> set toks" "filled vals tok = ''.''" for tok
    using that filled_tmpl(2) [OF assms(1)] by (cases tok rule: ptok.exhaust) auto
  have not2: "filled vals tok \<noteq> ''..''" if "tok \<in> set toks" for tok
    using that filled_tmpl(3) [OF assms(1)] by (cases tok rule: ptok.exhaust) auto
  have ne: "filled vals tok \<noteq> []" if "tok \<in> set toks" for tok
    using that filled_tmpl(1) [OF assms(1)] by (cases tok rule: ptok.exhaust) auto
  consider "toks = []" | a where "toks = [a]" | a b ts where "toks = a # b # ts" by (metis list.exhaust)
  then show ?thesis
  proof cases
    case (2 a)
    with assms(2) lit [of a] not2 [of a] show ?thesis by auto
  next
    case (3 a b ts)
    with assms(2) ne [of a] ne [of b] have "filled vals a = ''.''" "filled vals b = ''.''" "concat (map (filled vals) ts) = []"
      by (auto simp: append_eq_Cons_conv)
    moreover from this(3) have "ts = []" using 3 ne by (cases ts) auto
    ultimately show ?thesis using 3 lit [of a] lit [of b] by auto
  qed simp
qed

lemma dot_segment_filled:
  assumes "values_ok vals toks" "list_all tok_ok toks" "dot_segment (concat (map (filled vals) toks))"
  shows "dot_segment (concat (map src toks))"
proof -
  define hd_toks where "hd_toks = takeWhile (\<lambda>t. t \<noteq> Lit (CHR '';'')) toks"
  have f: "segment_head (concat (map (filled vals) toks)) = concat (map (filled vals) hd_toks)"
    and s: "segment_head (concat (map src toks)) = concat (map src hd_toks)"
    using takeWhile_rendered [OF keeps_filled [OF assms(1)], of "CHR '';''"] takeWhile_rendered [OF keeps_src [OF assms(2)], of "CHR '';''"]
    by (simp_all add: segment_head_def hd_toks_def)
  have "set hd_toks \<subseteq> set toks" by (auto simp: hd_toks_def dest: set_takeWhileD)
  then have "values_ok vals hd_toks" using assms(1) by (auto simp: values_ok_def tok_names_iff)
  from filled_dots [OF this] assms(3) f s show ?thesis by (auto simp: dot_segment_def)
qed

text \<open>The segments of a filled path are the template's segments, each filled.\<close>

lemma filled_segments:
  assumes "list_all tok_ok toks" "values_ok vals toks"
  shows "list_all2 (\<lambda>tseg seg. fill_path tseg vals = Inr seg)
    (split_on (CHR ''/'') (concat (map src toks))) (split_on (CHR ''/'') (concat (map (filled vals) toks)))"
proof -
  have "fill_path (concat (map src seg)) vals = Inr (concat (map (filled vals) seg))"
    if "seg \<in> set (split_on (Lit (CHR ''/'')) toks)" for seg
  proof -
    have sub: "set seg \<subseteq> set toks" by (rule split_on_sub [OF that])
    with assms(1) have "fills vals seg" by (intro fill_path_tokens) (auto simp: list_all_iff)
    moreover have "vals n \<noteq> None" if "n \<in> set (tok_names seg)" for n
      using that sub assms(2) by (fastforce simp: values_ok_def tok_names_iff)
    ultimately show ?thesis by (fastforce simp: fills_def split: sum.splits fill_problem.splits)
  qed
  then show ?thesis
    by (simp add: split_on_rendered keeps_src [OF assms(1)] keeps_filled [OF assms(2)] list_all2_conv_all_nth)
qed

lemma parse_path_tokens:
  assumes "parse_path t = Inr names"
  shows "\<exists>toks. t = concat (map src (Lit (CHR ''/'') # toks)) \<and> list_all tok_ok (Lit (CHR ''/'') # toks) \<and> names = tok_names toks
    \<and> \<not> doubled (CHR ''/'') t \<and> \<not> list_ex dot_segment (split_on (CHR ''/'') t)"
proof -
  from assms have t: "t \<noteq> []" "hd t = CHR ''/''" "\<not> doubled (CHR ''/'') t" "scan_path t [] = Inr names"
    "find dot_segment (split_on (CHR ''/'') (tl t)) = None"
    by (auto simp: parse_path_def split: if_splits sum.splits option.splits)
  obtain rest where rest: "t = CHR ''/'' # rest" using t(1,2) by (cases t) auto
  obtain toks where toks: "t = concat (map src toks)" "list_all tok_ok toks" "names = tok_names toks"
    using scan_path_tokens [OF t(4)] by auto
  from toks(1) rest obtain toks' where "toks = Lit (CHR ''/'') # toks'"
    by (cases toks rule: list.exhaust; cases "hd toks") auto
  with toks t rest show ?thesis
    by (intro exI [of _ toks']) (auto simp: find_None_iff list_ex_iff dot_segment_def segment_head_def)
qed

lemma filled_confined:
  assumes "parse_path t = Inr names" "\<forall>n \<in> set names. \<forall>v. vals n = Some v \<longrightarrow> valid_path_value v = None"
  shows "case fill_path t vals of
      Inl FillPanics \<Rightarrow> False
    | Inl (FillMissing n) \<Rightarrow> n \<in> set names \<and> vals n = None
    | Inr p \<Rightarrow> (\<forall>n \<in> set names. vals n \<noteq> None) \<and> p \<noteq> [] \<and> hd p = CHR ''/'' \<and> CHR ''?'' \<notin> set p \<and> CHR ''#'' \<notin> set p
        \<and> \<not> doubled (CHR ''/'') p
        \<and> list_all2 (\<lambda>tseg seg. fill_path tseg vals = Inr seg) (split_on (CHR ''/'') t) (split_on (CHR ''/'') p)
        \<and> \<not> list_ex dot_segment (split_on (CHR ''/'') p)"
proof -
  obtain ts where toks: "t = concat (map src (Lit (CHR ''/'') # ts))" "list_all tok_ok (Lit (CHR ''/'') # ts)" "names = tok_names ts"
    "\<not> doubled (CHR ''/'') t" "\<not> list_ex dot_segment (split_on (CHR ''/'') t)"
    using parse_path_tokens [OF assms(1)] by blast
  define toks where "toks = Lit (CHR ''/'') # ts"
  note tk = toks [folded toks_def]
  have names: "tok_names toks = names" using toks(3) by (simp add: toks_def)
  note fl = fill_path_tokens [OF tk(2), of vals, unfolded fills_def, folded tk(1)]
  show ?thesis
  proof (cases "\<forall>n \<in> set names. vals n \<noteq> None")
    case False
    with fl names show ?thesis by (auto split: sum.splits fill_problem.splits)
  next
    case True
    then have ok: "values_ok vals toks" using assms(2) names by (fastforce simp: values_ok_def)
    define p where "p = concat (map (filled vals) toks)"
    have p: "fill_path t vals = Inr p" using fl True names by (auto simp: p_def split: sum.splits fill_problem.splits)
    have kf: "keeps (filled vals) (CHR ''/'') toks" and ks: "keeps src (CHR ''/'') toks"
      using keeps_filled [OF ok] keeps_src [OF tk(2)] by simp_all
    have "c \<notin> set p" if "c \<in> set ''?#''" for c
    proof -
      have "c \<notin> set (filled vals tok)" if "tok \<in> set toks" for tok
        using that \<open>c \<in> set ''?#''\<close> filled_tmpl(4) [OF ok] tk(2) path_char_not_brace [of c] by (cases tok rule: ptok.exhaust) (auto simp: list_all_iff)
      then show ?thesis by (simp add: p_def)
    qed
    moreover have "\<not> doubled (CHR ''/'') p"
      using tk(4) doubled_rendered [OF kf] doubled_rendered [OF ks] by (simp add: p_def tk(1))
    moreover have "\<not> list_ex dot_segment (split_on (CHR ''/'') p)"
    proof
      assume "list_ex dot_segment (split_on (CHR ''/'') p)"
      then obtain seg where seg: "seg \<in> set (split_on (Lit (CHR ''/'')) toks)" "dot_segment (concat (map (filled vals) seg))"
        by (auto simp: p_def split_on_rendered [OF kf] list_ex_iff)
      have sub: "set seg \<subseteq> set toks" by (rule split_on_sub [OF seg(1)])
      then have "values_ok vals seg" "list_all tok_ok seg" using ok tk(2) by (auto simp: values_ok_def tok_names_iff list_all_iff)
      from dot_segment_filled [OF this seg(2)] seg(1) tk(5) show False
        by (auto simp: tk(1) split_on_rendered [OF ks] list_ex_iff)
    qed
    moreover have "p \<noteq> [] \<and> hd p = CHR ''/''" by (simp add: p_def toks_def)
    ultimately show ?thesis using True p filled_segments [OF tk(2) ok] by (simp add: p_def [symmetric] tk(1) [symmetric])
  qed
qed

text \<open>
  (safety) for a template that \<open>ParsePath\<close> accepts and values that \<open>validPathValue\<close> accepts, filling never panics; it fails only for a name that has no value, and it names
  one. When it succeeds, the path still starts with a slash, has no query, fragment or empty inner segment, has the template's segments in the template's order, each one filled
  on its own, and none of them is a dot segment. So a caller's argument can neither add a segment nor climb out of the reviewed path.
\<close>
theorem filled_path_confined:
  assumes "parse_path t = Inr names" "\<forall>n \<in> set names. \<forall>v. vals n = Some v \<longrightarrow> valid_path_value v = None"
  shows "case fill_path t vals of
      Inl FillPanics \<Rightarrow> False
    | Inl (FillMissing n) \<Rightarrow> n \<in> set names \<and> vals n = None
    | Inr p \<Rightarrow> (\<forall>n \<in> set names. vals n \<noteq> None) \<and> p \<noteq> [] \<and> hd p = CHR ''/'' \<and> CHR ''?'' \<notin> set p \<and> CHR ''#'' \<notin> set p
        \<and> \<not> doubled (CHR ''/'') p
        \<and> list_all2 (\<lambda>tseg seg. fill_path tseg vals = Inr seg) (split_on (CHR ''/'') t) (split_on (CHR ''/'') p)
        \<and> \<not> list_ex dot_segment (split_on (CHR ''/'') p)"
  using filled_confined [OF assms] .

definition sample_values :: "string \<rightharpoonup> string" where
  "sample_values n = (if n = ''id'' then Some ''..%2f;?'' else None)"

theorem filled_path_confined_witness:
  "parse_path ''/v1/{id}/x'' = Inr [''id''] \<and> fill_path ''/v1/{id}/x'' sample_values = Inr ''/v1/..%252f%3B%3F/x''
   \<and> \<not> list_ex dot_segment (split_on (CHR ''/'') ''/v1/..%252f%3B%3F/x'')"
proof -
  have parsed: "parse_path ''/v1/{id}/x'' = Inr [''id'']" by code_simp
  have fill: "fill_path ''/v1/{id}/x'' sample_values = Inr ''/v1/..%252f%3B%3F/x''" by code_simp
  have "valid_path_value ''..%2f;?'' = None" by code_simp
  then have vals: "\<forall>n \<in> set [''id'']. \<forall>v. sample_values n = Some v \<longrightarrow> valid_path_value v = None"
    by (auto simp: sample_values_def)
  have "case Inr ''/v1/..%252f%3B%3F/x'' :: fill_problem + string of Inl _ \<Rightarrow> False | Inr p \<Rightarrow> \<not> list_ex dot_segment (split_on (CHR ''/'') p)"
    using filled_path_confined [where vals = sample_values, OF parsed vals] unfolding fill sum.case by blast
  with parsed fill show ?thesis by (simp only: sum.case simp_thms)
qed

end
