(* ===== verification/Rest_Ops.thy ===== *)
theory Rest_Ops
  imports Rest_Path Dispatch
begin

text \<open>
  Model of \<open>internal/gateway/resthttp/operation.go\<close>: the frozen set of operations of a REST backend, how it is decoded and what every operation of it must
  satisfy before the backend is served. Decoding JSON text and writing it back are the library's: the record \<open>op_lib\<close> holds what the code asks of it, and a decoded
  document is a value of \<open>json\<close>, whose objects list each name once.
\<close>

section \<open>Documents\<close>

datatype json = JNull | JBool bool | JNumber string | JString string | JArray "json list" | JObject "(string \<times> json) list"

record operation =
  op_name :: string
  op_description :: string
  op_method :: string
  op_path :: string
  op_input :: string
  op_output :: string

text \<open>
  \<open>ol_raws\<close> splits a JSON array into its elements, \<open>ol_operation\<close> is the strict decoder of one operation, \<open>ol_json\<close> decodes one value and says whether more
  follows, \<open>ol_marshal\<close> is the encoder.
\<close>

record op_lib =
  ol_raws :: "string \<Rightarrow> string list option"
  ol_operation :: "string \<Rightarrow> operation option"
  ol_json :: "string \<Rightarrow> (json \<times> bool) option"
  ol_marshal :: "json \<Rightarrow> string option"

datatype json_problem = JsonMissing | JsonInvalid | JsonTrailing | JsonNotObject | JsonUnwritable

definition decode_value :: "op_lib \<Rightarrow> string \<Rightarrow> json_problem + json" where
  "decode_value L raw =
     (if raw = [] then Inl JsonMissing
      else case ol_json L raw of
        None \<Rightarrow> Inl JsonInvalid
      | Some (v, trailing) \<Rightarrow> if trailing then Inl JsonTrailing else Inr v)"

definition decode_object :: "op_lib \<Rightarrow> string \<Rightarrow> json_problem + (string \<times> json) list" where
  "decode_object L raw =
     (case decode_value L raw of
        Inl e \<Rightarrow> Inl e
      | Inr (JObject obj) \<Rightarrow> Inr obj
      | Inr _ \<Rightarrow> Inl JsonNotObject)"

definition canonicalize :: "op_lib \<Rightarrow> string \<Rightarrow> json_problem + string" where
  "canonicalize L raw =
     (case decode_value L raw of
        Inl e \<Rightarrow> Inl e
      | Inr v \<Rightarrow> (case ol_marshal L v of None \<Rightarrow> Inl JsonUnwritable | Some s \<Rightarrow> Inr s))"

section \<open>Vocabulary\<close>

definition prefix_path :: string where "prefix_path = ''path_''"
definition prefix_query :: string where "prefix_query = ''query_''"
definition prefix_header :: string where "prefix_header = ''header_''"
definition prefix_cookie :: string where "prefix_cookie = ''cookie_''"
definition body_property :: string where "body_property = ''body''"
definition authorization_header :: string where "authorization_header = ''authorization''"

definition class_of :: "string \<Rightarrow> string" where
  "class_of meth = (if meth \<in> {''GET'', ''HEAD'', ''OPTIONS''} then class_safe else class_sensitive)"

definition valid_method :: "string \<Rightarrow> bool" where
  "valid_method meth = (meth \<in> {''GET'', ''HEAD'', ''OPTIONS'', ''POST'', ''PUT'', ''PATCH'', ''DELETE''})"

definition operation_tool :: "operation \<Rightarrow> tool_def" where
  "operation_tool op =
     \<lparr>td_name = op_name op, td_description = op_description op, td_input = op_input op, td_output = op_output op,
      td_class = class_of (op_method op)\<rparr>"

definition token_char :: "char \<Rightarrow> bool" where
  "token_char c = (is_alnum c \<or> c \<in> set (''!#$%&*+.^_|~-'' @ [CHR 0x27, CHR 0x60]))"

definition valid_token :: "string \<Rightarrow> bool" where
  "valid_token name = (name \<noteq> [] \<and> list_all token_char name)"

definition control_headers :: "string list" where
  "control_headers = [''host'', ''content-length'', ''transfer-encoding'', ''connection'', ''upgrade'', ''te'', ''trailer'',
     ''keep-alive'', ''authorization'', ''cookie'']"

definition dash :: "char \<Rightarrow> char" where
  "dash c = (if c = CHR ''_'' then CHR ''-'' else c)"

definition fold_header :: "string \<Rightarrow> string" where
  "fold_header name = map dash (map lower name)"

definition is_control_header :: "string \<Rightarrow> bool" where
  "is_control_header name = (fold_header name \<in> set control_headers \<or> has_prefix (fold_header name) ''proxy-'')"

definition is_printable_ascii :: "string \<Rightarrow> bool" where
  "is_printable_ascii s = list_all (\<lambda>c. CHR '' '' < c \<and> c < CHR 0x7F) s"

section \<open>The credential's slot\<close>

datatype op_problem =
    KeylessNamed string | BearerNamed string | AuthNameNoToken string | AuthNameControl string | AuthKindUnknown string
  | NoOperations | OpName string | OpTwice string | OpUnordered string string | OpMethod string string | OpPath string path_problem
  | OpInput string json_problem | OpInputType string | OpProperties string | OpRequired string | OpRequiredUndeclared string string
  | PropNotObject string | PropBody string | PropEmpty string | PropQueryName string | PropQuerySlot string | PropHeaderName string
  | PropHeaderControl string | PropHeaderSlot string | PropHeaderTwice string string | PropCookieName string
  | PropCookieTwice string string | PropOutside string | TemplateUnfilled string | PathParamUnused string
  | OpOutput string json_problem | OpsNotArray | OpUndecodable nat

text \<open>The names a parameter may not use: a folded header, a lower-cased query parameter; empty when nothing is reserved.\<close>

definition reserved_slots :: "string \<Rightarrow> string \<Rightarrow> op_problem + (string \<times> string)" where
  "reserved_slots kind name =
     (if kind = auth_none then (if name \<noteq> [] then Inl (KeylessNamed name) else Inr ([], []))
      else if kind = auth_bearer then (if name \<noteq> [] then Inl (BearerNamed name) else Inr (authorization_header, []))
      else if kind = auth_header \<or> kind = auth_query then
        (if \<not> valid_token name then Inl (AuthNameNoToken name)
         else if kind = auth_header then
           (if is_control_header name \<and> fold_header name \<noteq> authorization_header then Inl (AuthNameControl name)
            else Inr (fold_header name, []))
         else Inr ([], map lower name))
      else Inl (AuthKindUnknown kind))"

section \<open>One operation's input\<close>

text \<open>What the walk over the properties has collected: the path parameters, and the folded headers and cookies with the property that named each.\<close>

record collected =
  cl_path :: "string list"
  cl_headers :: "(string \<times> string) list"
  cl_cookies :: "(string \<times> string) list"

definition nothing_collected :: collected where
  "nothing_collected = \<lparr>cl_path = [], cl_headers = [], cl_cookies = []\<rparr>"

definition check_query_prop :: "string \<Rightarrow> string \<Rightarrow> string \<Rightarrow> collected \<Rightarrow> op_problem + collected" where
  "check_query_prop slot key name st =
     (if name = [] then Inl (PropEmpty key)
      else if \<not> is_printable_ascii name then Inl (PropQueryName key)
      else if slot \<noteq> [] \<and> map lower name = slot then Inl (PropQuerySlot key)
      else Inr st)"

definition check_header_prop :: "string \<Rightarrow> string \<Rightarrow> string \<Rightarrow> collected \<Rightarrow> op_problem + collected" where
  "check_header_prop slot key name st =
     (if \<not> valid_token name then Inl (PropHeaderName key)
      else if is_control_header name then Inl (PropHeaderControl key)
      else if slot \<noteq> [] \<and> fold_header name = slot then Inl (PropHeaderSlot key)
      else case map_of (cl_headers st) (fold_header name) of
        Some prev \<Rightarrow> Inl (PropHeaderTwice key prev)
      | None \<Rightarrow> Inr (st\<lparr>cl_headers := (fold_header name, key) # cl_headers st\<rparr>))"

definition check_cookie_prop :: "string \<Rightarrow> string \<Rightarrow> collected \<Rightarrow> op_problem + collected" where
  "check_cookie_prop key name st =
     (if \<not> valid_token name then Inl (PropCookieName key)
      else case map_of (cl_cookies st) (map lower name) of
        Some prev \<Rightarrow> Inl (PropCookieTwice key prev)
      | None \<Rightarrow> Inr (st\<lparr>cl_cookies := (map lower name, key) # cl_cookies st\<rparr>))"

text \<open>The location a property name carries.\<close>

datatype place = InBody | InPath string | InQuery string | InHeader string | InCookie string

definition place_of :: "string \<Rightarrow> place option" where
  "place_of key =
     (if key = body_property then Some InBody
      else case cut_prefix prefix_path key of
        Some name \<Rightarrow> Some (InPath name)
      | None \<Rightarrow>
          (case cut_prefix prefix_query key of
             Some name \<Rightarrow> Some (InQuery name)
           | None \<Rightarrow>
               (case cut_prefix prefix_header key of
                  Some name \<Rightarrow> Some (InHeader name)
                | None \<Rightarrow> map_option InCookie (cut_prefix prefix_cookie key))))"

definition check_prop :: "string \<Rightarrow> string \<Rightarrow> string \<Rightarrow> string \<Rightarrow> json \<Rightarrow> collected \<Rightarrow> op_problem + collected" where
  "check_prop meth header_slot query_slot key schema st =
     (case schema of
        JObject _ \<Rightarrow>
          (case place_of key of
             None \<Rightarrow> Inl (PropOutside key)
           | Some InBody \<Rightarrow> if class_of meth = class_safe then Inl (PropBody key) else Inr st
           | Some (InPath name) \<Rightarrow>
               if name = [] then Inl (PropEmpty key) else Inr (st\<lparr>cl_path := name # cl_path st\<rparr>)
           | Some (InQuery name) \<Rightarrow> check_query_prop query_slot key name st
           | Some (InHeader name) \<Rightarrow> check_header_prop header_slot key name st
           | Some (InCookie name) \<Rightarrow> check_cookie_prop key name st)
      | _ \<Rightarrow> Inl (PropNotObject key))"

fun check_props ::
  "string \<Rightarrow> string \<Rightarrow> string \<Rightarrow> (string \<times> json) list \<Rightarrow> collected \<Rightarrow> op_problem + collected" where
  "check_props meth header_slot query_slot [] st = Inr st"
| "check_props meth header_slot query_slot ((key, schema) # props) st =
     (case check_prop meth header_slot query_slot key schema st of
        Inl e \<Rightarrow> Inl e
      | Inr st \<Rightarrow> check_props meth header_slot query_slot props st)"

fun check_required :: "string \<Rightarrow> (string \<times> json) list \<Rightarrow> json list \<Rightarrow> op_problem option" where
  "check_required op props [] = None"
| "check_required op props (item # items) =
     (case item of
        JString name \<Rightarrow> if map_of props name = None then Some (OpRequiredUndeclared op name) else check_required op props items
      | _ \<Rightarrow> Some (OpRequired op))"

definition required_problem :: "string \<Rightarrow> (string \<times> json) list \<Rightarrow> (string \<times> json) list \<Rightarrow> op_problem option" where
  "required_problem op schema props =
     (case map_of schema ''required'' of
        None \<Rightarrow> None
      | Some (JArray items) \<Rightarrow> check_required op props items
      | Some _ \<Rightarrow> Some (OpRequired op))"

definition properties_of :: "string \<Rightarrow> (string \<times> json) list \<Rightarrow> op_problem + (string \<times> json) list" where
  "properties_of op schema =
     (case map_of schema ''properties'' of
        None \<Rightarrow> Inr []
      | Some (JObject props) \<Rightarrow> Inr props
      | Some _ \<Rightarrow> Inl (OpProperties op))"

text \<open>Of several path parameters with no template the source reports whichever its map yields first; here it is the first collected.\<close>

definition templates_match :: "string list \<Rightarrow> string list \<Rightarrow> op_problem option" where
  "templates_match templates params =
     (case find (\<lambda>name. name \<notin> set params) templates of
        Some name \<Rightarrow> Some (TemplateUnfilled name)
      | None \<Rightarrow> map_option PathParamUnused (find (\<lambda>name. name \<notin> set templates) params))"

definition validate_input_schema ::
  "op_lib \<Rightarrow> operation \<Rightarrow> string list \<Rightarrow> string \<Rightarrow> string \<Rightarrow> op_problem option" where
  "validate_input_schema L op templates header_slot query_slot =
     (case decode_object L (op_input op) of
        Inl e \<Rightarrow> Some (OpInput (op_name op) e)
      | Inr schema \<Rightarrow>
          if map_of schema ''type'' \<noteq> Some (JString ''object'') then Some (OpInputType (op_name op))
          else case properties_of (op_name op) schema of
            Inl e \<Rightarrow> Some e
          | Inr props \<Rightarrow>
              (case required_problem (op_name op) schema props of
                 Some e \<Rightarrow> Some e
               | None \<Rightarrow>
                   (case check_props (op_method op) header_slot query_slot (sort_key fst props) nothing_collected of
                      Inl e \<Rightarrow> Some e
                    | Inr st \<Rightarrow> templates_match templates (cl_path st))))"

section \<open>The set\<close>

definition validate_operation :: "op_lib \<Rightarrow> string \<Rightarrow> string \<Rightarrow> operation \<Rightarrow> op_problem option" where
  "validate_operation L header_slot query_slot op =
     (if \<not> valid_method (op_method op) then Some (OpMethod (op_name op) (op_method op))
      else case parse_path (op_path op) of
        Inl e \<Rightarrow> Some (OpPath (op_name op) e)
      | Inr templates \<Rightarrow>
          (case validate_input_schema L op templates header_slot query_slot of
             Some e \<Rightarrow> Some e
           | None \<Rightarrow>
               if op_output op \<noteq> []
               then (case decode_object L (op_output op) of Inl e \<Rightarrow> Some (OpOutput (op_name op) e) | Inr _ \<Rightarrow> None)
               else None))"

fun validate_each :: "op_lib \<Rightarrow> string \<Rightarrow> string \<Rightarrow> string list \<Rightarrow> operation list \<Rightarrow> op_problem option" where
  "validate_each L header_slot query_slot names [] = None"
| "validate_each L header_slot query_slot names (op # ops) =
     (if \<not> valid_tool_name (op_name op) then Some (OpName (op_name op))
      else if op_name op \<in> set names then Some (OpTwice (op_name op))
      else case validate_operation L header_slot query_slot op of
        Some e \<Rightarrow> Some e
      | None \<Rightarrow> validate_each L header_slot query_slot (op_name op # names) ops)"

definition validate_operations :: "op_lib \<Rightarrow> operation list \<Rightarrow> string \<Rightarrow> string \<Rightarrow> op_problem option" where
  "validate_operations L ops kind name =
     (case reserved_slots kind name of
        Inl e \<Rightarrow> Some e
      | Inr (header_slot, query_slot) \<Rightarrow>
          if ops = [] then Some NoOperations else validate_each L header_slot query_slot [] ops)"

fun decode_each :: "op_lib \<Rightarrow> nat \<Rightarrow> operation list \<Rightarrow> string list \<Rightarrow> op_problem + operation list" where
  "decode_each L i ops [] = Inr ops"
| "decode_each L i ops (raw # raws) =
     (case ol_operation L raw of
        None \<Rightarrow> Inl (OpUndecodable i)
      | Some op \<Rightarrow>
          if ops \<noteq> [] \<and> op_name op \<le> op_name (last ops)
          then Inl (if op_name op = op_name (last ops) then OpTwice (op_name op) else OpUnordered (op_name op) (op_name (last ops)))
          else decode_each L (i + 1) (ops @ [op]) raws)"

definition canonical_operation :: "op_lib \<Rightarrow> operation \<Rightarrow> op_problem + operation" where
  "canonical_operation L op =
     (case canonicalize L (op_input op) of
        Inl e \<Rightarrow> Inl (OpInput (op_name op) e)
      | Inr input \<Rightarrow>
          if op_output op \<noteq> []
          then (case canonicalize L (op_output op) of
                  Inl e \<Rightarrow> Inl (OpOutput (op_name op) e)
                | Inr output \<Rightarrow> Inr (op\<lparr>op_input := input, op_output := output\<rparr>))
          else Inr (op\<lparr>op_input := input\<rparr>))"

fun canonical_each :: "op_lib \<Rightarrow> operation list \<Rightarrow> op_problem + operation list" where
  "canonical_each L [] = Inr []"
| "canonical_each L (op # ops) =
     (case canonical_operation L op of
        Inl e \<Rightarrow> Inl e
      | Inr op' \<Rightarrow> map_sum id (Cons op') (canonical_each L ops))"

definition decode_operations :: "op_lib \<Rightarrow> string \<Rightarrow> string \<Rightarrow> string \<Rightarrow> op_problem + operation list" where
  "decode_operations L raw kind name =
     (case ol_raws L raw of
        None \<Rightarrow> Inl OpsNotArray
      | Some raws \<Rightarrow>
          (case decode_each L 0 [] raws of
             Inl e \<Rightarrow> Inl e
           | Inr ops \<Rightarrow>
               (case validate_operations L ops kind name of
                  Some e \<Rightarrow> Inl e
                | None \<Rightarrow> canonical_each L ops)))"

section \<open>What a served set satisfies\<close>

text \<open>The property names an operation declares.\<close>

definition declared :: "op_lib \<Rightarrow> operation \<Rightarrow> string list" where
  "declared L op =
     (case decode_object L (op_input op) of
        Inl _ \<Rightarrow> []
      | Inr schema \<Rightarrow> (case map_of schema ''properties'' of Some (JObject props) \<Rightarrow> map fst props | _ \<Rightarrow> []))"

definition folded_header_of :: "string \<Rightarrow> string option" where
  "folded_header_of key = (case place_of key of Some (InHeader name) \<Rightarrow> Some (fold_header name) | _ \<Rightarrow> None)"

definition header_names :: "string list \<Rightarrow> string list" where
  "header_names keys = map (\<lambda>k. the (folded_header_of k)) (filter (\<lambda>k. folded_header_of k \<noteq> None) keys)"

text \<open>A declared property can be placed on a request of this operation, away from the credential.\<close>

definition prop_ok :: "string \<Rightarrow> string \<Rightarrow> string \<Rightarrow> string list \<Rightarrow> string \<Rightarrow> bool" where
  "prop_ok meth header_slot query_slot templates key =
     (case place_of key of
        None \<Rightarrow> False
      | Some InBody \<Rightarrow> class_of meth \<noteq> class_safe
      | Some (InPath name) \<Rightarrow> name \<in> set templates
      | Some (InQuery name) \<Rightarrow> name \<noteq> [] \<and> is_printable_ascii name \<and> (query_slot \<noteq> [] \<longrightarrow> map lower name \<noteq> query_slot)
      | Some (InHeader name) \<Rightarrow>
          valid_token name \<and> \<not> is_control_header name \<and> (header_slot \<noteq> [] \<longrightarrow> fold_header name \<noteq> header_slot)
      | Some (InCookie name) \<Rightarrow> valid_token name)"

definition op_ok :: "op_lib \<Rightarrow> string \<Rightarrow> string \<Rightarrow> operation \<Rightarrow> bool" where
  "op_ok L header_slot query_slot op =
     (valid_tool_name (op_name op) \<and> valid_method (op_method op)
      \<and> (case decode_object L (op_input op) of Inl _ \<Rightarrow> False | Inr _ \<Rightarrow> True)
      \<and> (case parse_path (op_path op) of
           Inl _ \<Rightarrow> False
         | Inr templates \<Rightarrow>
             list_all (prop_ok (op_method op) header_slot query_slot templates) (declared L op)
             \<and> list_all (\<lambda>name. prefix_path @ name \<in> set (declared L op)) templates
             \<and> distinct (header_names (declared L op))))"

lemma place_of_path: "place_of key = Some (InPath name) \<longleftrightarrow> key = prefix_path @ name"
  by (auto simp: place_of_def cut_prefix_iff body_property_def prefix_path_def prefix_query_def prefix_header_def prefix_cookie_def
      split: option.splits)

lemma check_prop_ok:
  assumes "check_prop meth hs qs key schema st = Inr st'"
  shows "set (cl_path st') = {n. place_of key = Some (InPath n)} \<union> set (cl_path st)"
    "set (cl_path st') \<subseteq> set templates \<Longrightarrow> prop_ok meth hs qs templates key"
    "map fst (cl_headers st') = header_names [key] @ map fst (cl_headers st)"
    "distinct (map fst (cl_headers st)) \<Longrightarrow> distinct (map fst (cl_headers st'))"
  using assms
  by (auto simp: check_prop_def check_query_prop_def check_header_prop_def check_cookie_prop_def prop_ok_def header_names_def folded_header_of_def
        map_of_eq_None_iff
      split: json.splits option.splits place.splits if_splits)

definition walk_ok ::
  "string \<Rightarrow> string \<Rightarrow> string \<Rightarrow> string list \<Rightarrow> (string \<times> json) list \<Rightarrow> collected \<Rightarrow> collected \<Rightarrow> bool" where
  "walk_ok meth hs qs templates props st st' \<longleftrightarrow>
     set (cl_path st') = {n. prefix_path @ n \<in> fst ` set props} \<union> set (cl_path st)
     \<and> (set (cl_path st') \<subseteq> set templates \<longrightarrow> (\<forall>p \<in> set props. prop_ok meth hs qs templates (fst p)))
     \<and> mset (map fst (cl_headers st')) = mset (header_names (map fst props)) + mset (map fst (cl_headers st))
     \<and> (distinct (map fst (cl_headers st)) \<longrightarrow> distinct (map fst (cl_headers st')))"

lemma check_props_ok: "check_props meth hs qs props st = Inr st' \<Longrightarrow> walk_ok meth hs qs templates props st st'"
proof (induction meth hs qs props st rule: check_props.induct)
  case (1 meth hs qs st)
  then show ?case by (simp add: walk_ok_def header_names_def)
next
  case (2 meth hs qs key schema props st)
  from 2(2) obtain st1 where one: "check_prop meth hs qs key schema st = Inr st1" and rest: "check_props meth hs qs props st1 = Inr st'"
    by (auto split: sum.splits)
  have ih: "walk_ok meth hs qs templates props st1 st'" by (rule 2(1) [OF one rest])
  have "header_names (key # map fst props) = header_names [key] @ header_names (map fst props)" by (simp add: header_names_def)
  with ih check_prop_ok(1,3,4) [OF one] check_prop_ok(2) [OF one, of templates] show ?case by (auto simp: walk_ok_def place_of_path)
qed

lemma templates_match_None: "templates_match templates params = None \<longleftrightarrow> set templates = set params"
  unfolding templates_match_def by (auto simp: find_None_iff find_Some_iff split: option.splits)

lemma validate_input_schema_ok:
  assumes "validate_input_schema L op templates hs qs = None"
  shows "\<exists>schema. decode_object L (op_input op) = Inr schema"
    and "list_all (prop_ok (op_method op) hs qs templates) (declared L op)"
    and "list_all (\<lambda>name. prefix_path @ name \<in> set (declared L op)) templates"
    and "distinct (header_names (declared L op))"
proof -
  obtain schema props st where s: "decode_object L (op_input op) = Inr schema" "properties_of (op_name op) schema = Inr props"
    "check_props (op_method op) hs qs (sort_key fst props) nothing_collected = Inr st" "templates_match templates (cl_path st) = None"
    using assms by (auto simp: validate_input_schema_def split: sum.splits if_splits option.splits)
  then have d: "declared L op = map fst props"
    by (auto simp: declared_def properties_of_def split: option.splits json.splits)
  have w: "walk_ok (op_method op) hs qs templates (sort_key fst props) nothing_collected st" by (rule check_props_ok [OF s(3)])
  have t: "set templates = set (cl_path st)" using s(4) by (simp add: templates_match_None)
  show "\<exists>schema. decode_object L (op_input op) = Inr schema" using s(1) by blast
  show "list_all (prop_ok (op_method op) hs qs templates) (declared L op)" using w t by (auto simp: walk_ok_def d list_all_iff)
  show "list_all (\<lambda>name. prefix_path @ name \<in> set (declared L op)) templates"
    using w t by (auto simp: walk_ok_def d list_all_iff nothing_collected_def)
  have "distinct (map fst (cl_headers st))" "mset (map fst (cl_headers st)) = mset (header_names (map fst (sort_key fst props)))"
    using w by (simp_all add: walk_ok_def nothing_collected_def)
  moreover have "mset (header_names (map fst (sort_key fst props))) = mset (header_names (map fst props))"
    by (simp add: header_names_def mset_filter)
  ultimately show "distinct (header_names (declared L op))" unfolding d by (metis mset_eq_imp_distinct_iff)
qed

lemma validate_each_ok:
  "validate_each L hs qs names ops = None \<Longrightarrow>
   list_all (op_ok L hs qs) ops \<and> distinct (map op_name ops) \<and> set (map op_name ops) \<inter> set names = {}"
proof (induction L hs qs names ops rule: validate_each.induct)
  case (2 L hs qs names op ops)
  then have op: "valid_tool_name (op_name op)" "op_name op \<notin> set names" "validate_operation L hs qs op = None"
    and rest: "validate_each L hs qs (op_name op # names) ops = None"
    by (auto split: if_splits option.splits)
  from op(3) obtain templates where t: "valid_method (op_method op)" "parse_path (op_path op) = Inr templates"
    "validate_input_schema L op templates hs qs = None"
    by (auto simp: validate_operation_def split: if_splits sum.splits option.splits)
  have "op_ok L hs qs op" using op(1) t validate_input_schema_ok [OF t(3)] by (auto simp: op_ok_def)
  with op rest 2(1) show ?case by auto
qed simp

lemma decode_each_ordered:
  "decode_each L i ops raws = Inr ops' \<Longrightarrow> sorted_wrt (<) (map op_name ops) \<Longrightarrow> sorted_wrt (<) (map op_name ops')"
proof (induction L i ops raws rule: decode_each.induct)
  case (2 L i ops raw raws)
  then obtain op where op: "ol_operation L raw = Some op" "\<not> (ops \<noteq> [] \<and> op_name op \<le> op_name (last ops))"
    and rest: "decode_each L (i + 1) (ops @ [op]) raws = Inr ops'"
    by (auto split: option.splits if_splits)
  have "op_name o' < op_name op" if "o' \<in> set ops" for o'
  proof -
    have "ops \<noteq> []" using that by auto
    then have "op_name (last ops) < op_name op" using op(2) by simp
    moreover have "op_name o' \<le> op_name (last ops)"
    proof -
      obtain xs y where "ops = xs @ [y]" using \<open>ops \<noteq> []\<close> by (metis append_butlast_last_id)
      then show ?thesis using 2(3) that by (auto simp: sorted_wrt_append)
    qed
    ultimately show ?thesis by simp
  qed
  with 2(3) have "sorted_wrt (<) (map op_name (ops @ [op]))" by (auto simp: sorted_wrt_append)
  with 2(1) [OF op rest] show ?case by blast
qed simp

text \<open>Writing a decoded document and decoding it again gives the document.\<close>

definition json_stable :: "op_lib \<Rightarrow> bool" where
  "json_stable L \<longleftrightarrow>
     (\<forall>raw v s. ol_json L raw = Some (v, False) \<longrightarrow> ol_marshal L v = Some s \<longrightarrow> s \<noteq> [] \<and> ol_json L s = Some (v, False))"

lemma canonicalize_decodes:
  assumes "json_stable L" "canonicalize L raw = Inr s"
  shows "decode_object L s = decode_object L raw"
proof -
  obtain v where v: "decode_value L raw = Inr v" "ol_marshal L v = Some s"
    using assms(2) by (auto simp: canonicalize_def split: sum.splits option.splits)
  then have "ol_json L raw = Some (v, False)" by (auto simp: decode_value_def split: if_splits option.splits)
  with assms(1) v have "decode_value L s = Inr v" unfolding json_stable_def decode_value_def by (metis (mono_tags, lifting) option.case(2) prod.case)
  with v(1) show ?thesis by (simp add: decode_object_def)
qed

lemma canonical_operation_ok:
  assumes "json_stable L" "canonical_operation L op = Inr op'"
  shows "op_name op' = op_name op" "op_ok L hs qs op' = op_ok L hs qs op"
proof -
  obtain input where i: "canonicalize L (op_input op) = Inr input" "op_input op' = input"
    "op_name op' = op_name op" "op_method op' = op_method op" "op_path op' = op_path op"
    using assms(2) by (auto simp: canonical_operation_def split: sum.splits if_splits)
  show "op_name op' = op_name op" by (rule i(3))
  have "decode_object L (op_input op') = decode_object L (op_input op)" using canonicalize_decodes [OF assms(1) i(1)] i(2) by simp
  then have "declared L op' = declared L op" "decode_object L (op_input op') = decode_object L (op_input op)" by (simp_all add: declared_def)
  then show "op_ok L hs qs op' = op_ok L hs qs op" by (simp only: op_ok_def i(3-5))
qed

lemma canonical_each_ok:
  assumes "json_stable L"
  shows "canonical_each L ops = Inr ops' \<Longrightarrow> map op_name ops' = map op_name ops \<and> list_all (op_ok L hs qs) ops' = list_all (op_ok L hs qs) ops"
proof (induction ops arbitrary: ops')
  case (Cons op ops)
  then obtain op' rest where "canonical_operation L op = Inr op'" "canonical_each L ops = Inr rest" "ops' = op' # rest"
    by (cases "canonical_each L ops") (auto split: sum.splits)
  with Cons.IH canonical_operation_ok [OF assms] show ?case by auto
qed simp

lemma decode_operations_ok:
  assumes "decode_operations L raw kind name = Inr ops" "json_stable L"
  shows "\<exists>hs qs. reserved_slots kind name = Inr (hs, qs) \<and> ops \<noteq> [] \<and> sorted_wrt (<) (map op_name ops) \<and> list_all (op_ok L hs qs) ops"
proof -
  obtain raws ops1 where d: "decode_each L 0 [] raws = Inr ops1" "validate_operations L ops1 kind name = None" "canonical_each L ops1 = Inr ops"
    using assms(1) by (auto simp: decode_operations_def split: option.splits sum.splits)
  obtain hs qs where v: "reserved_slots kind name = Inr (hs, qs)" "ops1 \<noteq> []" "validate_each L hs qs [] ops1 = None"
    using d(2) by (auto simp: validate_operations_def split: sum.splits if_splits)
  have "sorted_wrt (<) (map op_name ops1)" by (rule decode_each_ordered [OF d(1)]) simp
  with v canonical_each_ok [OF assms(2) d(3), of hs qs] validate_each_ok [OF v(3)] show ?thesis
    by (intro exI [of _ hs] exI [of _ qs]) (metis map_is_Nil_conv)
qed

end
