(* ===== verification/Rest_Call.thy ===== *)
theory Rest_Call
  imports Rest_Ops Egress
begin

text \<open>
  Model of \<open>internal/gateway/resthttp/resthttp.go\<close>: the base URL a REST backend is pinned to, dialling, placing a call's arguments on one request, injecting the
  credential, and turning the response into a result. What the code asks of \<open>net/url\<close>, \<open>net/http\<close>, \<open>encoding/json\<close>, \<open>mime\<close>, \<open>unicode/utf8\<close> and \<open>encoding/base64\<close> beyond
  the functions written out here is collected in \<open>rest_lib\<close>; the vault and the exchange with the backend are the record \<open>call_world\<close>.
\<close>

section \<open>URLs\<close>

record rest_url =
  ul_scheme :: string
  ul_opaque :: string
  ul_user :: bool
  ul_host :: string
  ul_escaped_path :: string
  ul_raw_query :: string
  ul_force_query :: bool
  ul_fragment :: string
  ul_raw_fragment :: string

record envelope =
  ev_status :: int
  ev_headers :: "(string \<times> string list) list"
  ev_body_json :: bool
  ev_body :: string
  ev_encoding :: string

record rest_lib =
  rl_ops :: op_lib
  rl_codec :: codec
  rl_parse_url :: "string \<Rightarrow> rest_url option"
  rl_to_lower :: "string \<Rightarrow> string"
  rl_parse_addr :: "string \<Rightarrow> addr option"
  rl_fields :: "string \<Rightarrow> ((string \<times> string) list \<times> bool) option"
  rl_string :: "string \<Rightarrow> string option"
  rl_is_bool :: "string \<Rightarrow> bool"
  rl_number :: "string \<Rightarrow> string option"
  rl_items :: "string \<Rightarrow> string list option"
  rl_new_request :: "string \<Rightarrow> string \<Rightarrow> string \<Rightarrow> string \<Rightarrow> bool"
  rl_media_type :: "string \<Rightarrow> string option"
  rl_utf8 :: "string \<Rightarrow> bool"
  rl_base64 :: "string \<Rightarrow> string"
  rl_envelope :: "envelope \<Rightarrow> string option"
  rl_block :: "string \<Rightarrow> string option"

definition is_digit :: "char \<Rightarrow> bool" where
  "is_digit c = (CHR ''0'' \<le> c \<and> c \<le> CHR ''9'')"

text \<open>\<open>URL.Hostname\<close> and \<open>URL.Port\<close>: the text after the last colon is a port when it is digits only; brackets go.\<close>

definition split_authority :: "string \<Rightarrow> string \<times> string" where
  "split_authority h =
     (case (case cut_at (CHR '':'') (rev h) of
              Some (rport, rhost) \<Rightarrow> if list_all is_digit rport then (rev rhost, rev rport) else (h, [])
            | None \<Rightarrow> (h, [])) of
        (host, port) \<Rightarrow>
          (if host \<noteq> [] \<and> hd host = CHR ''['' \<and> last host = CHR '']'' then tl (butlast host) else host, port))"

definition hostname :: "rest_url \<Rightarrow> string" where
  "hostname u = fst (split_authority (ul_host u))"

definition url_port :: "rest_url \<Rightarrow> string" where
  "url_port u = snd (split_authority (ul_host u))"

definition join_host_port :: "string \<Rightarrow> string \<Rightarrow> string" where
  "join_host_port host port = (if CHR '':'' \<in> set host then ''['' @ host @ '']:'' @ port else host @ '':'' @ port)"

definition origin_of :: "rest_lib \<Rightarrow> rest_url \<Rightarrow> string" where
  "origin_of L u =
     (let port = (if url_port u \<noteq> [] then url_port u
                  else if ul_scheme u = ''https'' then ''443'' else if ul_scheme u = ''http'' then ''80'' else [])
      in rl_to_lower L (ul_scheme u) @ ''://'' @ join_host_port (rl_to_lower L (hostname u)) port)"

section \<open>The base\<close>

record base =
  bs_scheme :: string
  bs_host :: string
  bs_origin :: string
  bs_path :: string
  bs_hostname :: string

datatype base_problem =
    UrlEmpty | UrlUnparsed | UrlScheme string | UrlOpaque | UrlUserinfo | UrlQuery | UrlFragment | UrlNoHost | UrlZone
  | UrlPath path_problem | UrlTemplate | UrlEgress egress_refusal

definition trim_slash :: "string \<Rightarrow> string" where
  "trim_slash p = (if p \<noteq> [] \<and> last p = CHR ''/'' then butlast p else p)"

definition base_path_problem :: "string \<Rightarrow> base_problem option" where
  "base_path_problem p =
     (if p = [] \<or> p = ''/'' then None
      else case parse_path p of Inl e \<Rightarrow> Some (UrlPath e) | Inr templates \<Rightarrow> if templates \<noteq> [] then Some UrlTemplate else None)"

definition parse_base :: "rest_lib \<Rightarrow> string \<Rightarrow> base_problem + base" where
  "parse_base L raw =
     (if trim_space raw = [] then Inl UrlEmpty
      else case rl_parse_url L raw of
        None \<Rightarrow> Inl UrlUnparsed
      | Some u \<Rightarrow>
          if ul_scheme u \<noteq> ''http'' \<and> ul_scheme u \<noteq> ''https'' then Inl (UrlScheme (ul_scheme u))
          else if ul_opaque u \<noteq> [] then Inl UrlOpaque
          else if ul_user u then Inl UrlUserinfo
          else if ul_raw_query u \<noteq> [] \<or> ul_force_query u then Inl UrlQuery
          else if ul_fragment u \<noteq> [] \<or> ul_raw_fragment u \<noteq> [] then Inl UrlFragment
          else if hostname u = [] then Inl UrlNoHost
          else if CHR ''%'' \<in> set (hostname u) then Inl UrlZone
          else let port = (if url_port u \<noteq> [] then url_port u else if ul_scheme u = ''https'' then ''443'' else ''80'')
               in case base_path_problem (ul_escaped_path u) of
                    Some e \<Rightarrow> Inl e
                  | None \<Rightarrow>
                      Inr \<lparr>bs_scheme = ul_scheme u, bs_host = rl_to_lower L (ul_host u),
                           bs_origin = ul_scheme u @ ''://'' @ join_host_port (rl_to_lower L (hostname u)) port,
                           bs_path = trim_slash (ul_escaped_path u), bs_hostname = rl_to_lower L (hostname u)\<rparr>)"

definition literal_host_refusal :: "rest_lib \<Rightarrow> base \<Rightarrow> base_problem option" where
  "literal_host_refusal L b =
     (case rl_parse_addr L (bs_hostname b) of None \<Rightarrow> None | Some a \<Rightarrow> map_option UrlEgress (refuse_addr a))"

definition validate_base_url :: "rest_lib \<Rightarrow> string \<Rightarrow> base_problem option" where
  "validate_base_url L raw = (case parse_base L raw of Inl e \<Rightarrow> Some e | Inr b \<Rightarrow> literal_host_refusal L b)"

section \<open>Redirects\<close>

definition max_redirects :: nat where
  "max_redirects = 3"

datatype redirect_verdict = FollowRedirect | RedirectRefused string | UseLastResponse

definition check_redirect :: "rest_lib \<Rightarrow> base \<Rightarrow> rest_url \<Rightarrow> rest_url list \<Rightarrow> redirect_verdict" where
  "check_redirect L b target via =
     (if origin_of L target \<noteq> bs_origin b then RedirectRefused (origin_of L target)
      else if length via \<ge> max_redirects then UseLastResponse
      else FollowRedirect)"

text \<open>
  The loop of \<open>http.Client.Do\<close> that asks this check before every further request: \<open>next_url\<close> is where the response to the requests sent so far redirects to, if it
  does. The result is the list of requests sent.
\<close>

datatype exchange_end = ResponseTaken | RedirectStopped string

function follow :: "rest_lib \<Rightarrow> base \<Rightarrow> (rest_url list \<Rightarrow> rest_url option) \<Rightarrow> rest_url list \<Rightarrow> rest_url list \<times> exchange_end" where
  "follow L b next_url via =
     (case next_url via of
        None \<Rightarrow> (via, ResponseTaken)
      | Some target \<Rightarrow>
          (case check_redirect L b target via of
             RedirectRefused o' \<Rightarrow> (via, RedirectStopped o')
           | UseLastResponse \<Rightarrow> (via, ResponseTaken)
           | FollowRedirect \<Rightarrow> follow L b next_url (via @ [target])))"
  by pat_completeness auto
termination
  by (relation "measure (\<lambda>(L, b, next_url, via). max_redirects - length via)") (auto simp: check_redirect_def split: if_splits)

declare follow.simps [simp del]

section \<open>Dialling\<close>

record rest_route =
  rr_op :: operation
  rr_props :: "string list"

record rest_upstream =
  ru_name :: string
  ru_base :: base
  ru_auth_kind :: string
  ru_auth_name :: string
  ru_secret :: string
  ru_ops :: "operation list"
  ru_routes :: "(string \<times> rest_route) list"
  ru_max_body :: int

datatype dial_problem =
    DialTransport string | DialUrl base_problem | DialKeylessWithSecret nat | DialSecretCount nat | DialSecretUnnamed | DialNoVault
  | DialOperations op_problem

definition secret_ref :: "string \<Rightarrow> (string \<times> string) list \<Rightarrow> dial_problem + string" where
  "secret_ref kind env =
     (if kind = auth_none then (if env \<noteq> [] then Inl (DialKeylessWithSecret (length env)) else Inr [])
      else case env of
        [(name, _)] \<Rightarrow> if name = [] then Inl DialSecretUnnamed else Inr name
      | _ \<Rightarrow> Inl (DialSecretCount (length env)))"

fun rest_routes_of :: "op_lib \<Rightarrow> operation list \<Rightarrow> op_problem + (string \<times> rest_route) list" where
  "rest_routes_of L [] = Inr []"
| "rest_routes_of L (op # ops) =
     (case decode_object L (op_input op) of
        Inl e \<Rightarrow> Inl (OpInput (op_name op) e)
      | Inr schema \<Rightarrow>
          map_sum id
            (Cons (op_name op,
               \<lparr>rr_op = op,
                rr_props = (case map_of schema ''properties'' of Some (JObject props) \<Rightarrow> map fst props | _ \<Rightarrow> [])\<rparr>))
            (rest_routes_of L ops))"

text \<open>\<open>vault\<close> says whether the dialer was given one; \<open>env\<close> is what was resolved for the entry.\<close>

definition dial_rest :: "rest_lib \<Rightarrow> bool \<Rightarrow> int \<Rightarrow> upstream \<Rightarrow> (string \<times> string) list \<Rightarrow> dial_problem + rest_upstream" where
  "dial_rest L vault max_body spec env =
     (if up_transport spec \<noteq> transport_http then Inl (DialTransport (up_transport spec))
      else case parse_base L (up_url spec) of
        Inl e \<Rightarrow> Inl (DialUrl e)
      | Inr b \<Rightarrow>
          (case literal_host_refusal L b of
             Some e \<Rightarrow> Inl (DialUrl e)
           | None \<Rightarrow>
               (case secret_ref (up_auth_kind spec) env of
                  Inl e \<Rightarrow> Inl e
                | Inr secret \<Rightarrow>
                    if secret \<noteq> [] \<and> \<not> vault then Inl DialNoVault
                    else case decode_operations (rl_ops L) (up_operations spec) (up_auth_kind spec) (up_auth_name spec) of
                      Inl e \<Rightarrow> Inl (DialOperations e)
                    | Inr ops \<Rightarrow>
                        (case rest_routes_of (rl_ops L) ops of
                           Inl e \<Rightarrow> Inl (DialOperations e)
                         | Inr routes \<Rightarrow>
                             Inr \<lparr>ru_name = up_name spec, ru_base = b, ru_auth_kind = up_auth_kind spec,
                                  ru_auth_name = up_auth_name spec, ru_secret = secret, ru_ops = ops, ru_routes = routes,
                                  ru_max_body = max_body\<rparr>))))"

definition rest_list_tools :: "rest_upstream \<Rightarrow> tool_def list" where
  "rest_list_tools u = map operation_tool (ru_ops u)"

section \<open>Arguments\<close>

definition put :: "'k \<Rightarrow> 'v \<Rightarrow> ('k \<times> 'v) list \<Rightarrow> ('k \<times> 'v) list" where
  "put k v kvs = filter (\<lambda>kv. fst kv \<noteq> k) kvs @ [(k, v)]"

definition upper :: "char \<Rightarrow> char" where
  "upper c = (if CHR ''a'' \<le> c \<and> c \<le> CHR ''z'' then char_of ((of_char c :: nat) - 32) else c)"

text \<open>\<open>textproto.CanonicalMIMEHeaderKey\<close>.\<close>

fun canon :: "bool \<Rightarrow> string \<Rightarrow> string" where
  "canon first [] = []"
| "canon first (c # cs) = (if first then upper c else lower c) # canon (c = CHR ''-'') cs"

definition canonical_header :: "string \<Rightarrow> string" where
  "canonical_header name = (if list_all token_char name then canon True name else name)"

datatype scalar_problem = ScalarEmpty | ScalarString | ScalarBool | ScalarNumber | ScalarKind

definition scalar_text :: "rest_lib \<Rightarrow> string \<Rightarrow> scalar_problem + string" where
  "scalar_text L raw =
     (case trim_space raw of
        [] \<Rightarrow> Inl ScalarEmpty
      | c # cs \<Rightarrow>
          if c = CHR 0x22 then (case rl_string L (c # cs) of None \<Rightarrow> Inl ScalarString | Some s \<Rightarrow> Inr s)
          else if c = CHR ''t'' \<or> c = CHR ''f'' then (if rl_is_bool L (c # cs) then Inr (c # cs) else Inl ScalarBool)
          else if c = CHR ''-'' \<or> is_digit c then (case rl_number L (c # cs) of None \<Rightarrow> Inl ScalarNumber | Some n \<Rightarrow> Inr n)
          else Inl ScalarKind)"

fun scalar_items :: "rest_lib \<Rightarrow> nat \<Rightarrow> string list \<Rightarrow> (nat \<times> scalar_problem) + string list" where
  "scalar_items L i [] = Inr []"
| "scalar_items L i (item # items) =
     (case scalar_text L item of
        Inl e \<Rightarrow> Inl (i, e)
      | Inr v \<Rightarrow> map_sum id (Cons v) (scalar_items L (i + 1) items))"

datatype array_problem = ArrayInvalid | ItemProblem nat scalar_problem | OneProblem scalar_problem

definition scalar_texts :: "rest_lib \<Rightarrow> string \<Rightarrow> array_problem + string list" where
  "scalar_texts L raw =
     (if trim_space raw \<noteq> [] \<and> hd (trim_space raw) = CHR ''['' then
        (case rl_items L (trim_space raw) of
           None \<Rightarrow> Inl ArrayInvalid
         | Some items \<Rightarrow>
             (case scalar_items L 0 items of
                Inl (i, e) \<Rightarrow> Inl (ItemProblem i e)
              | Inr vs \<Rightarrow> Inr vs))
      else (case scalar_text L raw of Inl e \<Rightarrow> Inl (OneProblem e) | Inr v \<Rightarrow> Inr [v]))"

definition valid_header_value :: "string \<Rightarrow> bool" where
  "valid_header_value v = list_all (\<lambda>c. \<not> ((of_char c :: nat) < 0x20 \<and> c \<noteq> CHR 0x09 \<or> (of_char c :: nat) = 0x7F)) v"

definition cookie_octet :: "char \<Rightarrow> bool" where
  "cookie_octet c =
     (let b = (of_char c :: nat)
      in b = 0x21 \<or> 0x23 \<le> b \<and> b \<le> 0x2B \<or> 0x2D \<le> b \<and> b \<le> 0x3A \<or> 0x3C \<le> b \<and> b \<le> 0x5B \<or> 0x5D \<le> b \<and> b \<le> 0x7E)"

definition valid_cookie_value :: "string \<Rightarrow> bool" where
  "valid_cookie_value v = list_all cookie_octet v"

datatype arg_problem =
    ArgsNotObject | ArgsTrailing | ArgUndeclared string | ArgScalar string scalar_problem | ArgPathValue string value_problem
  | ArgArray string array_problem | ArgHeaderValue string | ArgCookieValue string | ArgOutside string | ArgPath fill_problem
  | ArgUnescape | ArgRequest

record placing =
  pl_path :: "(string \<times> string) list"
  pl_query :: "(string \<times> string list) list"
  pl_headers :: "(string \<times> string list) list"
  pl_cookies :: "string list"
  pl_body :: "string option"

definition nothing_placed :: placing where
  "nothing_placed = \<lparr>pl_path = [], pl_query = [], pl_headers = [], pl_cookies = [], pl_body = None\<rparr>"

definition place_arg :: "rest_lib \<Rightarrow> string list \<Rightarrow> string \<Rightarrow> string \<Rightarrow> placing \<Rightarrow> arg_problem + placing" where
  "place_arg L props key raw pl =
     (if key \<notin> set props then Inl (ArgUndeclared key)
      else case place_of key of
        None \<Rightarrow> Inl (ArgOutside key)
      | Some InBody \<Rightarrow> Inr (pl\<lparr>pl_body := Some raw\<rparr>)
      | Some (InPath name) \<Rightarrow>
          (case scalar_text L raw of
             Inl e \<Rightarrow> Inl (ArgScalar key e)
           | Inr v \<Rightarrow>
               (case valid_path_value v of
                  Some e \<Rightarrow> Inl (ArgPathValue key e)
                | None \<Rightarrow> Inr (pl\<lparr>pl_path := put name v (pl_path pl)\<rparr>)))
      | Some (InQuery name) \<Rightarrow>
          (case scalar_texts L raw of
             Inl e \<Rightarrow> Inl (ArgArray key e)
           | Inr vs \<Rightarrow> Inr (pl\<lparr>pl_query := put name vs (pl_query pl)\<rparr>))
      | Some (InHeader name) \<Rightarrow>
          (case scalar_text L raw of
             Inl e \<Rightarrow> Inl (ArgScalar key e)
           | Inr v \<Rightarrow>
               if valid_header_value v then Inr (pl\<lparr>pl_headers := put (canonical_header name) [v] (pl_headers pl)\<rparr>)
               else Inl (ArgHeaderValue key))
      | Some (InCookie name) \<Rightarrow>
          (case scalar_text L raw of
             Inl e \<Rightarrow> Inl (ArgScalar key e)
           | Inr v \<Rightarrow>
               if valid_cookie_value v then Inr (pl\<lparr>pl_cookies := pl_cookies pl @ [name @ ''='' @ v]\<rparr>)
               else Inl (ArgCookieValue key)))"

fun place_args :: "rest_lib \<Rightarrow> string list \<Rightarrow> (string \<times> string) list \<Rightarrow> placing \<Rightarrow> arg_problem + placing" where
  "place_args L props [] pl = Inr pl"
| "place_args L props ((key, raw) # kvs) pl =
     (case place_arg L props key raw pl of Inl e \<Rightarrow> Inl e | Inr pl \<Rightarrow> place_args L props kvs pl)"

definition decode_fields :: "rest_lib \<Rightarrow> string \<Rightarrow> arg_problem + (string \<times> string) list" where
  "decode_fields L args =
     (if trim_space args = [] then Inr []
      else case rl_fields L args of
        None \<Rightarrow> Inl ArgsNotObject
      | Some (kvs, trailing) \<Rightarrow> if trailing then Inl ArgsTrailing else Inr kvs)"

section \<open>The request\<close>

record rest_request =
  rq_method :: string
  rq_scheme :: string
  rq_host :: string
  rq_path :: string
  rq_query :: "(string \<times> string list) list"
  rq_headers :: "(string \<times> string list) list"
  rq_body :: "string option"

fun join_with :: "string \<Rightarrow> string list \<Rightarrow> string" where
  "join_with sep [] = []"
| "join_with sep [x] = x"
| "join_with sep (x # y # ys) = x @ sep @ join_with sep (y # ys)"

definition cookie_header :: string where "cookie_header = ''Cookie''"
definition content_type_header :: string where "content_type_header = ''Content-Type''"

definition request_headers :: "placing \<Rightarrow> (string \<times> string list) list" where
  "request_headers pl =
     (let hs = pl_headers pl;
          hs = (if pl_cookies pl \<noteq> [] then put cookie_header [join_with ''; '' (pl_cookies pl)] hs else hs)
      in if pl_body pl \<noteq> None then put content_type_header [''application/json''] hs else hs)"

definition build_request :: "rest_lib \<Rightarrow> base \<Rightarrow> rest_route \<Rightarrow> string \<Rightarrow> arg_problem + rest_request" where
  "build_request L b rt args =
     (case decode_fields L args of
        Inl e \<Rightarrow> Inl e
      | Inr kvs \<Rightarrow>
          (case place_args L (rr_props rt) (sort_key fst kvs) nothing_placed of
             Inl e \<Rightarrow> Inl e
           | Inr pl \<Rightarrow>
               (case fill_path (op_path (rr_op rt)) (map_of (pl_path pl)) of
                  Inl e \<Rightarrow> Inl (ArgPath e)
                | Inr p \<Rightarrow>
                    if url_path_unescape (bs_path b @ p) = None then Inl ArgUnescape
                    else if \<not> rl_new_request L (op_method (rr_op rt)) (bs_scheme b) (bs_host b) (bs_path b @ p) then Inl ArgRequest
                    else Inr \<lparr>rq_method = op_method (rr_op rt), rq_scheme = bs_scheme b, rq_host = bs_host b, rq_path = bs_path b @ p,
                              rq_query = pl_query pl, rq_headers = request_headers pl, rq_body = pl_body pl\<rparr>)))"

definition bearer_prefix :: string where "bearer_prefix = ''Bearer ''"

definition inject_credential :: "string \<Rightarrow> string \<Rightarrow> string \<Rightarrow> rest_request \<Rightarrow> rest_request" where
  "inject_credential kind name v req =
     (if kind = auth_bearer then req\<lparr>rq_headers := put (canonical_header ''Authorization'') [bearer_prefix @ v] (rq_headers req)\<rparr>
      else if kind = auth_header then req\<lparr>rq_headers := put (canonical_header name) [v] (rq_headers req)\<rparr>
      else if kind = auth_query then req\<lparr>rq_query := put name [v] (rq_query req)\<rparr>
      else req)"

section \<open>The response\<close>

text \<open>An error of the client: its text, and for a URL error the text of the error inside it.\<close>

record client_error =
  ce_text :: string
  ce_url_inner :: "string option"

text \<open>A response's body is the bytes that arrive, and the error that ends them when they do not end by themselves.\<close>

record rest_response =
  rs_status :: int
  rs_headers :: "(string \<times> string list) list"
  rs_body :: string
  rs_body_error :: "client_error option"

definition wrap64 :: "int \<Rightarrow> int" where
  "wrap64 n = (n + 2 ^ 63) mod 2 ^ 64 - 2 ^ 63"

datatype body_problem = BodyRead client_error | BodyTooLarge int

text \<open>\<open>io.LimitReader\<close> ends after its limit, without asking the body again; a limit that is not positive yields nothing.\<close>

definition read_body :: "rest_response \<Rightarrow> int \<Rightarrow> body_problem + string" where
  "read_body resp limit =
     (let n = wrap64 (limit + 1)
      in if int (length (rs_body resp)) < n \<and> rs_body_error resp \<noteq> None then Inl (BodyRead (the (rs_body_error resp)))
         else let data = take (nat n) (rs_body resp)
              in if int (length data) > limit then Inl (BodyTooLarge limit) else Inr data)"

definition header_get :: "string \<Rightarrow> (string \<times> string list) list \<Rightarrow> string" where
  "header_get name hs = (case map_of hs name of Some (v # vs) \<Rightarrow> v | _ \<Rightarrow> [])"

definition has_suffix :: "string \<Rightarrow> string \<Rightarrow> bool" where
  "has_suffix s suf = has_prefix (rev s) (rev suf)"

definition is_json_media_type :: "rest_lib \<Rightarrow> string \<Rightarrow> bool" where
  "is_json_media_type L ct =
     (case rl_media_type L ct of
        None \<Rightarrow> False
      | Some mt \<Rightarrow> rl_to_lower L mt = ''application/json'' \<or> has_suffix (rl_to_lower L mt) ''+json'')"

fun canonical_headers :: "(string \<times> string list) list \<Rightarrow> (string \<times> string list) list \<Rightarrow> (string \<times> string list) list" where
  "canonical_headers [] out = out"
| "canonical_headers ((name, vs) # hs) out = canonical_headers hs (put (canonical_header name) vs out)"

datatype rest_error =
    RestUnknownTool string | RestResolve string | RestNoCredential string | RestExchange string | RestBodyTooLarge int | RestReadBody string
  | RestBodyJson json_problem | RestUnrepresentable | RestUnscrubbable

definition response_body :: "rest_lib \<Rightarrow> rest_response \<Rightarrow> string \<Rightarrow> rest_error + (bool \<times> string \<times> string \<times> string)" where
  "response_body L resp body =
     (if body = [] then Inr (False, [], [], [])
      else if is_json_media_type L (header_get content_type_header (rs_headers resp)) \<and> json_valid (rl_codec L) body then
        (case canonicalize (rl_ops L) body of
           Inl e \<Rightarrow> Inl (RestBodyJson e)
         | Inr compact \<Rightarrow> Inr (True, compact, [], compact))
      else if rl_utf8 L body then Inr (False, body, [], [])
      else Inr (False, rl_base64 L body, ''base64'', []))"

definition serialize :: "rest_lib \<Rightarrow> rest_response \<Rightarrow> string \<Rightarrow> (string \<times> string) list \<Rightarrow> rest_error + call_result" where
  "serialize L resp body secrets =
     (case response_body L resp body of
        Inl e \<Rightarrow> Inl e
      | Inr (is_json, text, encoding, structured) \<Rightarrow>
          (let is_error = (rs_status resp < 200 \<or> rs_status resp > 299);
               structured = (if is_error then [] else structured)
           in case rl_envelope L \<lparr>ev_status = rs_status resp, ev_headers = canonical_headers (rs_headers resp) [],
                                  ev_body_json = is_json, ev_body = text, ev_encoding = encoding\<rparr> of
                None \<Rightarrow> Inl RestUnrepresentable
              | Some doc \<Rightarrow>
                  (case scrub_json (rl_codec L) doc secrets [] of
                     (Inl _, _) \<Rightarrow> Inl RestUnscrubbable
                   | (Inr doc, _) \<Rightarrow>
                       (case scrub_json (rl_codec L) structured secrets [] of
                          (Inl _, _) \<Rightarrow> Inl RestUnscrubbable
                        | (Inr structured, _) \<Rightarrow>
                            (case rl_block L doc of
                               None \<Rightarrow> Inl RestUnrepresentable
                             | Some content \<Rightarrow>
                                 Inr \<lparr>cr_content = content, cr_structured = structured, cr_is_error = is_error\<rparr>)))))"

definition scrub_call_error :: "rest_lib \<Rightarrow> operation \<Rightarrow> (string \<times> string) list \<Rightarrow> client_error \<Rightarrow> string" where
  "scrub_call_error L op env err =
     fst (mask_credentials (rl_codec L)
       (case ce_url_inner err of
          Some inner \<Rightarrow> op_method op @ '' '' @ op_path op @ '': '' @ inner
        | None \<Rightarrow> ce_text err) env)"

section \<open>A call\<close>

text \<open>
  \<open>cw_resolve\<close> is the vault, \<open>cw_send\<close> the client with its redirects and \<open>cw_refusal\<close> the text of an argument refusal. A call returns what it sent and what it answers.
\<close>

record call_world =
  cw_resolve :: "string \<Rightarrow> string option"
  cw_send :: "rest_request \<Rightarrow> client_error + rest_response"
  cw_refusal :: "string \<Rightarrow> arg_problem \<Rightarrow> string"

definition argument_refusal :: "rest_lib \<Rightarrow> call_world \<Rightarrow> string \<Rightarrow> arg_problem \<Rightarrow> rest_error + call_result" where
  "argument_refusal L W tool e =
     (case rl_block L (cw_refusal W tool e) of
        None \<Rightarrow> Inl RestUnrepresentable
      | Some content \<Rightarrow> Inr \<lparr>cr_content = content, cr_structured = [], cr_is_error = True\<rparr>)"

definition exchange :: "rest_lib \<Rightarrow> call_world \<Rightarrow> rest_upstream \<Rightarrow> operation \<Rightarrow> (string \<times> string) list \<Rightarrow> rest_request \<Rightarrow> rest_error + call_result" where
  "exchange L W u op env req =
     (case cw_send W req of
        Inl err \<Rightarrow> Inl (RestExchange (scrub_call_error L op env err))
      | Inr resp \<Rightarrow>
          (case read_body resp (ru_max_body u) of
             Inl (BodyTooLarge n) \<Rightarrow> Inl (RestBodyTooLarge n)
           | Inl (BodyRead err) \<Rightarrow> Inl (RestReadBody (scrub_call_error L op env err))
           | Inr body \<Rightarrow> serialize L resp body env))"

definition rest_call :: "rest_lib \<Rightarrow> call_world \<Rightarrow> rest_upstream \<Rightarrow> string \<Rightarrow> string \<Rightarrow> rest_request list \<times> (rest_error + call_result)" where
  "rest_call L W u tool args =
     (case map_of (ru_routes u) tool of
        None \<Rightarrow> ([], Inl (RestUnknownTool tool))
      | Some rt \<Rightarrow>
          (case build_request L (ru_base u) rt args of
             Inl e \<Rightarrow> ([], argument_refusal L W tool e)
           | Inr req \<Rightarrow>
               if ru_secret u = [] then ([req], exchange L W u (rr_op rt) [] req)
               else case cw_resolve W (ru_secret u) of
                 None \<Rightarrow> ([], Inl (RestResolve (ru_secret u)))
               | Some v \<Rightarrow>
                   if v = [] then ([], Inl (RestNoCredential (ru_secret u)))
                   else let req = inject_credential (ru_auth_kind u) (ru_auth_name u) v req
                        in ([req], exchange L W u (rr_op rt) [(ru_secret u, v)] req)))"

end
