(* ===== verification/Rest_Safety.thy ===== *)
theory Rest_Safety
  imports Rest_Call
begin

text \<open>
  What holds of every request of a REST backend: it stays under the signed base, it carries only declared arguments, the credential's slot holds the vault's value and
  nothing of the caller's, redirects stay on the signed origin, and what comes back has no rendering of the credential in it.
\<close>

section \<open>Header names\<close>

lemma of_char_lower: "(of_char (lower c) :: nat) = (if 65 \<le> (of_char c :: nat) \<and> (of_char c :: nat) \<le> 90 then of_char c + 32 else of_char c)"
  by (simp add: lower_def less_eq_char_def)

lemma of_char_upper: "(of_char (upper c) :: nat) = (if 97 \<le> (of_char c :: nat) \<and> (of_char c :: nat) \<le> 122 then of_char c - 32 else of_char c)"
  by (auto simp: upper_def less_eq_char_def)

lemma char_eqI: "(of_char c :: nat) = of_char d \<Longrightarrow> c = d"
  by simp

lemma lower_cased: "lower (upper c) = lower c" "lower (lower c) = lower c"
  by (rule char_eqI, auto simp: of_char_lower of_char_upper)+

lemma fold_canon: "fold_header (canon b s) = fold_header s"
  using lower_cased by (induction b s rule: canon.induct) (simp_all add: fold_header_def)

lemma fold_canonical [simp]: "fold_header (canonical_header name) = fold_header name"
  by (simp add: canonical_header_def fold_canon)

lemma control_canonical [simp]: "is_control_header (canonical_header name) = is_control_header name"
  by (simp add: is_control_header_def)

lemma put_entry: "e \<in> set (put k v kvs) \<longleftrightarrow> e = (k, v) \<or> e \<in> set kvs \<and> fst e \<noteq> k"
  by (cases e) (auto simp: put_def)

lemma map_of_put: "map_of (put k v kvs) n = Some w \<Longrightarrow> (n, w) \<in> set (put k v kvs)"
  by (rule map_of_SomeD)

section \<open>Placed arguments\<close>

definition header_free :: "string \<Rightarrow> string \<Rightarrow> bool" where
  "header_free slot h = (\<not> is_control_header h \<and> (slot \<noteq> [] \<longrightarrow> fold_header h \<noteq> slot))"

definition query_free :: "string \<Rightarrow> string \<Rightarrow> bool" where
  "query_free slot q = (slot \<noteq> [] \<longrightarrow> map lower q \<noteq> slot)"

definition placing_ok :: "string \<Rightarrow> string \<Rightarrow> string \<Rightarrow> string list \<Rightarrow> placing \<Rightarrow> bool" where
  "placing_ok meth hs qs templates pl \<longleftrightarrow>
     (\<forall>e \<in> set (pl_headers pl). header_free hs (fst e))
     \<and> (\<forall>e \<in> set (pl_query pl). query_free qs (fst e))
     \<and> (\<forall>e \<in> set (pl_path pl). valid_path_value (snd e) = None)
     \<and> (pl_body pl \<noteq> None \<longrightarrow> class_of meth \<noteq> class_safe)"

lemma place_arg_ok:
  assumes "place_arg L props key raw pl = Inr pl'" "list_all (prop_ok meth hs qs templates) props" "placing_ok meth hs qs templates pl"
  shows "key \<in> set props" "placing_ok meth hs qs templates pl'"
proof -
  show k: "key \<in> set props" using assms(1) by (auto simp: place_arg_def split: if_splits)
  then have p: "prop_ok meth hs qs templates key" using assms(2) by (auto simp: list_all_iff)
  obtain pc where pc: "place_of key = Some pc" using p by (auto simp: prop_ok_def split: option.splits)
  note step = assms(1) [unfolded place_arg_def, simplified k pc]
  show "placing_ok meth hs qs templates pl'"
  proof (cases pc)
    case InBody
    with step p pc assms(3) show ?thesis by (auto simp: prop_ok_def placing_ok_def)
  next
    case (InPath n)
    with step obtain v where "valid_path_value v = None" "pl' = pl\<lparr>pl_path := put n v (pl_path pl)\<rparr>"
      by (auto split: sum.splits option.splits)
    with assms(3) show ?thesis by (auto simp: placing_ok_def put_entry)
  next
    case (InQuery n)
    with step obtain vs where "pl' = pl\<lparr>pl_query := put n vs (pl_query pl)\<rparr>" by (auto split: sum.splits)
    moreover have "query_free qs n" using p pc InQuery by (simp add: prop_ok_def query_free_def)
    ultimately show ?thesis using assms(3) by (auto simp: placing_ok_def put_entry)
  next
    case (InHeader n)
    with step obtain v where "pl' = pl\<lparr>pl_headers := put (canonical_header n) [v] (pl_headers pl)\<rparr>"
      by (auto split: sum.splits if_splits)
    moreover have "header_free hs (canonical_header n)" using p pc InHeader by (simp add: prop_ok_def header_free_def)
    ultimately show ?thesis using assms(3) by (auto simp: placing_ok_def put_entry)
  next
    case (InCookie n)
    with step assms(3) show ?thesis by (auto simp: placing_ok_def split: sum.splits if_splits)
  qed
qed

lemma place_args_ok:
  "place_args L props kvs pl = Inr pl' \<Longrightarrow> list_all (prop_ok meth hs qs templates) props \<Longrightarrow> placing_ok meth hs qs templates pl \<Longrightarrow>
   fst ` set kvs \<subseteq> set props \<and> placing_ok meth hs qs templates pl'"
proof (induction L props kvs pl rule: place_args.induct)
  case (2 L props key raw kvs pl)
  then obtain pl1 where one: "place_arg L props key raw pl = Inr pl1" and rest: "place_args L props kvs pl1 = Inr pl'"
    by (auto split: sum.splits)
  note a = place_arg_ok [OF one 2(3,4)]
  from 2(1) [OF one rest 2(3) a(2)] a(1) show ?case by simp
qed simp

section \<open>The base path\<close>

lemma split_on_sep: "split_on x (xs @ x # ys) = split_on x xs @ split_on x ys"
proof (induction xs)
  case (Cons z xs)
  then show ?case by (cases "split_on x xs") auto
qed simp

lemma doubled_join: "doubled x (xs @ ys) \<longleftrightarrow> doubled x xs \<or> doubled x ys \<or> (xs \<noteq> [] \<and> ys \<noteq> [] \<and> last xs = x \<and> hd ys = x)"
proof (induction xs)
  case (Cons z xs)
  then show ?case by (cases xs; cases ys) auto
qed simp

definition base_path_ok :: "string \<Rightarrow> bool" where
  "base_path_ok p \<longleftrightarrow>
     (p = [] \<or> hd p = CHR ''/'' \<and> last p \<noteq> CHR ''/'') \<and> \<not> doubled (CHR ''/'') p \<and> CHR ''?'' \<notin> set p \<and> CHR ''#'' \<notin> set p
     \<and> \<not> list_ex dot_segment (split_on (CHR ''/'') p)"

lemma dot_segment_Nil [simp]: "\<not> dot_segment []"
  by (simp add: dot_segment_def segment_head_def)

lemma template_clean:
  assumes "parse_path t = Inr names" "c \<in> set ''?#''"
  shows "c \<notin> set t"
proof -
  obtain toks where t: "t = concat (map src (Lit (CHR ''/'') # toks))" "list_all tok_ok (Lit (CHR ''/'') # toks)"
    using parse_path_tokens [OF assms(1)] by blast
  have "c \<notin> set (src tok)" if "tok \<in> set (Lit (CHR ''/'') # toks)" for tok
    using that t(2) assms(2) path_char_not_brace [of c] template_name_plain [of _ c]
    by (cases tok rule: ptok.exhaust) (auto simp: list_all_iff)
  then show ?thesis unfolding t(1) set_concat set_map by blast
qed

lemma trimmed_base_path:
  assumes "base_path_problem p = None"
  shows "base_path_ok (trim_slash p)"
proof (cases "p = [] \<or> p = ''/''")
  case True
  then show ?thesis by (auto simp: trim_slash_def base_path_ok_def)
next
  case False
  then obtain names where names: "parse_path p = Inr names" using assms by (auto simp: base_path_problem_def split: sum.splits)
  obtain toks where t: "p = concat (map src (Lit (CHR ''/'') # toks))" "\<not> doubled (CHR ''/'') p" "\<not> list_ex dot_segment (split_on (CHR ''/'') p)"
    using parse_path_tokens [OF names] by blast
  have clean: "CHR ''?'' \<notin> set p" "CHR ''#'' \<notin> set p" using template_clean [OF names] by simp_all
  have hd: "p \<noteq> [] \<and> hd p = CHR ''/''" by (simp add: t(1))
  show ?thesis
  proof (cases "last p = CHR ''/''")
    case True
    then obtain b where b: "p = b @ ''/''" using hd by (metis append_butlast_last_id)
    with False have "b \<noteq> []" by auto
    moreover have "last b \<noteq> CHR ''/''" using t(2) \<open>b \<noteq> []\<close> by (auto simp: b doubled_join)
    moreover have "\<not> list_ex dot_segment (split_on (CHR ''/'') b)" using t(3) by (auto simp: b split_on_sep)
    ultimately show ?thesis using b t(2) clean hd by (auto simp: base_path_ok_def trim_slash_def doubled_join)
  next
    case False
    then show ?thesis using t clean hd by (auto simp: base_path_ok_def trim_slash_def)
  qed
qed

lemma parse_base_path_ok:
  assumes "parse_base L raw = Inr b"
  shows "base_path_ok (bs_path b)"
proof -
  obtain u :: rest_url where "base_path_problem (ul_escaped_path u) = None" "bs_path b = trim_slash (ul_escaped_path u)"
    using assms by (auto simp: parse_base_def Let_def split: if_splits option.splits)
  then show ?thesis by (simp add: trimmed_base_path)
qed

text \<open>A path below the signed base: the base's own segments, then others, none of them a dot segment.\<close>

definition below :: "string \<Rightarrow> string \<Rightarrow> bool" where
  "below bp p \<longleftrightarrow>
     (\<exists>rest. p = bp @ CHR ''/'' # rest \<and> split_on (CHR ''/'') p = split_on (CHR ''/'') bp @ split_on (CHR ''/'') rest)
     \<and> \<not> list_ex dot_segment (split_on (CHR ''/'') p) \<and> \<not> doubled (CHR ''/'') p \<and> CHR ''?'' \<notin> set p \<and> CHR ''#'' \<notin> set p"

lemma below_base:
  assumes "base_path_ok bp" "p \<noteq> []" "hd p = CHR ''/''" "CHR ''?'' \<notin> set p" "CHR ''#'' \<notin> set p" "\<not> doubled (CHR ''/'') p"
    "\<not> list_ex dot_segment (split_on (CHR ''/'') p)"
  shows "below bp (bp @ p)"
proof -
  obtain rest where p: "p = CHR ''/'' # rest" using assms(2,3) by (cases p) auto
  show ?thesis unfolding below_def
  proof (intro conjI exI [of _ rest])
    show "\<not> doubled (CHR ''/'') (bp @ p)" using assms(1,6) by (auto simp: doubled_join base_path_ok_def)
  qed (use assms p in \<open>auto simp: split_on_sep base_path_ok_def\<close>)
qed

section \<open>What a dialled backend knows\<close>

lemma rest_routes_of_ok:
  "rest_routes_of L ops = Inr routes \<Longrightarrow> map_of routes tool = Some rt \<Longrightarrow>
   rr_op rt \<in> set ops \<and> op_name (rr_op rt) = tool \<and> rr_props rt = declared L (rr_op rt)"
proof (induction ops arbitrary: routes)
  case (Cons op ops)
  then obtain schema rest where r: "decode_object L (op_input op) = Inr schema" "rest_routes_of L ops = Inr rest"
    "routes = (op_name op, \<lparr>rr_op = op, rr_props = declared L op\<rparr>) # rest"
    by (cases "rest_routes_of L ops") (auto simp: declared_def split: sum.splits)
  with Cons show ?case by (cases "op_name op = tool") auto
qed simp

lemma dial_rest_ok:
  assumes "dial_rest L vault mx spec env = Inr u" "json_stable (rl_ops L)"
  shows "\<exists>hs qs. reserved_slots (up_auth_kind spec) (up_auth_name spec) = Inr (hs, qs) \<and> list_all (op_ok (rl_ops L) hs qs) (ru_ops u)"
    and "rest_routes_of (rl_ops L) (ru_ops u) = Inr (ru_routes u)"
    and "ru_auth_kind u = up_auth_kind spec" "ru_auth_name u = up_auth_name spec"
    and "parse_base L (up_url spec) = Inr (ru_base u)" "base_path_ok (bs_path (ru_base u))"
    and "ru_secret u = [] \<longleftrightarrow> up_auth_kind spec = auth_none"
proof -
  obtain secret where d: "parse_base L (up_url spec) = Inr (ru_base u)" "secret_ref (up_auth_kind spec) env = Inr secret"
    "decode_operations (rl_ops L) (up_operations spec) (up_auth_kind spec) (up_auth_name spec) = Inr (ru_ops u)"
    "rest_routes_of (rl_ops L) (ru_ops u) = Inr (ru_routes u)" "ru_auth_kind u = up_auth_kind spec" "ru_auth_name u = up_auth_name spec"
    "ru_secret u = secret"
    using assms(1) by (auto simp: dial_rest_def split: if_splits sum.splits option.splits)
  show "\<exists>hs qs. reserved_slots (up_auth_kind spec) (up_auth_name spec) = Inr (hs, qs) \<and> list_all (op_ok (rl_ops L) hs qs) (ru_ops u)"
    using decode_operations_ok [OF d(3) assms(2)] by blast
  show "rest_routes_of (rl_ops L) (ru_ops u) = Inr (ru_routes u)" "ru_auth_kind u = up_auth_kind spec" "ru_auth_name u = up_auth_name spec"
    "parse_base L (up_url spec) = Inr (ru_base u)" by (fact d)+
  show "base_path_ok (bs_path (ru_base u))" by (rule parse_base_path_ok [OF d(1)])
  show "ru_secret u = [] \<longleftrightarrow> up_auth_kind spec = auth_none"
    using d(2,7) by (auto simp: secret_ref_def split: if_splits list.splits)
qed

section \<open>One request\<close>

lemma build_request_ok:
  assumes "build_request L b rt args = Inr req" "rr_props rt = declared (rl_ops L) (rr_op rt)" "op_ok (rl_ops L) hs qs (rr_op rt)"
    "base_path_ok (bs_path b)"
  shows "\<exists>kvs. decode_fields L args = Inr kvs \<and> fst ` set kvs \<subseteq> set (declared (rl_ops L) (rr_op rt))"
    and "rq_method req = op_method (rr_op rt)" "rq_scheme req = bs_scheme b" "rq_host req = bs_host b" "below (bs_path b) (rq_path req)"
    and "\<And>h vs. (h, vs) \<in> set (rq_headers req) \<Longrightarrow>
      header_free hs h \<or> h = cookie_header \<or> (h, vs) = (content_type_header, [''application/json''])"
    and "\<And>q vs. (q, vs) \<in> set (rq_query req) \<Longrightarrow> query_free qs q"
    and "rq_body req \<noteq> None \<Longrightarrow> class_of (rq_method req) \<noteq> class_safe"
proof -
  obtain templates where t: "parse_path (op_path (rr_op rt)) = Inr templates"
    "list_all (prop_ok (op_method (rr_op rt)) hs qs templates) (rr_props rt)"
    using assms(2,3) by (auto simp: op_ok_def split: sum.splits)
  obtain kvs pl p where d: "decode_fields L args = Inr kvs" "place_args L (rr_props rt) (sort_key fst kvs) nothing_placed = Inr pl"
    "fill_path (op_path (rr_op rt)) (map_of (pl_path pl)) = Inr p"
    and req: "rq_method req = op_method (rr_op rt)" "rq_scheme req = bs_scheme b" "rq_host req = bs_host b" "rq_path req = bs_path b @ p"
      "rq_query req = pl_query pl" "rq_headers req = request_headers pl" "rq_body req = pl_body pl"
    using assms(1) by (auto simp: build_request_def split: sum.splits if_splits)
  have "placing_ok (op_method (rr_op rt)) hs qs templates nothing_placed" by (simp add: placing_ok_def nothing_placed_def)
  from place_args_ok [OF d(2) t(2) this] have ok: "placing_ok (op_method (rr_op rt)) hs qs templates pl"
    and keys: "fst ` set kvs \<subseteq> set (rr_props rt)" by simp_all
  show "\<exists>kvs. decode_fields L args = Inr kvs \<and> fst ` set kvs \<subseteq> set (declared (rl_ops L) (rr_op rt))"
    using d(1) keys assms(2) by auto
  show "rq_method req = op_method (rr_op rt)" "rq_scheme req = bs_scheme b" "rq_host req = bs_host b" by (fact req)+
  have vals: "\<forall>n \<in> set templates. \<forall>v. map_of (pl_path pl) n = Some v \<longrightarrow> valid_path_value v = None"
    using ok by (auto simp: placing_ok_def dest!: map_of_SomeD)
  show "below (bs_path b) (rq_path req)"
    using filled_confined [OF t(1) vals] below_base [OF assms(4)] by (simp add: d(3) req(4))
  show "\<And>h vs. (h, vs) \<in> set (rq_headers req) \<Longrightarrow>
      header_free hs h \<or> h = cookie_header \<or> (h, vs) = (content_type_header, [''application/json''])"
    using ok by (auto simp: req request_headers_def placing_ok_def put_entry Let_def split: if_splits)
  show "\<And>q vs. (q, vs) \<in> set (rq_query req) \<Longrightarrow> query_free qs q" using ok by (auto simp: req placing_ok_def)
  show "rq_body req \<noteq> None \<Longrightarrow> class_of (rq_method req) \<noteq> class_safe" using ok by (simp add: req placing_ok_def)
qed

text \<open>What is sent is the built request, with the credential put in when there is one.\<close>

lemma rest_call_sent:
  assumes "rest_call L W u tool args = (sent, res)" "req \<in> set sent"
  obtains rt req0 where "map_of (ru_routes u) tool = Some rt" "build_request L (ru_base u) rt args = Inr req0" "sent = [req]"
    "ru_secret u = [] \<and> req = req0 \<or>
     (\<exists>v. ru_secret u \<noteq> [] \<and> cw_resolve W (ru_secret u) = Some v \<and> v \<noteq> [] \<and> req = inject_credential (ru_auth_kind u) (ru_auth_name u) v req0)"
  using assms by (auto simp: rest_call_def Let_def split: option.splits sum.splits if_splits)

lemma inject_credential_simps [simp]:
  "rq_method (inject_credential kind name v req) = rq_method req" "rq_scheme (inject_credential kind name v req) = rq_scheme req"
  "rq_host (inject_credential kind name v req) = rq_host req" "rq_path (inject_credential kind name v req) = rq_path req"
  "rq_body (inject_credential kind name v req) = rq_body req"
  by (simp_all add: inject_credential_def)


section \<open>The credential\<close>

definition slot_headers :: "string \<Rightarrow> rest_request \<Rightarrow> (string \<times> string list) list" where
  "slot_headers slot req = filter (\<lambda>e. fold_header (fst e) = slot) (rq_headers req)"

definition slot_query :: "string \<Rightarrow> rest_request \<Rightarrow> (string \<times> string list) list" where
  "slot_query slot req = filter (\<lambda>e. map lower (fst e) = slot) (rq_query req)"

text \<open>
  What a request with the credential \<open>v\<close> carries in the class of names a server may fold onto the credential's. For a header credential the adapter's own content type is in that
  class when the entry names its credential after it.
\<close>

definition slot_filled :: "string \<Rightarrow> string \<Rightarrow> string \<Rightarrow> rest_request \<Rightarrow> bool" where
  "slot_filled kind name v req =
     (if kind = auth_bearer then slot_headers authorization_header req = [(''Authorization'', [bearer_prefix @ v])]
      else if kind = auth_header then
        (canonical_header name, [v]) \<in> set (slot_headers (fold_header name) req)
        \<and> list_all (\<lambda>e. e = (canonical_header name, [v]) \<or> e = (content_type_header, [''application/json'']))
            (slot_headers (fold_header name) req)
      else kind = auth_query \<and> slot_query (map lower name) req = [(name, [v])])"

definition control_only :: "string \<Rightarrow> rest_request \<Rightarrow> bool" where
  "control_only slot req =
     list_all (\<lambda>e. is_control_header (fst e) \<longrightarrow> fst e = cookie_header \<or> slot \<noteq> [] \<and> fold_header (fst e) = slot) (rq_headers req)"

lemma adapter_headers:
  "fold_header cookie_header = ''cookie''" "fold_header content_type_header = ''content-type''" "\<not> is_control_header content_type_header"
  "canonical_header ''Authorization'' = ''Authorization''" "fold_header ''Authorization'' = authorization_header" "authorization_header \<noteq> []"
  "authorization_header \<noteq> ''cookie''" "authorization_header \<noteq> ''content-type''"
  by code_simp+

lemma put_filter:
  "list_all (\<lambda>e. fst e \<noteq> k \<longrightarrow> \<not> P e) kvs \<Longrightarrow> P (k, v) \<Longrightarrow> filter P (put k v kvs) = [(k, v)]"
  by (induction kvs) (auto simp: put_def)

lemma reserved_slots_cases:
  assumes "reserved_slots kind name = Inr (hs, qs)"
  shows "kind = auth_none \<and> hs = [] \<and> qs = []
    \<or> kind = auth_bearer \<and> hs = authorization_header \<and> qs = []
    \<or> kind = auth_header \<and> hs = fold_header name \<and> hs \<noteq> [] \<and> hs \<noteq> ''cookie'' \<and> qs = []
    \<or> kind = auth_query \<and> hs = [] \<and> qs = map lower name \<and> qs \<noteq> []"
proof -
  have "is_control_header name" if "fold_header name = ''cookie''" using that by (simp add: is_control_header_def control_headers_def)
  with assms adapter_headers(7) show ?thesis
    by (auto simp: reserved_slots_def valid_token_def fold_header_def split: if_splits)
qed

lemma auth_kinds: "auth_none \<noteq> auth_bearer" "auth_none \<noteq> auth_header" "auth_none \<noteq> auth_query" "auth_bearer \<noteq> auth_header"
    "auth_bearer \<noteq> auth_query" "auth_header \<noteq> auth_query"
  by code_simp+

lemma inject_fills_slot:
  assumes "reserved_slots kind name = Inr (hs, qs)" "kind \<noteq> auth_none"
    and h: "\<And>h vs. (h, vs) \<in> set (rq_headers req) \<Longrightarrow>
      header_free hs h \<or> h = cookie_header \<or> (h, vs) = (content_type_header, [''application/json''])"
    and q: "\<And>q vs. (q, vs) \<in> set (rq_query req) \<Longrightarrow> query_free qs q"
  shows "slot_filled kind name v (inject_credential kind name v req) \<and> control_only hs (inject_credential kind name v req)"
proof -
  consider "kind = auth_bearer" "hs = authorization_header" | "kind = auth_header" "hs = fold_header name" "hs \<noteq> []" "hs \<noteq> ''cookie''"
    | "kind = auth_query" "hs = []" "qs = map lower name" "qs \<noteq> []"
    using reserved_slots_cases [OF assms(1)] assms(2) by blast
  then show ?thesis
  proof cases
    case 1
    have "list_all (\<lambda>e. fst e \<noteq> ''Authorization'' \<longrightarrow> fold_header (fst e) \<noteq> authorization_header) (rq_headers req)"
      using h 1(2) adapter_headers(1,2,6,7,8) by (fastforce simp: list_all_iff header_free_def)
    then have "slot_headers authorization_header (inject_credential kind name v req) = [(''Authorization'', [bearer_prefix @ v])]"
      using 1(1) adapter_headers(4,5) by (simp add: slot_headers_def inject_credential_def put_filter)
    moreover have "control_only hs (inject_credential kind name v req)"
      using h 1 adapter_headers(3-6) by (fastforce simp: control_only_def list_all_iff inject_credential_def put_entry header_free_def)
    ultimately show ?thesis using 1(1) by (simp add: slot_filled_def)
  next
    case 2
    then have i: "inject_credential kind name v req = req\<lparr>rq_headers := put (canonical_header name) [v] (rq_headers req)\<rparr>"
      using auth_kinds by (simp add: inject_credential_def)
    have other: "e = (content_type_header, [''application/json''])"
      if "e \<in> set (rq_headers req)" "fst e \<noteq> canonical_header name" "fold_header (fst e) = fold_header name" for e
      using h [of "fst e" "snd e"] that 2 adapter_headers(1) by (auto simp: header_free_def)
    have "kind \<noteq> auth_bearer" using 2(1) auth_kinds(4) by simp
    then have "slot_filled kind name v (inject_credential kind name v req)"
      unfolding slot_filled_def slot_headers_def i using 2(1) other by (auto simp: list_all_iff put_entry)
    moreover have "control_only hs (inject_credential kind name v req)"
      unfolding control_only_def i using h 2(2,3) adapter_headers(3) by (fastforce simp: list_all_iff put_entry header_free_def)
    ultimately show ?thesis by blast
  next
    case 3
    then have i: "inject_credential kind name v req = req\<lparr>rq_query := put name [v] (rq_query req)\<rparr>"
      using auth_kinds by (simp add: inject_credential_def)
    have "list_all (\<lambda>e. fst e \<noteq> name \<longrightarrow> map lower (fst e) \<noteq> map lower name) (rq_query req)"
      using q 3 by (fastforce simp: list_all_iff query_free_def)
    then have "slot_filled kind name v (inject_credential kind name v req)"
      unfolding slot_filled_def slot_query_def i using 3(1) auth_kinds(5,6) by (auto simp: put_filter)
    moreover have "control_only hs (inject_credential kind name v req)"
      unfolding control_only_def i using h adapter_headers(3) by (fastforce simp: list_all_iff header_free_def)
    ultimately show ?thesis by blast
  qed
qed

text \<open>
  C7 (safety): in a request of a keyed REST backend the credential's slot holds what the vault answered for this call and nothing a caller supplied, also under
  the folding of names (case, and \<open>_\<close> for \<open>-\<close>) that some servers do; a keyless backend's request has no slot to fill. Whatever the arguments, the only control headers of a request are
  the credential's own and the cookies.
\<close>
theorem rest_credential_slot:
  assumes "dial_rest L vault mx spec env = Inr u" "json_stable (rl_ops L)"
    and "rest_call L W u tool args = (sent, res)" "req \<in> set sent"
  shows "\<exists>hs qs. reserved_slots (up_auth_kind spec) (up_auth_name spec) = Inr (hs, qs) \<and> control_only hs req
    \<and> (if up_auth_kind spec = auth_none then hs = [] \<and> qs = []
       else \<exists>v. cw_resolve W (ru_secret u) = Some v \<and> v \<noteq> [] \<and> slot_filled (up_auth_kind spec) (up_auth_name spec) v req)"
proof -
  note d = dial_rest_ok [OF assms(1,2)]
  obtain hs qs where slots: "reserved_slots (up_auth_kind spec) (up_auth_name spec) = Inr (hs, qs)"
    and ops: "list_all (op_ok (rl_ops L) hs qs) (ru_ops u)" using d(1) by blast
  obtain rt req0 where r: "map_of (ru_routes u) tool = Some rt" "build_request L (ru_base u) rt args = Inr req0" "sent = [req]"
    "ru_secret u = [] \<and> req = req0 \<or>
     (\<exists>v. ru_secret u \<noteq> [] \<and> cw_resolve W (ru_secret u) = Some v \<and> v \<noteq> [] \<and> req = inject_credential (ru_auth_kind u) (ru_auth_name u) v req0)"
    by (rule rest_call_sent [OF assms(3,4)])
  note rt = rest_routes_of_ok [OF d(2) r(1)]
  then have "op_ok (rl_ops L) hs qs (rr_op rt)" using ops by (auto simp: list_all_iff)
  note b = build_request_ok [OF r(2) _ this d(6)]
  have h: "\<And>h vs. (h, vs) \<in> set (rq_headers req0) \<Longrightarrow>
      header_free hs h \<or> h = cookie_header \<or> (h, vs) = (content_type_header, [''application/json''])"
    and q: "\<And>q vs. (q, vs) \<in> set (rq_query req0) \<Longrightarrow> query_free qs q" using b(6,7) rt by blast+
  show ?thesis
  proof (cases "up_auth_kind spec = auth_none")
    case True
    then have "req = req0" using r(4) d(7) by blast
    moreover have "control_only hs req0" using h adapter_headers(3) by (fastforce simp: control_only_def list_all_iff header_free_def)
    ultimately show ?thesis using slots True reserved_slots_cases [OF slots] auth_kinds by auto
  next
    case False
    then obtain v where "cw_resolve W (ru_secret u) = Some v" "v \<noteq> []" "req = inject_credential (up_auth_kind spec) (up_auth_name spec) v req0"
      using r(4) d(3,4,7) by auto
    with inject_fills_slot [OF slots False h q, where v = v] slots False show ?thesis by auto
  qed
qed

section \<open>Redirects\<close>

lemma follow_ok:
  "follow L b next_url via = (sent, e) \<Longrightarrow> list_all (\<lambda>t. origin_of L t = bs_origin b) via \<Longrightarrow> length via \<le> max_redirects \<Longrightarrow>
   list_all (\<lambda>t. origin_of L t = bs_origin b) sent \<and> length sent \<le> max_redirects \<and> take (length via) sent = via"
proof (induction L b next_url via rule: follow.induct)
  case (1 L b next_url via)
  show ?case
  proof (cases "\<exists>target. next_url via = Some target \<and> check_redirect L b target via = FollowRedirect")
    case False
    then have "sent = via" using 1(2) by (subst (asm) follow.simps) (auto split: option.splits redirect_verdict.splits)
    with 1(3,4) show ?thesis by simp
  next
    case True
    then obtain target where t: "next_url via = Some target" "check_redirect L b target via = FollowRedirect" by blast
    then have "follow L b next_url (via @ [target]) = (sent, e)" using 1(2) by (subst (asm) follow.simps) simp
    moreover have "origin_of L target = bs_origin b" "length via < max_redirects" using t(2) by (auto simp: check_redirect_def split: if_splits)
    ultimately have "list_all (\<lambda>t. origin_of L t = bs_origin b) sent \<and> length sent \<le> max_redirects
        \<and> take (length (via @ [target])) sent = via @ [target]"
      using 1(1) [OF t] 1(3) by simp
    note rest = this
    have "take (length via) sent = take (length via) (take (length (via @ [target])) sent)" by (simp add: min_def)
    also have "\<dots> = via" using rest by simp
    finally show ?thesis using rest by simp
  qed
qed

text \<open>
  C30 (termination): whatever a backend answers, a call ends after at most three requests, all of them to the origin that was signed; the first is the one that was built.
\<close>
theorem redirects_pinned:
  assumes "origin_of L target = bs_origin b"
  shows "\<exists>sent e. follow L b next_url [target] = (sent, e) \<and> hd sent = target \<and> 1 \<le> length sent \<and> length sent \<le> 3
    \<and> list_all (\<lambda>t. origin_of L t = bs_origin b) sent"
proof -
  obtain sent e where f: "follow L b next_url [target] = (sent, e)" by fastforce
  then have "list_all (\<lambda>t. origin_of L t = bs_origin b) sent" "length sent \<le> 3" "take 1 sent = [target]"
    using follow_ok [OF f] assms by (simp_all add: max_redirects_def)
  then show ?thesis using f by (cases sent) auto
qed

section \<open>Bodies\<close>

text \<open>
  (bounds) for every limit but the largest 64-bit integer, reading a body gives the whole body or a refusal, never a part of it: too large exactly when more than the
  limit arrives.
\<close>
theorem read_body_exact:
  assumes "0 \<le> limit" "limit < 2 ^ 63 - 1"
  shows "read_body resp limit =
    (if int (length (rs_body resp)) > limit then Inl (BodyTooLarge limit)
     else case rs_body_error resp of Some e \<Rightarrow> Inl (BodyRead e) | None \<Rightarrow> Inr (rs_body resp))"
proof -
  have w: "wrap64 (limit + 1) = limit + 1" using assms by (simp add: wrap64_def)
  show ?thesis
  proof (cases "int (length (rs_body resp)) > limit")
    case True
    then have "int (length (take (nat (limit + 1)) (rs_body resp))) = limit + 1" using assms(1) by (auto simp: min_def)
    with True show ?thesis by (simp add: read_body_def w)
  next
    case False
    then have "take (nat (limit + 1)) (rs_body resp) = rs_body resp" by simp
    with False show ?thesis by (auto simp: read_body_def w Let_def)
  qed
qed

section \<open>What comes back\<close>

lemma serialize_clean:
  assumes "serialize L resp body [(n, v)] = Inr r" "v \<noteq> []"
  shows "(\<exists>doc. rl_block L doc = Some (cr_content r) \<and> cleaned (json_renderings_of (rl_codec L) v) doc)
    \<and> cleaned (json_renderings_of (rl_codec L) v) (cr_structured r)
    \<and> (cr_is_error r \<longleftrightarrow> rs_status resp < 200 \<or> rs_status resp > 299)"
proof -
  obtain doc0 doc st0 st h h' where "scrub_json (rl_codec L) doc0 [(n, v)] [] = (Inr doc, h)"
    "scrub_json (rl_codec L) st0 [(n, v)] [] = (Inr st, h')" "rl_block L doc = Some (cr_content r)" "cr_structured r = st"
    "cr_is_error r \<longleftrightarrow> rs_status resp < 200 \<or> rs_status resp > 299"
    using assms(1) by (auto simp: serialize_def Let_def split: sum.splits prod.splits option.splits)
  with scrub_json_clean [where n = n and v = v] assms(2) show ?thesis by fastforce
qed

lemma scrub_call_error_clean: "cleaned (renderings_of (rl_codec L) v) (scrub_call_error L op [(n, v)] err)"
proof -
  define doc where "doc = (case ce_url_inner err of Some inner \<Rightarrow> op_method op @ '' '' @ op_path op @ '': '' @ inner | None \<Rightarrow> ce_text err)"
  obtain out hits where m: "mask_spans doc [renderings_of (rl_codec L) v] = (out, hits)" by fastforce
  then have "scrub_call_error L op [(n, v)] err = out" by (simp add: scrub_call_error_def mask_credentials_def doc_def)
  with masked_pieces_clean [OF m] show ?thesis by (auto simp: cleaned_def)
qed

text \<open>
  C31 (safety): what a keyed REST backend's call gives back has no rendering of the credential that this call injected: not in the text of the result, not in its structured content, and not
  in the text of a failed exchange, whatever the backend echoed. A result is an error result exactly when the status is outside 200 to 299.
\<close>
theorem rest_answer_clean:
  assumes "rest_call L W u tool args = ([req], res)" "cw_resolve W (ru_secret u) = Some v" "ru_secret u \<noteq> []"
  shows "case res of
      Inr r \<Rightarrow> (\<exists>doc. rl_block L doc = Some (cr_content r) \<and> cleaned (json_renderings_of (rl_codec L) v) doc)
        \<and> cleaned (json_renderings_of (rl_codec L) v) (cr_structured r)
        \<and> (\<exists>resp. cw_send W req = Inr resp \<and> (cr_is_error r \<longleftrightarrow> rs_status resp < 200 \<or> rs_status resp > 299))
    | Inl (RestExchange msg) \<Rightarrow> cleaned (renderings_of (rl_codec L) v) msg
    | Inl (RestReadBody msg) \<Rightarrow> cleaned (renderings_of (rl_codec L) v) msg
    | Inl (RestUnknownTool t) \<Rightarrow> False
    | Inl e \<Rightarrow> True"
proof -
  obtain op where v: "v \<noteq> []" and res: "res = exchange L W u op [(ru_secret u, v)] req"
    using assms by (auto simp: rest_call_def Let_def split: option.splits sum.splits if_splits)
  show ?thesis
  proof (cases "cw_send W req")
    case (Inl err)
    then show ?thesis using scrub_call_error_clean by (simp add: res exchange_def)
  next
    case (Inr resp)
    show ?thesis
    proof (cases "read_body resp (ru_max_body u)")
      case (Inl e)
      then show ?thesis using Inr scrub_call_error_clean by (cases e) (simp_all add: res exchange_def)
    next
      case body: (Inr body)
      then have r: "res = serialize L resp body [(ru_secret u, v)]" using Inr by (simp add: res exchange_def)
      show ?thesis
      proof (cases res)
        case (Inl e)
        then have "e \<in> range RestBodyJson \<union> {RestUnrepresentable, RestUnscrubbable}"
          using r by (auto simp: serialize_def response_body_def Let_def split: sum.splits prod.splits option.splits if_splits)
        with Inl show ?thesis by auto
      next
        case rr: (Inr r')
        with r have "serialize L resp body [(ru_secret u, v)] = Inr r'" by simp
        from serialize_clean [OF this v] rr Inr show ?thesis by auto
      qed
    qed
  qed
qed

end
