(* ===== verification/Rest_Sample.thy ===== *)
theory Rest_Sample
  imports Rest_Safety
begin

text \<open>A REST backend with one operation and a header credential, and one call to it: the properties of \<open>Rest_Safety\<close> applied to it.\<close>

definition sample_schema :: json where
  "sample_schema = JObject [(''type'', JString ''object''),
     (''properties'', JObject [(''header_x-trace'', JObject []), (''path_id'', JObject []), (''query_q'', JObject [])])]"

definition sample_operation :: operation where
  "sample_operation = \<lparr>op_name = ''get_item'', op_description = ''an item'', op_method = ''GET'', op_path = ''/items/{id}'',
     op_input = ''schema'', op_output = []\<rparr>"

definition sample_op_lib :: op_lib where
  "sample_op_lib = \<lparr>ol_raws = (\<lambda>_. Some [''op'']), ol_operation = (\<lambda>_. Some sample_operation),
     ol_json = (\<lambda>raw. if raw = ''schema'' then Some (sample_schema, False) else None),
     ol_marshal = (\<lambda>v. if v = sample_schema then Some ''schema'' else None)\<rparr>"

definition sample_url :: rest_url where
  "sample_url = \<lparr>ul_scheme = ''https'', ul_opaque = [], ul_user = False, ul_host = ''API.example'', ul_escaped_path = ''/v1/'',
     ul_raw_query = [], ul_force_query = False, ul_fragment = [], ul_raw_fragment = []\<rparr>"

definition sample_args :: "(string \<times> string) list" where
  "sample_args = [(''path_id'', [CHR 0x22] @ ''a b'' @ [CHR 0x22]), (''header_x-trace'', ''7'')]"

definition sample_rest_lib :: rest_lib where
  "sample_rest_lib = \<lparr>rl_ops = sample_op_lib, rl_codec = sample_codec, rl_parse_url = (\<lambda>_. Some sample_url), rl_to_lower = map lower,
     rl_parse_addr = (\<lambda>_. None), rl_fields = (\<lambda>_. Some (sample_args, False)), rl_string = (\<lambda>s. Some (butlast (tl s))),
     rl_is_bool = (\<lambda>_. True), rl_number = Some, rl_items = (\<lambda>_. None), rl_new_request = (\<lambda>_ _ _ _. True),
     rl_media_type = (\<lambda>_. None), rl_utf8 = (\<lambda>_. True), rl_base64 = id, rl_envelope = (\<lambda>e. Some (ev_body e)), rl_block = Some\<rparr>"

definition sample_spec :: upstream where
  "sample_spec = sample_upstream\<lparr>up_transport := ''http'', up_url := ''https://API.example/v1/'', up_auth_kind := ''header'',
     up_auth_name := ''X-API-Key'', up_operations := ''ops''\<rparr>"

definition sample_base :: base where
  "sample_base = \<lparr>bs_scheme = ''https'', bs_host = ''api.example'', bs_origin = ''https://api.example:443'', bs_path = ''/v1'',
     bs_hostname = ''api.example''\<rparr>"

definition sample_rest :: rest_upstream where
  "sample_rest = \<lparr>ru_name = up_name sample_spec, ru_base = sample_base, ru_auth_kind = ''header'', ru_auth_name = ''X-API-Key'',
     ru_secret = ''API_KEY'', ru_ops = [sample_operation],
     ru_routes = [(''get_item'', \<lparr>rr_op = sample_operation, rr_props = [''header_x-trace'', ''path_id'', ''query_q'']\<rparr>)], ru_max_body = 1000\<rparr>"

definition sample_response :: rest_response where
  "sample_response = \<lparr>rs_status = 401, rs_headers = [], rs_body = ''bad key hunter2'', rs_body_error = None\<rparr>"

definition sample_world :: call_world where
  "sample_world = \<lparr>cw_resolve = (\<lambda>_. Some ''hunter2''), cw_send = (\<lambda>_. Inr sample_response), cw_refusal = (\<lambda>_ _. [])\<rparr>"

definition sample_request :: rest_request where
  "sample_request = \<lparr>rq_method = ''GET'', rq_scheme = ''https'', rq_host = ''api.example'', rq_path = ''/v1/items/a%20b'', rq_query = [],
     rq_headers = [(''X-Trace'', [''7'']), (''X-Api-Key'', [''hunter2''])], rq_body = None\<rparr>"

definition sample_answer :: call_result where
  "sample_answer = \<lparr>cr_content = ''bad key [redacted]'', cr_structured = [], cr_is_error = True\<rparr>"

lemma sample_stable: "json_stable sample_op_lib"
  by (simp add: json_stable_def sample_op_lib_def)

lemma sample_dialled:
  "dial_rest sample_rest_lib True 1000 sample_spec [(''API_KEY'', ''hunter2'')] = Inr sample_rest"
  by code_simp

lemma sample_called:
  "rest_call sample_rest_lib sample_world sample_rest ''get_item'' ''{..}'' = ([sample_request], Inr sample_answer)"
  by code_simp

lemma sample_lib_stable: "json_stable (rl_ops sample_rest_lib)"
  by (simp add: sample_rest_lib_def sample_stable)


theorem rest_credential_slot_witness:
  "slot_headers ''x-api-key'' sample_request = [(''X-Api-Key'', [''hunter2''])] \<and> control_only ''x-api-key'' sample_request"
proof -
  have "reserved_slots (up_auth_kind sample_spec) (up_auth_name sample_spec) = Inr (''x-api-key'', [])" by code_simp
  then have "control_only ''x-api-key'' sample_request"
    using rest_credential_slot [OF sample_dialled sample_lib_stable sample_called, of sample_request] by auto
  moreover have "slot_headers ''x-api-key'' sample_request = [(''X-Api-Key'', [''hunter2''])]" by code_simp
  ultimately show ?thesis by blast
qed

theorem redirects_pinned_witness:
  "\<exists>sent e. follow sample_rest_lib sample_base (\<lambda>_. Some sample_url) [sample_url] = (sent, e) \<and> 1 \<le> length sent \<and> length sent \<le> 3"
proof -
  have "origin_of sample_rest_lib sample_url = bs_origin sample_base" by code_simp
  from redirects_pinned [OF this, of "\<lambda>_. Some sample_url"] show ?thesis by blast
qed

theorem read_body_exact_witness:
  "read_body sample_response 1000 = Inr ''bad key hunter2'' \<and> read_body sample_response 5 = Inl (BodyTooLarge 5)"
  using read_body_exact [of 1000 sample_response] read_body_exact [of 5 sample_response] by (simp add: sample_response_def)

theorem rest_answer_clean_witness:
  "cleaned (json_renderings_of sample_codec ''hunter2'') ''bad key [redacted]'' \<and> cr_is_error sample_answer"
proof -
  have "cw_resolve sample_world (ru_secret sample_rest) = Some ''hunter2''" "ru_secret sample_rest \<noteq> []" by code_simp+
  from rest_answer_clean [OF sample_called this] show ?thesis
    by (simp add: sample_rest_lib_def sample_answer_def)
qed

end
