(* ===== verification/Container.thy ===== *)
theory Container
  imports Complex_Main Registry Visible "HOL-Library.Word" "HOL-Library.Multiset"
begin

text \<open>
  Model of \<open>internal/gateway/oci/invocation.go\<close>: the command line a container is started with, the rules its parts are held to, and the name it gets.
  The floating-point \<open>CPUs\<close> is its exact value as a rational; how it is printed and the random bytes of a container's name are arguments.
\<close>

unbundle bit_operations_syntax

section \<open>Numbers\<close>

definition is_dec :: "char \<Rightarrow> bool" where
  "is_dec c = (CHR ''0'' \<le> c \<and> c \<le> CHR ''9'')"

definition dec_value :: "string \<Rightarrow> nat" where
  "dec_value s = foldl (\<lambda>n c. 10 * n + (of_char c - 48)) 0 s"

text \<open>\<open>[1-9][0-9]{0,k}\<close>.\<close>

definition positive_decimal :: "nat \<Rightarrow> string \<Rightarrow> bool" where
  "positive_decimal k s =
     (case s of [] \<Rightarrow> False | c # cs \<Rightarrow> is_dec c \<and> c \<noteq> CHR ''0'' \<and> length cs \<le> k \<and> list_all is_dec cs)"

section \<open>Limits\<close>

datatype cpus = CpuNaN | CpuInf | Cpu rat

record limits =
  lm_user :: string
  lm_pids :: int
  lm_memory :: string
  lm_cpus :: cpus

definition default_limits :: limits where
  "default_limits = \<lparr>lm_user = ''65534:65534'', lm_pids = 256, lm_memory = ''512m'', lm_cpus = Cpu 1\<rparr>"

definition with_defaults :: "limits \<Rightarrow> limits" where
  "with_defaults l =
     \<lparr>lm_user = (if lm_user l = [] then lm_user default_limits else lm_user l),
      lm_pids = (if lm_pids l = 0 then lm_pids default_limits else lm_pids l),
      lm_memory = (if lm_memory l = [] then lm_memory default_limits else lm_memory l),
      lm_cpus = (if lm_cpus l = Cpu 0 then lm_cpus default_limits else lm_cpus l)\<rparr>"

definition max_id :: nat where "max_id = 2 ^ 32 - 2"
definition min_memory :: nat where "min_memory = 6 * 2 ^ 20"
definition max_pids :: int where "max_pids = 2 ^ 22"

text \<open>The double nearest to 0.01.\<close>

definition min_cpus :: rat where "min_cpus = 5764607523034235 / 2 ^ 59"

definition numeric_user :: "string \<Rightarrow> (string \<times> string) option" where
  "numeric_user s =
     (case cut_at (CHR '':'') s of
        None \<Rightarrow> None
      | Some (u, g) \<Rightarrow> if positive_decimal 9 u \<and> positive_decimal 9 g then Some (u, g) else None)"

definition memory_unit :: "char \<Rightarrow> nat option" where
  "memory_unit c =
     (if c = CHR ''b'' then Some 0 else if c = CHR ''k'' then Some 10 else if c = CHR ''m'' then Some 20
      else if c = CHR ''g'' then Some 30 else None)"

definition memory_bytes :: "string \<Rightarrow> 64 word option" where
  "memory_bytes s =
     (if s = [] \<or> \<not> positive_decimal 12 (butlast s) then None
      else case memory_unit (last s) of
        None \<Rightarrow> None
      | Some shift \<Rightarrow>
          (let n = (of_nat (dec_value (butlast s)) :: 64 word)
           in if n > drop_bit shift (- 1) then None else Some (push_bit shift n)))"

datatype limit_problem = LimitUser string | LimitUserRange string | LimitPids int | LimitMemory string | LimitCpus

definition validate_limits :: "limits \<Rightarrow> limit_problem option" where
  "validate_limits l =
     (case numeric_user (lm_user l) of
        None \<Rightarrow> Some (LimitUser (lm_user l))
      | Some (u, g) \<Rightarrow>
          if dec_value u > max_id \<or> dec_value g > max_id then Some (LimitUserRange (lm_user l))
          else if lm_pids l \<le> 0 \<or> lm_pids l > max_pids then Some (LimitPids (lm_pids l))
          else if (case memory_bytes (lm_memory l) of None \<Rightarrow> True | Some b \<Rightarrow> unat b < min_memory) then Some (LimitMemory (lm_memory l))
          else case lm_cpus l of Cpu c \<Rightarrow> if c < min_cpus then Some LimitCpus else None | _ \<Rightarrow> Some LimitCpus)"

definition limit_args :: "(cpus \<Rightarrow> string) \<Rightarrow> limits \<Rightarrow> string list" where
  "limit_args fmt l =
     [''--user='' @ lm_user l, ''--pids-limit='' @ itoa (nat (lm_pids l)), ''--memory='' @ lm_memory l, ''--cpus='' @ fmt (lm_cpus l)]"

section \<open>The network\<close>

definition mandatory_wrapper :: "string list" where
  "mandatory_wrapper =
     [''--rm'', ''-i'', ''--log-driver=none'', ''--pull=never'', ''--read-only'', ''--read-only-tmpfs=false'', ''--tmpfs=/tmp'',
      ''--cap-drop=all'', ''--security-opt=no-new-privileges'']"

definition network_none :: string where "network_none = ''none''"

datatype network_problem =
    WrapperFlag string | NetworkTwice | NetworkRunsOn string | NetworkFlag string | NetworkNotAllowed string

definition flag_of :: "string \<Rightarrow> string" where
  "flag_of arg = takeWhile (\<lambda>c. c \<noteq> CHR ''='') arg"

definition network_head :: "string \<Rightarrow> string" where
  "network_head n = takeWhile (\<lambda>c. c \<notin> set '':/='') n"

definition network_value :: "string \<Rightarrow> string option" where
  "network_value arg =
     (case cut_prefix ''--network='' arg of Some v \<Rightarrow> Some v | None \<Rightarrow> cut_prefix ''--net='' arg)"

definition network_char :: "char \<Rightarrow> bool" where
  "network_char c = (CHR ''a'' \<le> c \<and> c \<le> CHR ''z'' \<or> is_dec c)"

definition network_name :: "string \<Rightarrow> bool" where
  "network_name n =
     (case n of [] \<Rightarrow> False
      | c # cs \<Rightarrow> network_char c \<and> length cs \<le> 62 \<and> list_all (\<lambda>d. network_char d \<or> d \<in> set ''_.-'') cs)"

definition refused_network_modes :: "string list" where
  "refused_network_modes = [''host'', ''private'']"

definition allowed_network :: "string \<Rightarrow> network_problem option" where
  "allowed_network n =
     (if n \<in> set refused_network_modes \<or> \<not> network_name n then Some (NetworkNotAllowed (network_head n)) else None)"

fun declared_network :: "string option \<Rightarrow> string list \<Rightarrow> network_problem + string option" where
  "declared_network net [] = Inr net"
| "declared_network net (arg # args) =
     (if arg \<in> set mandatory_wrapper then declared_network net args
      else case network_value arg of
        None \<Rightarrow> Inl (WrapperFlag (flag_of arg))
      | Some v \<Rightarrow> if net \<noteq> None then Inl NetworkTwice else declared_network (Some v) args)"

definition option_break :: "char \<Rightarrow> bool" where
  "option_break c = (c \<in> {CHR '' '', CHR 0x09, CHR 0x0D, CHR 0x0A, CHR 0x00})"

definition wrapper_network :: "string list \<Rightarrow> network_problem + string" where
  "wrapper_network args =
     (case declared_network None args of
        Inl e \<Rightarrow> Inl e
      | Inr net \<Rightarrow>
          (let n = (case net of None \<Rightarrow> [] | Some v \<Rightarrow> v)
           in if trim_space n = [] then Inr network_none
              else if list_ex option_break n then Inl (NetworkRunsOn (takeWhile (\<lambda>c. \<not> option_break c) n))
              else if has_prefix n ''-'' then Inl (NetworkFlag (network_head n))
              else case allowed_network n of Some e \<Rightarrow> Inl e | None \<Rightarrow> Inr n))"

definition validate_wrapper_args :: "string list \<Rightarrow> network_problem option" where
  "validate_wrapper_args args = (case wrapper_network args of Inl e \<Rightarrow> Some e | Inr _ \<Rightarrow> None)"

section \<open>Environment names\<close>

definition runtime_directing_env_names :: "string list" where
  "runtime_directing_env_names = [''HOME'', ''PATH'', ''TMPDIR'', ''TMP'', ''TEMP'']"

definition runtime_directing_env_prefixes :: "string list" where
  "runtime_directing_env_prefixes = [''XDG_'', ''CONTAINERS_'', ''_CONTAINERS_'', ''CONTAINER_'', ''PODMAN_'', ''STORAGE_'']"

definition has_name_or_prefix :: "string \<Rightarrow> string list \<Rightarrow> string list \<Rightarrow> bool" where
  "has_name_or_prefix name names prefixes = (name \<in> set names \<or> list_ex (has_prefix name) prefixes)"

definition is_runtime_directing :: "string \<Rightarrow> bool" where
  "is_runtime_directing name = has_name_or_prefix name runtime_directing_env_names runtime_directing_env_prefixes"

datatype env_name_problem = EnvNameEmpty | EnvNameChar string | EnvNameOption string | EnvNameStar string | EnvNameCode string | EnvNameRuntime string

definition validate_env_name :: "string \<Rightarrow> env_name_problem option" where
  "validate_env_name name =
     (if name = [] then Some EnvNameEmpty
      else if list_ex (\<lambda>c. c = CHR ''='' \<or> option_break c) name
           then Some (EnvNameChar (takeWhile (\<lambda>c. \<not> (c = CHR ''='' \<or> option_break c)) name))
      else if has_prefix name ''-'' then Some (EnvNameOption name)
      else if CHR ''*'' \<in> set name then Some (EnvNameStar name)
      else if is_code_loading_env_name name then Some (EnvNameCode name)
      else if is_runtime_directing name then Some (EnvNameRuntime name)
      else None)"

fun validate_env_var_names :: "string list \<Rightarrow> env_name_problem option" where
  "validate_env_var_names [] = None"
| "validate_env_var_names (name # names) =
     (case validate_env_name name of Some e \<Rightarrow> Some e | None \<Rightarrow> validate_env_var_names names)"

text \<open>Of several bad names the source reports whichever its map yields first; here it is the first of the list.\<close>

definition env_names :: "(string \<times> string) list \<Rightarrow> env_name_problem + string list" where
  "env_names env =
     (case validate_env_var_names (map fst env) of Some e \<Rightarrow> Inl e | None \<Rightarrow> Inr (sort (map fst env)))"

section \<open>The invocation\<close>

definition name_char :: "char \<Rightarrow> bool" where
  "name_char c = (is_alnum c \<or> c \<in> set ''_.-'')"

definition safe_container_name :: "string \<Rightarrow> bool" where
  "safe_container_name s = (case s of [] \<Rightarrow> False | c # cs \<Rightarrow> is_alnum c \<and> list_all name_char cs)"

record plan_options =
  po_podman :: string
  po_name :: string
  po_limits :: limits

record run_plan =
  rp_path :: string
  rp_args :: "string list"
  rp_name :: string
  rp_network :: string

datatype plan_problem =
    PlanName string | PlanImage registry_error | PlanLimits limit_problem | PlanNetwork network_problem | PlanEnv env_name_problem

definition default_podman :: string where "default_podman = ''podman''"

fun env_flags :: "string list \<Rightarrow> string list" where
  "env_flags [] = []"
| "env_flags (name # names) = ''--env'' # name # env_flags names"

text \<open>The image rule of this package is, on purpose, the registry's rule once more.\<close>

definition build_plan ::
  "(cpus \<Rightarrow> string) \<Rightarrow> string list \<Rightarrow> string \<Rightarrow> (string \<times> string) list \<Rightarrow> plan_options \<Rightarrow> plan_problem + run_plan" where
  "build_plan fmt args img env opts =
     (if \<not> safe_container_name (po_name opts) then Inl (PlanName (po_name opts))
      else case validate_image img of
        Some e \<Rightarrow> Inl (PlanImage e)
      | None \<Rightarrow>
          (case validate_limits (po_limits opts) of
             Some e \<Rightarrow> Inl (PlanLimits e)
           | None \<Rightarrow>
               (case wrapper_network args of
                  Inl e \<Rightarrow> Inl (PlanNetwork e)
                | Inr network \<Rightarrow>
                    (case env_names env of
                       Inl e \<Rightarrow> Inl (PlanEnv e)
                     | Inr names \<Rightarrow>
                         Inr \<lparr>rp_path = (if po_podman opts = [] then default_podman else po_podman opts),
                              rp_args = [''run''] @ mandatory_wrapper @ limit_args fmt (po_limits opts) @ [''--name'', po_name opts]
                                @ [''--network='' @ network] @ env_flags names @ [img],
                              rp_name = po_name opts, rp_network = network\<rparr>))))"

definition sweep_args :: "string \<Rightarrow> string list" where
  "sweep_args name = [''rm'', ''--force'', ''--ignore'', ''--time=0'', name]"

section \<open>Names of containers\<close>

definition container_name_prefix :: string where "container_name_prefix = ''mcp-gw''"

function sanitize_runes :: "string \<Rightarrow> string" where
  "sanitize_runes s =
     (case s of
        [] \<Rightarrow> []
      | c # cs \<Rightarrow> (if name_char c then c else CHR ''-'') # sanitize_runes (drop (snd (decode_rune s)) s))"
  by pat_completeness auto
termination
proof (relation "measure length")
  fix s :: string and c cs assume "s = c # cs"
  then show "(drop (snd (decode_rune s)) s, s) \<in> measure length" using decode_rune_pos [of s] by simp
qed simp

declare sanitize_runes.simps [simp del]

definition sanitize_name_component :: "string \<Rightarrow> string" where
  "sanitize_name_component name =
     (let out = take 40 (sanitize_runes name) in if out = [] then ''upstream'' else out)"

definition new_container_name :: "string option \<Rightarrow> string \<Rightarrow> string option" where
  "new_container_name random upstream =
     map_option (\<lambda>bytes. container_name_prefix @ ''-'' @ sanitize_name_component upstream @ ''-'' @ hex_encode bytes) random"

section \<open>What the rules give\<close>

lemma is_dec_value: "is_dec c \<Longrightarrow> c \<noteq> CHR ''0'' \<Longrightarrow> 0 < (of_char c - 48 :: nat)"
proof -
  assume "is_dec c" "c \<noteq> CHR ''0''"
  then have "CHR ''0'' < c" by (auto simp: is_dec_def intro: le_neq_trans)
  then show ?thesis by (simp add: less_char_def)
qed

lemma dec_value_ge: "foldl (\<lambda>n c. 10 * n + (of_char c - 48)) (k :: nat) s \<ge> k"
proof (induction s arbitrary: k)
  case (Cons c s)
  show ?case using Cons [of "10 * k + (of_char c - 48)"] by simp
qed simp

lemma positive_decimal_pos: "positive_decimal k s \<Longrightarrow> 0 < dec_value s"
proof (cases s)
  case (Cons c cs)
  moreover assume "positive_decimal k s"
  ultimately have "0 < (of_char c - 48 :: nat)" using is_dec_value by (simp add: positive_decimal_def)
  then show ?thesis using dec_value_ge [of "of_char c - 48" cs] by (simp add: dec_value_def Cons)
qed (simp add: positive_decimal_def)

lemma dec_value_bound:
  "list_all is_dec s \<Longrightarrow> foldl (\<lambda>n c. 10 * n + (of_char c - 48)) (k :: nat) s < (k + 1) * 10 ^ length s"
proof (induction s arbitrary: k)
  case (Cons c s)
  then have "is_dec c" "list_all is_dec s" by simp_all
  then have "(of_char c - 48 :: nat) < 10" by (auto simp: is_dec_def less_eq_char_def)
  then have "(10 * k + (of_char c - 48) + 1) * 10 ^ length s \<le> (10 * (k + 1)) * 10 ^ length s" by (intro mult_right_mono) auto
  with Cons.IH [OF \<open>list_all is_dec s\<close>, of "10 * k + (of_char c - 48)"] show ?case by (simp add: algebra_simps)
qed simp

lemma positive_decimal_bound: "positive_decimal k s \<Longrightarrow> dec_value s < 10 ^ (k + 1)"
proof -
  assume "positive_decimal k s"
  then have "list_all is_dec s" and "length s \<le> k + 1" by (auto simp: positive_decimal_def split: list.splits)
  then have "dec_value s < 10 ^ length s" "(10 :: nat) ^ length s \<le> 10 ^ (k + 1)"
    using dec_value_bound [of s 0] by (simp_all add: dec_value_def power_increasing del: power_Suc)
  then show ?thesis by (rule less_le_trans)
qed

lemma memory_unit_bound: "memory_unit c = Some k \<Longrightarrow> k \<le> 30"
  by (auto simp: memory_unit_def split: if_splits)

lemma shifted_fits:
  fixes n :: "64 word"
  assumes "k \<le> 30"
  shows "n \<le> drop_bit k (- 1) \<longleftrightarrow> unat n * 2 ^ k < 2 ^ 64"
proof -
  have "unat (drop_bit k (- 1 :: 64 word)) = (2 ^ 64 - 1) div 2 ^ k" 
    by (simp only: unat_drop_bit_eq unsigned_minus_1_eq_mask) (simp add: drop_bit_eq_div mask_eq_exp_minus_1)
  moreover have "unat n \<le> (2 ^ 64 - 1) div 2 ^ k \<longleftrightarrow> unat n * 2 ^ k \<le> 2 ^ 64 - 1" by (rule less_eq_div_iff_mult_less_eq) simp
  moreover have "m \<le> 2 ^ 64 - 1 \<longleftrightarrow> m < 2 ^ 64" for m :: nat by auto
  ultimately show ?thesis by (simp add: word_le_nat_alt)
qed

definition memory_amount :: "string \<Rightarrow> nat option" where
  "memory_amount s =
     (if s = [] \<or> \<not> positive_decimal 12 (butlast s) then None
      else map_option (\<lambda>shift. dec_value (butlast s) * 2 ^ shift) (memory_unit (last s)))"

lemma memory_bytes_amount:
  "map_option unat (memory_bytes s) = (case memory_amount s of Some n \<Rightarrow> if n < 2 ^ 64 then Some n else None | None \<Rightarrow> None)"
proof (cases "s = [] \<or> \<not> positive_decimal 12 (butlast s)")
  case False
  define d where "d = dec_value (butlast s)"
  have "d < 10 ^ 13" using False positive_decimal_bound [of 12 "butlast s"] by (simp add: d_def)
  then have d: "unat (of_nat d :: 64 word) = d" by (simp add: unat_of_nat)
  show ?thesis
  proof (cases "memory_unit (last s)")
    case (Some k)
    note fits = shifted_fits [OF memory_unit_bound [OF Some], of "of_nat d"]
    have "d * 2 ^ k < 2 ^ 64 \<Longrightarrow> unat (push_bit k (of_nat d :: 64 word)) = d * 2 ^ k"
      by (simp only: unsigned_push_bit_eq d) (simp add: push_bit_eq_mult take_bit_eq_mod)
    with False Some fits show ?thesis
      by (auto simp: memory_bytes_def memory_amount_def Let_def not_le [symmetric] d d_def [symmetric] simp del: of_nat_le_iff)
  qed (simp add: memory_bytes_def memory_amount_def)
qed (simp add: memory_bytes_def memory_amount_def)

text \<open>
  (bounds) the 64-bit reading of a memory limit is exact. It refuses precisely the texts that are not a size, or whose amount does not fit in 64 bits, and otherwise
  the word it yields is the amount: no limit wraps around into a smaller one.
\<close>
theorem memory_bytes_exact:
  "map_option unat (memory_bytes s) = (case memory_amount s of Some n \<Rightarrow> if n < 2 ^ 64 then Some n else None | None \<Rightarrow> None)"
  by (rule memory_bytes_amount)

lemma validate_limits_sound:
  assumes "validate_limits l = None"
  shows "\<exists>u g b c. lm_user l = u @ '':'' @ g \<and> 0 < dec_value u \<and> dec_value u \<le> max_id \<and> 0 < dec_value g \<and> dec_value g \<le> max_id
    \<and> memory_amount (lm_memory l) = Some b \<and> min_memory \<le> b \<and> lm_cpus l = Cpu c \<and> min_cpus \<le> c"
    and "0 < lm_pids l" "lm_pids l \<le> max_pids"
proof -
  from assms obtain u g w c where v: "numeric_user (lm_user l) = Some (u, g)" "dec_value u \<le> max_id" "dec_value g \<le> max_id"
    "0 < lm_pids l" "lm_pids l \<le> max_pids" "memory_bytes (lm_memory l) = Some w" "min_memory \<le> unat w" "lm_cpus l = Cpu c" "min_cpus \<le> c"
    by (auto simp: validate_limits_def split: option.splits prod.splits if_splits cpus.splits)
  have u: "lm_user l = u @ '':'' @ g" "0 < dec_value u" "0 < dec_value g"
    using v(1) positive_decimal_pos by (auto simp: numeric_user_def cut_at_iff split: option.splits if_splits)
  have "memory_amount (lm_memory l) = Some (unat w)"
    using memory_bytes_amount [of "lm_memory l"] v(6) by (simp split: option.splits if_splits)
  with u v show "\<exists>u g b c. lm_user l = u @ '':'' @ g \<and> 0 < dec_value u \<and> dec_value u \<le> max_id \<and> 0 < dec_value g \<and> dec_value g \<le> max_id
    \<and> memory_amount (lm_memory l) = Some b \<and> min_memory \<le> b \<and> lm_cpus l = Cpu c \<and> min_cpus \<le> c" by blast
  show "0 < lm_pids l" "lm_pids l \<le> max_pids" using v(4,5) .
qed

lemma network_none_name: "network_name network_none" "network_none \<notin> set refused_network_modes"
  by code_simp+

lemma wrapper_network_sound:
  "wrapper_network args = Inr n \<Longrightarrow> network_name n \<and> n \<notin> set refused_network_modes"
  using network_none_name
  by (auto simp: wrapper_network_def Let_def allowed_network_def split: sum.splits option.splits if_splits)

lemma declared_network_closed:
  "declared_network net args = Inr n \<Longrightarrow> arg \<in> set args \<Longrightarrow> arg \<in> set mandatory_wrapper \<or> network_value arg \<noteq> None"
  by (induction net args rule: declared_network.induct) (auto split: if_splits option.splits)

lemma wrapper_network_closed:
  "wrapper_network args = Inr n \<Longrightarrow> list_all (\<lambda>arg. arg \<in> set mandatory_wrapper \<or> network_value arg \<noteq> None) args"
  unfolding wrapper_network_def list_all_iff using declared_network_closed by (fastforce split: sum.splits)

lemma validate_env_var_names_all: "validate_env_var_names names = None \<longleftrightarrow> list_all (\<lambda>n. validate_env_name n = None) names"
  by (induction names) (auto split: option.splits)

lemma validate_env_name_sound:
  "validate_env_name n = None \<Longrightarrow>
     n \<noteq> [] \<and> CHR ''='' \<notin> set n \<and> CHR ''*'' \<notin> set n \<and> hd n \<noteq> CHR ''-'' \<and> \<not> is_code_loading_env_name n \<and> \<not> is_runtime_directing n"
  by (cases n) (auto simp: validate_env_name_def has_prefix_def list_ex_iff split: if_splits)

lemma env_flags_tokens: "set (env_flags names) = (if names = [] then {} else {''--env''}) \<union> set names"
  by (induction names) auto

lemma env_names_perm: "mset (map fst env) = mset (map fst env') \<Longrightarrow> env_names env = Inr names \<Longrightarrow> env_names env' = Inr names"
proof -
  assume m: "mset (map fst env) = mset (map fst env')" and e: "env_names env = Inr names"
  have "set (map fst env) = set (map fst env')" using m by (metis set_mset_mset)
  then have "validate_env_var_names (map fst env') = None"
    using e by (auto simp: env_names_def validate_env_var_names_all list_all_iff split: option.splits)
  moreover have "sort (map fst env') = sort (map fst env)" using m by (metis mset_sort properties_for_sort sorted_sort)
  ultimately show ?thesis using e by (auto simp: env_names_def split: option.splits)
qed

lemma build_plan_parts:
  assumes "build_plan fmt args img env opts = Inr p"
  obtains names where "rp_args p = [''run''] @ mandatory_wrapper @ limit_args fmt (po_limits opts) @ [''--name'', po_name opts]
      @ [''--network='' @ rp_network p] @ env_flags names @ [img]"
    "wrapper_network args = Inr (rp_network p)" "env_names env = Inr names" "validate_limits (po_limits opts) = None"
    "validate_image img = None" "safe_container_name (po_name opts)" "rp_name p = po_name opts"
  using assms by (auto simp: build_plan_def split: if_splits option.splits sum.splits)

lemma dash_prefix [simp]: "has_prefix (c # cs) ''-'' \<longleftrightarrow> c = CHR ''-''" "\<not> has_prefix [] ''-''"
  by (auto simp: has_prefix_def)

lemma safe_name_no_flag: "safe_container_name n \<Longrightarrow> \<not> has_prefix n ''-''"
  by (cases n) (auto simp: safe_container_name_def is_alnum_def less_eq_char_def)

definition wrapper_flags :: "(cpus \<Rightarrow> string) \<Rightarrow> limits \<Rightarrow> string \<Rightarrow> string list" where
  "wrapper_flags fmt l network = mandatory_wrapper @ limit_args fmt l @ [''--name'', ''--network='' @ network, ''--env'']"

lemma plan_flags_closed:
  assumes "build_plan fmt args img env opts = Inr p" "tok \<in> set (butlast (rp_args p))" "has_prefix tok ''-''"
  shows "tok \<in> set (wrapper_flags fmt (po_limits opts) (rp_network p))"
proof -
  obtain names where p: "rp_args p = [''run''] @ mandatory_wrapper @ limit_args fmt (po_limits opts) @ [''--name'', po_name opts]
      @ [''--network='' @ rp_network p] @ env_flags names @ [img]" "env_names env = Inr names" "safe_container_name (po_name opts)"
    using build_plan_parts [OF assms(1)] by metis
  have b: "butlast (rp_args p) = [''run''] @ mandatory_wrapper @ limit_args fmt (po_limits opts) @ [''--name'', po_name opts]
      @ [''--network='' @ rp_network p] @ env_flags names"
    unfolding p(1) by (simp add: butlast_append)
  have "\<not> has_prefix n ''-''" if n: "n \<in> set names" for n
  proof -
    have "validate_env_name n = None"
      using n p(2) by (auto simp: env_names_def validate_env_var_names_all list_all_iff split: option.splits)
    from validate_env_name_sound [OF this] show ?thesis by (cases n) auto
  qed
  moreover have "set (env_flags names) \<subseteq> {''--env''} \<union> set names" by (auto simp: env_flags_tokens)
  moreover have "\<not> has_prefix ''run'' ''-''" by simp
  moreover note assms(2) [unfolded b set_append list.set] assms(3) safe_name_no_flag [OF p(3)]
  ultimately show ?thesis unfolding wrapper_flags_def set_append list.set by blast
qed


text \<open>
  (safety) the command line tells nothing of a credential. Two environments with the same names, whatever values they hold and in whichever order, get the same command line.
\<close>
theorem plan_hides_values:
  assumes "build_plan fmt args img env opts = Inr p" "mset (map fst env) = mset (map fst env')"
  shows "build_plan fmt args img env' opts = Inr p"
  using assms env_names_perm [OF assms(2)] by (auto simp: build_plan_def split: if_splits option.splits sum.splits)

section \<open>A name is always safe\<close>

lemma name_char_dash: "name_char CHR ''-''"
  by code_simp

lemma sanitize_runes_safe: "list_all name_char (sanitize_runes s)"
proof (induction s rule: sanitize_runes.induct)
  case (1 s)
  then show ?case using name_char_dash by (subst sanitize_runes.simps) (auto split: list.splits)
qed

lemma hex_encode_safe: "list_all name_char (hex_encode s)"
proof (induction s)
  case (Cons c s)
  have "list_all name_char ''0123456789abcdef''" by code_simp
  moreover have "length ''0123456789abcdef'' = 16" by simp
  ultimately have "n < 16 \<Longrightarrow> name_char (hex_digit n)" for n unfolding hex_digit_def by (metis list_all_length)
  moreover have "(of_char c :: nat) div 16 < 16" "(of_char c :: nat) mod 16 < 16" 
    using of_char_bound [of c] by (auto simp: less_mult_imp_div_less)
  ultimately show ?case using Cons by simp
qed simp

lemma new_container_name_safe: "new_container_name random upstream = Some n \<Longrightarrow> safe_container_name n"
proof -
  assume "new_container_name random upstream = Some n"
  then obtain bytes where n: "n = ''mcp-gw-'' @ sanitize_name_component upstream @ ''-'' @ hex_encode bytes"
    by (auto simp: new_container_name_def container_name_prefix_def)
  have "list_all name_char (sanitize_name_component upstream)"
  proof -
    have "list_all name_char (take 40 (sanitize_runes upstream))" using sanitize_runes_safe by (metis append_take_drop_id list_all_append)
    moreover have "list_all name_char ''upstream''" by code_simp
    ultimately show ?thesis by (simp add: sanitize_name_component_def Let_def)
  qed
  moreover have "is_alnum CHR ''m''" "list_all name_char ''cp-gw-''" by code_simp+
  ultimately show ?thesis using hex_encode_safe [of bytes] name_char_dash by (auto simp: n safe_container_name_def list_all_iff)
qed

end
