(* ===== verification/Process.thy ===== *)
theory Process
  imports Container Routes
begin

text \<open>
  Model of the two transports that start a process: \<open>internal/gateway/stdio/stdio.go\<close>, which spawns a backend's command and speaks to it over its pipes, and
  \<open>internal/gateway/oci/oci.go\<close>, which runs it in a container by handing the first one a command line of the container runtime, and removes the container afterwards.
  The protocol library, the command that removes a container, the process's own environment and the random bytes of a container's name are arguments; \<open>'s\<close> is the state of the
  host they act on.
\<close>

section \<open>The stdio dialer\<close>

record stdio_dialer =
  sd_client_name :: string
  sd_client_version :: string
  sd_inherited :: "string list"
  sd_grace :: int

datatype stdio_option = ClientInfo string string | InheritedEnv "string list" | ShutdownGrace int

definition default_shutdown_grace :: int where "default_shutdown_grace = 5000000000"
definition default_inherited_env :: "string list" where "default_inherited_env = [''PATH'', ''HOME'']"

fun stdio_apply :: "stdio_dialer \<Rightarrow> stdio_option \<Rightarrow> stdio_dialer" where
  "stdio_apply d (ClientInfo name version) = d\<lparr>sd_client_name := (if name = [] then sd_client_name d else name), sd_client_version := version\<rparr>"
| "stdio_apply d (InheritedEnv names) = d\<lparr>sd_inherited := names\<rparr>"
| "stdio_apply d (ShutdownGrace grace) = d\<lparr>sd_grace := grace\<rparr>"

definition new_stdio :: "stdio_option list \<Rightarrow> stdio_dialer" where
  "new_stdio opts =
     (let d = foldl stdio_apply \<lparr>sd_client_name = ''mcp-gateway'', sd_client_version = [], sd_inherited = default_inherited_env,
                sd_grace = default_shutdown_grace\<rparr> opts
      in if sd_grace d \<le> 0 then d\<lparr>sd_grace := default_shutdown_grace\<rparr> else d)"

datatype env_problem = EnvNoName | EnvBadName string | EnvBadValue string | EnvLoadsCode string

definition nul_or_eq :: "char \<Rightarrow> bool" where
  "nul_or_eq c = (c = CHR ''='' \<or> c = CHR 0x00)"

definition validate_env_entry :: "string \<Rightarrow> string \<Rightarrow> env_problem option" where
  "validate_env_entry name v =
     (if name = [] then Some EnvNoName
      else if list_ex nul_or_eq name then Some (EnvBadName (takeWhile (\<lambda>c. \<not> nul_or_eq c) name))
      else if CHR 0x00 \<in> set v then Some (EnvBadValue name)
      else if is_code_loading_env_name name then Some (EnvLoadsCode name)
      else None)"

fun validate_stdio_env_names :: "string list \<Rightarrow> env_problem option" where
  "validate_stdio_env_names [] = None"
| "validate_stdio_env_names (name # names) =
     (case validate_env_entry name [] of Some e \<Rightarrow> Some e | None \<Rightarrow> validate_stdio_env_names names)"

definition env_entry :: "string \<Rightarrow> string \<Rightarrow> string" where
  "env_entry name v = name @ ''='' @ v"

text \<open>The variables a process inherits, of those the gateway's own environment \<open>look\<close> has.\<close>

fun inherited_env :: "(string \<Rightarrow> string option) \<Rightarrow> string list \<Rightarrow> string list" where
  "inherited_env look [] = []"
| "inherited_env look (name # names) =
     (case look name of Some v \<Rightarrow> env_entry name v # inherited_env look names | None \<Rightarrow> inherited_env look names)"

fun declared_env :: "(string \<times> string) list \<Rightarrow> env_problem + string list" where
  "declared_env [] = Inr []"
| "declared_env ((name, v) # env) =
     (case validate_env_entry name v of
        Some e \<Rightarrow> Inl e
      | None \<Rightarrow> (case declared_env env of Inl e \<Rightarrow> Inl e | Inr out \<Rightarrow> Inr (env_entry name v # out)))"

definition child_env :: "(string \<Rightarrow> string option) \<Rightarrow> string list \<Rightarrow> (string \<times> string) list \<Rightarrow> env_problem + string list" where
  "child_env look names env =
     (case declared_env env of Inl e \<Rightarrow> Inl e | Inr out \<Rightarrow> Inr (inherited_env look names @ out))"

text \<open>What the protocol library answers: a session, or an error and the connection it had opened, if it had opened one.\<close>

datatype connect_answer = Session nat | ConnectError string "nat option"

text \<open>\<open>se_gone\<close>: the error is a closed connection or the end of the stream.\<close>

record sdk_error =
  se_text :: string
  se_gone :: bool

datatype 'v any_value = NilValue | RawValue string | OtherValue 'v

record 'v sdk_tool =
  st_name :: string
  st_description :: string
  st_input :: "'v any_value"
  st_output :: "'v any_value"

record 'v sdk_result =
  sr_content :: "'v list"
  sr_structured :: "'v any_value"
  sr_is_error :: bool

record ('s, 'v) sdk =
  sdk_connect :: "string \<Rightarrow> string \<Rightarrow> string \<Rightarrow> string list \<Rightarrow> string list \<Rightarrow> 's \<Rightarrow> connect_answer \<times> 's"
  sdk_drop :: "nat \<Rightarrow> 's \<Rightarrow> 's"
  sdk_close :: "nat \<Rightarrow> 's \<Rightarrow> string option \<times> 's"
  sdk_tools :: "nat \<Rightarrow> 's \<Rightarrow> (sdk_error + 'v sdk_tool) list \<times> 's"
  sdk_call :: "nat \<Rightarrow> string \<Rightarrow> string option \<Rightarrow> 's \<Rightarrow> (sdk_error + 'v sdk_result) \<times> 's"
  sdk_marshal :: "'v \<Rightarrow> string option"
  sdk_marshal_list :: "'v list \<Rightarrow> string option"

record stdio_conn =
  sc_name :: string
  sc_session :: nat
  sc_closed :: bool
  sc_close_err :: "string option"

datatype stdio_problem = StdioTransport string | StdioNoCommand | StdioEnv env_problem | StdioConnect string

definition transport_stdio_name :: string where "transport_stdio_name = ''stdio''"

text \<open>With no credential in it an error is kept as it is; with one, only its masked text.\<close>

definition scrub_dial_error :: "codec \<Rightarrow> string \<Rightarrow> (string \<times> string) list \<Rightarrow> string" where
  "scrub_dial_error C err env =
     (case mask_credentials C err env of (msg, masked) \<Rightarrow> if \<not> masked then err else msg)"

definition dial_stdio ::
  "codec \<Rightarrow> ('s, 'v) sdk \<Rightarrow> (string \<Rightarrow> string option) \<Rightarrow> stdio_dialer \<Rightarrow> upstream_spec \<Rightarrow> (string \<times> string) list \<Rightarrow> 's \<Rightarrow>
   (stdio_problem + stdio_conn) \<times> 's" where
  "dial_stdio C K look d spec env s =
     (if us_transport spec \<noteq> transport_stdio_name then (Inl (StdioTransport (us_transport spec)), s)
      else if us_command spec = [] then (Inl StdioNoCommand, s)
      else case child_env look (sd_inherited d) env of
        Inl e \<Rightarrow> (Inl (StdioEnv e), s)
      | Inr environ \<Rightarrow>
          (case sdk_connect K (sd_client_name d) (sd_client_version d) (us_command spec) (us_args spec) environ s of
             (Session n, s1) \<Rightarrow> (Inr \<lparr>sc_name = us_name spec, sc_session = n, sc_closed = False, sc_close_err = None\<rparr>, s1)
           | (ConnectError err conn, s1) \<Rightarrow>
               (Inl (StdioConnect (scrub_dial_error C err env)), (case conn of Some n \<Rightarrow> sdk_drop K n s1 | None \<Rightarrow> s1))))"

section \<open>A stdio connection\<close>

datatype stdio_failure =
    SClosed | SClosedMeanwhile sdk_error | SGone sdk_error | SOther sdk_error
  | SInputSchema string | SOutputSchema string | SContent | SStructured

text \<open>\<open>meanwhile\<close>: the connection has been closed by the time the error is read.\<close>

definition classify :: "bool \<Rightarrow> sdk_error \<Rightarrow> stdio_failure" where
  "classify meanwhile err =
     (if \<not> se_gone err then SOther err else if meanwhile then SClosedMeanwhile err else SGone err)"

text \<open>The absent value and the empty one are the same slice.\<close>

definition raw_json :: "('s, 'v) sdk \<Rightarrow> 'v any_value \<Rightarrow> string option" where
  "raw_json K v = (case v of NilValue \<Rightarrow> Some [] | RawValue raw \<Rightarrow> Some raw | OtherValue x \<Rightarrow> sdk_marshal K x)"

fun collect_tools :: "('s, 'v) sdk \<Rightarrow> bool \<Rightarrow> (sdk_error + 'v sdk_tool) list \<Rightarrow> stdio_failure + tool_def list" where
  "collect_tools K meanwhile [] = Inr []"
| "collect_tools K meanwhile (Inl err # rest) = Inl (classify meanwhile err)"
| "collect_tools K meanwhile (Inr t # rest) =
     (case raw_json K (st_input t) of
        None \<Rightarrow> Inl (SInputSchema (st_name t))
      | Some schema \<Rightarrow>
          (case raw_json K (st_output t) of
             None \<Rightarrow> Inl (SOutputSchema (st_name t))
           | Some output \<Rightarrow>
               map_sum id (Cons \<lparr>td_name = st_name t, td_description = st_description t, td_input = schema, td_output = output, td_class = []\<rparr>)
                 (collect_tools K meanwhile rest)))"

definition list_tools :: "('s, 'v) sdk \<Rightarrow> bool \<Rightarrow> stdio_conn \<Rightarrow> 's \<Rightarrow> (stdio_failure + tool_def list) \<times> 's" where
  "list_tools K meanwhile u s =
     (if sc_closed u then (Inl SClosed, s)
      else case sdk_tools K (sc_session u) s of (answers, s1) \<Rightarrow> (collect_tools K meanwhile answers, s1))"

definition call_tool ::
  "('s, 'v) sdk \<Rightarrow> bool \<Rightarrow> stdio_conn \<Rightarrow> string \<Rightarrow> string \<Rightarrow> 's \<Rightarrow> (stdio_failure + call_result) \<times> 's" where
  "call_tool K meanwhile u tool args s =
     (if sc_closed u then (Inl SClosed, s)
      else case sdk_call K (sc_session u) tool (if args = [] then None else Some args) s of
        (Inl err, s1) \<Rightarrow> (Inl (classify meanwhile err), s1)
      | (Inr res, s1) \<Rightarrow>
          (case (if sr_content res = [] then Some ''[]'' else sdk_marshal_list K (sr_content res)) of
             None \<Rightarrow> (Inl SContent, s1)
           | Some content \<Rightarrow>
               (case raw_json K (sr_structured res) of
                  None \<Rightarrow> (Inl SStructured, s1)
                | Some structured \<Rightarrow> (Inr \<lparr>cr_content = content, cr_structured = structured, cr_is_error = sr_is_error res\<rparr>, s1))))"

text \<open>The first close alone acts; every later one repeats its answer.\<close>

definition close_stdio :: "('s, 'v) sdk \<Rightarrow> stdio_conn \<Rightarrow> 's \<Rightarrow> string option \<times> stdio_conn \<times> 's" where
  "close_stdio K u s =
     (if sc_closed u then (sc_close_err u, u, s)
      else case sdk_close K (sc_session u) s of (err, s1) \<Rightarrow> (err, u\<lparr>sc_closed := True, sc_close_err := err\<rparr>, s1))"

section \<open>The container dialer\<close>

record oci_dialer =
  od_podman :: string
  od_cleanup_env :: "string list"
  od_cleanup_grace :: int
  od_limits :: limits

datatype oci_option = PodmanPath string | CleanupEnv "string list" | WithLimits limits | CleanupGrace int

definition default_cleanup_grace :: int where "default_cleanup_grace = 10000000000"
definition default_probe_grace :: int where "default_probe_grace = 5000000000"
definition default_cleanup_env :: "string list" where "default_cleanup_env = [''PATH'', ''HOME'']"

fun oci_apply :: "oci_dialer \<Rightarrow> oci_option \<Rightarrow> oci_dialer" where
  "oci_apply d (PodmanPath path) = (if path \<noteq> [] then d\<lparr>od_podman := path\<rparr> else d)"
| "oci_apply d (CleanupEnv names) = d\<lparr>od_cleanup_env := names\<rparr>"
| "oci_apply d (WithLimits l) = d\<lparr>od_limits := with_defaults l\<rparr>"
| "oci_apply d (CleanupGrace grace) = d\<lparr>od_cleanup_grace := grace\<rparr>"

definition new_oci :: "oci_option list \<Rightarrow> oci_dialer" where
  "new_oci opts =
     (let d = foldl oci_apply \<lparr>od_podman = default_podman, od_cleanup_env = default_cleanup_env, od_cleanup_grace = default_cleanup_grace,
                od_limits = default_limits\<rparr> opts
      in if od_cleanup_grace d \<le> 0 then d\<lparr>od_cleanup_grace := default_cleanup_grace\<rparr> else d)"

text \<open>A command of the runtime, run with a deadline: the binary, its arguments, its environment and the time it has.\<close>

datatype exit_status = ExitOk | ExitCode int | ExecFailed

type_synonym 's runtime = "string \<Rightarrow> string list \<Rightarrow> string list \<Rightarrow> int \<Rightarrow> 's \<Rightarrow> exit_status \<times> 's"

datatype 'u inner_answer = InnerFailed string | InnerNothing | InnerConn 'u

text \<open>The dialer underneath: how it dials, and how a connection of it is closed.\<close>

record ('s, 'u) inner_dialer =
  in_dial :: "upstream_spec \<Rightarrow> (string \<times> string) list \<Rightarrow> 's \<Rightarrow> 'u inner_answer \<times> 's"
  in_close :: "'u \<Rightarrow> 's \<Rightarrow> string option \<times> 'u \<times> 's"

datatype image_presence = ImageHere | ImageMissing | ImageUnknown

datatype oci_problem =
    OciTransport string | OciNoName | OciPlan plan_problem
  | OciRun string string image_presence string bool
  | OciBroken bool

text \<open>The error says that the container may still exist.\<close>

fun not_reaped :: "oci_problem \<Rightarrow> bool" where
  "not_reaped (OciRun img network presence err left) = left"
| "not_reaped (OciBroken left) = left"
| "not_reaped _ = False"

record 'u oci_conn =
  oc_name :: string
  oc_inner :: 'u
  oc_container :: string
  oc_closed :: "(string option \<times> bool) option"

definition cleanup_environment :: "(string \<Rightarrow> string option) \<Rightarrow> oci_dialer \<Rightarrow> string list" where
  "cleanup_environment look d = inherited_env look (od_cleanup_env d)"

definition sweep :: "'s runtime \<Rightarrow> (string \<Rightarrow> string option) \<Rightarrow> oci_dialer \<Rightarrow> string \<Rightarrow> 's \<Rightarrow> bool \<times> 's" where
  "sweep run look d name s =
     (case run (od_podman d) (sweep_args name) (cleanup_environment look d) (od_cleanup_grace d) s of
        (status, s1) \<Rightarrow> (status \<noteq> ExitOk, s1))"

definition image_presence_of :: "'s runtime \<Rightarrow> (string \<Rightarrow> string option) \<Rightarrow> oci_dialer \<Rightarrow> string \<Rightarrow> 's \<Rightarrow> image_presence \<times> 's" where
  "image_presence_of run look d img s =
     (case run (od_podman d) [''image'', ''exists'', img] (cleanup_environment look d) default_probe_grace s of
        (status, s1) \<Rightarrow> (case status of ExitOk \<Rightarrow> ImageHere | ExitCode n \<Rightarrow> if n = 1 then ImageMissing else ImageUnknown | ExecFailed \<Rightarrow> ImageUnknown, s1))"

definition inner_spec :: "upstream_spec \<Rightarrow> run_plan \<Rightarrow> upstream_spec" where
  "inner_spec spec p =
     \<lparr>us_name = us_name spec, us_transport = transport_stdio_name, us_command = rp_path p, us_args = rp_args p, us_url = [], us_image = [],
      us_auth_kind = [], us_auth_name = [], us_operations = []\<rparr>"

definition dial_oci ::
  "(cpus \<Rightarrow> string) \<Rightarrow> string option \<Rightarrow> 's runtime \<Rightarrow> (string \<Rightarrow> string option) \<Rightarrow> ('s, 'u) inner_dialer \<Rightarrow> oci_dialer \<Rightarrow> upstream_spec \<Rightarrow>
   (string \<times> string) list \<Rightarrow> 's \<Rightarrow> (oci_problem + 'u oci_conn) \<times> 's" where
  "dial_oci fmt random run look I d spec env s =
     (if us_transport spec \<noteq> ''oci'' then (Inl (OciTransport (us_transport spec)), s)
      else case new_container_name random (us_name spec) of
        None \<Rightarrow> (Inl OciNoName, s)
      | Some name \<Rightarrow>
          (case build_plan fmt (us_args spec) (us_image spec) env \<lparr>po_podman = od_podman d, po_name = name, po_limits = od_limits d\<rparr> of
             Inl e \<Rightarrow> (Inl (OciPlan e), s)
           | Inr p \<Rightarrow>
               (case in_dial I (inner_spec spec p) env s of
                  (InnerFailed err, s1) \<Rightarrow>
                    (case sweep run look d (rp_name p) s1 of
                       (left, s2) \<Rightarrow>
                         (case image_presence_of run look d (us_image spec) s2 of
                            (presence, s3) \<Rightarrow> (Inl (OciRun (us_image spec) (rp_network p) presence err left), s3)))
                | (InnerNothing, s1) \<Rightarrow>
                    (case sweep run look d (rp_name p) s1 of (left, s2) \<Rightarrow> (Inl (OciBroken left), s2))
                | (InnerConn u, s1) \<Rightarrow>
                    (Inr \<lparr>oc_name = us_name spec, oc_inner = u, oc_container = rp_name p, oc_closed = None\<rparr>, s1))))"

definition close_oci ::
  "'s runtime \<Rightarrow> (string \<Rightarrow> string option) \<Rightarrow> ('s, 'u) inner_dialer \<Rightarrow> oci_dialer \<Rightarrow> 'u oci_conn \<Rightarrow> 's \<Rightarrow>
   (string option \<times> bool) \<times> 'u oci_conn \<times> 's" where
  "close_oci run look I d u s =
     (case oc_closed u of
        Some err \<Rightarrow> (err, u, s)
      | None \<Rightarrow>
          (case in_close I (oc_inner u) s of
             (session_err, inner, s1) \<Rightarrow>
               (case sweep run look d (oc_container u) s1 of
                  (left, s2) \<Rightarrow> ((session_err, left), u\<lparr>oc_inner := inner, oc_closed := Some (session_err, left)\<rparr>, s2))))"

text \<open>The wiring of \<open>cmd/mcp-gateway\<close>: the dialer underneath is the stdio one.\<close>

definition stdio_inner :: "codec \<Rightarrow> ('s, 'v) sdk \<Rightarrow> (string \<Rightarrow> string option) \<Rightarrow> stdio_dialer \<Rightarrow> (stdio_problem \<Rightarrow> string) \<Rightarrow> ('s, stdio_conn) inner_dialer" where
  "stdio_inner C K look d txt =
     \<lparr>in_dial = \<lambda>spec env s. case dial_stdio C K look d spec env s of
        (Inl e, s1) \<Rightarrow> (InnerFailed (txt e), s1) | (Inr u, s1) \<Rightarrow> (InnerConn u, s1),
      in_close = close_stdio K\<rparr>"

section \<open>Closing more than once\<close>

text \<open>
  What the gateway relies on when it closes a connection: the first close settles the answer, and a connection that is closed stays as it is.
\<close>

locale closable =
  fixes close :: "'u \<Rightarrow> 's \<Rightarrow> 'e \<times> 'u \<times> 's" and settled :: "'u \<Rightarrow> 'e option"
  assumes close_settles: "close u s = (e, u', s') \<Longrightarrow> settled u' = Some e"
    and close_settled: "settled u = Some e \<Longrightarrow> close u s = (e, u, s)"
begin

fun closes :: "nat \<Rightarrow> 'u \<Rightarrow> 's \<Rightarrow> 'e \<times> 'u \<times> 's" where
  "closes 0 u s = close u s"
| "closes (Suc n) u s = (case close u s of (e, u', s') \<Rightarrow> closes n u' s')"

lemma closes_settled: "settled u = Some e \<Longrightarrow> closes n u s = (e, u, s)"
  by (induction n) (simp_all add: close_settled)

lemma closes_once: "closes n u s = close u s"
proof (cases n)
  case (Suc m)
  obtain e u' s' where c: "close u s = (e, u', s')" by (cases "close u s")
  show ?thesis using closes_settled [OF close_settles [OF c]] by (simp add: Suc c)
qed simp

end

definition stdio_settled :: "stdio_conn \<Rightarrow> string option option" where
  "stdio_settled u = (if sc_closed u then Some (sc_close_err u) else None)"

interpretation stdio_close: closable "close_stdio K" stdio_settled
  by unfold_locales (auto simp: close_stdio_def stdio_settled_def split: if_splits prod.splits)

interpretation oci_close: closable "close_oci run look I d" oc_closed
  by unfold_locales (auto simp: close_oci_def split: option.splits prod.splits)

section \<open>The runtime that removes a container is the one that started it\<close>

text \<open>The value a process sees of a variable: of several entries of a name, the last.\<close>

definition env_value :: "string list \<Rightarrow> string \<Rightarrow> string option" where
  "env_value environ name =
     (case find (\<lambda>e. has_prefix e (name @ ''='')) (rev environ) of None \<Rightarrow> None | Some e \<Rightarrow> cut_prefix (name @ ''='') e)"

text \<open>What of an environment decides which containers the runtime sees.\<close>

definition steering :: "string list \<Rightarrow> string \<Rightarrow> string option" where
  "steering environ name = (if is_runtime_directing name \<and> CHR ''='' \<notin> set name then env_value environ name else None)"

lemma other_entry:
  assumes "CHR ''='' \<notin> set n" "CHR ''='' \<notin> set name" "name \<noteq> n"
  shows "\<not> has_prefix (env_entry name v) (n @ ''='')"
proof
  assume "has_prefix (env_entry name v) (n @ ''='')"
  then obtain r where r: "name @ CHR ''='' # v = n @ CHR ''='' # r"
    by (auto simp: has_prefix_def env_entry_def cut_prefix_iff)
  have "takeWhile (\<lambda>c. c \<noteq> CHR ''='') (m @ CHR ''='' # w) = m" if "CHR ''='' \<notin> set m" for m w
    using that by (induction m) auto
  with r assms show False by metis
qed

lemma find_skip: "(\<And>x. x \<in> set xs \<Longrightarrow> \<not> P x) \<Longrightarrow> find P (xs @ ys) = find P ys"
  by (induction xs) auto

lemma declared_env_entries: "declared_env env = Inr out \<Longrightarrow> out = map (\<lambda>(name, v). env_entry name v) env"
  by (induction env arbitrary: out) (auto split: option.splits sum.splits)

lemma steering_inherited:
  assumes "child_env look names env = Inr ch" "\<And>n. n \<in> set (map fst env) \<Longrightarrow> CHR ''='' \<notin> set n \<and> \<not> is_runtime_directing n"
  shows "steering ch = steering (inherited_env look names)"
proof
  fix n
  obtain out where out: "ch = inherited_env look names @ out" "out = map (\<lambda>(name, v). env_entry name v) env"
    using assms(1) declared_env_entries by (auto simp: child_env_def split: sum.splits)
  show "steering ch n = steering (inherited_env look names) n"
  proof (cases "is_runtime_directing n \<and> CHR ''='' \<notin> set n")
    case True
    have "\<not> has_prefix e (n @ ''='')" if e: "e \<in> set (rev out)" for e
    proof -
      obtain name v where nv: "e = env_entry name v" "(name, v) \<in> set env" using e out(2) by auto
      then have "name \<in> set (map fst env)" by force
      with True assms(2) show ?thesis unfolding nv(1) by (intro other_entry) auto
    qed
    from find_skip [of "rev out" "\<lambda>e. has_prefix e (n @ ''='')", OF this] show ?thesis
      by (simp add: steering_def env_value_def out(1))
  qed (auto simp: steering_def)
qed

text \<open>
  What the runtime documents of the two commands, \<open>live s steer name\<close> meaning that the containers the variables \<open>steer\<close> select include \<open>name\<close>: a removal that exits with 0 has left none of that
  name there, and asking for an image starts none.
\<close>

definition removes :: "'s runtime \<Rightarrow> ('s \<Rightarrow> (string \<Rightarrow> string option) \<Rightarrow> string \<Rightarrow> bool) \<Rightarrow> bool" where
  "removes run live \<longleftrightarrow>
     (\<forall>bin name environ grace s s'. run bin (sweep_args name) environ grace s = (ExitOk, s') \<longrightarrow> \<not> live s' (steering environ) name)
     \<and> (\<forall>bin img environ grace s status s' steer name.
          run bin [''image'', ''exists'', img] environ grace s = (status, s') \<longrightarrow> live s' steer name \<longrightarrow> live s steer name)"

lemma sweep_removes:
  "removes run live \<Longrightarrow> sweep run look d name s = (False, s') \<Longrightarrow> \<not> live s' (steering (inherited_env look (od_cleanup_env d))) name"
  by (auto simp: sweep_def removes_def cleanup_environment_def split: prod.splits)

lemma probe_starts_none:
  "removes run live \<Longrightarrow> image_presence_of run look d img s = (presence, s') \<Longrightarrow> live s' steer name \<Longrightarrow> live s steer name"
  unfolding image_presence_of_def removes_def by (cases "run (od_podman d) [''image'', ''exists'', img] (cleanup_environment look d) default_probe_grace s") auto

lemma plan_steering:
  assumes "build_plan fmt args img env opts = Inr p" "child_env look names env = Inr ch"
  shows "steering ch = steering (inherited_env look names)"
proof (rule steering_inherited [OF assms(2)])
  fix n assume "n \<in> set (map fst env)"
  moreover obtain names where "env_names env = Inr names" using build_plan_parts [OF assms(1)] by metis
  ultimately have "validate_env_name n = None"
    by (auto simp: env_names_def validate_env_var_names_all list_all_iff split: option.splits)
  from validate_env_name_sound [OF this] show "CHR ''='' \<notin> set n \<and> \<not> is_runtime_directing n" by blast
qed

fun was_started :: "oci_problem \<Rightarrow> bool" where
  "was_started (OciRun img network presence err left) = True"
| "was_started (OciBroken left) = True"
| "was_started _ = False"

lemma build_plan_name: "build_plan fmt args img env opts = Inr p \<Longrightarrow> rp_name p = po_name opts"
  by (rule build_plan_parts)

lemma dial_oci_cases:
  assumes "dial_oci fmt random run look I d spec env s = (r, s')" "new_container_name random (us_name spec) = Some name"
  shows "case r of
      Inr u \<Rightarrow> oc_container u = name \<and> oc_closed u = None
    | Inl e \<Rightarrow> if was_started e then \<exists>s1 s2. sweep run look d name s1 = (not_reaped e, s2)
                  \<and> (s' = s2 \<or> (\<exists>presence. image_presence_of run look d (us_image spec) s2 = (presence, s'))) else s' = s"
    and "(case r of Inl e \<Rightarrow> was_started e | Inr u \<Rightarrow> True) \<Longrightarrow>
      \<exists>p. build_plan fmt (us_args spec) (us_image spec) env \<lparr>po_podman = od_podman d, po_name = name, po_limits = od_limits d\<rparr> = Inr p"
  using assms
  by (fastforce simp: dial_oci_def build_plan_name split: if_splits sum.splits prod.splits inner_answer.splits)+

text \<open>
  C33 (safety): no container outlives its connection unseen. With the removal command given the same inherited variables as the spawning dialer, a dial that failed after the
  runtime was started, and the close of a connection, either say that the container may still exist or leave none of its name where the started process's own
  environment would have the runtime look; a dial that failed earlier touched nothing.
\<close>
theorem container_never_left:
  assumes "removes run live" "od_cleanup_env d = sd_inherited sd" "child_env look (sd_inherited sd) env = Inr ch"
    "new_container_name random (us_name spec) = Some name"
    "dial_oci fmt random run look (stdio_inner C K look sd txt) d spec env s = (r, s1)"
  shows "case r of
      Inl e \<Rightarrow> if was_started e then not_reaped e \<or> \<not> live s1 (steering ch) name else s1 = s
    | Inr u \<Rightarrow> \<forall>s2 n err left u' s3. oci_close.closes run look (stdio_inner C K look sd txt) d n u s2 = ((err, left), u', s3)
                  \<longrightarrow> left \<or> \<not> live s3 (steering ch) name"
proof -
  note c = dial_oci_cases [OF assms(5,4)]
  have steer: "steering ch = steering (inherited_env look (od_cleanup_env d))" if "case r of Inl e \<Rightarrow> was_started e | Inr u \<Rightarrow> True"
    using c(2) [OF that] plan_steering [OF _ assms(3)] assms(2) by auto
  show ?thesis
  proof (cases r)
    case (Inl e)
    show ?thesis
    proof (cases "was_started e \<and> \<not> not_reaped e")
      case True
      then obtain s0 s2 presence where w: "sweep run look d name s0 = (False, s2)"
        "s1 = s2 \<or> image_presence_of run look d (us_image spec) s2 = (presence, s1)" using c(1) Inl by auto
      have "\<not> live s2 (steering ch) name" using sweep_removes [OF assms(1) w(1)] steer Inl True by simp
      then show ?thesis using w(2) probe_starts_none [OF assms(1)] Inl True by auto
    qed (use c(1) Inl in auto)
  next
    case (Inr u)
    have "left \<or> \<not> live s3 (steering ch) name"
      if "oci_close.closes run look (stdio_inner C K look sd txt) d n u s2 = ((err, left), u', s3)" for s2 n err left u' s3
    proof -
      have "close_oci run look (stdio_inner C K look sd txt) d u s2 = ((err, left), u', s3)"
        using that by (simp only: oci_close.closes_once)
      then obtain s0 where "sweep run look d name s0 = (left, s3)"
        using c(1) Inr by (auto simp: close_oci_def split: prod.splits)
      then show ?thesis using sweep_removes [OF assms(1)] steer Inr by (cases left) auto
    qed
    then show ?thesis using Inr by simp
  qed
qed

section \<open>A container that is started and removed\<close>

definition sample_image :: string where
  "sample_image = ''threatintel@sha256:'' @ replicate 64 CHR ''a''"

definition sample_cred_env :: "(string \<times> string) list" where
  "sample_cred_env = [(''TI_KEY'', ''s3cret'')]"

definition sample_opts :: plan_options where
  "sample_opts = \<lparr>po_podman = ''podman'', po_name = ''mcp-gw-ti-4142'', po_limits = default_limits\<rparr>"

definition sample_argv :: "string list" where
  "sample_argv = [''run'', ''--rm'', ''-i'', ''--log-driver=none'', ''--pull=never'', ''--read-only'', ''--read-only-tmpfs=false'', ''--tmpfs=/tmp'',
     ''--cap-drop=all'', ''--security-opt=no-new-privileges'', ''--user=65534:65534'', ''--pids-limit=256'', ''--memory=512m'', ''--cpus=1'',
     ''--name'', ''mcp-gw-ti-4142'', ''--network=pasta'', ''--env'', ''TI_KEY'', sample_image]"

lemma default_limits_valid: "validate_limits default_limits = None"
proof -
  have u: "numeric_user ''65534:65534'' = Some (''65534'', ''65534'')" by code_simp
  have v: "dec_value ''65534'' = 65534" "dec_value ''512'' = 512" by (simp_all add: dec_value_def)
  have "positive_decimal 12 ''512''" "memory_unit CHR ''m'' = Some 20" by code_simp+
  then have "memory_amount ''512m'' = Some (512 * 2 ^ 20)" by (simp add: memory_amount_def v)
  then obtain b where "memory_bytes ''512m'' = Some b" "unat b = 512 * 2 ^ 20" using memory_bytes_amount [of "''512m''"] by auto
  with u v show ?thesis by (simp add: validate_limits_def default_limits_def max_id_def max_pids_def min_memory_def min_cpus_def)
qed

lemma sample_plan_built:
  "build_plan (\<lambda>_. ''1'') [''--rm'', ''--network=pasta''] sample_image sample_cred_env sample_opts
     = Inr \<lparr>rp_path = ''podman'', rp_args = sample_argv, rp_name = ''mcp-gw-ti-4142'', rp_network = ''pasta''\<rparr>"
proof -
  note l = default_limits_valid
  have i: "validate_image sample_image = None" by code_simp
  have w: "wrapper_network [''--rm'', ''--network=pasta''] = Inr ''pasta''" by code_simp
  have e: "env_names sample_cred_env = Inr [''TI_KEY'']" by code_simp
  have n: "safe_container_name (po_name sample_opts)" by code_simp
  have a: "limit_args (\<lambda>_. ''1'') default_limits = [''--user=65534:65534'', ''--pids-limit=256'', ''--memory=512m'', ''--cpus=1'']" by code_simp
  show ?thesis unfolding build_plan_def using n by (simp add: sample_opts_def l i w e a sample_argv_def mandatory_wrapper_def)
qed


theorem plan_hides_values_witness:
  "build_plan (\<lambda>_. ''1'') [''--rm'', ''--network=pasta''] sample_image [(''TI_KEY'', ''another'')] sample_opts
     = Inr \<lparr>rp_path = ''podman'', rp_args = sample_argv, rp_name = ''mcp-gw-ti-4142'', rp_network = ''pasta''\<rparr>"
  by (rule plan_hides_values [OF sample_plan_built]) (simp add: sample_cred_env_def)

text \<open>The rule for images lets a reference begin with a dash: the runtime would read it as a flag, and then find no image.\<close>

lemma flag_image_accepted:
  "validate_image (''--privileged@sha256:'' @ replicate 64 CHR ''a'') = None" "has_prefix (''--privileged@sha256:'' @ replicate 64 CHR ''a'') ''-''"
  by code_simp+

text \<open>A host whose state is the list of its containers: the runtime's \<open>run\<close> adds one, and its \<open>rm\<close> removes it.\<close>

definition sample_runtime :: "string list runtime" where
  "sample_runtime bin argv environ grace s =
     (case argv of
        [cmd, f, i, t, name] \<Rightarrow> if argv = sweep_args name then (ExitOk, removeAll name s) else (ExecFailed, s)
      | _ \<Rightarrow> (ExitCode 1, s))"

definition sample_sdk :: "(string list, unit) sdk" where
  "sample_sdk =
     \<lparr>sdk_connect = \<lambda>name version cmd argv environ s. (Session 1, ''mcp-gw-ti-4142'' # s), sdk_drop = \<lambda>_ s. s, sdk_close = \<lambda>_ s. (None, s),
      sdk_tools = \<lambda>_ s. ([], s), sdk_call = \<lambda>_ _ _ s. (Inl \<lparr>se_text = [], se_gone = True\<rparr>, s), sdk_marshal = \<lambda>_. None, sdk_marshal_list = \<lambda>_. None\<rparr>"

definition sample_oci_spec :: upstream_spec where
  "sample_oci_spec =
     \<lparr>us_name = ''ti'', us_transport = ''oci'', us_command = [], us_args = [''--rm'', ''--network=pasta''], us_url = [], us_image = sample_image,
      us_auth_kind = [], us_auth_name = [], us_operations = []\<rparr>"

definition sample_look :: "string \<Rightarrow> string option" where
  "sample_look name = (if name = ''PATH'' then Some ''/usr/bin'' else None)"

lemma sample_removes: "removes sample_runtime (\<lambda>s steer name. name \<in> set s)"
  by (auto simp: removes_def sample_runtime_def sweep_args_def)

lemma sample_oci_dials:
  "dial_oci (\<lambda>_. ''1'') (Some ''AB'') sample_runtime sample_look (stdio_inner C sample_sdk sample_look (new_stdio []) (\<lambda>_. [])) (new_oci [])
     sample_oci_spec sample_cred_env []
   = (Inr \<lparr>oc_name = ''ti'', oc_inner = \<lparr>sc_name = ''ti'', sc_session = 1, sc_closed = False, sc_close_err = None\<rparr>, oc_container = ''mcp-gw-ti-4142'',
        oc_closed = None\<rparr>, [''mcp-gw-ti-4142''])"
proof -
  have n: "new_container_name (Some ''AB'') ''ti'' = Some ''mcp-gw-ti-4142''" by code_simp
  have d: "new_oci [] = \<lparr>od_podman = ''podman'', od_cleanup_env = [''PATH'', ''HOME''], od_cleanup_grace = 10000000000, od_limits = default_limits\<rparr>"
    by code_simp
  have e: "child_env sample_look (sd_inherited (new_stdio [])) sample_cred_env = Inr [''PATH=/usr/bin'', ''TI_KEY=s3cret'']" by code_simp
  note p = sample_plan_built [unfolded sample_opts_def]
  show ?thesis
    by (simp add: dial_oci_def sample_oci_spec_def n d p stdio_inner_def dial_stdio_def inner_spec_def e sample_sdk_def)
qed

theorem container_never_left_witness:
  "''mcp-gw-ti-4142'' \<notin> set (snd (snd (close_oci sample_runtime sample_look (stdio_inner sample_codec sample_sdk sample_look (new_stdio []) (\<lambda>_. [])) (new_oci [])
       \<lparr>oc_name = ''ti'', oc_inner = \<lparr>sc_name = ''ti'', sc_session = 1, sc_closed = False, sc_close_err = None\<rparr>, oc_container = ''mcp-gw-ti-4142'',
        oc_closed = None\<rparr> [''mcp-gw-ti-4142''])))"
    (is "_ \<notin> set (snd (snd ?close))")
proof -
  have c: "?close = ((None, False), snd ?close)"
    by (simp add: close_oci_def stdio_inner_def close_stdio_def sample_sdk_def sweep_def sample_runtime_def sweep_args_def)
  have n: "new_container_name (Some ''AB'') (us_name sample_oci_spec) = Some ''mcp-gw-ti-4142''" by code_simp
  have e: "child_env sample_look (sd_inherited (new_stdio [])) sample_cred_env = Inr [''PATH=/usr/bin'', ''TI_KEY=s3cret'']" by code_simp
  have m: "od_cleanup_env (new_oci []) = sd_inherited (new_stdio [])" by code_simp
  from container_never_left [OF sample_removes m e n sample_oci_dials [of sample_codec]] show ?thesis
    unfolding sum.case oci_close.closes_once using c by (metis prod.collapse)
qed

end
