(* ===== verification/Serve_Text.thy ===== *)
theory Serve_Text
  imports Dispatch Rest_Path
begin

text \<open>
  Model of the pure parts of \<open>internal/gateway/httpapi\<close>: what a request may present as a credential and which address it counts for (\<open>httpapi.go\<close>), and what a refusal says (\<open>errors.go\<close>).
  \<open>net.SplitHostPort\<close>, \<open>strconv.Quote\<close> and the layouts of a time and of an odd duration are arguments.
\<close>

section \<open>The credential and the address of a request\<close>

record http_request =
  hr_method :: string
  hr_path :: string
  hr_authorization :: "string list"
  hr_forwarded :: "string list"
  hr_remote :: string
  hr_body :: string

definition b64_char :: "char \<Rightarrow> bool" where
  "b64_char c = (is_alnum c \<or> c \<in> set ''-._~+/'')"

definition is_b64token :: "string \<Rightarrow> bool" where
  "is_b64token token =
     (takeWhile b64_char token \<noteq> [] \<and> list_all (\<lambda>c. c = CHR ''='') (dropWhile b64_char token))"

definition bearer_token :: "string list \<Rightarrow> string option" where
  "bearer_token values =
     (case values of
        [v] \<Rightarrow>
          (case cut_at (CHR '' '') v of
             None \<Rightarrow> None
           | Some (scheme, rest) \<Rightarrow>
               if map ascii_lower scheme \<noteq> ''bearer'' then None
               else let token = dropWhile (\<lambda>c. c = CHR '' '' \<or> c = CHR 0x09) rest
                    in if is_b64token token then Some token else None)
      | _ \<Rightarrow> None)"

definition comma_join :: "string list \<Rightarrow> string" where
  "comma_join vs = (case vs of [] \<Rightarrow> [] | v # vs \<Rightarrow> v @ concat (map (\<lambda>w. CHR '','' # w) vs))"

definition source_address :: "(string \<Rightarrow> string option) \<Rightarrow> http_request \<Rightarrow> string" where
  "source_address split_host r =
     (let direct = (case split_host (hr_remote r) of Some host \<Rightarrow> host | None \<Rightarrow> hr_remote r)
      in if hr_forwarded r = [] then direct
         else case find (\<lambda>entry. trim_space entry \<noteq> []) (rev (split_on (CHR '','') (comma_join (hr_forwarded r)))) of
           Some entry \<Rightarrow> trim_space entry
         | None \<Rightarrow> direct)"

definition metadata_path :: string where "metadata_path = ''/.well-known/oauth-protected-resource''"

definition trim_one_slash :: "string \<Rightarrow> string" where
  "trim_one_slash p = (if p \<noteq> [] \<and> last p = CHR ''/'' then butlast p else p)"

definition metadata_paths_for :: "string \<Rightarrow> string list" where
  "metadata_paths_for resource_path =
     (let p = trim_one_slash resource_path
      in if p \<noteq> [] \<and> p \<noteq> ''/'' then [metadata_path, metadata_path @ p] else [metadata_path])"

definition is_scope_token :: "string \<Rightarrow> bool" where
  "is_scope_token s =
     (s \<noteq> [] \<and> list_all (\<lambda>c. CHR 0x21 \<le> c \<and> c \<le> CHR 0x7E \<and> c \<noteq> CHR 0x22 \<and> c \<noteq> CHR 0x5C) s)"

section \<open>What a refusal says\<close>

datatype failure_class =
  ClassInternal | ClassUnauthenticated | ClassForbidden | ClassUnknownTool | ClassMethodNotAllowed | ClassQuotaExhausted | ClassConcurrencyLimited

definition status_of :: "failure_class \<Rightarrow> int" where
  "status_of c =
     (case c of ClassUnauthenticated \<Rightarrow> 401 | ClassForbidden \<Rightarrow> 403 | ClassUnknownTool \<Rightarrow> 404 | ClassMethodNotAllowed \<Rightarrow> 405
      | ClassQuotaExhausted \<Rightarrow> 429 | ClassConcurrencyLimited \<Rightarrow> 429 | ClassInternal \<Rightarrow> 500)"

definition message_of :: "failure_class \<Rightarrow> string" where
  "message_of c =
     (case c of ClassUnauthenticated \<Rightarrow> ''authentication required'' | ClassForbidden \<Rightarrow> ''forbidden'' | ClassUnknownTool \<Rightarrow> ''unknown tool''
      | ClassMethodNotAllowed \<Rightarrow> ''method not allowed'' | ClassQuotaExhausted \<Rightarrow> ''quota exhausted''
      | ClassConcurrencyLimited \<Rightarrow> ''concurrency limited'' | ClassInternal \<Rightarrow> ''internal error'')"

text \<open>What \<open>errors.Is\<close> finds in the errors of the gateway.\<close>

definition failure_class_of :: "dispatch_error \<Rightarrow> failure_class" where
  "failure_class_of err =
     (case err of
        DSubjectBlocked \<Rightarrow> ClassForbidden
      | DForbidden \<Rightarrow> ClassForbidden
      | DSensitiveNotGranted \<Rightarrow> ClassForbidden
      | DUnknownTool \<Rightarrow> ClassUnknownTool
      | DQuotaExhausted _ _ \<Rightarrow> ClassQuotaExhausted
      | DConcurrencyLimited _ _ \<Rightarrow> ClassConcurrencyLimited
      | _ \<Rightarrow> ClassInternal)"

record texts =
  tx_quote :: "string \<Rightarrow> string"
  tx_stamp :: "gotime \<Rightarrow> string"
  tx_duration :: "int \<Rightarrow> string"

definition code_invalid_params :: int where "code_invalid_params = - 32602"
definition code_invalid_request :: int where "code_invalid_request = - 32600"
definition code_internal_error :: int where "code_internal_error = - 32603"

definition json_rpc_error :: "texts \<Rightarrow> failure_class \<Rightarrow> string \<Rightarrow> int \<times> string" where
  "json_rpc_error T class tool =
     (if class = ClassUnknownTool
      then (code_invalid_params, if tool \<noteq> [] then ''unknown tool '' @ tx_quote T tool else message_of ClassUnknownTool)
      else (if class \<in> {ClassUnauthenticated, ClassForbidden, ClassQuotaExhausted, ClassConcurrencyLimited} then code_invalid_request
            else code_internal_error, message_of class))"

definition not_your_request :: string where
  "not_your_request = ''This is not a problem with your request or its arguments: do not change them.''"

definition status_hint :: string where
  "status_hint = ''Call gatte.status for the current state of your backends.''"

definition until_phrase :: "texts \<Rightarrow> notice \<Rightarrow> string" where
  "until_phrase T n =
     (if is_zero (n_until n) then ''with no announced end''
      else if n_passed n then ''expected until '' @ tx_stamp T (n_until n) @ '' (that time has passed; the maintenance has not been ended yet)''
      else ''expected until '' @ tx_stamp T (n_until n))"

definition unavailable_text :: "texts \<Rightarrow> unavailable \<Rightarrow> string" where
  "unavailable_text T u =
     (let name = tx_quote T (ua_backend u)
      in if ua_state u = state_maintenance then
           (let m = (case ua_maintenance u of Some m \<Rightarrow> m
                     | None \<Rightarrow> \<lparr>n_message = [], n_since = ua_since u, n_until = zero_time, n_passed = False\<rparr>)
            in ''Gatte: the backend '' @ name @ '' is in planned maintenance since '' @ tx_stamp T (n_since m) @ '', '' @ until_phrase T m
               @ ''. Operator message: '' @ tx_quote T (n_message m) @ ''. '' @ not_your_request @ '' Retry after the maintenance, or tell the user. '' @ status_hint)
         else if ua_state u = state_down then
           ''Gatte: the backend '' @ name @ '' is unavailable since '' @ tx_stamp T (ua_since u) @ '' (''
           @ (if is_zero (ua_last_attempt u) then ''no reconnect attempt yet'' else ''last reconnect attempt '' @ tx_stamp T (ua_last_attempt u))
           @ ''). Gatte is not reconnecting it automatically; an operator has to act. '' @ not_your_request @ '' Tell the user. '' @ status_hint
         else
           ''Gatte: the backend '' @ name @ '' is unavailable since '' @ tx_stamp T (ua_since u) @ ''; Gatte is reconnecting it (''
           @ (if is_zero (ua_last_attempt u) then ''no reconnect attempt yet'' else ''last attempt '' @ tx_stamp T (ua_last_attempt u))
           @ (if is_zero (ua_next_attempt u) then [] else '', next attempt around '' @ tx_stamp T (ua_next_attempt u))
           @ ''). '' @ not_your_request @ '' Retry after the next attempt, or tell the user. '' @ status_hint)"

definition backend_failed_text :: "texts \<Rightarrow> string \<Rightarrow> string" where
  "backend_failed_text T backend =
     ''Gatte: the backend '' @ tx_quote T backend @ '' failed this call. Gatte does not forward the backend's error, so it cannot say why: it may be the backend or the request. If it repeats with a request you believe is correct, tell the user. In gatte.status, '' @ [CHR 0x22] @ ''up'' @ [CHR 0x22] @ '' only means Gatte is connected to the backend.''"

definition gateway_notice_text :: "texts \<Rightarrow> notice \<Rightarrow> string" where
  "gateway_notice_text T n =
     ''Gatte notice: the Gatte gateway is in planned maintenance since '' @ tx_stamp T (n_since n) @ '', '' @ until_phrase T n
     @ ''. Operator message: '' @ tx_quote T (n_message n) @ ''. Calls are still being served; if one fails as unavailable, call gatte.status.''"

definition duration_phrase :: "texts \<Rightarrow> int \<Rightarrow> string" where
  "duration_phrase T d =
     (if d \<ge> 3600000000000 \<and> d mod 3600000000000 = 0 then itoa_int (d div 3600000000000) @ ''h''
      else if d \<ge> 60000000000 \<and> d mod 60000000000 = 0 then itoa_int (d div 60000000000) @ ''m''
      else if d \<ge> 1000000000 \<and> d mod 1000000000 = 0 then itoa_int (d div 1000000000) @ ''s''
      else tx_duration T d)"

definition bytes_phrase :: "int \<Rightarrow> string" where
  "bytes_phrase n =
     (if n \<ge> 1048576 \<and> n mod 1048576 = 0 then itoa_int n @ '' bytes ('' @ itoa_int (n div 1048576) @ '' MiB)'' else itoa_int n @ '' bytes'')"

definition too_large_text :: "texts \<Rightarrow> string \<Rightarrow> int \<Rightarrow> string" where
  "too_large_text T tool limit =
     ''Gatte: the result of '' @ tx_quote T tool @ '' was larger than Gatte's limit of '' @ bytes_phrase limit @ '' for one result, so Gatte did not deliver any of it. The call itself did run at the backend. Narrow the request (fewer results, a shorter time range, fewer fields) and call again; do not repeat it unchanged. If the call changes something at the backend, that change has already happened.''"

definition timeout_text :: "texts \<Rightarrow> int \<Rightarrow> string \<Rightarrow> string" where
  "timeout_text T limit backend =
     ''Gatte: the backend '' @ tx_quote T backend @ '' did not answer this call within Gatte's limit of '' @ duration_phrase T limit @ '' for one call, so Gatte stopped waiting. This limit is Gatte's, not an error in your arguments, and the backend may still have run the call. A narrower request (a shorter time range, fewer results) may finish in time: retry once with it, and if that also times out, tell the user.''"

definition quota_text :: "texts \<Rightarrow> exhausted_error \<Rightarrow> string" where
  "quota_text T b =
     ''Gatte: your quota on the '' @ tx_quote T (ex_provider b) @ '' account is spent: it allows '' @ itoa_int (ex_limit b) @ '' call(s) per analyst every '' @ duration_phrase T (ex_window b)
     @ '', and this window resets at '' @ tx_stamp T (ex_resets b) @ ''. Do not retry this tool, or any tool that spends the same account, before then: every such call until the reset is refused the same way and spends nothing. Tell the user when it resets. Tools that do not spend this account keep working.''"

definition concurrency_text :: "int \<Rightarrow> string" where
  "concurrency_text limit =
     ''Gatte: you already have '' @ itoa_int limit @ '' calls in flight through Gatte, counting every session of yours, and '' @ itoa_int limit @ '' is the limit per analyst. This call was not run and spent no quota. Wait for one of your calls to finish, then retry this one with the same arguments.''"

definition pulled_text :: "texts \<Rightarrow> string \<Rightarrow> string" where
  "pulled_text T tool =
     ''Gatte: the tool '' @ tx_quote T tool @ '' was in your tool list but is no longer available to you. Do not retry it and do not try other names or spellings for it. Tell the user; if an operator makes it available again, reconnecting the Gatte server lists it again (in Claude Code: /mcp, then reconnect).''"

text \<open>The text an honest answer carries and the notice that goes with it; \<open>timeout\<close> is the configured limit of a call.\<close>

definition honest_text :: "texts \<Rightarrow> int \<Rightarrow> dispatch_error \<Rightarrow> (string \<times> notice option) option" where
  "honest_text T timeout err =
     (case err of
        DUnavailable u \<Rightarrow> Some (unavailable_text T u, ua_gateway u)
      | DGone u \<Rightarrow> Some (unavailable_text T u, ua_gateway u)
      | DBackendFailed backend n \<Rightarrow> Some (backend_failed_text T backend, n)
      | DResultTooLarge tool limit n \<Rightarrow> Some (too_large_text T tool limit, n)
      | DCallTimeout backend n \<Rightarrow> Some (timeout_text T timeout backend, n)
      | DQuotaExhausted b n \<Rightarrow> Some (quota_text T b, n)
      | DConcurrencyLimited limit n \<Rightarrow> Some (concurrency_text limit, n)
      | _ \<Rightarrow> None)"

definition notice_texts :: "texts \<Rightarrow> notice option \<Rightarrow> string list" where
  "notice_texts T n = (case n of None \<Rightarrow> [] | Some n \<Rightarrow> [gateway_notice_text T n])"

definition account_refused_text :: "texts \<Rightarrow> string \<Rightarrow> string" where
  "account_refused_text T contact =
     ''Gatte refuses requests from this account. Signing in again will not change that: ask the SOC operator.''
     @ (if contact = [] then [] else '' Contact: '' @ tx_quote T contact @ ''.'')"

definition msg_service_unavailable :: string where
  "msg_service_unavailable = ''Gatte is temporarily unable to serve tools. This is not a problem with your request; retry in a few minutes or tell the user.''"

end
