(* ===== verification/Front_Limits.thy ===== *)
theory Front_Limits
  imports Complex_Main Gotime "HOL-Library.AList"
begin

text \<open>
  Model of two memories the serving surface keeps, both bounded: \<open>internal/gateway/authlimit.go\<close>, which decides how many rejected requests reach the audit trail, and
  \<open>internal/gateway/httpapi/listed.go\<close>, which remembers what each analyst was shown. The floating-point arithmetic of the buckets is exact rational
  arithmetic followed by a rounding \<open>rnd\<close>, and the order in which Go ranges over a map is an argument.
\<close>

section \<open>Token buckets\<close>

definition auth_source_rate :: rat where "auth_source_rate = 5"
definition auth_source_burst :: rat where "auth_source_burst = 20"
definition auth_global_rate :: rat where "auth_global_rate = 50"
definition auth_global_burst :: rat where "auth_global_burst = 200"
definition auth_marker_window :: int where "auth_marker_window = 60000000000"
definition auth_max_sources :: nat where "auth_max_sources = 1024"

datatype auth_verdict = AuthAdmit | AuthMark | AuthDrop

record bucket =
  bk_tokens :: rat
  bk_last :: gotime
  bk_marker :: gotime
  bk_seen :: gotime

definition no_time :: gotime where "no_time = \<lparr>g_ns = 0, g_off = 0\<rparr>"

definition empty_bucket :: bucket where
  "empty_bucket = \<lparr>bk_tokens = 0, bk_last = no_time, bk_marker = no_time, bk_seen = no_time\<rparr>"

text \<open>\<open>Duration.Seconds\<close>, whose divisions truncate.\<close>

definition seconds :: "(rat \<Rightarrow> rat) \<Rightarrow> int \<Rightarrow> rat" where
  "seconds rnd d =
     (let m = \<bar>d\<bar>; s = (if d < 0 then - 1 else 1 :: int)
      in rnd (rnd (of_int (s * (m div 1000000000))) + rnd (rnd (of_int (s * (m mod 1000000000))) / 1000000000)))"

definition refill :: "(rat \<Rightarrow> rat) \<Rightarrow> gotime \<Rightarrow> rat \<Rightarrow> rat \<Rightarrow> bucket \<Rightarrow> rat" where
  "refill rnd now rate burst b =
     (if is_zero (bk_last b) then burst
      else let t = rnd (bk_tokens b + rnd (seconds rnd (sub_time now (bk_last b)) * rate)) in if burst < t then burst else t)"

definition take_token :: "(rat \<Rightarrow> rat) \<Rightarrow> gotime \<Rightarrow> rat \<Rightarrow> rat \<Rightarrow> bucket \<Rightarrow> bool \<times> bucket" where
  "take_token rnd now rate burst b =
     (let t = refill rnd now rate burst b; b' = b\<lparr>bk_tokens := t, bk_last := now, bk_seen := now\<rparr>
      in if t < 1 then (False, b') else (True, b'\<lparr>bk_tokens := rnd (t - 1)\<rparr>))"

section \<open>The ceiling on rejected requests\<close>

record auth_limiter =
  al_sources :: "(string \<times> bucket) list"
  al_global :: bucket
  al_global_marker :: gotime
  al_suppressed :: nat

definition new_auth_limiter :: auth_limiter where
  "new_auth_limiter = \<lparr>al_sources = [], al_global = empty_bucket, al_global_marker = no_time, al_suppressed = 0\<rparr>"

fun oldest_seen :: "string \<times> gotime \<Rightarrow> (string \<times> bucket) list \<Rightarrow> string" where
  "oldest_seen (victim, when) [] = victim"
| "oldest_seen (victim, when) ((source, b) # bs) =
     oldest_seen (if g_ns (bk_seen b) < g_ns when then (source, bk_seen b) else (victim, when)) bs"

text \<open>The oldest of the first eight entries the range yields; \<open>rng\<close> is its order.\<close>

definition evict :: "((string \<times> bucket) list \<Rightarrow> (string \<times> bucket) list) \<Rightarrow> auth_limiter \<Rightarrow> auth_limiter" where
  "evict rng l =
     (case take 8 (rng (al_sources l)) of
        [] \<Rightarrow> l
      | (source, b) # bs \<Rightarrow>
          (let victim = oldest_seen (source, bk_seen b) bs
           in if victim = [] then l else l\<lparr>al_sources := AList.delete victim (al_sources l)\<rparr>))"

definition source_allows ::
  "(rat \<Rightarrow> rat) \<Rightarrow> ((string \<times> bucket) list \<Rightarrow> (string \<times> bucket) list) \<Rightarrow> string \<Rightarrow> gotime \<Rightarrow> auth_limiter \<Rightarrow> bool \<times> auth_limiter" where
  "source_allows rnd rng source now l =
     (case map_of (al_sources l) source of
        Some b \<Rightarrow>
          (case take_token rnd now auth_source_rate auth_source_burst b of
             (ok, b') \<Rightarrow> (ok, l\<lparr>al_sources := AList.update source b' (al_sources l)\<rparr>))
      | None \<Rightarrow>
          (let l = (if length (al_sources l) \<ge> auth_max_sources then evict rng l else l)
           in if length (al_sources l) \<ge> auth_max_sources then (True, l)
              else case take_token rnd now auth_source_rate auth_source_burst empty_bucket of
                (ok, b') \<Rightarrow> (ok, l\<lparr>al_sources := AList.update source b' (al_sources l)\<rparr>)))"

definition mark_source :: "string \<Rightarrow> gotime \<Rightarrow> auth_limiter \<Rightarrow> bool \<times> auth_limiter" where
  "mark_source source now l =
     (case map_of (al_sources l) source of
        None \<Rightarrow> (False, l)
      | Some b \<Rightarrow>
          if \<not> is_zero (bk_marker b) \<and> sub_time now (bk_marker b) < auth_marker_window then (False, l)
          else (True, l\<lparr>al_sources := AList.update source (b\<lparr>bk_marker := now\<rparr>) (al_sources l)\<rparr>))"

definition mark_global :: "gotime \<Rightarrow> auth_limiter \<Rightarrow> bool \<times> auth_limiter" where
  "mark_global now l =
     (if \<not> is_zero (al_global_marker l) \<and> sub_time now (al_global_marker l) < auth_marker_window then (False, l)
      else (True, l\<lparr>al_global_marker := now\<rparr>))"

definition auth_classify ::
  "(rat \<Rightarrow> rat) \<Rightarrow> ((string \<times> bucket) list \<Rightarrow> (string \<times> bucket) list) \<Rightarrow> string \<Rightarrow> gotime \<Rightarrow> auth_limiter \<Rightarrow> auth_verdict \<times> auth_limiter" where
  "auth_classify rnd rng source now l =
     (case source_allows rnd rng source now l of
        (source_ok, l) \<Rightarrow>
          (let (global_ok, l) =
             (if source_ok then case take_token rnd now auth_global_rate auth_global_burst (al_global l) of (ok, b) \<Rightarrow> (ok, l\<lparr>al_global := b\<rparr>)
              else (False, l))
           in if global_ok then (AuthAdmit, l)
              else case (if \<not> source_ok then mark_source source now l else mark_global now l) of
                (True, l) \<Rightarrow> (AuthMark, l)
              | (False, l) \<Rightarrow> (AuthDrop, l\<lparr>al_suppressed := al_suppressed l + 1\<rparr>)))"

section \<open>What an analyst was shown\<close>

definition listed_retention :: int where "listed_retention = 7 * 24 * 3600000000000"
definition listed_max_subjects :: nat where "listed_max_subjects = 4096"

record subject_listing =
  sl_names :: "(string \<times> gotime) list"
  sl_last :: gotime

type_synonym listed = "(string \<times> subject_listing) list"

fun oldest_subject :: "string \<times> gotime \<Rightarrow> listed \<Rightarrow> string" where
  "oldest_subject (oldest, when) [] = oldest"
| "oldest_subject (oldest, when) ((subject, s) # ss) =
     oldest_subject (if oldest = [] \<or> g_ns (sl_last s) < g_ns when then (subject, sl_last s) else (oldest, when)) ss"

definition evict_oldest :: "(listed \<Rightarrow> listed) \<Rightarrow> listed \<Rightarrow> listed" where
  "evict_oldest rng l = AList.delete (oldest_subject ([], no_time) (rng l)) l"

definition remember :: "(listed \<Rightarrow> listed) \<Rightarrow> string \<Rightarrow> string list \<Rightarrow> gotime \<Rightarrow> listed \<Rightarrow> listed" where
  "remember rng subject names now l =
     (if subject = [] then l
      else
        let (s, l) = (case map_of l subject of
               Some s \<Rightarrow> (s, l)
             | None \<Rightarrow> (\<lparr>sl_names = [], sl_last = no_time\<rparr>, if length l \<ge> listed_max_subjects then evict_oldest rng l else l));
            kept = filter (\<lambda>(n, seen). sub_time now seen \<le> listed_retention) (sl_names s)
        in AList.update subject \<lparr>sl_names = foldl (\<lambda>m n. AList.update n now m) kept names, sl_last = now\<rparr> l)"

definition was_listed :: "listed \<Rightarrow> string \<Rightarrow> string \<Rightarrow> gotime \<Rightarrow> bool" where
  "was_listed l subject name now =
     (case map_of l subject of
        None \<Rightarrow> False
      | Some s \<Rightarrow> (case map_of (sl_names s) name of None \<Rightarrow> False | Some seen \<Rightarrow> sub_time now seen \<le> listed_retention))"

section \<open>The memories stay bounded\<close>

lemma length_update: "length (AList.update k v al) = (if map_of al k = None then Suc (length al) else length al)"
  by (induction al) auto

lemma evict_le: "length (al_sources (evict rng l)) \<le> length (al_sources l)"
  by (auto simp: evict_def Let_def length_delete_le split: list.splits)

lemma source_allows_bounded:
  assumes "length (al_sources l) \<le> auth_max_sources" "source_allows rnd rng source now l = (ok, l')"
  shows "length (al_sources l') \<le> auth_max_sources"
proof -
  let ?l = "if length (al_sources l) \<ge> auth_max_sources then evict rng l else l"
  have "length (AList.update source b (al_sources ?l)) \<le> auth_max_sources" if "length (al_sources ?l) < auth_max_sources" for b
    using that by (simp add: length_update del: not_less)
  with assms evict_le [of rng l] show ?thesis
    by (auto simp: source_allows_def Let_def length_update split: prod.splits if_splits option.splits)
qed

lemma mark_source_length: "mark_source source now l = (m, l') \<Longrightarrow> length (al_sources l') = length (al_sources l)"
  by (auto simp: mark_source_def length_update split: option.splits if_splits)

lemma mark_global_sources: "mark_global now l = (m, l') \<Longrightarrow> al_sources l' = al_sources l"
  by (auto simp: mark_global_def split: if_splits)

lemma auth_classify_bounded:
  assumes "length (al_sources l) \<le> auth_max_sources" "auth_classify rnd rng source now l = (v, l')"
  shows "length (al_sources l') \<le> auth_max_sources"
proof -
  obtain ok l1 where s: "source_allows rnd rng source now l = (ok, l1)" by fastforce
  note b = source_allows_bounded [OF assms(1) s]
  show ?thesis
    using assms(2) b by (auto simp: auth_classify_def s Let_def dest: mark_source_length mark_global_sources split: prod.splits if_splits bool.splits)
qed

definition key_ok :: "listed \<Rightarrow> bool" where
  "key_ok l \<longleftrightarrow> map_of l [] = None \<and> length l \<le> listed_max_subjects"

lemma oldest_subject_in:
  "map_of ss [] = None \<Longrightarrow> map_of ss (oldest_subject w ss) \<noteq> None \<or> oldest_subject w ss = fst w \<and> (fst w \<noteq> [] \<or> ss = [])"
proof (induction w ss rule: oldest_subject.induct)
  case (2 oldest t subject s ss)
  then show ?case by (auto split: if_splits)
qed simp

lemma delete_shorter: "map_of al k \<noteq> None \<Longrightarrow> length (AList.delete k al) < length al"
proof (induction al)
  case (Cons x al)
  then show ?case using length_delete_le [of k al] by (auto simp: less_Suc_eq_le)
qed simp

lemma map_of_same_set: "set xs = set ys \<Longrightarrow> map_of xs k = None \<longleftrightarrow> map_of ys k = None"
  by (simp add: map_of_eq_None_iff)

lemma evict_oldest_shorter:
  assumes "set (rng l) = set l" "map_of l [] = None" "l \<noteq> []"
  shows "length (evict_oldest rng l) < length l"
proof -
  have "rng l \<noteq> []" using assms by auto
  then have "map_of (rng l) (oldest_subject ([], no_time) (rng l)) \<noteq> None"
    using oldest_subject_in [of "rng l" "([], no_time)"] assms(2) map_of_same_set [OF assms(1)] by auto
  then show ?thesis unfolding evict_oldest_def map_of_same_set [OF assms(1)] by (rule delete_shorter)
qed

lemma remember_key_ok:
  assumes "key_ok l" "\<And>m. set (rng m) = set m"
  shows "key_ok (remember rng subject names now l)"
proof -
  have l: "length (evict_oldest rng l) < listed_max_subjects" if "length l \<ge> listed_max_subjects"
    proof -
    have "l \<noteq> []" using that by (auto simp: listed_max_subjects_def)
    with evict_oldest_shorter [of rng l, OF assms(2)] assms(1) show ?thesis by (auto simp: key_ok_def)
  qed
  have "map_of (evict_oldest rng l) [] = None" using assms(1) by (simp add: evict_oldest_def key_ok_def delete_conv')
  with assms(1) l show ?thesis
    by (auto simp: remember_def key_ok_def Let_def length_update update_conv' split: option.splits)
qed

section \<open>Only what was shown is remembered\<close>

type_synonym shown = "string \<times> string list \<times> gotime"

definition remember_all :: "(listed \<Rightarrow> listed) \<Rightarrow> shown list \<Rightarrow> listed" where
  "remember_all rng hs = foldl (\<lambda>l (subject, names, now). remember rng subject names now l) [] hs"

lemma remember_all_snoc: "remember_all rng (hs @ [(subject, names, now)]) = remember rng subject names now (remember_all rng hs)"
  by (simp add: remember_all_def)

definition backed :: "shown list \<Rightarrow> listed \<Rightarrow> bool" where
  "backed hs l \<longleftrightarrow> (\<forall>subject s n seen. map_of l subject = Some s \<longrightarrow> map_of (sl_names s) n = Some seen
     \<longrightarrow> (\<exists>names. (subject, names, seen) \<in> set hs \<and> n \<in> set names))"

lemma map_of_foldl_update: "map_of (foldl (\<lambda>m n. AList.update n v m) al ns) k = (if k \<in> set ns then Some v else map_of al k)"
  by (induction ns arbitrary: al) (auto simp: update_conv')

lemma distinct_map_filter_fst: "distinct (map fst al) \<Longrightarrow> distinct (map fst (filter P al))"
  by (induction al) auto

lemma map_of_filterD: "map_of (filter P al) k = Some v \<Longrightarrow> distinct (map fst al) \<Longrightarrow> map_of al k = Some v"
  by (auto dest!: map_of_SomeD)

definition names_distinct :: "listed \<Rightarrow> bool" where
  "names_distinct l \<longleftrightarrow> (\<forall>subject s. map_of l subject = Some s \<longrightarrow> distinct (map fst (sl_names s)))"

lemma distinct_foldl_update: "distinct (map fst al) \<Longrightarrow> distinct (map fst (foldl (\<lambda>m n. AList.update n v m) al ns))"
  by (induction ns arbitrary: al) (simp_all add: distinct_update)

lemma remember_lookup:
  assumes "map_of (remember rng subject names now l) k = Some s" "subject \<noteq> []"
  shows "if k = subject then \<exists>old. sl_names s = foldl (\<lambda>m n. AList.update n now m) (filter (\<lambda>(n, seen). sub_time now seen \<le> listed_retention) old) names
      \<and> (old = [] \<or> (\<exists>s0. map_of l subject = Some s0 \<and> old = sl_names s0))
    else map_of l k = Some s"
  using assms
  by (auto simp: remember_def Let_def update_conv' evict_oldest_def delete_conv' split: option.splits if_splits)

lemma remember_names_distinct:
  assumes "names_distinct l"
  shows "names_distinct (remember rng subject names now l)"
proof (cases "subject = []")
  case False
  show ?thesis unfolding names_distinct_def
  proof (intro allI impI)
    fix k s assume "map_of (remember rng subject names now l) k = Some s"
    from remember_lookup [OF this False] assms show "distinct (map fst (sl_names s))"
      by (auto simp: names_distinct_def split: if_splits intro!: distinct_foldl_update distinct_map_filter_fst)
  qed
qed (simp add: remember_def assms)

lemma remember_backed:
  assumes "backed hs l" "names_distinct l"
  shows "backed (hs @ [(subject, names, now)]) (remember rng subject names now l)"
proof (cases "subject = []")
  case True
  then show ?thesis using assms(1) by (fastforce simp: backed_def remember_def)
next
  case False
  show ?thesis unfolding backed_def
  proof (intro allI impI)
    fix k s n seen assume s: "map_of (remember rng subject names now l) k = Some s" and n: "map_of (sl_names s) n = Some seen"
    show "\<exists>names'. (k, names', seen) \<in> set (hs @ [(subject, names, now)]) \<and> n \<in> set names'"
    proof (cases "k = subject")
      case True
      then obtain old where old: "sl_names s = foldl (\<lambda>m n. AList.update n now m) (filter (\<lambda>(n, seen). sub_time now seen \<le> listed_retention) old) names"
        "old = [] \<or> (\<exists>s0. map_of l subject = Some s0 \<and> old = sl_names s0)" using remember_lookup [OF s False] by auto
      show ?thesis
      proof (cases "n \<in> set names")
        case False
        then have f: "map_of (filter (\<lambda>(n, seen). sub_time now seen \<le> listed_retention) old) n = Some seen"
          using n by (simp add: old(1) map_of_foldl_update)
        then obtain s0 where "map_of l subject = Some s0" "old = sl_names s0" using old(2) by auto
        moreover from this f have "map_of (sl_names s0) n = Some seen"
          using assms(2) map_of_filterD unfolding names_distinct_def by metis
        ultimately obtain names' where "(subject, names', seen) \<in> set hs" "n \<in> set names'"
          using assms(1) unfolding backed_def by blast
        then show ?thesis using True by auto
      qed (use n True in \<open>auto simp: old(1) map_of_foldl_update\<close>)
    next
      case False
      with remember_lookup [OF s \<open>subject \<noteq> []\<close>] n assms(1) show ?thesis by (auto simp: backed_def)
    qed
  qed
qed

lemma remember_all_ok:
  assumes "\<And>m. set (rng m) = set m"
  shows "key_ok (remember_all rng hs) \<and> names_distinct (remember_all rng hs) \<and> backed hs (remember_all rng hs)"
proof (induction hs rule: rev_induct)
  case Nil
  show ?case by (simp add: remember_all_def key_ok_def names_distinct_def backed_def)
next
  case (snoc h hs)
  obtain subject names now where h: "h = (subject, names, now)" by (cases h)
  show ?case unfolding h remember_all_snoc
    using snoc remember_key_ok [OF _ assms] remember_names_distinct remember_backed by blast
qed

text \<open>
  (invariant) the memory of what was shown is bounded and honest. After any history of listings it holds at most 4096 analysts, and it says of a name that an analyst was shown it only
  if one of that analyst's own listings had it, no more than seven days before.
\<close>
theorem listed_memory_sound:
  assumes "\<And>m. set (rng m) = set m"
  shows "length (remember_all rng hs) \<le> 4096
    \<and> (was_listed (remember_all rng hs) subject name now \<longrightarrow>
        (\<exists>names seen. (subject, names, seen) \<in> set hs \<and> name \<in> set names \<and> sub_time now seen \<le> listed_retention))"
  using remember_all_ok [of rng hs, OF assms]
  unfolding key_ok_def listed_max_subjects_def backed_def was_listed_def by (fastforce split: option.splits)

theorem listed_memory_sound_witness:
  "length (remember_all id [(''ana'', [''ti.lookup''], \<lparr>g_ns = 5, g_off = 0\<rparr>)]) \<le> 4096
   \<and> was_listed (remember_all id [(''ana'', [''ti.lookup''], \<lparr>g_ns = 5, g_off = 0\<rparr>)]) ''ana'' ''ti.lookup'' \<lparr>g_ns = 9, g_off = 0\<rparr>"
  using listed_memory_sound [of id "[(''ana'', [''ti.lookup''], \<lparr>g_ns = 5, g_off = 0\<rparr>)]"] 
  by (simp add: was_listed_def remember_all_def remember_def sub_time_def listed_retention_def listed_max_subjects_def)

section \<open>A flood of rejected requests is cut off\<close>

text \<open>
  What the buckets rely on of binary floating-point arithmetic: a result that is not negative is rounded to one that is not negative, and up by less than one part in \<open>2 ^ 53\<close> (or than \<open>2 ^ -53\<close>,
  far above the smallest representable number), as long as it is nowhere near an overflow.
\<close>

definition rounds :: "(rat \<Rightarrow> rat) \<Rightarrow> bool" where
  "rounds rnd \<longleftrightarrow> (\<forall>x. 0 \<le> x \<longrightarrow> x \<le> 2 ^ 64 \<longrightarrow> 0 \<le> rnd x \<and> rnd x \<le> x + (x + 1) / 2 ^ 53)"

lemma roundsD:
  assumes "rounds rnd" "0 \<le> x" "x \<le> 18446744073709551616"
  shows "0 \<le> rnd x" "9007199254740992 * rnd x \<le> 9007199254740993 * x + 1"
proof -
  have p: "(2 :: rat) ^ 64 = 18446744073709551616" "(2 :: rat) ^ 53 = 9007199254740992" by simp_all
  from assms have "0 \<le> rnd x" "rnd x \<le> x + (x + 1) / 9007199254740992" unfolding rounds_def p by blast+
  then show "0 \<le> rnd x" "9007199254740992 * rnd x \<le> 9007199254740993 * x + 1" by (simp_all add: divide_simps)
qed

definition in_seconds :: "int \<Rightarrow> rat" where
  "in_seconds d = of_int d / 1000000000"

lemma in_seconds_split:
  "in_seconds d = of_int (d div 1000000000) + of_int (d mod 1000000000) / 1000000000"
proof -
  have "(of_int d :: rat) = of_int (1000000000 * (d div 1000000000) + d mod 1000000000)" by simp
  also have "\<dots> = 1000000000 * of_int (d div 1000000000) + of_int (d mod 1000000000)" by (simp only: of_int_add of_int_mult of_int_numeral)
  finally show ?thesis unfolding in_seconds_def by linarith
qed

lemma of_int_le_numeral: "d \<le> numeral k \<Longrightarrow> (of_int d :: rat) \<le> numeral k"
  by (metis of_int_le_iff of_int_numeral)

lemma seconds_bound:
  assumes "rounds rnd" "0 \<le> d" "d \<le> 2 ^ 63"
  shows "0 \<le> seconds rnd d" "100000000000000 * seconds rnd d \<le> 100000000000001 * in_seconds d + 1"
proof -
  define s n :: rat where "s = of_int (d div 1000000000)" and "n = of_int (d mod 1000000000)"
  have x: "1000000000 * in_seconds d = 1000000000 * s + n" unfolding s_def n_def in_seconds_split by simp
  have "d div 1000000000 \<le> 2 ^ 63 div 1000000000" by (rule zdiv_mono1) (use assms(3) in auto)
  then have s: "0 \<le> s" "s \<le> 9223372036" using assms(2) unfolding s_def by (auto intro: of_int_le_numeral simp: pos_imp_zdiv_nonneg_iff)
  have n: "0 \<le> n" "n \<le> 1000000000" unfolding n_def by (auto intro!: of_int_le_numeral less_imp_le [OF pos_mod_bound])
  have "s \<le> 18446744073709551616" "n \<le> 18446744073709551616" using s n by linarith+
  note a = roundsD [OF assms(1) s(1) this(1)] and b = roundsD [OF assms(1) n(1) this(2)]
  define m where "m = rnd n / 1000000000"
  have m: "0 \<le> m" "1000000000 * m = rnd n" using b unfolding m_def by simp_all
  then have "m \<le> 2" using b n by linarith
  then have "m \<le> 18446744073709551616" by linarith
  note c = roundsD [OF assms(1) m(1) this]
  have "0 \<le> rnd s + rnd m" "rnd s + rnd m \<le> 18446744073709551616" using a c \<open>m \<le> 2\<close> s by linarith+
  note e = roundsD [OF assms(1) this]
  have v: "seconds rnd d = rnd (rnd s + rnd m)" using assms(2) by (simp add: seconds_def s_def n_def m_def Let_def)
  show "0 \<le> seconds rnd d" unfolding v by (rule e(1))
  show "100000000000000 * seconds rnd d \<le> 100000000000001 * in_seconds d + 1"
  proof -
    define y where "y = in_seconds d - s"
    have "n = 1000000000 * y" using x by (simp add: y_def algebra_simps)
    then have y: "0 \<le> y" "y \<le> 1" "n = 1000000000 * y" using n by auto
    have "1000000000000000 * rnd n \<le> 1000000000000000 * n + 1000000000" using b(2) n by linarith
    then have mm: "1000000000000000 * m \<le> 1000000000000000 * y + 1" using m(2) unfolding y(3) by linarith
    have "1000000000000000 * rnd m \<le> 1000000000000000 * m + 1" using c(2) \<open>m \<le> 2\<close> by linarith
    then have "1000000000000000 * rnd m \<le> 1000000000000000 * y + 2" using mm by linarith
    moreover have "1000000000000000 * rnd s \<le> 1000000000000001 * s + 1" using a(2) s by linarith
    moreover define w where "w = rnd s + rnd m"
    have "0 \<le> w" using a(1) c(1) by (simp add: w_def)
    then have "1000000000000000 * rnd w \<le> 1000000000000001 * w + 1" using e(2) unfolding w_def [symmetric] by linarith
    moreover note w_def
    ultimately have "1000000000000000 * rnd w \<le> 1000000000000005 * s + 1000000000000005 * y + 5"
      using s y(1,2) by linarith
    moreover have "in_seconds d = s + y" by (simp add: y_def)
    ultimately show ?thesis unfolding v w_def [symmetric] using s y(1) by linarith
  qed
qed

definition level :: "bucket \<Rightarrow> rat" where
  "level b = (if is_zero (bk_last b) then 200 else bk_tokens b)"

definition since_last :: "gotime \<Rightarrow> bucket \<Rightarrow> rat" where
  "since_last now b = (if is_zero (bk_last b) then 0 else in_seconds (sub_time now (bk_last b)))"

text \<open>\<open>until\<close> bounds the clock: the span of a duration is never exceeded.\<close>

definition bucket_ok :: "int \<Rightarrow> int \<Rightarrow> bucket \<Rightarrow> bool" where
  "bucket_ok t until b \<longleftrightarrow> is_zero (bk_last b)
     \<or> 0 \<le> bk_tokens b \<and> bk_tokens b \<le> 200 \<and> g_ns (bk_last b) \<le> t \<and> until \<le> g_ns (bk_last b) + 2 ^ 63"

lemma in_seconds_mono: "0 \<le> d \<Longrightarrow> 0 \<le> in_seconds d" "d \<le> 2 ^ 63 \<Longrightarrow> in_seconds d \<le> 10000000000"
proof -
  show "0 \<le> d \<Longrightarrow> 0 \<le> in_seconds d" by (simp add: in_seconds_def)
  assume "d \<le> 2 ^ 63"
  then have "d \<le> 10000000000000000000" by simp
  then have "(of_int d :: rat) \<le> 10000000000000000000" by (rule of_int_le_numeral)
  then show "in_seconds d \<le> 10000000000" by (simp add: in_seconds_def)
qed

lemma refill_bound:
  assumes "rounds rnd" "bucket_ok t until b" "t \<le> g_ns now" "g_ns now \<le> until"
  shows "0 \<le> refill rnd now 50 200 b" "refill rnd now 50 200 b \<le> 200"
    "1000000000000 * refill rnd now 50 200 b \<le> 1000000000000 * level b + 50000000000001 * since_last now b + 9 / 10"
proof -
  have all: "0 \<le> refill rnd now 50 200 b \<and> refill rnd now 50 200 b \<le> 200
    \<and> 1000000000000 * refill rnd now 50 200 b \<le> 1000000000000 * level b + 50000000000001 * since_last now b + 9 / 10"
  proof (cases "is_zero (bk_last b)")
    case True
    then show ?thesis by (simp add: refill_def level_def since_last_def)
  next
    case False
    define d k where "d = sub_time now (bk_last b)" and "k = bk_tokens b"
    have d: "0 \<le> d" "d \<le> 2 ^ 63" and k: "0 \<le> k" "k \<le> 200"
      using assms False by (auto simp: bucket_ok_def d_def k_def sub_time_def)
    define x s where "x = in_seconds d" and "s = seconds rnd d"
    have x: "0 \<le> x" "x \<le> 10000000000" unfolding x_def using in_seconds_mono d by auto
    have s: "0 \<le> s" "100000000000000 * s \<le> 100000000000001 * x + 1" unfolding s_def x_def using seconds_bound [OF assms(1) d] by auto
    then have "0 \<le> s * 50" "s * 50 \<le> 18446744073709551616" using x by linarith+
    note y = roundsD [OF assms(1) this]
    have y': "10000000000000 * rnd (s * 50) \<le> 500000000000006 * x + 7" using y(2) s x by linarith
    define w where "w = k + rnd (s * 50)"
    have w: "0 \<le> w" "w \<le> 18446744073709551616" using y(1) y' x k unfolding w_def by linarith+
    note z = roundsD [OF assms(1) w]
    have z': "10000000000000 * rnd w \<le> 10000000000000 * k + 500000000000010 * x + 8"
    proof -
      have "10000000000000000 * rnd w \<le> 10000000000000002 * w + 2" using z(2) w(1) by linarith
      then show ?thesis using y' k x w_def by linarith
    qed
    have r: "refill rnd now 50 200 b = (if 200 < rnd w then 200 else rnd w)"
      using False by (simp add: refill_def w_def s_def k_def d_def Let_def)
    have "level b = k" "since_last now b = x" using False by (simp_all add: level_def since_last_def k_def x_def d_def)
    then show ?thesis unfolding r using z(1) z' x by (auto split: if_splits)
  qed
  show "0 \<le> refill rnd now 50 200 b" "refill rnd now 50 200 b \<le> 200"
    "1000000000000 * refill rnd now 50 200 b \<le> 1000000000000 * level b + 50000000000001 * since_last now b + 9 / 10"
    using all by blast+
qed

lemma take_token_level:
  assumes "rounds rnd" "bucket_ok t until b" "t \<le> g_ns now" "g_ns now \<le> until" "until \<le> g_ns now + 2 ^ 63" "0 < g_ns now"
    "take_token rnd now 50 200 b = (ok, b')"
  shows "bucket_ok (g_ns now) until b'" "bk_last b' = now"
    "1000000000000 * (level b' + of_bool ok) \<le> 1000000000000 * level b + 50000000000001 * since_last now b + 1"
proof -
  define r where "r = refill rnd now 50 200 b"
  note r = refill_bound [OF assms(1-4), folded r_def]
  have now: "\<not> is_zero now" using assms(6) by (simp add: is_zero_def)
  have e: "(ok, b') = (if r < 1 then (False, b\<lparr>bk_tokens := r, bk_last := now, bk_seen := now\<rparr>)
      else (True, b\<lparr>bk_tokens := rnd (r - 1), bk_last := now, bk_seen := now\<rparr>))"
    using assms(7) by (auto simp: take_token_def r_def Let_def)
  show l: "bk_last b' = now" using e by (auto split: if_splits)
  show "bucket_ok (g_ns now) until b'"
    "1000000000000 * (level b' + of_bool ok) \<le> 1000000000000 * level b + 50000000000001 * since_last now b + 1"
  proof -
    have "0 \<le> bk_tokens b' \<and> bk_tokens b' \<le> 200 \<and> 1000000000000 * (bk_tokens b' + of_bool ok) \<le> 1000000000000 * r + 1 / 10"
    proof (cases "r < 1")
      case True
      with e r show ?thesis by auto
    next
      case False
      then have "0 \<le> r - 1" "r - 1 \<le> 18446744073709551616" using r by linarith+
      note z = roundsD [OF assms(1) this]
      have t: "bk_tokens b' = rnd (r - 1)" and ok: "ok" using e False by auto
      have "9007199254740992 * rnd (r - 1) \<le> 9007199254740993 * r - 9007199254740992" using z(2) by (simp add: algebra_simps)
      then have "rnd (r - 1) \<le> 200" "1000000000000 * rnd (r - 1) + 1000000000000 \<le> 1000000000000 * r + 1 / 10" using r(2) by linarith+
      with z(1) show ?thesis unfolding t using ok by (simp add: algebra_simps)
    qed
    moreover have "level b' = bk_tokens b'" using now by (simp add: level_def l)
    ultimately show "bucket_ok (g_ns now) until b'"
      "1000000000000 * (level b' + of_bool ok) \<le> 1000000000000 * level b + 50000000000001 * since_last now b + 1"
      using r(3) assms(5) by (auto simp: bucket_ok_def l)
  qed
qed

fun auth_run ::
  "(rat \<Rightarrow> rat) \<Rightarrow> ((string \<times> bucket) list \<Rightarrow> (string \<times> bucket) list) \<Rightarrow> auth_limiter \<Rightarrow> (string \<times> gotime) list \<Rightarrow> auth_verdict list \<times> auth_limiter" where
  "auth_run rnd rng l [] = ([], l)"
| "auth_run rnd rng l ((source, now) # es) =
     (case auth_classify rnd rng source now l of
        (v, l) \<Rightarrow> (case auth_run rnd rng l es of (vs, l) \<Rightarrow> (v # vs, l)))"

definition admitted :: "auth_verdict list \<Rightarrow> nat" where
  "admitted vs = length (filter (\<lambda>v. v = AuthAdmit) vs)"

lemma source_allows_global: "source_allows rnd rng source now l = (ok, l') \<Longrightarrow> al_global l' = al_global l"
  by (auto simp: source_allows_def evict_def Let_def split: option.splits prod.splits if_splits list.splits)

lemma marks_global: "mark_source source now l = (m, l') \<Longrightarrow> al_global l' = al_global l" "mark_global now l = (m, l') \<Longrightarrow> al_global l' = al_global l"
  by (auto simp: mark_source_def mark_global_def split: option.splits if_splits)

lemma auth_classify_global:
  assumes "auth_classify rnd rng source now l = (v, l')"
  shows "v \<noteq> AuthAdmit \<and> al_global l' = al_global l \<or> (\<exists>ok. take_token rnd now 50 200 (al_global l) = (ok, al_global l') \<and> (v = AuthAdmit \<longrightarrow> ok))"
proof -
  obtain sok l1 where s: "source_allows rnd rng source now l = (sok, l1)" by fastforce
  obtain ok b where t: "take_token rnd now 50 200 (al_global l) = (ok, b)" by fastforce
  show ?thesis
    using assms source_allows_global [OF s] t
    by (auto simp: auth_classify_def s Let_def auth_global_rate_def auth_global_burst_def dest: marks_global
        split: prod.splits if_splits bool.splits)
qed

text \<open>What the bucket may still admit up to a moment, in units of \<open>10 ^ -12\<close> tokens.\<close>

definition credit :: "bucket \<Rightarrow> int \<Rightarrow> rat" where
  "credit b t = 1000000000000 * level b + 50000000000001 * since_last \<lparr>g_ns = t, g_off = 0\<rparr> b"

lemma in_seconds_diff: "in_seconds (a - b) = in_seconds a - in_seconds b"
  by (simp add: in_seconds_def diff_divide_distrib)

lemma credit_later: "t \<le> t' \<Longrightarrow> credit b t' \<le> credit b t + 50000000000001 * in_seconds (t' - t)"
proof -
  assume "t \<le> t'"
  then have "0 \<le> in_seconds (t' - t)" by (intro in_seconds_mono) simp
  then show ?thesis by (simp add: credit_def since_last_def sub_time_def in_seconds_diff)
qed

lemma since_last_ns: "since_last \<lparr>g_ns = g_ns now, g_off = 0\<rparr> b = since_last now b"
  by (simp add: since_last_def sub_time_def)

lemma sorted_le_last: "sorted xs \<Longrightarrow> x \<in> set xs \<Longrightarrow> x \<le> last xs"
  by (induction xs) auto

lemma auth_run_bound:
  assumes "rounds rnd" "sorted (t # map (g_ns \<circ> snd) es)" "\<forall>e\<in>set es. g_ns (snd e) \<le> until" "0 < t" "t \<le> until" "until \<le> t + 2 ^ 63"
    "bucket_ok t until (al_global l)"
  shows "1000000000000 * of_nat (admitted (fst (auth_run rnd rng l es)))
    \<le> credit (al_global l) t + 50000000000001 * in_seconds (until - t) + of_nat (length es)"
  using assms(2-)
proof (induction es arbitrary: t l)
  case Nil
  have "0 \<le> level (al_global l)" using Nil.prems(6) by (auto simp: bucket_ok_def level_def)
  moreover have "0 \<le> since_last \<lparr>g_ns = t, g_off = 0\<rparr> (al_global l)"
    using Nil.prems(6) by (auto simp: bucket_ok_def since_last_def sub_time_def intro: in_seconds_mono)
  moreover have "0 \<le> in_seconds (until - t)" using Nil.prems by (intro in_seconds_mono) simp
  ultimately show ?case by (simp add: admitted_def credit_def)
next
  case (Cons e es)
  obtain source now where e: "e = (source, now)" by fastforce
  obtain v l' where c: "auth_classify rnd rng source now l = (v, l')" by fastforce
  have now: "t \<le> g_ns now" "g_ns now \<le> until" "sorted (g_ns now # map (g_ns \<circ> snd) es)" using Cons.prems by (auto simp: e comp_def)
  have count: "of_nat (admitted (fst (auth_run rnd rng l (e # es)))) = of_bool (v = AuthAdmit) + (of_nat (admitted (fst (auth_run rnd rng l' es))) :: rat)"
    by (simp add: e c admitted_def split: prod.splits)
  have len: "(of_nat (length (e # es)) :: rat) = of_nat (length es) + 1" by simp
  note later = credit_later [OF now(1), of "al_global l"]
  have split: "in_seconds (until - t) = in_seconds (until - g_ns now) + in_seconds (g_ns now - t)" by (simp add: in_seconds_diff)
  have ih: "1000000000000 * of_nat (admitted (fst (auth_run rnd rng l' es)))
      \<le> credit (al_global l') (g_ns now) + 50000000000001 * in_seconds (until - g_ns now) + of_nat (length es)"
    if "bucket_ok (g_ns now) until (al_global l')"
    using Cons.IH [of "g_ns now" l'] that now Cons.prems by (auto simp: e)
  from auth_classify_global [OF c] show ?case
  proof (elim disjE conjE exE)
    assume v: "v \<noteq> AuthAdmit" and g: "al_global l' = al_global l"
    have "bucket_ok (g_ns now) until (al_global l')" using Cons.prems(6) now(1) by (auto simp: bucket_ok_def g)
    from ih [OF this] later show ?thesis unfolding count len split using v by (simp add: g algebra_simps)
  next
    fix ok assume t: "take_token rnd now 50 200 (al_global l) = (ok, al_global l')" and v: "v = AuthAdmit \<longrightarrow> ok"
    note k = take_token_level [OF assms(1) Cons.prems(6) now(1,2) _ _ t]
    have p: "until \<le> g_ns now + 2 ^ 63" "0 < g_ns now" using Cons.prems now by auto
    have zero: "credit (al_global l') (g_ns now) = 1000000000000 * level (al_global l')"
      using k(2) [OF p] p(2) by (simp add: credit_def since_last_def sub_time_def in_seconds_def)
    have "(of_bool (v = AuthAdmit) :: rat) \<le> of_bool ok" using v by simp
    moreover have "1000000000000 * level (al_global l') + 1000000000000 * of_bool ok \<le> credit (al_global l) (g_ns now) + 1"
      using k(3) [OF p] by (simp add: credit_def since_last_ns algebra_simps)
    moreover note ih [OF k(1) [OF p], unfolded zero] later
    ultimately show ?thesis unfolding count len split distrib_left by linarith
  qed
qed

text \<open>
  C20 (bounds): a flood of rejected requests does not become a flood of rows. However many arrive, from however many addresses, over a clock that does not run backwards,
  the rows written for them one by one are at most 200 and 50 more for every second, up to a rounding error of a trillionth of a row for every request and every second; and no more than
  1024 addresses are ever tracked.
\<close>
theorem auth_flood_bound:
  assumes "rounds rnd" "sorted (map (g_ns \<circ> snd) (e # es))" "0 < g_ns (snd e)" "g_ns (snd (last (e # es))) = g_ns (snd e) + elapsed" "elapsed \<le> 2 ^ 63"
    "auth_run rnd rng new_auth_limiter (e # es) = (vs, l)"
  shows "of_nat (admitted vs) \<le> 200 + 50 * in_seconds elapsed + (in_seconds elapsed + of_nat (length (e # es))) / 10 ^ 12
    \<and> length (al_sources l) \<le> 1024"
proof
  let ?t = "g_ns (snd e)"
  let ?until = "?t + elapsed"
  have "\<forall>x\<in>set (e # es). g_ns (snd x) \<le> ?until"
  proof
    fix x assume "x \<in> set (e # es)"
    then have "g_ns (snd x) \<in> set (map (g_ns \<circ> snd) (e # es))" by force
    then have "g_ns (snd x) \<le> last (map (g_ns \<circ> snd) (e # es))" using sorted_le_last [OF assms(2)] by blast
    then show "g_ns (snd x) \<le> ?until" using assms(4) last_map [of "e # es" "g_ns \<circ> snd"] by simp
  qed
  moreover from this have "?t \<le> ?until" by simp
  moreover have "bucket_ok ?t ?until (al_global new_auth_limiter)" by (simp add: bucket_ok_def new_auth_limiter_def empty_bucket_def no_time_def is_zero_def)
  moreover have "sorted (?t # map (g_ns \<circ> snd) (e # es))" using assms(2) by auto
  ultimately have "1000000000000 * of_nat (admitted (fst (auth_run rnd rng new_auth_limiter (e # es))))
      \<le> credit (al_global new_auth_limiter) ?t + 50000000000001 * in_seconds (?until - ?t) + of_nat (length (e # es))"
    using assms(3,5) by (intro auth_run_bound [OF assms(1)]) auto
  moreover have "credit (al_global new_auth_limiter) ?t = 200000000000000"
    by (simp add: credit_def level_def since_last_def new_auth_limiter_def empty_bucket_def no_time_def is_zero_def)
  ultimately have k: "1000000000000 * of_nat (admitted vs) \<le> 200000000000000 + 50000000000001 * in_seconds elapsed + of_nat (length (e # es))"
    unfolding assms(6) by simp
  then show "of_nat (admitted vs) \<le> 200 + 50 * in_seconds elapsed + (in_seconds elapsed + of_nat (length (e # es))) / 10 ^ 12"
    by (simp add: field_simps)
next
  have "length (al_sources (snd (auth_run rnd rng m fs))) \<le> auth_max_sources" if "length (al_sources m) \<le> auth_max_sources" for m fs
    using that
  proof (induction fs arbitrary: m)
    case (Cons f fs)
    obtain source now where f: "f = (source, now)" by fastforce
    obtain v m' where c: "auth_classify rnd rng source now m = (v, m')" by fastforce
    show ?case using Cons.IH [OF auth_classify_bounded [OF Cons.prems c]] by (auto simp: f c split: prod.splits)
  qed simp
  from this [of new_auth_limiter "e # es"] show "length (al_sources l) \<le> 1024"
    unfolding assms(6) by (simp add: new_auth_limiter_def auth_max_sources_def)
qed

theorem auth_flood_bound_witness:
  "length (al_sources (snd (auth_run id id new_auth_limiter [(''a'', \<lparr>g_ns = 1, g_off = 0\<rparr>), (''b'', \<lparr>g_ns = 2, g_off = 0\<rparr>)]))) \<le> 1024"
proof -
  have "rounds id" by (simp add: rounds_def)
  from auth_flood_bound [OF this _ _ _ _ prod.collapse [symmetric], of "(''a'', \<lparr>g_ns = 1, g_off = 0\<rparr>)" "[(''b'', \<lparr>g_ns = 2, g_off = 0\<rparr>)]" 1 id]
  show ?thesis by simp
qed

end
