(* ===== verification/Serve.thy ===== *)
theory Serve
  imports Serve_Text Front_Limits
begin

text \<open>
  Model of the handlers of \<open>internal/gateway/httpapi\<close>: authentication, the listing a caller is offered, the calls it makes and \<open>gatte.status\<close>, with the operations of the gateway they rest on
  (\<open>RecordAuthFailure\<close>, \<open>RecordRefusedProbe\<close>, \<open>RecordPanic\<close>, \<open>GatteStatus\<close>). The token verifier and the protocol library (how it reads a request body, which tools it
  takes, how it renders a result) are arguments; log lines are left out.
\<close>

section \<open>Rows the serving surface asks for\<close>

definition reason_not_visible :: string where "reason_not_visible = ''not visible to caller''"
definition reason_auth_failed :: string where "reason_auth_failed = ''authentication failed''"
definition reason_auth_flood :: string where "reason_auth_flood = ''auth failures rate-limited''"

record front =
  fr_gw :: gw
  fr_limit :: auth_limiter
  fr_listed :: listed

text \<open>The arithmetic of the buckets and the orders in which the two maps are ranged over.\<close>

record machine =
  mc_round :: "rat \<Rightarrow> rat"
  mc_sources :: "(string \<times> bucket) list \<Rightarrow> (string \<times> bucket) list"
  mc_subjects :: "listed \<Rightarrow> listed"

datatype 'a served = Served 'a front | Crashed front

definition record_auth_failure :: "libs \<Rightarrow> machine \<Rightarrow> call_env \<Rightarrow> gotime \<Rightarrow> string \<Rightarrow> front \<Rightarrow> unit served" where
  "record_auth_failure L M e now source s =
     (case auth_classify (mc_round M) (mc_sources M) source now (fr_limit s) of
        (v, l) \<Rightarrow>
          (let s = s\<lparr>fr_limit := l\<rparr>
           in if v = AuthDrop then Served () s
              else if ce_panic e (PanicAudit ClockRefusal) then Crashed s
              else Served () (s\<lparr>fr_gw := snd (gw_record L e ClockRefusal
                \<lparr>c_identity = \<lparr>id_subject = unauthenticated_identity, id_name = [], id_groups = []\<rparr>, c_source = source\<rparr>
                authentication_tool gateway_itself outcome_denied (if v = AuthMark then reason_auth_flood else reason_auth_failed) (fr_gw s))\<rparr>)))"

definition record_refused_probe :: "libs \<Rightarrow> call_env \<Rightarrow> caller \<Rightarrow> string \<Rightarrow> gw \<Rightarrow> gw" where
  "record_refused_probe L e c name g =
     (let tool = (if trim_space name = [] then unnamed_tool else name)
      in audit_refusal L e ClockRefusal c tool (target_of tool) reason_not_visible g)"

definition record_request_panic :: "libs \<Rightarrow> call_env \<Rightarrow> caller \<Rightarrow> string \<Rightarrow> bool \<Rightarrow> gw \<Rightarrow> gw" where
  "record_request_panic L e c tool dispatched g =
     (if trim_space tool = [] then record_panic L e c request_tool gateway_itself dispatched g
      else record_panic L e c tool (target_of tool) dispatched g)"

section \<open>\<open>gatte.status\<close>\<close>

definition gatte_status_tool :: string where "gatte_status_tool = ''gatte.status''"

record standing_you =
  yu_name :: string
  yu_roles :: "string list"
  yu_budgets :: "standing list"

record status_report =
  rp_checked :: gotime
  rp_gateway :: "notice option"
  rp_backends :: "backend_status list"
  rp_you :: standing_you

definition caller_standing :: "libs \<Rightarrow> call_env \<Rightarrow> bool \<Rightarrow> caller \<Rightarrow> string list \<Rightarrow> gotime \<Rightarrow> gw \<Rightarrow> standing_you" where
  "caller_standing L e broken c tools now g =
     \<lparr>yu_name = id_name (c_identity c),
      yu_roles = sort (remdups (map r_name (roles_for (gw_policy g) (c_identity c)))),
      yu_budgets = fst (standing_of (gw_plan g)
        (Some (\<lambda>analyst cs. spent_by (lib_quota_layout L) broken analyst cs (gw_counters g))) (id_subject (c_identity c)) tools now)\<rparr>"

definition gatte_status :: "libs \<Rightarrow> call_env \<Rightarrow> bool \<Rightarrow> caller \<Rightarrow> string list \<Rightarrow> string list \<Rightarrow> gw \<Rightarrow> status_report step" where
  "gatte_status L e broken c backends tools g =
     step_bind (gw_check_block e (id_subject (c_identity c)) g)
       (\<lambda>err g. case err of
          Some err \<Rightarrow> refuse_blocked L e c gatte_status_tool gateway_itself err g
        | None \<Rightarrow>
            (if ce_panic e PanicMaintenance then Panicked g
             else let maint = fst (read_maintenance (ce_maintenance e)); now = ce_clock e ClockAvailability;
                      rep = \<lparr>rp_checked = now, rp_gateway = gateway_notice maint now,
                             rp_backends = List.map_filter (\<lambda>name. public_state name maint now (gw_fleet g)) (sort (remdups backends)),
                             rp_you = caller_standing L e broken c tools now g\<rparr>
                  in if ce_panic e (PanicAudit ClockAllowed) then Panicked g
                     else case gw_record L e ClockAllowed c gatte_status_tool gateway_itself outcome_allowed [] g of
                       (False, g) \<Rightarrow> Stop DUnauditable g
                     | (True, g) \<Rightarrow> Go rep g))"

section \<open>The tools a caller is offered\<close>

datatype verify_answer = Verified_as identity | Not_verified | Verify_crashed

text \<open>What the protocol library reads in a request body.\<close>

datatype rpc = ToolsCall string string | ToolsList | OtherMethod string

datatype 'r rpc_answer =
    RpcError int string
  | RpcResult 'r "string list"
  | RpcHonest string "string list"
  | RpcStatus status_report
  | RpcListing "tool_def list" bool
  | RpcUnknown string
  | RpcOther string

record 'r front_libs =
  hl_libs :: libs
  hl_machine :: machine
  hl_texts :: texts
  hl_verify :: "string \<Rightarrow> verify_answer"
  hl_split_host :: "string \<Rightarrow> string option"
  hl_read :: "string \<Rightarrow> rpc list"
  hl_object_type :: "string \<Rightarrow> string option"
  hl_takes :: "tool_def \<Rightarrow> bool"
  hl_takes_status :: bool
  hl_convert :: "call_result \<Rightarrow> 'r option"
  hl_timeout :: int
  hl_contact :: string
  hl_metadata :: "string list"

text \<open>The text is a JSON object whose \<open>type\<close> is the string \<open>object\<close>.\<close>

definition object_schema :: "'r front_libs \<Rightarrow> string \<Rightarrow> bool" where
  "object_schema H raw = (raw \<noteq> [] \<and> hl_object_type H raw = Some ''object'')"

fun register_tools :: "'r front_libs \<Rightarrow> tool_def list \<Rightarrow> tool_def list" where
  "register_tools H [] = []"
| "register_tools H (def # defs) =
     (if object_schema H (td_input def) \<and> hl_takes H def then def # register_tools H defs else register_tools H defs)"

definition backends_of :: "string list \<Rightarrow> string list" where
  "backends_of names =
     sort (remdups (List.map_filter (\<lambda>name. if name = gatte_status_tool then None else map_option fst (split_namespaced name)) names))"

definition listed_names :: "string list \<Rightarrow> string list" where
  "listed_names names = filter (\<lambda>name. name \<noteq> gatte_status_tool) names"

text \<open>The names a caller's server serves: its tools, and the built-in one when the library took it.\<close>

definition served_names :: "'r front_libs \<Rightarrow> tool_def list \<Rightarrow> string list" where
  "served_names H defs = map td_name defs @ (if hl_takes_status H then [gatte_status_tool] else [])"

section \<open>One call\<close>

definition pulled_error :: "texts \<Rightarrow> string \<Rightarrow> 'r rpc_answer" where
  "pulled_error T tool = RpcError code_invalid_params (pulled_text T tool)"

definition class_error :: "texts \<Rightarrow> failure_class \<Rightarrow> string \<Rightarrow> 'r rpc_answer" where
  "class_error T class tool = (case json_rpc_error T class tool of (code, msg) \<Rightarrow> RpcError code msg)"

definition reject_call :: "'r front_libs \<Rightarrow> gotime \<Rightarrow> identity \<Rightarrow> string \<Rightarrow> dispatch_error \<Rightarrow> listed \<Rightarrow> 'r rpc_answer" where
  "reject_call H now i tool err l =
     (if failure_class_of err = ClassUnknownTool \<and> was_listed l (id_subject i) tool now then pulled_error (hl_texts H) tool
      else class_error (hl_texts H) (failure_class_of err) tool)"

definition dispatch_tool :: "'r front_libs \<Rightarrow> call_env \<Rightarrow> gotime \<Rightarrow> caller \<Rightarrow> string \<Rightarrow> string \<Rightarrow> front \<Rightarrow> 'r rpc_answer \<times> front" where
  "dispatch_tool H e now c name args s =
     (case dispatch (hl_libs H) e c name args (fr_gw s) of
        (Inl err, g) \<Rightarrow>
          (case honest_text (hl_texts H) (hl_timeout H) err of
             Some (txt, n) \<Rightarrow> (RpcHonest txt (notice_texts (hl_texts H) n), s\<lparr>fr_gw := g\<rparr>)
           | None \<Rightarrow> (reject_call H now (c_identity c) name err (fr_listed s), s\<lparr>fr_gw := g\<rparr>))
      | (Inr (res, n), g) \<Rightarrow>
          (case hl_convert H res of
             None \<Rightarrow> (reject_call H now (c_identity c) name DInternal (fr_listed s), s\<lparr>fr_gw := g\<rparr>)
           | Some out \<Rightarrow> (RpcResult out (notice_texts (hl_texts H) n), s\<lparr>fr_gw := g\<rparr>)))"

definition gatte_status_handler ::
  "'r front_libs \<Rightarrow> call_env \<Rightarrow> bool \<Rightarrow> gotime \<Rightarrow> caller \<Rightarrow> string list \<Rightarrow> front \<Rightarrow> 'r rpc_answer \<times> front" where
  "gatte_status_handler H e broken now c names s =
     (case gatte_status (hl_libs H) e broken c (backends_of names) (sort (listed_names names)) (fr_gw s) of
        Go rep g \<Rightarrow> (RpcStatus rep, s\<lparr>fr_gw := g\<rparr>)
      | Stop err g \<Rightarrow> (reject_call H now (c_identity c) gatte_status_tool err (fr_listed s), s\<lparr>fr_gw := g\<rparr>)
      | Panicked g \<Rightarrow>
          (class_error (hl_texts H) ClassInternal gatte_status_tool,
           s\<lparr>fr_gw := record_request_panic (hl_libs H) e c gatte_status_tool False g\<rparr>))"

text \<open>The middleware around the library's own handling of a method. A name that was not offered is recorded, and answered by the library as unknown.\<close>

definition handle_rpc ::
  "'r front_libs \<Rightarrow> call_env \<Rightarrow> bool \<Rightarrow> gotime \<Rightarrow> caller \<Rightarrow> tool_def list \<Rightarrow> rpc \<Rightarrow> front \<Rightarrow> 'r rpc_answer \<times> front" where
  "handle_rpc H e broken now c defs m s =
     (case m of
        ToolsCall name args \<Rightarrow>
          (if name \<notin> set (served_names H defs) then
             (if ce_panic e (PanicAudit ClockRefusal)
              then (class_error (hl_texts H) ClassInternal name, s\<lparr>fr_gw := record_request_panic (hl_libs H) e c name False (fr_gw s)\<rparr>)
              else let s = s\<lparr>fr_gw := record_refused_probe (hl_libs H) e c name (fr_gw s)\<rparr>
                   in if was_listed (fr_listed s) (id_subject (c_identity c)) name now then (pulled_error (hl_texts H) name, s)
                      else (RpcUnknown name, s))
           else if name = gatte_status_tool \<and> hl_takes_status H then gatte_status_handler H e broken now c (map td_name defs) s
           else dispatch_tool H e now c name args s)
      | ToolsList \<Rightarrow>
          (RpcListing defs (hl_takes_status H),
           s\<lparr>fr_listed := remember (mc_subjects (hl_machine H)) (id_subject (c_identity c)) (listed_names (served_names H defs)) now (fr_listed s)\<rparr>)
      | OtherMethod name \<Rightarrow> (RpcOther name, s))"

section \<open>One request\<close>

record http_env =
  he_admit :: call_env
  he_list :: call_env
  he_call :: "nat \<Rightarrow> call_env"
  he_broken :: "nat \<Rightarrow> bool"
  he_now :: "nat \<Rightarrow> gotime"
  he_auth_now :: gotime

datatype 'r http_answer =
    Generic failure_class | AccountRefused string | ServiceUnavailable | Metadata | Answers "'r rpc_answer list"

fun handle_all ::
  "'r front_libs \<Rightarrow> http_env \<Rightarrow> string \<Rightarrow> nat \<Rightarrow> caller \<Rightarrow> tool_def list \<Rightarrow> rpc list \<Rightarrow> front \<Rightarrow> 'r rpc_answer list \<times> front" where
  "handle_all H E adm n c defs [] s = ([], s)"
| "handle_all H E adm n c defs (m # ms) s =
     (case handle_rpc H ((he_call E n)\<lparr>ce_admitted := Some adm\<rparr>) (he_broken E n) (he_now E n) c defs m s of
        (a, s) \<Rightarrow> (case handle_all H E adm (Suc n) c defs ms s of (as, s) \<Rightarrow> (a # as, s)))"

text \<open>Refused before the caller is known: the row, then the challenge. A panic there is answered and leaves no row.\<close>

definition reject_unauthenticated :: "'r front_libs \<Rightarrow> http_env \<Rightarrow> string \<Rightarrow> front \<Rightarrow> 'r http_answer \<times> front" where
  "reject_unauthenticated H E source s =
     (case record_auth_failure (hl_libs H) (hl_machine H) (he_admit E) (he_auth_now E) source s of
        Served _ s \<Rightarrow> (Generic ClassUnauthenticated, s)
      | Crashed s \<Rightarrow> (Generic ClassInternal, s))"

definition authenticate :: "'r front_libs \<Rightarrow> http_env \<Rightarrow> http_request \<Rightarrow> string \<Rightarrow> front \<Rightarrow> ('r http_answer + identity \<times> string) \<times> front" where
  "authenticate H E r source s =
     (case bearer_token (hr_authorization r) of
        None \<Rightarrow> (case reject_unauthenticated H E source s of (a, s) \<Rightarrow> (Inl a, s))
      | Some token \<Rightarrow>
          (case hl_verify H token of
             Verify_crashed \<Rightarrow> (Inl (Generic ClassInternal), s)
           | Not_verified \<Rightarrow> (case reject_unauthenticated H E source s of (a, s) \<Rightarrow> (Inl a, s))
           | Verified_as i \<Rightarrow>
               if trim_space (id_subject i) = [] then (case reject_unauthenticated H E source s of (a, s) \<Rightarrow> (Inl a, s))
               else
                 (case admit_caller (hl_libs H) (he_admit E) \<lparr>c_identity = i, c_source = source\<rparr> (fr_gw s) of
                    Go adm g \<Rightarrow> (Inr (i, adm), s\<lparr>fr_gw := g\<rparr>)
                  | Stop err g \<Rightarrow>
                      (Inl (if failure_class_of err = ClassForbidden then AccountRefused (account_refused_text (hl_texts H) (hl_contact H))
                            else Generic (failure_class_of err)), s\<lparr>fr_gw := g\<rparr>)
                  | Panicked g \<Rightarrow> (Inl (Generic ClassInternal), s\<lparr>fr_gw := g\<rparr>))))"

definition serve_http :: "'r front_libs \<Rightarrow> http_env \<Rightarrow> http_request \<Rightarrow> front \<Rightarrow> 'r http_answer \<times> front" where
  "serve_http H E r s =
     (if hr_path r \<in> set (hl_metadata H) then
        (if hr_method r = ''GET'' \<or> hr_method r = ''HEAD'' then (Metadata, s) else (Generic ClassMethodNotAllowed, s))
      else
        let source = source_address (hl_split_host H) r
        in case authenticate H E r source s of
          (Inl a, s) \<Rightarrow> (a, s)
        | (Inr (i, adm), s) \<Rightarrow>
            (let c = \<lparr>c_identity = i, c_source = source\<rparr>; e = (he_list E)\<lparr>ce_admitted := Some adm\<rparr>
             in case gw_list_tools e i (fr_gw s) of
               Go (Inl err) g \<Rightarrow> (ServiceUnavailable, s\<lparr>fr_gw := g\<rparr>)
             | Go (Inr tools) g \<Rightarrow>
                 (case handle_all H E adm 0 c (register_tools H tools) (hl_read H (hr_body r)) (s\<lparr>fr_gw := g\<rparr>) of
                    (as, s) \<Rightarrow> (Answers as, s))
             | Stop err g \<Rightarrow> (ServiceUnavailable, s\<lparr>fr_gw := g\<rparr>)
             | Panicked g \<Rightarrow> (Generic ClassInternal, s\<lparr>fr_gw := record_request_panic (hl_libs H) e c [] False g\<rparr>)))"

end
