(* ===== verification/Serve_Safety.thy ===== *)
theory Serve_Safety
  imports Serve Fleet_Rounds Dispatch_Safety
begin

text \<open>
  What a request can do. Whatever it presents, it changes of the gateway only what calls may change; a request without a verified credential adds at most one row; and
  every message that leaves for a backend is a call of the verified caller that the policy and the quarantine allow.
\<close>

section \<open>What every handler leaves alone\<close>

definition steady :: "gw \<Rightarrow> gw \<Rightarrow> bool" where
  "steady g g' \<longleftrightarrow> leaves g g' \<and> gw_policy g' = gw_policy g \<and> (slots_ok (gw_in_use g) \<longrightarrow> slots_ok (gw_in_use g'))"

lemma steady_refl [simp]: "steady g g"
  by (simp add: steady_def)

lemma steady_trans: "steady g g1 \<Longrightarrow> steady g1 g2 \<Longrightarrow> steady g g2"
  by (auto simp: steady_def intro: leaves_trans)

lemma quiet_steady: "quiet g g' \<Longrightarrow> steady g g'"
  by (simp add: steady_def quiet_leaves quiet_fields)

lemma gw_record_quiet: "quiet g (snd (gw_record L e k c tool upstream outcome reason g))"
  by (metis gw_record_spec(1) prod.collapse)

lemma audit_quiet:
  "quiet g (audit_refusal L e k c tool upstream reason g)" "quiet g (audit_failure L e k c tool upstream f g)"
  "quiet g (record_panic L e c tool upstream d g)"
  by (simp_all add: audit_refusal_def audit_failure_def record_panic_def gw_record_quiet)

lemma serve_rows_quiet:
  "quiet g (record_refused_probe L e c name g)" "quiet g (record_request_panic L e c tool d g)"
  by (simp_all add: record_refused_probe_def record_request_panic_def Let_def audit_quiet)

lemma refuse_quiet: "quiet g (step_state (refuse L e c tool upstream reason err g))"
  by (simp add: refuse_def audit_quiet)

lemma refuse_blocked_quiet: "quiet g (step_state (refuse_blocked L e c tool target err g))"
  by (simp add: refuse_blocked_def refuse_quiet)

lemma admit_caller_quiet: "quiet g (step_state (admit_caller L e c g))"
  by (auto simp: admit_caller_def gw_read_block_def refuse_blocked_quiet split: sum.splits bool.splits)

lemma admit_caller_Go:
  assumes "admit_caller L e c g = Go adm g'"
  shows "g' = g \<and> adm = id_subject (c_identity c) \<and> \<not> ce_ctx e CtxBlock
    \<and> blocked (ce_block_fault e) (ce_clock e ClockBlock) (id_subject (c_identity c)) (gw_blocks g) = Inr False"
  using assms by (auto simp: admit_caller_def gw_read_block_def split: sum.splits bool.splits if_splits)

lemma gatte_status_quiet: "quiet g (step_state (gatte_status L e broken c backends tools g))"
proof -
  have "quiet g (step_state (case gw_record L e ClockAllowed c t u oc rs g of (False, g) \<Rightarrow> Stop DUnauditable g | (True, g) \<Rightarrow> Go rep g))" for t u oc rs rep
    using gw_record_quiet [of g L e ClockAllowed c t u oc rs] by (auto split: prod.splits bool.splits)
  then show ?thesis
    using check_block_cases [of e c g] by (auto simp: gatte_status_def refuse_blocked_quiet Let_def)
qed

lemma gw_list_tools_state: "step_state (gw_list_tools e i g) = g"
  by (auto simp: gw_list_tools_def gw_check_block_def gw_read_block_def split: sum.splits bool.splits option.splits)

section \<open>What a call sends\<close>

text \<open>A message that leaves because of one of the calls \<open>ms\<close> of \<open>c\<close>, in a gateway as \<open>g\<close> is.\<close>

definition sanctioned_by :: "gw \<Rightarrow> caller \<Rightarrow> rpc list \<Rightarrow> conn \<times> string \<times> string \<Rightarrow> bool" where
  "sanctioned_by g c ms m \<longleftrightarrow>
     (\<exists>name args rt t. ToolsCall name args \<in> set ms \<and> snd m = (rt_original rt, args) \<and> map_of (gw_routes g) name = Some rt
        \<and> authorize (gw_policy g) (c_identity c) name
        \<and> row (gw_quarantine g) (rt_upstream rt) (rt_original rt) = Some t \<and> usable t)"

lemma sanctioned_by_steady: "steady g g' \<Longrightarrow> sanctioned_by g' c ms m \<Longrightarrow> set ms \<subseteq> set ms' \<Longrightarrow> sanctioned_by g c ms' m"
  unfolding sanctioned_by_def steady_def leaves_def by (metis subsetD)

lemma dispatch_policy:
  assumes "dispatch L e c tool args g = (res, g')" "routes_named g" "slots_ok (gw_in_use g)"
  shows "gw_policy g' = gw_policy g"
  using assms
proof (cases rule: dispatch_cases)
  case (refused err)
  then show ?thesis by (auto simp: refused_once_def quiet_fields)
next
  case (unrecorded rt up)
  then show ?thesis using quiet_fields [OF unrecorded(5)] by simp
next
  case panicked
  then show ?thesis using quiet_fields [OF audit_quiet(3)] by simp
next
  case (panicked_charged rt up)
  then show ?thesis using quiet_fields [OF audit_quiet(3)] by simp
next
  case (sent rt up n slots g1)
  let ?d = "deliver L e c tool args rt (Some up) n g1"
  have "gw_policy (step_state ?d) = gw_policy g1" using settles_fields(2) [OF deliver_settles [where up = "Some up" and g = g1]] by simp
  moreover have "gw_policy g' = gw_policy (free_slot c (step_state ?d))"
    using settles_fields(2) [OF conclude_state [of "free_slot c" ?d L e c tool True]] sent(4) by (metis snd_conv)
  moreover have "gw_policy g1 = gw_policy g" using settles_fields(2) [OF charged_Go(2) [OF sent(3)]] by simp
  ultimately show ?thesis by (simp add: free_slot_def)
qed

lemma dispatch_sends:
  assumes "dispatch L e c tool args g = (res, g')" "routes_named g" "slots_ok (gw_in_use g)"
  shows "steady g g' \<and> (gw_sent g' = gw_sent g \<or> (\<exists>m. gw_sent g' = gw_sent g @ [m] \<and> sanctioned_by g c [ToolsCall tool args] m))"
proof (intro conjI)
  show "steady g g'" using dispatch_leaves [OF assms] dispatch_policy [OF assms] by (simp add: steady_def)
  show "gw_sent g' = gw_sent g \<or> (\<exists>m. gw_sent g' = gw_sent g @ [m] \<and> sanctioned_by g c [ToolsCall tool args] m)"
  proof (cases "gw_sent g' = gw_sent g")
    case False
    obtain rt up n s g1 where d: "gates_open e c tool rt (Some up) g" "map_of (gw_routes g) tool = Some rt"
      "acquire (gw_max_calls g) (id_subject (c_identity c)) (gw_in_use g) = Some s"
      "charged L e c tool rt n (g\<lparr>gw_in_use := s\<rparr>) = Go () g1"
      "(res, g') = conclude L e c tool True (free_slot c) (deliver L e c tool args rt (Some up) n g1)"
      by (rule dispatch_sent_cases [OF assms False])
    obtain t where "get_tool (ce_quarantine_fault e) (rt_upstream rt) (rt_original rt) (gw_quarantine g) = Inr t" "usable t"
      using d(1) by (auto simp: gates_open_def admit_route_None)
    then have "row (gw_quarantine g) (rt_upstream rt) (rt_original rt) = Some t" "usable t" by (auto dest: get_tool_row)
    moreover have "authorize (gw_policy g) (c_identity c) tool" using d(1) by (simp add: gates_open_def)
    ultimately have "sanctioned_by g c [ToolsCall tool args] (up, rt_original rt, args)" using d(2) by (auto simp: sanctioned_by_def)
    with dispatch_sent_state(4) [OF d(3) assms(3) d(4,5)] show ?thesis by blast
  qed simp
qed

section \<open>What a request sends\<close>

definition ready :: "gw \<Rightarrow> bool" where
  "ready g \<longleftrightarrow> routes_named g \<and> slots_ok (gw_in_use g)"

lemma steady_ready: "steady g g' \<Longrightarrow> ready g \<Longrightarrow> ready g'"
  by (simp add: steady_def leaves_def ready_def routes_named_def)

text \<open>From \<open>g\<close> to \<open>g'\<close> nothing was sent but calls among \<open>ms\<close>.\<close>

definition carries :: "caller \<Rightarrow> rpc list \<Rightarrow> gw \<Rightarrow> gw \<Rightarrow> bool" where
  "carries c ms g g' \<longleftrightarrow> steady g g' \<and> (\<exists>new. gw_sent g' = gw_sent g @ new \<and> (\<forall>m\<in>set new. sanctioned_by g c ms m))"

lemma quiet_carries: "quiet g g' \<Longrightarrow> carries c ms g g'"
  using quiet_fields(10) [of g g'] by (auto simp: carries_def quiet_steady)

lemma carries_trans:
  assumes "carries c ms g g1" "carries c ms' g1 g2" "set ms \<subseteq> set ns" "set ms' \<subseteq> set ns"
  shows "carries c ns g g2"
proof -
  obtain new where n: "gw_sent g1 = gw_sent g @ new" "\<forall>m\<in>set new. sanctioned_by g c ms m" and s: "steady g g1"
    using assms(1) by (auto simp: carries_def)
  obtain new' where n': "gw_sent g2 = gw_sent g1 @ new'" "\<forall>m\<in>set new'. sanctioned_by g1 c ms' m" and s': "steady g1 g2"
    using assms(2) by (auto simp: carries_def)
  have "\<forall>m\<in>set (new @ new'). sanctioned_by g c ns m"
    using n(2) n'(2) sanctioned_by_steady [OF s _ assms(4)] sanctioned_by_steady [OF steady_refl _ assms(3)] by auto
  moreover have "gw_sent g2 = gw_sent g @ new @ new'" using n(1) n'(1) by simp
  ultimately show ?thesis using steady_trans [OF s s'] by (auto simp: carries_def)
qed

lemma dispatch_tool_carries:
  assumes "dispatch_tool H e now c name args s = (a, s')" "ready (fr_gw s)"
  shows "carries c [ToolsCall name args] (fr_gw s) (fr_gw s') \<and> fr_limit s' = fr_limit s \<and> fr_listed s' = fr_listed s"
proof -
  obtain res g' where d: "dispatch (hl_libs H) e c name args (fr_gw s) = (res, g')" by fastforce
  have "s' = s\<lparr>fr_gw := g'\<rparr>"
    using assms(1) by (auto simp: dispatch_tool_def d split: sum.splits option.splits prod.splits)
  moreover have "carries c [ToolsCall name args] (fr_gw s) g'"
    using dispatch_sends [OF d] assms(2) by (fastforce simp: ready_def carries_def)
  ultimately show ?thesis by simp
qed

lemma status_handler_carries:
  assumes "gatte_status_handler H e broken now c names s = (a, s')"
  shows "quiet (fr_gw s) (fr_gw s') \<and> fr_limit s' = fr_limit s \<and> fr_listed s' = fr_listed s"
proof -
  note q = gatte_status_quiet [of "fr_gw s" "hl_libs H" e broken c "backends_of names" "sort (listed_names names)"]
  show ?thesis
    using assms q quiet_trans [OF _ serve_rows_quiet(2)]
    by (auto simp: gatte_status_handler_def split: step.splits)
qed

lemma handle_rpc_carries:
  assumes "handle_rpc H e broken now c defs m s = (a, s')" "ready (fr_gw s)"
  shows "carries c [m] (fr_gw s) (fr_gw s') \<and> fr_limit s' = fr_limit s"
proof (cases m)
  case (ToolsCall name args)
  show ?thesis
  proof (cases "name \<in> set (served_names H defs)")
    case True
    then show ?thesis
      using assms ToolsCall dispatch_tool_carries [of H e now c name args s a s'] status_handler_carries [of H e broken now c "map td_name defs" s a s']
        quiet_carries by (auto simp: handle_rpc_def split: if_splits)
  next
    case False
    have "quiet (fr_gw s) (fr_gw s') \<and> fr_limit s' = fr_limit s"
      using assms(1) False serve_rows_quiet by (auto simp: handle_rpc_def ToolsCall Let_def split: if_splits)
    then show ?thesis using quiet_carries by blast
  qed
qed (use assms quiet_carries [OF quiet_refl] in \<open>auto simp: handle_rpc_def\<close>)

lemma handle_all_carries:
  "handle_all H E adm n c defs ms s = (as, s') \<Longrightarrow> ready (fr_gw s) \<Longrightarrow> carries c ms (fr_gw s) (fr_gw s')"
proof (induction ms arbitrary: n s as)
  case Nil
  then show ?case using quiet_carries [OF quiet_refl] by simp
next
  case (Cons m ms)
  obtain a s1 where h: "handle_rpc H ((he_call E n)\<lparr>ce_admitted := Some adm\<rparr>) (he_broken E n) (he_now E n) c defs m s = (a, s1)" by fastforce
  obtain as1 where r: "handle_all H E adm (Suc n) c defs ms s1 = (as1, s')"
    using Cons.prems(1) h by (auto split: prod.splits)
  have 1: "carries c [m] (fr_gw s) (fr_gw s1)" using handle_rpc_carries [OF h Cons.prems(2)] by blast
  then have "ready (fr_gw s1)" using steady_ready Cons.prems(2) by (auto simp: carries_def)
  from carries_trans [OF 1 Cons.IH [OF r this], of "m # ms"] show ?case by auto
qed

lemma reject_quiet:
  "reject_unauthenticated H E source s = (a, s') \<Longrightarrow> quiet (fr_gw s) (fr_gw s') \<and> fr_listed s' = fr_listed s
     \<and> (a = Generic ClassUnauthenticated \<or> a = Generic ClassInternal)"
  by (auto simp: reject_unauthenticated_def record_auth_failure_def Let_def gw_record_quiet split: served.splits prod.splits if_splits)

definition unverified :: "'r front_libs \<Rightarrow> http_request \<Rightarrow> bool" where
  "unverified H r \<longleftrightarrow>
     (case bearer_token (hr_authorization r) of
        None \<Rightarrow> True
      | Some token \<Rightarrow> (case hl_verify H token of Verified_as i \<Rightarrow> trim_space (id_subject i) = [] | _ \<Rightarrow> True))"

lemma authenticate_Inr:
  assumes "authenticate H E r source s = (Inr (i, adm), s')"
  shows "\<exists>token. bearer_token (hr_authorization r) = Some token \<and> hl_verify H token = Verified_as i" "trim_space (id_subject i) \<noteq> []" "s' = s"
    "adm = id_subject i" "\<not> ce_ctx (he_admit E) CtxBlock"
    "blocked (ce_block_fault (he_admit E)) (ce_clock (he_admit E) ClockBlock) (id_subject i) (gw_blocks (fr_gw s)) = Inr False"
  using assms
  by (auto simp: authenticate_def split: option.splits verify_answer.splits prod.splits if_splits step.splits dest!: admit_caller_Go)

lemma authenticate_Inl:
  assumes "authenticate H E r source s = (Inl a, s')"
  shows "quiet (fr_gw s) (fr_gw s')" "fr_listed s' = fr_listed s" "unverified H r \<Longrightarrow> a = Generic ClassUnauthenticated \<or> a = Generic ClassInternal"
proof -
  have q: "admit_caller L e c (fr_gw s) = Stop err g \<Longrightarrow> quiet (fr_gw s) g" "admit_caller L e c (fr_gw s) = Panicked g \<Longrightarrow> quiet (fr_gw s) g" for L e c err g
    using admit_caller_quiet [of "fr_gw s" L e c] by auto
  show "quiet (fr_gw s) (fr_gw s')" "fr_listed s' = fr_listed s" "unverified H r \<Longrightarrow> a = Generic ClassUnauthenticated \<or> a = Generic ClassInternal"
    using assms
    by (auto simp: authenticate_def unverified_def split: option.splits verify_answer.splits prod.splits if_splits step.splits dest!: reject_quiet dest: q)
qed

text \<open>The run of a request that is admitted and listed.\<close>

lemma serve_http_handled:
  assumes "hr_path r \<notin> set (hl_metadata H)" "bearer_token (hr_authorization r) = Some token" "hl_verify H token = Verified_as i" "trim_space (id_subject i) \<noteq> []"
    "\<not> ce_ctx (he_admit E) CtxBlock" "\<not> ce_panic (he_admit E) PanicBlock"
    "blocked (ce_block_fault (he_admit E)) (ce_clock (he_admit E) ClockBlock) (id_subject i) (gw_blocks (fr_gw s)) = Inr False"
    "gw_list_tools ((he_list E)\<lparr>ce_admitted := Some (id_subject i)\<rparr>) i (fr_gw s) = Go (Inr tools) g"
    "handle_all H E (id_subject i) 0 \<lparr>c_identity = i, c_source = source_address (hl_split_host H) r\<rparr> (register_tools H tools)
         (hl_read H (hr_body r)) s = (as, s')"
  shows "serve_http H E r s = (Answers as, s')"
proof -
  have "g = fr_gw s" using gw_list_tools_state [of "(he_list E)\<lparr>ce_admitted := Some (id_subject i)\<rparr>" i "fr_gw s"] assms(8) by simp
  moreover have "authenticate H E r (source_address (hl_split_host H) r) s = (Inr (i, id_subject i), s)"
    using assms(2-7) by (simp add: authenticate_def admit_caller_def gw_read_block_def)
  ultimately show ?thesis using assms(1,8,9) by (simp add: serve_http_def Let_def)
qed

lemma serve_http_cases:
  assumes "serve_http H E r s = (a, s')"
  obtains (quietly) "quiet (fr_gw s) (fr_gw s')" "fr_listed s' = fr_listed s"
  | (handled) token i tools as where "bearer_token (hr_authorization r) = Some token" "hl_verify H token = Verified_as i" "trim_space (id_subject i) \<noteq> []"
      "blocked (ce_block_fault (he_admit E)) (ce_clock (he_admit E) ClockBlock) (id_subject i) (gw_blocks (fr_gw s)) = Inr False"
      "gw_list_tools ((he_list E)\<lparr>ce_admitted := Some (id_subject i)\<rparr>) i (fr_gw s) = Go (Inr tools) (fr_gw s)"
      "handle_all H E (id_subject i) 0 \<lparr>c_identity = i, c_source = source_address (hl_split_host H) r\<rparr> (register_tools H tools)
         (hl_read H (hr_body r)) s = (as, s')" "a = Answers as"
proof (cases "hr_path r \<in> set (hl_metadata H)")
  case True
  with assms quietly show thesis by (auto simp: serve_http_def split: if_splits)
next
  case False
  define source where "source = source_address (hl_split_host H) r"
  obtain ans s1 where au: "authenticate H E r source s = (ans, s1)" by fastforce
  show thesis
  proof (cases ans)
    case (Inl a1)
    with assms False au authenticate_Inl [of H E r source s a1 s1] quietly show thesis
      by (auto simp: serve_http_def source_def Let_def)
  next
    case (Inr p)
    obtain i adm where p: "p = (i, adm)" by fastforce
    note f = authenticate_Inr [OF au [unfolded Inr p]]
    obtain token where tok: "bearer_token (hr_authorization r) = Some token" "hl_verify H token = Verified_as i" using f(1) by blast
    define e c where "e = (he_list E)\<lparr>ce_admitted := Some (id_subject i)\<rparr>" and "c = \<lparr>c_identity = i, c_source = source\<rparr>"
    note st = gw_list_tools_state [of e i "fr_gw s"]
    have run: "serve_http H E r s = (case gw_list_tools e i (fr_gw s) of
               Go (Inl err) g \<Rightarrow> (ServiceUnavailable, s\<lparr>fr_gw := g\<rparr>)
             | Go (Inr tools) g \<Rightarrow>
                 (case handle_all H E (id_subject i) 0 c (register_tools H tools) (hl_read H (hr_body r)) (s\<lparr>fr_gw := g\<rparr>) of
                    (as, s) \<Rightarrow> (Answers as, s))
             | Stop err g \<Rightarrow> (ServiceUnavailable, s\<lparr>fr_gw := g\<rparr>)
             | Panicked g \<Rightarrow> (Generic ClassInternal, s\<lparr>fr_gw := record_request_panic (hl_libs H) e c [] False g\<rparr>))"
      unfolding e_def c_def using False au Inr p f(3,4) by (simp add: serve_http_def source_def [symmetric] Let_def)
    show thesis
    proof (cases "gw_list_tools e i (fr_gw s)")
      case (Go x g)
      then have g: "g = fr_gw s" using st by simp
      show thesis
      proof (cases x)
        case (Inl err)
        with assms run Go g quietly show thesis by auto
      next
        case r: (Inr tools)
        obtain as s2 where h: "handle_all H E (id_subject i) 0 c (register_tools H tools) (hl_read H (hr_body r)) s = (as, s2)" by fastforce
        have "s\<lparr>fr_gw := fr_gw s\<rparr> = s" by simp
        with assms run Go g r h have "a = Answers as" and s2: "s2 = s'" by auto
        with handled [OF tok f(2,6) Go [unfolded e_def g r] h [unfolded c_def source_def s2]] show thesis by simp
      qed
    next
      case (Panicked g)
      then have "g = fr_gw s" using st by simp
      with assms run Panicked quietly serve_rows_quiet(2) show thesis by auto
    qed (use assms run quietly st in auto)
  qed
qed

lemma serve_http_carries:
  assumes "serve_http H E r s = (a, s')" "ready (fr_gw s)"
  shows "steady (fr_gw s) (fr_gw s')"
    and "gw_sent (fr_gw s') \<noteq> gw_sent (fr_gw s) \<Longrightarrow> \<exists>token i new. bearer_token (hr_authorization r) = Some token \<and> hl_verify H token = Verified_as i
      \<and> trim_space (id_subject i) \<noteq> []
      \<and> blocked (ce_block_fault (he_admit E)) (ce_clock (he_admit E) ClockBlock) (id_subject i) (gw_blocks (fr_gw s)) = Inr False
      \<and> gw_sent (fr_gw s') = gw_sent (fr_gw s) @ new
      \<and> (\<forall>m\<in>set new. sanctioned_by (fr_gw s) \<lparr>c_identity = i, c_source = source_address (hl_split_host H) r\<rparr> (hl_read H (hr_body r)) m)"
proof -
  have "steady (fr_gw s) (fr_gw s') \<and> (gw_sent (fr_gw s') \<noteq> gw_sent (fr_gw s) \<longrightarrow> (\<exists>token i new. bearer_token (hr_authorization r) = Some token \<and> hl_verify H token = Verified_as i
      \<and> trim_space (id_subject i) \<noteq> []
      \<and> blocked (ce_block_fault (he_admit E)) (ce_clock (he_admit E) ClockBlock) (id_subject i) (gw_blocks (fr_gw s)) = Inr False
      \<and> gw_sent (fr_gw s') = gw_sent (fr_gw s) @ new
      \<and> (\<forall>m\<in>set new. sanctioned_by (fr_gw s) \<lparr>c_identity = i, c_source = source_address (hl_split_host H) r\<rparr> (hl_read H (hr_body r)) m)))"
    using assms(1)
  proof (cases rule: serve_http_cases)
    case quietly
    then show ?thesis using quiet_steady quiet_fields(10) by blast
  next
    case (handled token i tools as)
    from handle_all_carries [OF handled(6) assms(2)] handled(1-4) show ?thesis unfolding carries_def by blast
  qed
  then show "steady (fr_gw s) (fr_gw s')"
    and "gw_sent (fr_gw s') \<noteq> gw_sent (fr_gw s) \<Longrightarrow> \<exists>token i new. bearer_token (hr_authorization r) = Some token \<and> hl_verify H token = Verified_as i
      \<and> trim_space (id_subject i) \<noteq> []
      \<and> blocked (ce_block_fault (he_admit E)) (ce_clock (he_admit E) ClockBlock) (id_subject i) (gw_blocks (fr_gw s)) = Inr False
      \<and> gw_sent (fr_gw s') = gw_sent (fr_gw s) @ new
      \<and> (\<forall>m\<in>set new. sanctioned_by (fr_gw s) \<lparr>c_identity = i, c_source = source_address (hl_split_host H) r\<rparr> (hl_read H (hr_body r)) m)"
    by blast+
qed

section \<open>Requests without a verified credential\<close>

definition auth_row :: "'r front_libs \<Rightarrow> http_env \<Rightarrow> string \<Rightarrow> string \<Rightarrow> string list" where
  "auth_row H E source reason =
     row_written (hl_libs H) (he_admit E) ClockRefusal \<lparr>c_identity = \<lparr>id_subject = unauthenticated_identity, id_name = [], id_groups = []\<rparr>, c_source = source\<rparr>
       authentication_tool gateway_itself outcome_denied reason"

lemma reject_rows:
  assumes "reject_unauthenticated H E source s = (a, s')"
  shows "trail_of (fr_gw s') = trail_of (fr_gw s)
    \<or> (\<exists>reason\<in>{reason_auth_failed, reason_auth_flood}. trail_of (fr_gw s') = trail_of (fr_gw s) @ [auth_row H E source reason])"
proof -
  obtain v l where v: "auth_classify (mc_round (hl_machine H)) (mc_sources (hl_machine H)) source (he_auth_now E) (fr_limit s) = (v, l)" by fastforce
  define reason where "reason = (if v = AuthMark then reason_auth_flood else reason_auth_failed)"
  obtain ok g where g: "gw_record (hl_libs H) (he_admit E) ClockRefusal
      \<lparr>c_identity = \<lparr>id_subject = unauthenticated_identity, id_name = [], id_groups = []\<rparr>, c_source = source\<rparr>
      authentication_tool gateway_itself outcome_denied reason (fr_gw s) = (ok, g)" by fastforce
  have "fr_gw s' = fr_gw s \<or> fr_gw s' = g"
    using assms g by (auto simp: reject_unauthenticated_def record_auth_failure_def v Let_def reason_def split: if_splits)
  moreover have "reason \<in> {reason_auth_failed, reason_auth_flood}" by (simp add: reason_def)
  ultimately show ?thesis using gw_record_spec(2) [OF g] by (cases ok) (auto simp: auth_row_def)
qed

text \<open>
  C14 (error): a request without a verified credential is inert. It is answered as unauthenticated (or, after a panic, with the generic error), it adds to the trail at most one row, which names nobody,
  and it changes nothing else of the gateway: no call, no slot, no budget, no route, and not the memory of what was shown.
\<close>
theorem unverified_request_inert:
  assumes "unverified H r" "hr_path r \<notin> set (hl_metadata H)" "serve_http H E r s = (a, s')"
  shows "(a = Generic ClassUnauthenticated \<or> a = Generic ClassInternal) \<and> quiet (fr_gw s) (fr_gw s') \<and> fr_listed s' = fr_listed s
    \<and> (trail_of (fr_gw s') = trail_of (fr_gw s)
       \<or> (\<exists>reason\<in>{reason_auth_failed, reason_auth_flood}.
            trail_of (fr_gw s') = trail_of (fr_gw s) @ [auth_row H E (source_address (hl_split_host H) r) reason]))"
proof -
  define source where "source = source_address (hl_split_host H) r"
  obtain ans s1 where au: "authenticate H E r source s = (ans, s1)" by fastforce
  have "\<exists>a. ans = Inl a"
    using authenticate_Inr(1,2) [of H E r source s] au assms(1) by (cases ans) (fastforce simp: unverified_def)+
  then obtain a1 where a1: "ans = Inl a1" by blast
  with assms(2,3) au have s: "a = a1" "s' = s1" by (auto simp: serve_http_def source_def Let_def)
  note f = authenticate_Inl [OF au [unfolded a1]]
  have "s1 = s \<or> reject_unauthenticated H E source s = (a1, s1)"
    using au a1 assms(1) by (auto simp: authenticate_def unverified_def split: option.splits verify_answer.splits prod.splits if_splits step.splits)
  then have "trail_of (fr_gw s1) = trail_of (fr_gw s)
    \<or> (\<exists>reason\<in>{reason_auth_failed, reason_auth_flood}. trail_of (fr_gw s1) = trail_of (fr_gw s) @ [auth_row H E source reason])"
    using reject_rows [of H E source s a1 s1] by auto
  with f assms(1) s show ?thesis by (auto simp: source_def)
qed

section \<open>What a caller can learn about names it was not offered\<close>

fun unoffered :: "string list \<Rightarrow> rpc \<Rightarrow> bool" where
  "unoffered names (ToolsCall name args) = (name \<notin> set names)"
| "unoffered names _ = False"

lemma handle_rpc_unoffered:
  assumes "unoffered (served_names H defs) m"
  shows "fst (handle_rpc H e broken now c defs m s) = fst (handle_rpc H e broken now c defs m (s\<lparr>fr_gw := g, fr_limit := l\<rparr>))"
    and "quiet (fr_gw s) (fr_gw (snd (handle_rpc H e broken now c defs m s)))" "fr_listed (snd (handle_rpc H e broken now c defs m s)) = fr_listed s"
  using assms serve_rows_quiet by (cases m, auto simp: handle_rpc_def Let_def)+

lemma handle_all_unoffered:
  assumes "list_all (unoffered (served_names H defs)) ms" "fr_listed s1 = fr_listed s2"
  shows "fst (handle_all H E adm n c defs ms s1) = fst (handle_all H E adm n c defs ms s2)
    \<and> quiet (fr_gw s1) (fr_gw (snd (handle_all H E adm n c defs ms s1)))"
  using assms
proof (induction ms arbitrary: n s1 s2)
  case (Cons m ms)
  define e where "e = (he_call E n)\<lparr>ce_admitted := Some adm\<rparr>"
  obtain a1 t1 where 1: "handle_rpc H e (he_broken E n) (he_now E n) c defs m s1 = (a1, t1)" by fastforce
  obtain a2 t2 where 2: "handle_rpc H e (he_broken E n) (he_now E n) c defs m s2 = (a2, t2)" by fastforce
  have m: "unoffered (served_names H defs) m" and ms: "list_all (unoffered (served_names H defs)) ms" using Cons.prems by simp_all
  have s2: "s2 = s1\<lparr>fr_gw := fr_gw s2, fr_limit := fr_limit s2\<rparr>" using Cons.prems by simp
  note h = handle_rpc_unoffered [OF m, where e = e and broken = "he_broken E n" and now = "he_now E n" and c = c]
  have a: "a1 = a2" using h(1) [where s = s1 and g = "fr_gw s2" and l = "fr_limit s2"] 1 2 s2 by (metis fst_conv)
  have t: "fr_listed t1 = fr_listed t2" "quiet (fr_gw s1) (fr_gw t1)" using h(2,3) [of s1] h(3) [of s2] 1 2 Cons.prems by simp_all
  note ih = Cons.IH [OF ms t(1), of "Suc n"]
  have "fst (handle_all H E adm n c defs (m # ms) s1) = a1 # fst (handle_all H E adm (Suc n) c defs ms t1)"
    "fst (handle_all H E adm n c defs (m # ms) s2) = a2 # fst (handle_all H E adm (Suc n) c defs ms t2)"
    "snd (handle_all H E adm n c defs (m # ms) s1) = snd (handle_all H E adm (Suc n) c defs ms t1)"
    using 1 2 by (simp_all add: e_def [symmetric] case_prod_beta)
  with ih a quiet_trans [OF t(2)] show ?case by simp
qed simp


section \<open>The memories of the surface\<close>

definition memory_ok :: "front \<Rightarrow> bool" where
  "memory_ok s \<longleftrightarrow> length (al_sources (fr_limit s)) \<le> auth_max_sources \<and> key_ok (fr_listed s)"

lemma handle_rpc_memory:
  assumes "handle_rpc H e broken now c defs m s = (a, s')" "memory_ok s" "\<And>l. set (mc_subjects (hl_machine H) l) = set l"
  shows "memory_ok s'"
proof (cases m)
  case (ToolsCall name args)
  have "fr_limit s' = fr_limit s \<and> fr_listed s' = fr_listed s"
    using assms(1) ToolsCall
    by (auto simp: handle_rpc_def dispatch_tool_def gatte_status_handler_def Let_def
        split: if_splits sum.splits option.splits prod.splits step.splits)
  with assms(2) show ?thesis by (simp add: memory_ok_def)
qed (use assms remember_key_ok in \<open>auto simp: handle_rpc_def memory_ok_def\<close>)

lemma handle_all_memory:
  "handle_all H E adm n c defs ms s = (as, s') \<Longrightarrow> memory_ok s \<Longrightarrow> (\<And>l. set (mc_subjects (hl_machine H) l) = set l) \<Longrightarrow> memory_ok s'"
proof (induction ms arbitrary: n s as)
  case (Cons m ms)
  obtain a s1 where h: "handle_rpc H ((he_call E n)\<lparr>ce_admitted := Some adm\<rparr>) (he_broken E n) (he_now E n) c defs m s = (a, s1)" by fastforce
  obtain as1 where r: "handle_all H E adm (Suc n) c defs ms s1 = (as1, s')" using Cons.prems(1) h by (auto split: prod.splits)
  show ?case by (rule Cons.IH [OF r handle_rpc_memory [OF h Cons.prems(2,3)] Cons.prems(3)])
qed simp

lemma reject_memory: "reject_unauthenticated H E source s = (a, s') \<Longrightarrow> memory_ok s \<Longrightarrow> memory_ok s'"
  by (auto simp: reject_unauthenticated_def record_auth_failure_def memory_ok_def Let_def split: served.splits prod.splits if_splits
      dest: auth_classify_bounded)

lemma serve_http_memory:
  assumes "serve_http H E r s = (a, s')" "memory_ok s" "\<And>l. set (mc_subjects (hl_machine H) l) = set l"
  shows "memory_ok s'"
proof -
  have gw: "memory_ok t \<Longrightarrow> memory_ok (t\<lparr>fr_gw := g\<rparr>)" for t g by (simp add: memory_ok_def)
  obtain ans s1 where au: "authenticate H E r (source_address (hl_split_host H) r) s = (ans, s1)" by fastforce
  have s1: "memory_ok s1"
    using au assms(2) gw
    by (auto simp: authenticate_def split: option.splits verify_answer.splits prod.splits if_splits step.splits dest: reject_memory)
  show ?thesis
    using assms(1,2) au s1 gw handle_all_memory [OF _ gw assms(3)]
    by (auto simp: serve_http_def Let_def split: if_splits sum.splits prod.splits step.splits)
qed

end
