(* ===== verification/Serve_Sample.thy ===== *)
theory Serve_Sample
  imports Serve_Safety
begin

text \<open>A serving surface over the sample gateway, on which the properties of requests are applied.\<close>

definition sample_texts :: texts where
  "sample_texts = \<lparr>tx_quote = (\<lambda>s. CHR 0x22 # s @ [CHR 0x22]), tx_stamp = (\<lambda>_. ''t''), tx_duration = (\<lambda>_. ''d'')\<rparr>"

definition sample_machine :: machine where
  "sample_machine = \<lparr>mc_round = id, mc_sources = id, mc_subjects = id\<rparr>"

definition sample_front_libs :: "call_result front_libs" where
  "sample_front_libs = \<lparr>hl_libs = sample_libs, hl_machine = sample_machine, hl_texts = sample_texts,
     hl_verify = (\<lambda>token. if token = ''abc'' then Verified_as (c_identity sample_caller) else Not_verified),
     hl_split_host = (\<lambda>_. None), hl_read = (\<lambda>body. [ToolsCall body ''{}'']), hl_object_type = (\<lambda>_. Some ''object''), hl_takes = (\<lambda>_. True),
     hl_takes_status = True, hl_convert = Some, hl_timeout = 30000000000, hl_contact = [], hl_metadata = [metadata_path]\<rparr>"

definition sample_http_env :: http_env where
  "sample_http_env = \<lparr>he_admit = sample_env, he_list = sample_env, he_call = (\<lambda>_. sample_env), he_broken = (\<lambda>_. False),
     he_now = (\<lambda>_. \<lparr>g_ns = 105, g_off = 0\<rparr>), he_auth_now = \<lparr>g_ns = 105, g_off = 0\<rparr>\<rparr>"

definition sample_request :: "string list \<Rightarrow> string \<Rightarrow> http_request" where
  "sample_request authorization body = \<lparr>hr_method = ''POST'', hr_path = ''/mcp'', hr_authorization = authorization, hr_forwarded = [],
     hr_remote = ''192.0.2.1'', hr_body = body\<rparr>"

definition sample_front :: front where
  "sample_front = \<lparr>fr_gw = sample_gw, fr_limit = new_auth_limiter, fr_listed = []\<rparr>"

lemma sample_unverified: "unverified sample_front_libs (sample_request [''Basic abc''] [])" "hr_path (sample_request [''Basic abc''] []) \<notin> set (hl_metadata sample_front_libs)"
  by code_simp+

theorem unverified_request_inert_witness:
  "gw_sent (fr_gw (snd (serve_http sample_front_libs sample_http_env (sample_request [''Basic abc''] []) sample_front))) = []"
  using unverified_request_inert [OF sample_unverified prod.collapse [symmetric], of sample_http_env sample_front] quiet_fields(10)
  by (fastforce simp: sample_front_def sample_gw_def)

text \<open>The same gateway with one more tool, which no role of the caller grants.\<close>

definition sample_more :: front where
  "sample_more = sample_front\<lparr>fr_gw := sample_gw\<lparr>gw_routes := (''edr.isolate'', sample_route\<lparr>rt_upstream := ''edr'', rt_original := ''isolate''\<rparr>) # gw_routes sample_gw\<rparr>\<rparr>"

definition sample_listing :: "tool_def list" where
  "sample_listing = [\<lparr>td_name = ''threatintel.lookup_ip'', td_description = ''d'', td_input = ''{}'', td_output = [], td_class = []\<rparr>]"

definition lists_sample :: "front \<Rightarrow> bool" where
  "lists_sample s =
     (case gw_list_tools ((he_list sample_http_env)\<lparr>ce_admitted := Some (id_subject (c_identity sample_caller))\<rparr>) (c_identity sample_caller) (fr_gw s) of
        Go (Inr tools) _ \<Rightarrow> tools = sample_listing | _ \<Rightarrow> False)"

lemma lists_sample: "lists_sample sample_front" "lists_sample sample_more"
  by code_simp+

lemma sample_lists:
  assumes "s = sample_front \<or> s = sample_more"
  shows "gw_list_tools ((he_list sample_http_env)\<lparr>ce_admitted := Some (id_subject (c_identity sample_caller))\<rparr>) (c_identity sample_caller) (fr_gw s)
    = Go (Inr sample_listing) (fr_gw s)"
proof -
  have "lists_sample s" using assms lists_sample by blast
  then show ?thesis
    using gw_list_tools_state [of "(he_list sample_http_env)\<lparr>ce_admitted := Some (id_subject (c_identity sample_caller))\<rparr>" "c_identity sample_caller" "fr_gw s"]
    by (auto simp: lists_sample_def split: step.splits sum.splits)
qed

lemma sample_admits:
  assumes "s = sample_front \<or> s = sample_more"
    "handle_all sample_front_libs sample_http_env (id_subject (c_identity sample_caller)) 0
      \<lparr>c_identity = c_identity sample_caller, c_source = source_address (hl_split_host sample_front_libs) (sample_request [''Bearer abc''] body)\<rparr>
      (register_tools sample_front_libs sample_listing) (hl_read sample_front_libs (hr_body (sample_request [''Bearer abc''] body))) s = (as, s')"
  shows "serve_http sample_front_libs sample_http_env (sample_request [''Bearer abc''] body) s = (Answers as, s')"
proof (rule serve_http_handled [OF _ _ _ _ _ _ _ sample_lists [OF assms(1)] assms(2)])
  show "bearer_token (hr_authorization (sample_request [''Bearer abc''] body)) = Some ''abc''" unfolding sample_request_def http_request.simps by code_simp
  show "hr_path (sample_request [''Bearer abc''] body) \<notin> set (hl_metadata sample_front_libs)"
    unfolding sample_request_def http_request.simps sample_front_libs_def front_libs.simps by code_simp
  have "gw_blocks (fr_gw s) = sample_bstore" using assms(1) by (auto simp: sample_front_def sample_more_def sample_gw_def)
  then show "blocked (ce_block_fault (he_admit sample_http_env)) (ce_clock (he_admit sample_http_env) ClockBlock) (id_subject (c_identity sample_caller))
      (gw_blocks (fr_gw s)) = Inr False" using sample_gates(1) by (simp add: sample_http_env_def sample_env_def sample_caller_def)
  show "trim_space (id_subject (c_identity sample_caller)) \<noteq> []" by code_simp
qed (simp_all add: sample_front_libs_def sample_http_env_def sample_env_def)

lemma sample_bearer: "bearer_token (hr_authorization (sample_request [''Bearer abc''] body)) = Some ''abc''"
  "hl_verify sample_front_libs ''abc'' = Verified_as (c_identity sample_caller)"
  unfolding sample_request_def http_request.simps by (code_simp, simp add: sample_front_libs_def)


end
