(* ===== verification/Verifier.thy ===== *)
theory Verifier
  imports Rest_Ops Blocklist
begin

text \<open>
  Model of \<open>internal/access/oidc\<close>: what is asked of a bearer token besides its signature, the identity read from it, what a rejection writes to the log, and the ceiling on
  fetching the issuer's keys. The OpenID Connect library is the record \<open>oidc_lib\<close>: discovery, the verification of a compact token under a configuration, and the decoded claims.
\<close>

section \<open>The verifier\<close>

definition default_groups_claim :: string where "default_groups_claim = ''groups''"

definition allowed_signing_algs :: "string list" where
  "allowed_signing_algs = [''RS256'', ''RS384'', ''RS512'', ''ES256'', ''ES384'', ''ES512'', ''PS256'', ''PS384'', ''PS512'', ''EdDSA'']"

record oidc_config =
  oc_issuer :: string
  oc_audience :: string
  oc_groups_claim :: string
  oc_algs :: "string list"

record verifier =
  vf_issuer :: string
  vf_audience :: string
  vf_algs :: "string list"
  vf_groups_claim :: string

record id_token =
  it_subject :: string
  it_claims :: "string + (string \<times> json) list"

record oidc_lib =
  ol_discover :: "string \<Rightarrow> bool"
  ol_verify :: "verifier \<Rightarrow> string \<Rightarrow> string + id_token"
  ol_quote :: "string \<Rightarrow> string"

datatype verifier_problem = NoIssuer | NoAudience | SymmetricAlg string | NoDiscovery

definition new_verifier :: "oidc_lib \<Rightarrow> oidc_config \<Rightarrow> verifier_problem + verifier" where
  "new_verifier K cfg =
     (let issuer = trim_space (oc_issuer cfg); audience = trim_space (oc_audience cfg);
          claim = trim_space (oc_groups_claim cfg);
          algs = (if oc_algs cfg = [] then allowed_signing_algs else oc_algs cfg)
      in if issuer = [] then Inl NoIssuer
         else if audience = [] then Inl NoAudience
         else case find (\<lambda>alg. alg \<notin> set allowed_signing_algs) algs of
           Some alg \<Rightarrow> Inl (SymmetricAlg alg)
         | None \<Rightarrow>
             if \<not> ol_discover K issuer then Inl NoDiscovery
             else Inr \<lparr>vf_issuer = issuer, vf_audience = audience, vf_algs = algs,
                       vf_groups_claim = (if claim = [] then default_groups_claim else claim)\<rparr>)"

section \<open>One token\<close>

definition jws_char :: "char \<Rightarrow> bool" where
  "jws_char c = (is_alnum c \<or> c = CHR ''-'' \<or> c = CHR ''_'')"

definition is_compact_jws :: "string \<Rightarrow> bool" where
  "is_compact_jws raw =
     (let parts = split_on (CHR ''.'') raw in length parts = 3 \<and> list_all (\<lambda>part. part \<noteq> [] \<and> list_all jws_char part) parts)"

text \<open>\<open>strings.ReplaceAll\<close> of a text that is not empty.\<close>

function replace_all :: "string \<Rightarrow> string \<Rightarrow> string \<Rightarrow> string" where
  "replace_all old new [] = []"
| "replace_all old new (c # s) =
     (if old \<noteq> [] \<and> has_prefix (c # s) old then new @ replace_all old new (drop (length old) (c # s)) else c # replace_all old new s)"
  by pat_completeness auto
termination
  by (relation "measure (\<lambda>(old, new, s). length s)") (auto simp: length_greater_0_conv [symmetric] simp del: length_greater_0_conv)

definition scrub_token :: "string \<Rightarrow> string \<Rightarrow> string" where
  "scrub_token detail raw =
     (if raw = [] then detail
      else foldl (\<lambda>d segment. if 8 \<le> length segment then replace_all segment redacted d else d)
             (replace_all raw redacted detail) (split_on (CHR ''.'') raw))"

definition group_names :: "json list \<Rightarrow> string list" where
  "group_names elements =
     List.map_filter (\<lambda>element. case element of JString s \<Rightarrow> (let g = trim_space s in if g = [] then None else Some g) | _ \<Rightarrow> None) elements"

definition groups_from :: "string \<Rightarrow> (string \<times> json) list \<Rightarrow> string list" where
  "groups_from claim claims = (case map_of claims claim of Some (JArray elements) \<Rightarrow> group_names elements | _ \<Rightarrow> [])"

definition claimed_text :: "(string \<times> json) list \<Rightarrow> string \<Rightarrow> string option" where
  "claimed_text claims claim =
     (case map_of claims claim of Some (JString s) \<Rightarrow> (let t = trim_space s in if t = [] then None else Some t) | _ \<Rightarrow> None)"

definition display_name_of :: "(string \<times> json) list \<Rightarrow> string \<Rightarrow> string" where
  "display_name_of claims subject =
     (case first_some (claimed_text claims) [''name'', ''preferred_username''] of Some s \<Rightarrow> s | None \<Rightarrow> subject)"

definition subject_problem_text :: "(string \<Rightarrow> string) \<Rightarrow> block_problem \<Rightarrow> string" where
  "subject_problem_text quoted p =
     ''access: invalid block: subject '' @
     (case p of
        SubjectEmpty \<Rightarrow> ''must not be empty''
      | SubjectSpaced s \<Rightarrow> quoted s @ '' has leading or trailing whitespace''
      | SubjectLong \<Rightarrow> ''is longer than 256 bytes''
      | SubjectControl s \<Rightarrow> quoted s @ '' contains a control character''
      | SubjectFormat s \<Rightarrow> quoted s @ '' contains an invisible format character''
      | _ \<Rightarrow> [])"

record rejection =
  rj_reason :: string
  rj_detail :: "string option"

definition reject_token :: "string \<Rightarrow> string option \<Rightarrow> string \<Rightarrow> rejection" where
  "reject_token reason cause raw = \<lparr>rj_reason = reason, rj_detail = map_option (\<lambda>d. scrub_token d raw) cause\<rparr>"

definition verify_token :: "(nat \<Rightarrow> bool) \<Rightarrow> oidc_lib \<Rightarrow> verifier \<Rightarrow> string \<Rightarrow> rejection + identity" where
  "verify_token cf K v raw =
     (if trim_space raw = [] then Inl (reject_token ''empty bearer token'' None raw)
      else if \<not> is_compact_jws raw then Inl (reject_token ''token is not a compact-serialised JWS'' None raw)
      else case ol_verify K v raw of
        Inl err \<Rightarrow> Inl (reject_token ''token failed OIDC verification'' (Some err) raw)
      | Inr tok \<Rightarrow>
          (case it_claims tok of
             Inl err \<Rightarrow> Inl (reject_token ''token payload is not a JSON object'' (Some err) raw)
           | Inr claims \<Rightarrow>
               if trim_space (it_subject tok) = [] then Inl (reject_token ''token has no sub claim'' None raw)
               else case validate_subject cf (it_subject tok) of
                 Some p \<Rightarrow> Inl (reject_token ''token sub cannot be named by the blocklist'' (Some (subject_problem_text (ol_quote K) p)) raw)
               | None \<Rightarrow>
                   Inr \<lparr>id_subject = it_subject tok, id_name = display_name_of claims (it_subject tok),
                        id_groups = groups_from (vf_groups_claim v) claims\<rparr>))"

section \<open>Fetching the issuer's keys\<close>

definition jwks_refetch_interval :: int where "jwks_refetch_interval = 30000000000"

text \<open>A fetch that follows a redirect passes; \<open>before\<close> is the instant of the last other one that passed. The answer says whether the request goes out.\<close>

definition round_trip :: "bool \<Rightarrow> gotime \<Rightarrow> gotime \<Rightarrow> bool \<times> gotime" where
  "round_trip redirected now before =
     (if redirected then (True, before)
      else if \<not> is_zero before \<and> sub_time now before < jwks_refetch_interval then (False, before)
      else (True, now))"

text \<open>The instants of the fetches that went out, redirects apart.\<close>

fun fetches :: "gotime \<Rightarrow> (bool \<times> gotime) list \<Rightarrow> gotime list" where
  "fetches before [] = []"
| "fetches before ((redirected, now) # rs) =
     (case round_trip redirected now before of
        (passed, before') \<Rightarrow> (if passed \<and> \<not> redirected then [now] else []) @ fetches before' rs)"

section \<open>What the log is told\<close>

lemma sublist_around:
  assumes "c \<notin> set w" "w \<noteq> []" "sublist w (xs @ c # ys)"
  shows "sublist w xs \<or> sublist w ys"
proof -
  obtain ps ss where w: "xs @ c # ys = ps @ w @ ss" using assms(3) by (auto simp: sublist_def)
  then consider us where "xs = ps @ us" "us @ c # ys = w @ ss" | us where "ps = xs @ us" "c # ys = us @ w @ ss"
    by (auto simp: append_eq_append_conv2)
  then show ?thesis
  proof cases
    case 1
    then obtain vs where "us = w @ vs \<or> w = us @ vs \<and> c # ys = vs @ ss" by (auto simp: append_eq_append_conv2)
    then consider "us = w @ vs" | "w = us @ vs" "c # ys = vs @ ss" by blast
    then show ?thesis
    proof cases
      case 2
      then show ?thesis using assms(1) 1(1) by (cases vs) auto
    qed (use 1 in auto)
  next
    case 2
    then have "sublist w ys" using assms(1,2) by (cases us; cases w) (auto intro: sublist_appendI [where xs = "_ # _", simplified])
    then show ?thesis ..
  qed
qed

lemma redacted_parts: "redacted = CHR ''['' # ''redacted'' @ [CHR '']'']"
  by (simp add: redacted_def)

lemma prefix_replaced:
  "prefix w (replace_all old redacted s) \<Longrightarrow> CHR ''['' \<notin> set w \<Longrightarrow> prefix w s"
proof (induction old redacted s arbitrary: w rule: replace_all.induct)
  case (2 old c s)
  show ?case
  proof (cases "old \<noteq> [] \<and> has_prefix (c # s) old")
    case True
    then show ?thesis using 2 by (cases w) (auto simp: redacted_parts)
  next
    case False
    then show ?thesis using 2 by (cases w) auto
  qed
qed simp

definition plain :: "string \<Rightarrow> bool" where
  "plain w \<longleftrightarrow> w \<noteq> [] \<and> CHR ''['' \<notin> set w \<and> CHR '']'' \<notin> set w \<and> \<not> sublist w ''redacted''"

lemma sublist_replaced:
  "sublist w (replace_all old redacted s) \<Longrightarrow> plain w \<Longrightarrow> sublist w s \<and> w \<noteq> old"
proof (induction old redacted s rule: replace_all.induct)
  case (1 old)
  then show ?case by (simp add: plain_def)
next
  case (2 old c s)
  show ?case
  proof (cases "old \<noteq> [] \<and> has_prefix (c # s) old")
    case True
    then have "sublist w (CHR ''['' # ''redacted'' @ CHR '']'' # replace_all old redacted (drop (length old) (c # s)))"
      using 2(3) by (simp add: redacted_parts)
    then have "sublist w (''redacted'' @ CHR '']'' # replace_all old redacted (drop (length old) (c # s)))"
      using 2(4) sublist_around [of "CHR ''[''" w "[]"] by (auto simp: plain_def)
    then have "sublist w (replace_all old redacted (drop (length old) (c # s)))"
      using 2(4) sublist_around [of "CHR '']''" w "''redacted''"] by (auto simp: plain_def)
    with 2(1) [OF True _ 2(4)] show ?thesis by (meson sublist_drop sublist_order.order.trans)
  next
    case False
    then have "replace_all old redacted (c # s) = c # replace_all old redacted s" by (simp only: replace_all.simps if_False)
    then have "prefix w (c # replace_all old redacted s) \<or> sublist w (replace_all old redacted s)"
      using 2(3) by (simp add: sublist_Cons_right)
    then show ?thesis
    proof
      assume p: "prefix w (c # replace_all old redacted s)"
      then obtain w' where w': "w = c # w'" "prefix w' (replace_all old redacted s)" using 2(4) by (cases w) (auto simp: plain_def)
      then have "prefix w (c # s)" using prefix_replaced [of w' old s] 2(4) by (simp add: plain_def)
      moreover have "w \<noteq> old" using False calculation 2(4) by (auto simp: has_prefix_iff prefix_def plain_def)
      ultimately show ?thesis by (simp add: prefix_imp_sublist)
    next
      assume "sublist w (replace_all old redacted s)"
      with 2(2) [OF False _ 2(4)] show ?thesis by (simp add: sublist_Cons_right)
    qed
  qed
qed

lemma scrubbed_segments:
  fixes segs :: "string list"
  defines "step \<equiv> \<lambda>d segment. if 8 \<le> length segment then replace_all segment redacted d else d"
  assumes "sublist w (foldl step d segs)" "plain w"
  shows "sublist w d \<and> (8 \<le> length w \<longrightarrow> w \<notin> set segs)"
  using assms(2)
proof (induction segs arbitrary: d)
  case (Cons x xs)
  then have "sublist w (step d x) \<and> (8 \<le> length w \<longrightarrow> w \<notin> set xs)" by simp
  then show ?case using sublist_replaced [OF _ assms(3), of x d] by (auto simp: step_def split: if_splits)
qed simp

lemma jws_plain_chars: "jws_char c \<Longrightarrow> c \<noteq> CHR ''['' \<and> c \<noteq> CHR '']'' \<and> c \<noteq> CHR ''.''"
  by (auto simp: jws_char_def is_alnum_def less_eq_char_def)

lemma split_on_set: "z \<in> set xs \<Longrightarrow> z \<noteq> x \<Longrightarrow> \<exists>seg\<in>set (split_on x xs). z \<in> set seg"
  by (induction xs) (auto split: list.splits)

lemma compact_chars:
  assumes "is_compact_jws raw"
  shows "CHR ''['' \<notin> set raw" "CHR '']'' \<notin> set raw" "CHR ''.'' \<in> set raw" "raw \<noteq> []"
    "seg \<in> set (split_on (CHR ''.'') raw) \<Longrightarrow> seg \<noteq> [] \<and> list_all jws_char seg"
proof -
  show segs: "seg \<in> set (split_on (CHR ''.'') raw) \<Longrightarrow> seg \<noteq> [] \<and> list_all jws_char seg" for seg
    using assms by (auto simp: is_compact_jws_def Let_def)
  show "CHR ''['' \<notin> set raw" "CHR '']'' \<notin> set raw"
    using split_on_set [of "CHR ''[''" raw "CHR ''.''"] split_on_set [of "CHR '']''" raw "CHR ''.''"] segs jws_plain_chars by fastforce+
  have "CHR ''.'' \<notin> set raw \<Longrightarrow> split_on (CHR ''.'') raw = [raw]" using split_on_append [of "CHR ''.''" raw "[]"] by simp
  then show dot: "CHR ''.'' \<in> set raw" using assms by (fastforce simp: is_compact_jws_def Let_def)
  then show "raw \<noteq> []" by auto
qed

text \<open>
  C24 (safety): a rejected token does not reach the log. Whatever the library says about a token it was given, the line written about the rejection contains neither the token nor any of
  its three segments of eight bytes or more, the word the scrub itself writes apart.
\<close>
theorem rejection_hides_token:
  assumes "verify_token cf K v raw = Inl rej" "rj_detail rej = Some detail"
  shows "\<not> sublist raw detail
    \<and> (\<forall>segment \<in> set (split_on (CHR ''.'') raw). 8 \<le> length segment \<longrightarrow> segment \<noteq> ''redacted'' \<longrightarrow> \<not> sublist segment detail)"
proof -
  obtain d where d: "is_compact_jws raw" "detail = scrub_token d raw"
    using assms by (auto simp: verify_token_def reject_token_def split: if_splits sum.splits option.splits)
  note cc = compact_chars [OF d(1)]
  have body: "sublist w detail \<Longrightarrow> plain w \<Longrightarrow> w \<noteq> raw \<and> (8 \<le> length w \<longrightarrow> w \<notin> set (split_on (CHR ''.'') raw))" for w
    using scrubbed_segments [of w "replace_all raw redacted d" "split_on (CHR ''.'') raw"] sublist_replaced [of w raw d] cc(4)
    unfolding d(2) scrub_token_def by simp
  have "CHR ''.'' \<notin> set ''redacted''" by simp
  then have "\<not> sublist raw ''redacted''" using cc(3) set_mono_sublist by blast
  then have "plain raw" using cc(1,2,4) by (simp add: plain_def)
  moreover have "plain seg" if "seg \<in> set (split_on (CHR ''.'') raw)" "8 \<le> length seg" "seg \<noteq> ''redacted''" for seg
  proof -
    have "\<not> sublist seg ''redacted''"
    proof
      assume "sublist seg ''redacted''"
      then obtain ps ss where "''redacted'' = ps @ seg @ ss" by (auto simp: sublist_def)
      moreover from this have "length (ps @ seg @ ss) = length ''redacted''" by (rule arg_cong [where f = length, symmetric])
      then have "length ps + (length seg + length ss) = 8" by simp
      with that(2) have "length ps = 0" "length ss = 0" by linarith+
      ultimately show False using that(3) by simp
    qed
    then show ?thesis using cc(5) [OF that(1)] jws_plain_chars by (auto simp: plain_def)
  qed
  ultimately show ?thesis using body by blast
qed

section \<open>Who is let in\<close>

lemma verify_token_Inr:
  assumes "verify_token cf K v raw = Inr i"
  shows "is_compact_jws raw" "validate_subject cf (id_subject i) = None" "trim_space (id_subject i) \<noteq> []"
    "\<exists>tok claims. ol_verify K v raw = Inr tok \<and> it_claims tok = Inr claims \<and> id_subject i = it_subject tok
       \<and> id_groups i = groups_from (vf_groups_claim v) claims"
  using assms by (auto simp: verify_token_def split: if_splits sum.splits option.splits)

lemma new_verifier_Inr:
  assumes "new_verifier K cfg = Inr v"
  shows "set (vf_algs v) \<subseteq> set allowed_signing_algs" "vf_algs v \<noteq> []" "vf_audience v = trim_space (oc_audience cfg)" "vf_audience v \<noteq> []"
    "vf_issuer v \<noteq> []" "vf_groups_claim v \<noteq> []"
  using assms
  by (auto simp: new_verifier_def Let_def allowed_signing_algs_def default_groups_claim_def find_None_iff split: if_splits option.splits)

lemma fetches_apart:
  assumes "list_all (\<lambda>(redirected, now). \<not> is_zero now) rs"
  shows "sorted_wrt (\<lambda>t u. jwks_refetch_interval \<le> sub_time u t) (fetches before rs)
    \<and> (\<not> is_zero before \<longrightarrow> (\<forall>t\<in>set (fetches before rs). jwks_refetch_interval \<le> sub_time t before))"
  using assms
proof (induction before rs rule: fetches.induct)
  case (2 before redirected now rs)
  show ?case
  proof (cases "redirected \<or> (\<not> is_zero before \<and> sub_time now before < jwks_refetch_interval)")
    case True
    then show ?thesis using 2 by (auto simp: round_trip_def)
  next
    case False
    then have rt: "round_trip redirected now before = (True, now)" by (auto simp: round_trip_def)
    have ih: "sorted_wrt (\<lambda>t u. jwks_refetch_interval \<le> sub_time u t) (fetches now rs)"
      "\<forall>t\<in>set (fetches now rs). jwks_refetch_interval \<le> sub_time t now"
      using 2(1) [OF rt [symmetric]] 2(2) by auto
    moreover have "0 \<le> jwks_refetch_interval" by (simp add: jwks_refetch_interval_def)
    ultimately show ?thesis using rt False by (auto simp: sub_time_def)
  qed
qed simp

text \<open>
  (bounds) however often tokens name an unknown key, two fetches of the issuer's keys that are not redirects are at least thirty seconds apart.
\<close>
theorem jwks_fetches_spaced:
  assumes "list_all (\<lambda>(redirected, now). \<not> is_zero now) rs"
  shows "sorted_wrt (\<lambda>t u. jwks_refetch_interval \<le> sub_time u t) (fetches before rs)"
  using fetches_apart [OF assms] by blast

section \<open>Samples\<close>

definition sample_oidc :: oidc_lib where
  "sample_oidc = \<lparr>ol_discover = (\<lambda>_. True),
     ol_verify = (\<lambda>_ raw. if raw = ''head.payload.signature'' then Inr \<lparr>it_subject = ''ana'',
         it_claims = Inr [(''name'', JString ''Ana''), (''groups'', JArray [JString '' soc '', JNull])]\<rparr>
       else Inl (''malformed '' @ raw)),
     ol_quote = (\<lambda>s. CHR 0x22 # s @ [CHR 0x22])\<rparr>"

definition sample_verifier :: verifier where
  "sample_verifier = \<lparr>vf_issuer = ''https://idp'', vf_audience = ''gatte'', vf_algs = [''RS256''], vf_groups_claim = ''groups''\<rparr>"

theorem rejection_hides_token_witness:
  "\<not> sublist ''head.forged-payload.signature'' (the (rj_detail (projl (verify_token (\<lambda>_. False) sample_oidc sample_verifier ''head.forged-payload.signature''))))"
proof -
  have "case verify_token (\<lambda>_. False) sample_oidc sample_verifier ''head.forged-payload.signature'' of
      Inl rej \<Rightarrow> rj_detail rej \<noteq> None | Inr i \<Rightarrow> False" by code_simp
  then obtain rej d where "verify_token (\<lambda>_. False) sample_oidc sample_verifier ''head.forged-payload.signature'' = Inl rej" "rj_detail rej = Some d"
    by (auto split: sum.splits)
  from rejection_hides_token [OF this] this show ?thesis by simp
qed

theorem jwks_fetches_spaced_witness:
  "fetches \<lparr>g_ns = 0, g_off = 0\<rparr> [(False, \<lparr>g_ns = 5, g_off = 0\<rparr>), (False, \<lparr>g_ns = 6, g_off = 0\<rparr>), (False, \<lparr>g_ns = 40000000000, g_off = 0\<rparr>)]
     = [\<lparr>g_ns = 5, g_off = 0\<rparr>, \<lparr>g_ns = 40000000000, g_off = 0\<rparr>]
   \<and> sorted_wrt (\<lambda>t u. jwks_refetch_interval \<le> sub_time u t)
      (fetches \<lparr>g_ns = 0, g_off = 0\<rparr> [(False, \<lparr>g_ns = 5, g_off = 0\<rparr>), (False, \<lparr>g_ns = 6, g_off = 0\<rparr>), (False, \<lparr>g_ns = 40000000000, g_off = 0\<rparr>)])"
proof (intro conjI)
  show "sorted_wrt (\<lambda>t u. jwks_refetch_interval \<le> sub_time u t)
      (fetches \<lparr>g_ns = 0, g_off = 0\<rparr> [(False, \<lparr>g_ns = 5, g_off = 0\<rparr>), (False, \<lparr>g_ns = 6, g_off = 0\<rparr>), (False, \<lparr>g_ns = 40000000000, g_off = 0\<rparr>)])"
    by (rule jwks_fetches_spaced) (simp add: is_zero_def)
qed (simp add: round_trip_def is_zero_def sub_time_def jwks_refetch_interval_def)

end
