(* ===== verification/Serve_Tokens.thy ===== *)
theory Serve_Tokens
  imports Serve_Sample Verifier
begin

text \<open>
  The serving surface with the verifier of \<open>internal/access/oidc\<close> behind it: who the operator can stop, and that stopping reaches tokens already issued.
\<close>

section \<open>The verifier behind the surface\<close>

definition token_answer :: "rejection + identity \<Rightarrow> verify_answer" where
  "token_answer a = (case a of Inl _ \<Rightarrow> Not_verified | Inr i \<Rightarrow> Verified_as i)"

definition with_verifier :: "(nat \<Rightarrow> bool) \<Rightarrow> oidc_lib \<Rightarrow> verifier \<Rightarrow> 'r front_libs \<Rightarrow> 'r front_libs" where
  "with_verifier cf K v F = F\<lparr>hl_verify := (\<lambda>token. token_answer (verify_token cf K v token))\<rparr>"

lemma validate_block_subject:
  "validate_block cf (b\<lparr>b_subject := s\<rparr>) = [] \<Longrightarrow> validate_subject cf (b_subject b) = None \<Longrightarrow> validate_block cf b = []"
  by (simp add: validate_block_def split: option.splits if_splits)

lemma blocked_request_refused:
  assumes "bearer_token (hr_authorization r) = Some token" "hl_verify F token = Verified_as i" "hr_path r \<notin> set (hl_metadata F)"
    "blocked False (ce_clock (he_admit E) ClockBlock) (id_subject i) (gw_blocks (fr_gw s)) = Inr True" "serve_http F E r s = (a, s')"
  shows "quiet (fr_gw s) (fr_gw s') \<and> fr_listed s' = fr_listed s \<and> (\<forall>as. a \<noteq> Answers as)"
proof -
  obtain ans s1 where au: "authenticate F E r (source_address (hl_split_host F) r) s = (ans, s1)" by fastforce
  show ?thesis
  proof (cases ans)
    case (Inl a1)
    then have "a = a1" "s' = s1" using assms(3,5) au by (simp_all add: serve_http_def Let_def)
    moreover have "\<forall>as. a1 \<noteq> Answers as"
      using au Inl by (auto simp: authenticate_def split: option.splits verify_answer.splits prod.splits if_splits step.splits dest!: reject_quiet)
    ultimately show ?thesis using authenticate_Inl(1,2) [OF au [unfolded Inl]] by simp
  next
    case (Inr p)
    obtain j adm where p: "p = (j, adm)" by fastforce
    note f = authenticate_Inr [OF au [unfolded Inr p]]
    have "j = i" using f(1) assms(1,2) by auto
    with f(6) assms(4) have False by (cases "ce_block_fault (he_admit E)") (auto simp: blocked_def)
    then show ?thesis ..
  qed
qed

section \<open>The interface of a verifier\<close>

text \<open>What the surface relies on (\<open>access.TokenVerifier\<close>): an accepted token has a subject, and it is one the blocklist can name.\<close>

locale token_verifier =
  fixes cf :: "nat \<Rightarrow> bool" and check_token :: "string \<Rightarrow> verify_answer"
  assumes accepted_named: "check_token token = Verified_as i \<Longrightarrow> validate_subject cf (id_subject i) = None"
begin

lemma accepted_subject: "check_token token = Verified_as i \<Longrightarrow> trim_space (id_subject i) \<noteq> []"
  using accepted_named [of token i] by (auto simp: validate_subject_def split: if_splits)

lemma block_refuses:
  assumes "check_token token = Verified_as i" "bearer_token (hr_authorization r) = Some token" "hr_path r \<notin> set (hl_metadata F)" "hl_verify F = check_token"
    and "b_subject b = id_subject i" "validate_block cf (b\<lparr>b_subject := ''x''\<rparr>) = []" "is_zero (b_until b) \<or> datable (b_until b)"
    and "bs_ready st" "datable now" "\<not> holds_at now (b_subject b) st"
    and "active_at b (ce_clock (he_admit E) ClockBlock)" "\<forall>op\<in>set ops. keeps_block (ce_clock (he_admit E) ClockBlock) (b_subject b) op"
    and "gw_blocks (fr_gw s) = foldl (block_step cf) (snd (block_subject cf False now b st)) ops" "serve_http F E r s = (a, s')"
  shows "validate_block cf b = [] \<and> quiet (fr_gw s) (fr_gw s') \<and> fr_listed s' = fr_listed s \<and> (\<forall>as. a \<noteq> Answers as)"
proof -
  have v: "validate_block cf b = []" using validate_block_subject [OF assms(6)] accepted_named [OF assms(1)] assms(5) by simp
  have "blocked False (ce_clock (he_admit E) ClockBlock) (id_subject i) (gw_blocks (fr_gw s)) = Inr True"
    using placed_block_stays [OF assms(8,9) v assms(7,10,11,12)] assms(5,13) by simp
  with blocked_request_refused [OF assms(2) _ assms(3) _ assms(14)] assms(1,4) v show ?thesis by simp
qed

end

interpretation oidc: token_verifier cf "\<lambda>token. token_answer (verify_token cf K v token)" for cf K v
  by unfold_locales (auto simp: token_answer_def dest: verify_token_Inr(2) split: sum.splits)

text \<open>
  C6 (safety): the kill switch reaches every token. Whatever token the verifier accepts, the subject it is accepted for can be blocked: the operator's block of that subject is placed, whatever the subject
  is. From then on, for as long as the block is active, whatever other blocks, lifts of other subjects and sweeps run, a request with such a token is refused before anything is done for it: nothing is listed
  for it, nothing is sent, no route, approval, counter or slot changes, however long the token remains valid.
\<close>
theorem block_reaches_every_token:
  assumes "verify_token cf K v token = Inr i" "bearer_token (hr_authorization r) = Some token" "hr_path r \<notin> set (hl_metadata F)"
    and "b_subject b = id_subject i" "validate_block cf (b\<lparr>b_subject := ''x''\<rparr>) = []" "is_zero (b_until b) \<or> datable (b_until b)"
    and "bs_ready st" "datable now" "\<not> holds_at now (b_subject b) st"
    and "active_at b (ce_clock (he_admit E) ClockBlock)" "\<forall>op\<in>set ops. keeps_block (ce_clock (he_admit E) ClockBlock) (b_subject b) op"
    and "gw_blocks (fr_gw s) = foldl (block_step cf) (snd (block_subject cf False now b st)) ops" "serve_http (with_verifier cf K v F) E r s = (a, s')"
  shows "validate_block cf b = [] \<and> quiet (fr_gw s) (fr_gw s') \<and> fr_listed s' = fr_listed s \<and> (case a of Answers _ \<Rightarrow> False | _ \<Rightarrow> True)"
proof -
  have "token_answer (verify_token cf K v token) = Verified_as i" by (simp add: assms(1) token_answer_def)
  from oidc.block_refuses [OF this assms(2) _ _ assms(4-12) assms(13)] assms(3)
  have "validate_block cf b = [] \<and> quiet (fr_gw s) (fr_gw s') \<and> fr_listed s' = fr_listed s \<and> (\<forall>as. a \<noteq> Answers as)"
    by (simp add: with_verifier_def)
  then show ?thesis by (auto split: http_answer.splits)
qed

section \<open>A sample\<close>

definition sample_bearer_request :: http_request where
  "sample_bearer_request = sample_request [''Bearer head.payload.signature''] ''threatintel.lookup_ip''"

definition sample_blocked_front :: front where
  "sample_blocked_front = sample_front\<lparr>fr_gw := sample_gw\<lparr>gw_blocks := snd (block_subject (\<lambda>_. False) False \<lparr>g_ns = 5, g_off = 0\<rparr>
     (sample_block\<lparr>b_until := \<lparr>g_ns = 200, g_off = 0\<rparr>\<rparr>) sample_bstore)\<rparr>\<rparr>"

theorem block_reaches_every_token_witness:
  "gw_sent (fr_gw (snd (serve_http (with_verifier (\<lambda>_. False) sample_oidc sample_verifier sample_front_libs) sample_http_env sample_bearer_request sample_blocked_front))) = []"
proof -
  let ?b = "sample_block\<lparr>b_until := \<lparr>g_ns = 200, g_off = 0\<rparr>\<rparr>"
  have v: "verify_token (\<lambda>_. False) sample_oidc sample_verifier ''head.payload.signature'' = Inr \<lparr>id_subject = ''ana'', id_name = ''Ana'', id_groups = [''soc'']\<rparr>"
    by code_simp
  have t: "bearer_token (hr_authorization sample_bearer_request) = Some ''head.payload.signature''" "hr_path sample_bearer_request \<notin> set (hl_metadata sample_front_libs)"
    by code_simp+
  have b: "validate_block (\<lambda>_. False) (?b\<lparr>b_subject := ''x''\<rparr>) = []" "\<not> holds_at \<lparr>g_ns = 5, g_off = 0\<rparr> ''ana'' sample_bstore" by code_simp+
  have st: "bs_ready sample_bstore" using sample_bstore_ready by (simp add: sample_bstore_def)
  have clock: "ce_clock (he_admit sample_http_env) ClockBlock = \<lparr>g_ns = 105, g_off = 0\<rparr>" by (simp add: sample_http_env_def sample_env_def)
  have c: "b_subject ?b = id_subject \<lparr>id_subject = ''ana'', id_name = ''Ana'', id_groups = [''soc'']\<rparr>" "is_zero (b_until ?b) \<or> datable (b_until ?b)"
    "datable \<lparr>g_ns = 5, g_off = 0\<rparr>" "\<not> holds_at \<lparr>g_ns = 5, g_off = 0\<rparr> (b_subject ?b) sample_bstore" "active_at ?b (ce_clock (he_admit sample_http_env) ClockBlock)"
    "\<forall>op\<in>set []. keeps_block (ce_clock (he_admit sample_http_env) ClockBlock) (b_subject ?b) op"
    "gw_blocks (fr_gw sample_blocked_front) = foldl (block_step (\<lambda>_. False)) (snd (block_subject (\<lambda>_. False) False \<lparr>g_ns = 5, g_off = 0\<rparr> ?b sample_bstore)) []"
    using b(2) unfolding clock by (simp_all add: sample_block_def sample_blocked_front_def active_at_def after_time_def datable_def)
  have "quiet (fr_gw sample_blocked_front) (fr_gw (snd (serve_http (with_verifier (\<lambda>_. False) sample_oidc sample_verifier sample_front_libs) sample_http_env
      sample_bearer_request sample_blocked_front)))"
    using block_reaches_every_token [OF v t c(1) b(1) c(2) st c(3-7) prod.collapse [symmetric]] by blast
  from quiet_fields(10) [OF this] show ?thesis by (simp add: sample_blocked_front_def sample_gw_def)
qed

end
