(* ===== verification/Audit_Sink.thy ===== *)
theory Audit_Sink
  imports Audit_Store Rest_Path "HOL-Library.Sublist"
begin

text \<open>
  Model of \<open>internal/audit/jsonl/jsonl.go\<close>: the recorder that stores a row and then writes a line about it to a file a SIEM reads, and the heartbeat that says how far the file
  is. \<open>json.Marshal\<close> and the layout of the timestamps are the record \<open>jsonl_lib\<close>. Calls run concurrently, so storing a row, writing its line and
  noting that it was written are separate steps.
\<close>

section \<open>Lines\<close>

definition jsonl_version :: nat where "jsonl_version = 5"
definition type_record :: string where "type_record = ''record''"
definition type_heartbeat :: string where "type_heartbeat = ''heartbeat''"

record log_line =
  ln_version :: nat
  ln_type :: string
  ln_time :: string
  ln_chain :: string
  ln_caller :: string
  ln_name :: string
  ln_backend :: string
  ln_tool :: string
  ln_verdict :: string
  ln_rule :: string
  ln_src :: string
  ln_prev :: string
  ln_hash :: string

record beat_stats =
  bs_boot :: gotime
  bs_now :: gotime
  bs_allowed :: nat
  bs_denied :: nat
  bs_failed :: nat
  bs_upstreams :: int
  bs_tools :: int
  bs_suspended :: bool
  bs_pending :: int
  bs_changed :: int
  bs_up :: int
  bs_reconnecting :: int
  bs_down :: int
  bs_maintenance :: int
  bs_gateway :: string

record heartbeat =
  hb_version :: nat
  hb_type :: string
  hb_time :: string
  hb_chain :: string
  hb_boot :: string
  hb_head :: string
  hb_records :: nat
  hb_stats :: beat_stats

record jsonl_lib =
  jl_line :: "log_line \<Rightarrow> string option"
  jl_beat :: "heartbeat \<Rightarrow> string option"
  jl_stamp :: layout

definition line_of :: "jsonl_lib \<Rightarrow> string \<Rightarrow> arec \<Rightarrow> chain_link \<Rightarrow> log_line" where
  "line_of J chain r l =
     \<lparr>ln_version = jsonl_version, ln_type = type_record, ln_time = jl_stamp J (utc (a_ts r)), ln_chain = chain, ln_caller = a_identity r, ln_name = a_name r,
      ln_backend = a_upstream r, ln_tool = a_tool r, ln_verdict = a_outcome r, ln_rule = a_reason r, ln_src = a_source r,
      ln_prev = cl_prev l, ln_hash = cl_hash l\<rparr>"

section \<open>The file\<close>

record file_sink =
  fs_bytes :: string
  fs_open :: bool

definition uint64 :: nat where "uint64 = 2 ^ 64"

definition newline :: char where "newline = CHR 0x0A"

text \<open>
  A write the system cut short after \<open>n\<close> bytes is \<open>Some n\<close>; \<open>closes\<close> says whether the byte that ends the stump could be written.
\<close>

definition sink_write :: "nat option \<Rightarrow> bool \<Rightarrow> string \<Rightarrow> file_sink \<Rightarrow> bool \<times> file_sink" where
  "sink_write torn closes buf s =
     (let buf = buf @ [newline]
      in if \<not> fs_open s then (False, s)
         else case torn of
           None \<Rightarrow> (True, s\<lparr>fs_bytes := fs_bytes s @ buf\<rparr>)
         | Some n \<Rightarrow>
             (False, s\<lparr>fs_bytes := fs_bytes s @ take n buf @ (if 0 < n \<and> n < length buf \<and> closes then [newline] else [])\<rparr>))"

definition emit_line :: "jsonl_lib \<Rightarrow> nat option \<Rightarrow> bool \<Rightarrow> log_line \<Rightarrow> file_sink \<Rightarrow> bool \<times> file_sink" where
  "emit_line J torn closes l s = (case jl_line J l of None \<Rightarrow> (False, s) | Some buf \<Rightarrow> sink_write torn closes buf s)"

definition emit_heartbeat :: "jsonl_lib \<Rightarrow> nat option \<Rightarrow> bool \<Rightarrow> heartbeat \<Rightarrow> file_sink \<Rightarrow> bool \<times> file_sink" where
  "emit_heartbeat J torn closes hb s = (case jl_beat J hb of None \<Rightarrow> (False, s) | Some buf \<Rightarrow> sink_write torn closes buf s)"

definition close_sink :: "file_sink \<Rightarrow> file_sink" where
  "close_sink s = s\<lparr>fs_open := False\<rparr>"

section \<open>The recorder\<close>

text \<open>
  The trail, the file, what the recorder says of itself, and the calls under way: rows stored whose line is not yet written, and lines written that are not yet noted.
  \<open>an_lines\<close> are the lines reported as written, in the order of the writes.
\<close>

record anchored =
  an_db :: adb
  an_sink :: file_sink
  an_head :: string
  an_emitted :: nat
  an_stored :: "(arec \<times> chain_link) list"
  an_written :: "string list"
  an_lines :: "log_line list"

definition heartbeat_of :: "jsonl_lib \<Rightarrow> string \<Rightarrow> beat_stats \<Rightarrow> anchored \<Rightarrow> heartbeat" where
  "heartbeat_of J chain st s =
     \<lparr>hb_version = jsonl_version, hb_type = type_heartbeat, hb_time = jl_stamp J (utc (bs_now st)), hb_chain = chain, hb_boot = jl_stamp J (utc (bs_boot st)),
      hb_head = an_head s, hb_records = an_emitted s,
      hb_stats = (if bs_gateway st = [] then st\<lparr>bs_gateway := ''unknown''\<rparr> else st)\<rparr>"

text \<open>The three parts of \<open>RecordChained\<close>.\<close>

definition store_record :: "digest \<Rightarrow> layout \<Rightarrow> (nat \<Rightarrow> bool) \<Rightarrow> (astmt \<Rightarrow> bool) \<Rightarrow> arec \<Rightarrow> anchored \<Rightarrow> (audit_error + chain_link) \<times> anchored" where
  "store_record H fmt tbl fault r s =
     (case record_chained H fmt tbl fault r (an_db s) of
        (Inl err, db) \<Rightarrow> (Inl err, s\<lparr>an_db := db\<rparr>)
      | (Inr link, db) \<Rightarrow> (Inr link, s\<lparr>an_db := db, an_stored := an_stored s @ [(r, link)]\<rparr>))"

definition emit_record :: "jsonl_lib \<Rightarrow> string \<Rightarrow> nat option \<Rightarrow> bool \<Rightarrow> arec \<times> chain_link \<Rightarrow> anchored \<Rightarrow> bool \<times> anchored" where
  "emit_record J chain torn closes p s =
     (case emit_line J torn closes (line_of J chain (fst p) (snd p)) (an_sink s) of
        (ok, sink) \<Rightarrow>
          (ok, s\<lparr>an_sink := sink, an_stored := remove1 p (an_stored s),
                 an_written := (if ok then an_written s @ [cl_hash (snd p)] else an_written s),
                 an_lines := (if ok then an_lines s @ [line_of J chain (fst p) (snd p)] else an_lines s)\<rparr>))"

definition note_emitted :: "string \<Rightarrow> anchored \<Rightarrow> anchored" where
  "note_emitted h s = s\<lparr>an_head := h, an_emitted := (an_emitted s + 1) mod uint64, an_written := remove1 h (an_written s)\<rparr>"

definition record_anchored ::
  "digest \<Rightarrow> layout \<Rightarrow> (nat \<Rightarrow> bool) \<Rightarrow> jsonl_lib \<Rightarrow> string \<Rightarrow> (astmt \<Rightarrow> bool) \<Rightarrow> nat option \<Rightarrow> bool \<Rightarrow> arec \<Rightarrow> anchored
     \<Rightarrow> (audit_error + chain_link) \<times> anchored" where
  "record_anchored H fmt tbl J chain fault torn closes r s =
     (case store_record H fmt tbl fault r s of
        (Inl err, s) \<Rightarrow> (Inl err, s)
      | (Inr link, s) \<Rightarrow>
          (case emit_record J chain torn closes (r, link) s of
             (True, s) \<Rightarrow> (Inr link, note_emitted (cl_hash link) s)
           | (False, s) \<Rightarrow> (Inr link, s)))"

definition send_heartbeat :: "jsonl_lib \<Rightarrow> string \<Rightarrow> nat option \<Rightarrow> bool \<Rightarrow> beat_stats \<Rightarrow> anchored \<Rightarrow> (bool \<times> heartbeat) \<times> anchored" where
  "send_heartbeat J chain torn closes st s =
     (let hb = heartbeat_of J chain st s
      in case emit_heartbeat J torn closes hb (an_sink s) of (ok, sink) \<Rightarrow> ((ok, hb), s\<lparr>an_sink := sink\<rparr>))"

section \<open>Calls at the same time\<close>

inductive anchor_step ::
  "digest \<Rightarrow> layout \<Rightarrow> (nat \<Rightarrow> bool) \<Rightarrow> jsonl_lib \<Rightarrow> string \<Rightarrow> (arec \<Rightarrow> bool) \<Rightarrow> anchored \<Rightarrow> anchored \<Rightarrow> bool" for H fmt tbl J chain ok where
  stores: "ok r \<Longrightarrow> anchor_step H fmt tbl J chain ok s (snd (store_record H fmt tbl fault r s))"
| emits: "p \<in> set (an_stored s) \<Longrightarrow> anchor_step H fmt tbl J chain ok s (snd (emit_record J chain torn closes p s))"
| noted: "h \<in> set (an_written s) \<Longrightarrow> anchor_step H fmt tbl J chain ok s (note_emitted h s)"
| beats: "anchor_step H fmt tbl J chain ok s (snd (send_heartbeat J chain torn closes st s))"
| closes_file: "anchor_step H fmt tbl J chain ok s (s\<lparr>an_sink := close_sink (an_sink s)\<rparr>)"

text \<open>A process starts on the trail it finds, with a file and no line of its own.\<close>

definition fresh_anchor :: "anchored \<Rightarrow> bool" where
  "fresh_anchor s \<longleftrightarrow> an_head s = [] \<and> an_emitted s = 0 \<and> an_stored s = [] \<and> an_written s = [] \<and> an_lines s = []"

inductive anchor_runs ::
  "digest \<Rightarrow> layout \<Rightarrow> (nat \<Rightarrow> bool) \<Rightarrow> jsonl_lib \<Rightarrow> string \<Rightarrow> (arec \<Rightarrow> bool) \<Rightarrow> anchored \<Rightarrow> anchored \<Rightarrow> bool" for H fmt tbl J chain ok where
  boots: "fresh_anchor s \<Longrightarrow> anchor_runs H fmt tbl J chain ok s s"
| goes_on: "anchor_runs H fmt tbl J chain ok s0 s \<Longrightarrow> anchor_step H fmt tbl J chain ok s s' \<Longrightarrow> anchor_runs H fmt tbl J chain ok s0 s'"

section \<open>What the file says is in the trail\<close>

definition row_line :: "arow \<Rightarrow> log_line \<Rightarrow> bool" where
  "row_line w l \<longleftrightarrow> ln_hash l = w_hash w \<and> ln_prev l = w_prev w \<and> ln_caller l = w_identity w \<and> ln_name l = w_name w \<and> ln_backend l = w_upstream w
     \<and> ln_tool l = w_tool w \<and> ln_verdict l = w_outcome w \<and> ln_rule l = w_reason w \<and> ln_src l = w_source w"

lemma row_line_of: "row_line (row_of fmt i r l) (line_of J chain r l)"
  by (simp add: row_line_def row_of_def line_of_def)

definition anchor_ok :: "jsonl_lib \<Rightarrow> string \<Rightarrow> anchored \<Rightarrow> bool" where
  "anchor_ok J chain s \<longleftrightarrow>
     list_all (\<lambda>(r, l). \<exists>w\<in>set (ad_rows (an_db s)). row_line w (line_of J chain r l)) (an_stored s)
     \<and> list_all (\<lambda>l. \<exists>w\<in>set (ad_rows (an_db s)). row_line w l) (an_lines s)
     \<and> set (an_written s) \<subseteq> ln_hash ` set (an_lines s)
     \<and> (an_head s = [] \<or> an_head s \<in> ln_hash ` set (an_lines s))
     \<and> (an_emitted s + length (an_written s)) mod uint64 = length (an_lines s) mod uint64"

lemma fresh_anchor_ok: "fresh_anchor s \<Longrightarrow> anchor_ok J chain s"
  by (simp add: fresh_anchor_def anchor_ok_def)

lemma store_record_ok:
  assumes "anchor_ok J chain s"
  shows "anchor_ok J chain (snd (store_record H fmt tbl fault r s))"
proof (cases "record_chained H fmt tbl fault r (an_db s)")
  case (Pair res db)
  show ?thesis
  proof (cases res)
    case (Inl e)
    with Pair record_chained_Inl [of H fmt tbl fault r "an_db s" e db] assms show ?thesis by (simp add: store_record_def)
  next
    case (Inr link)
    then have rows: "ad_rows db = ad_rows (an_db s) @ [row_of fmt (ad_seq (an_db s) + 1) r link]" using Pair by (simp add: record_chained_Inr)
    with assms Pair Inr row_line_of [of fmt "ad_seq (an_db s) + 1" r link J chain] show ?thesis
      by (fastforce simp: store_record_def anchor_ok_def)
  qed
qed

lemma mod_step:
  fixes a b c k :: nat
  assumes "(a + b) mod k = c mod k"
  shows "(a + Suc b) mod k = Suc c mod k"
  using assms mod_Suc_eq [of "a + b" k] mod_Suc_eq [of c k] by simp

lemma emit_record_ok:
  assumes "anchor_ok J chain s" "p \<in> set (an_stored s)"
  shows "anchor_ok J chain (snd (emit_record J chain torn closes p s))"
proof -
  have "\<exists>w\<in>set (ad_rows (an_db s)). row_line w (line_of J chain (fst p) (snd p))" using assms by (fastforce simp: anchor_ok_def)
  moreover have "set (remove1 p (an_stored s)) \<subseteq> set (an_stored s)" by (rule set_remove1_subset)
  moreover have "ln_hash (line_of J chain (fst p) (snd p)) = cl_hash (snd p)" by (simp add: line_of_def)
  ultimately show ?thesis
    using assms(1) mod_step [of "an_emitted s" "length (an_written s)" uint64 "length (an_lines s)"]
    by (auto simp: emit_record_def anchor_ok_def case_prod_beta)
qed

lemma note_emitted_fields [simp]:
  "an_head (note_emitted h s) = h" "an_db (note_emitted h s) = an_db s" "an_stored (note_emitted h s) = an_stored s" "an_lines (note_emitted h s) = an_lines s"
  "an_written (note_emitted h s) = remove1 h (an_written s)" "an_emitted (note_emitted h s) = (an_emitted s + 1) mod uint64"
  by (simp_all add: note_emitted_def)

lemma note_emitted_ok:
  assumes "anchor_ok J chain s" "h \<in> set (an_written s)"
  shows "anchor_ok J chain (note_emitted h s)"
proof -
  obtain n where n: "length (an_written s) = Suc n" using assms(2) by (cases "an_written s") auto
  then have l: "length (remove1 h (an_written s)) = n" using assms(2) by (simp add: length_remove1)
  have "((an_emitted s + 1) mod uint64 + n) mod uint64 = (an_emitted s + Suc n) mod uint64" by (simp add: mod_add_left_eq)
  also have "\<dots> = length (an_lines s) mod uint64" using assms(1) n by (simp add: anchor_ok_def)
  finally have "((an_emitted s + 1) mod uint64 + length (remove1 h (an_written s))) mod uint64 = length (an_lines s) mod uint64" unfolding l .
  moreover have "set (remove1 h (an_written s)) \<subseteq> ln_hash ` set (an_lines s)" "h \<in> ln_hash ` set (an_lines s)"
    using assms set_remove1_subset [of h "an_written s"] by (auto simp: anchor_ok_def)
  ultimately show ?thesis using assms(1) by (simp add: note_emitted_def anchor_ok_def del: length_remove1)
qed

lemma anchor_step_ok:
  assumes "anchor_step H fmt tbl J chain ok s s'" "anchor_ok J chain s"
  shows "anchor_ok J chain s'"
  using assms(1)
proof (cases rule: anchor_step.cases)
  case (beats torn closes st)
  then show ?thesis using assms(2) by (simp add: send_heartbeat_def anchor_ok_def Let_def case_prod_beta)
next
  case closes_file
  then show ?thesis using assms(2) by (simp add: anchor_ok_def)
qed (use assms(2) store_record_ok emit_record_ok note_emitted_ok in auto)

lemma anchor_runs_ok: "anchor_runs H fmt tbl J chain ok s0 s \<Longrightarrow> anchor_ok J chain s"
  by (induction rule: anchor_runs.induct) (auto simp: fresh_anchor_ok intro: anchor_step_ok)

text \<open>The trail of every reachable state is a trail the recorder wrote.\<close>

definition trail_ok :: "digest \<Rightarrow> layout \<Rightarrow> tparse \<Rightarrow> adb \<Rightarrow> bool" where
  "trail_ok H fmt parse db \<longleftrightarrow> linked H fmt parse genesis_hash (ad_rows db) \<and> rows_fit fmt parse (ad_rows db)"

lemma record_chained_trail:
  assumes "trail_ok H fmt parse db" "respells fmt parse (a_ts r)" "arec_fits fmt r" "record_chained H fmt tbl fault r db = (res, db')"
  shows "trail_ok H fmt parse db'"
proof -
  have "linked H fmt parse genesis_hash (ad_rows db')" using record_chained_linked [of H fmt parse db r tbl fault] assms by (simp add: trail_ok_def)
  moreover have "rows_fit fmt parse (ad_rows db')"
  proof (cases res)
    case (Inl e)
    then show ?thesis using record_chained_Inl [of H fmt tbl fault r db e db'] assms by (simp add: trail_ok_def)
  next
    case (Inr l)
    then show ?thesis using assms row_of_fits [OF assms(2,3)] by (simp add: trail_ok_def record_chained_Inr)
  qed
  ultimately show ?thesis by (simp add: trail_ok_def)
qed

lemma anchor_step_trail:
  assumes "anchor_step H fmt tbl J chain ok s s'" "trail_ok H fmt parse (an_db s)" "\<And>r. ok r \<Longrightarrow> respells fmt parse (a_ts r) \<and> arec_fits fmt r"
  shows "trail_ok H fmt parse (an_db s')"
  using assms(1)
proof (cases rule: anchor_step.cases)
  case (stores r fault)
  obtain res db where rc: "record_chained H fmt tbl fault r (an_db s) = (res, db)" by fastforce
  then have "an_db s' = db" using stores by (cases res) (simp_all add: store_record_def)
  then show ?thesis using record_chained_trail [OF assms(2) _ _ rc] assms(3) [OF stores(2)] by simp
next
  case (emits p torn closes)
  then show ?thesis using assms(2) by (simp add: emit_record_def case_prod_beta)
next
  case (beats torn closes st)
  then show ?thesis using assms(2) by (simp add: send_heartbeat_def Let_def case_prod_beta)
qed (use assms(2) in \<open>simp_all add: note_emitted_def\<close>)

lemma anchor_runs_trail:
  "anchor_runs H fmt tbl J chain ok s0 s \<Longrightarrow> trail_ok H fmt parse (an_db s0) \<Longrightarrow> (\<And>r. ok r \<Longrightarrow> respells fmt parse (a_ts r) \<and> arec_fits fmt r)
     \<Longrightarrow> trail_ok H fmt parse (an_db s)"
  by (induction rule: anchor_runs.induct) (auto intro: anchor_step_trail)

lemma head_in_trail:
  assumes "anchor_ok J chain s" "an_head s \<noteq> []"
  shows "\<exists>ws w vs. ad_rows (an_db s) = ws @ w # vs \<and> w_hash w = an_head s"
proof -
  obtain l w where "l \<in> set (an_lines s)" "ln_hash l = an_head s" "w \<in> set (ad_rows (an_db s))" "row_line w l"
    using assms by (auto simp: anchor_ok_def)
  then show ?thesis by (metis row_line_def split_list)
qed

lemma prefix_trail: "trail_ok H fmt parse db \<Longrightarrow> ad_rows db = ws @ w # vs
    \<Longrightarrow> linked H fmt parse genesis_hash (ws @ [w]) \<and> rows_fit fmt parse (ws @ [w]) \<and> head_from genesis_hash (ws @ [w]) = w_hash w"
  using linked_append [of H fmt parse genesis_hash "ws @ [w]" vs] rows_fit_append [of fmt parse "ws @ [w]" vs] by (simp add: trail_ok_def)


section \<open>Whole lines\<close>

type_synonym sink_attempt = "nat option \<times> bool \<times> string"

fun sink_run :: "sink_attempt list \<Rightarrow> file_sink \<Rightarrow> string list \<times> file_sink" where
  "sink_run [] s = ([], s)"
| "sink_run ((torn, closes, buf) # ws) s =
     (case sink_write torn closes buf s of
        (ok, s) \<Rightarrow> (case sink_run ws s of (accepted, s) \<Rightarrow> ((if ok then [buf] else []) @ accepted, s)))"

definition ended :: "string list \<Rightarrow> string" where
  "ended pieces = concat (map (\<lambda>p. p @ [newline]) pieces)"

definition closed_attempt :: "sink_attempt \<Rightarrow> bool" where
  "closed_attempt w = (case w of (torn, closes, buf) \<Rightarrow> newline \<notin> set buf \<and> (torn = None \<or> torn = Some 0 \<or> closes))"

lemma ended_append: "ended (ps @ qs) = ended ps @ ended qs"
  by (simp add: ended_def)

lemma split_ended: "list_all (\<lambda>p. newline \<notin> set p) ps \<Longrightarrow> split_on newline (ended ps) = ps @ [[]]"
proof (induction ps)
  case (Cons p ps)
  then show ?case using split_on_append [of newline p "newline # ended ps"] by (simp add: ended_def)
qed (simp add: ended_def)

lemma sink_write_pieces:
  assumes "closed_attempt (torn, closes, buf)" "sink_write torn closes buf s = (ok, s')"
  shows "\<exists>ps. fs_bytes s' = fs_bytes s @ ended ps \<and> list_all (\<lambda>p. newline \<notin> set p) ps \<and> (ok \<longrightarrow> ps = [buf])"
proof (cases "\<not> fs_open s \<or> torn = Some 0")
  case True
  then show ?thesis using assms(2) by (intro exI [of _ "[]"]) (auto simp: sink_write_def ended_def Let_def split: if_splits option.splits)
next
  case opened: False
  show ?thesis
  proof (cases torn)
    case None
    then show ?thesis using assms opened by (intro exI [of _ "[buf]"]) (auto simp: sink_write_def ended_def closed_attempt_def)
  next
    case (Some n)
    then have c: "closes" "newline \<notin> set buf" using assms(1) opened by (auto simp: closed_attempt_def)
    have "fs_bytes s' = fs_bytes s @ ended [take n buf]"
    proof (cases "n < length (buf @ [newline])")
      case True
      then show ?thesis using assms(2) opened Some c by (auto simp: sink_write_def ended_def)
    next
      case False
      then show ?thesis using assms(2) opened Some by (auto simp: sink_write_def ended_def)
    qed
    moreover have "newline \<notin> set (take n buf)" using c(2) in_set_takeD by metis
    moreover have "\<not> ok" using assms(2) opened Some by (simp add: sink_write_def)
    ultimately show ?thesis by (intro exI [of _ "[take n buf]"]) simp
  qed
qed

lemma sink_run_pieces:
  assumes "list_all closed_attempt ws" "sink_run ws s = (accepted, s')"
  shows "\<exists>ps. fs_bytes s' = fs_bytes s @ ended ps \<and> list_all (\<lambda>p. newline \<notin> set p) ps \<and> subseq accepted ps"
  using assms
proof (induction ws s arbitrary: accepted s' rule: sink_run.induct)
  case (1 s)
  then show ?case by (intro exI [of _ "[]"]) (auto simp: ended_def)
next
  case (2 torn closes buf ws s)
  obtain ok s1 where w: "sink_write torn closes buf s = (ok, s1)" by fastforce
  obtain acc where r: "sink_run ws s1 = (acc, s')" "accepted = (if ok then [buf] else []) @ acc" using 2(3) w by (auto split: prod.splits)
  obtain ps where ps: "fs_bytes s1 = fs_bytes s @ ended ps" "list_all (\<lambda>p. newline \<notin> set p) ps" "ok \<longrightarrow> ps = [buf]"
    using sink_write_pieces [OF _ w] 2(2) by auto
  obtain qs where qs: "fs_bytes s' = fs_bytes s1 @ ended qs" "list_all (\<lambda>p. newline \<notin> set p) qs" "subseq acc qs"
    using 2(1) [OF w [symmetric] _ r(1)] 2(2) by auto
  have "subseq accepted (ps @ qs)" using ps(3) qs(3) r(2) by (auto intro: list_emb_append_mono)
  with ps(1,2) qs(1,2) show ?case by (intro exI [of _ "ps @ qs"]) (auto simp: ended_append)
qed

text \<open>
  (roundtrip) a line the sink accepted is a line of the file. Whatever writes are cut short in between, as long as the byte that ends a stump gets through: splitting what was added to the file at the line
  ends gives the accepted lines, whole and in order, among the stumps.
\<close>
theorem accepted_lines_whole:
  assumes "list_all closed_attempt ws" "sink_run ws s = (accepted, s')"
  shows "subseq accepted (split_on newline (drop (length (fs_bytes s)) (fs_bytes s')))"
proof -
  obtain ps where ps: "fs_bytes s' = fs_bytes s @ ended ps" "list_all (\<lambda>p. newline \<notin> set p) ps" "subseq accepted ps"
    using sink_run_pieces [OF assms] by blast
  have "subseq accepted (ps @ [[]])" using ps(3) by (metis list_emb_append_mono list_emb_Nil append_Nil2)
  then show ?thesis by (simp add: ps(1) split_ended [OF ps(2)])
qed

section \<open>Samples\<close>

definition sample_jsonl :: jsonl_lib where
  "sample_jsonl = \<lparr>jl_line = (\<lambda>l. Some (ln_tool l)), jl_beat = (\<lambda>_. Some ''beat''), jl_stamp = sample_fmt\<rparr>"

definition sample_anchor :: anchored where
  "sample_anchor = \<lparr>an_db = empty_adb, an_sink = \<lparr>fs_bytes = [], fs_open = True\<rparr>, an_head = [], an_emitted = 0, an_stored = [], an_written = [], an_lines = []\<rparr>"

definition sample_first :: "arec \<times> chain_link" where
  "sample_first = (sample_arec ''casemgmt.list'' [], \<lparr>cl_prev = genesis_hash, cl_hash = chain_hash sample_digest sample_fmt genesis_hash (sample_arec ''casemgmt.list'' [])\<rparr>)"

definition sample_second :: "arec \<times> chain_link" where
  "sample_second = (sample_arec ''casemgmt.close'' ''x'', \<lparr>cl_prev = cl_hash (snd sample_first),
     cl_hash = chain_hash sample_digest sample_fmt (cl_hash (snd sample_first)) (sample_arec ''casemgmt.close'' ''x'')\<rparr>)"

definition sample_stored :: anchored where
  "sample_stored = snd (store_record sample_digest sample_fmt (\<lambda>_. False) (\<lambda>_. False) (fst sample_second)
     (snd (store_record sample_digest sample_fmt (\<lambda>_. False) (\<lambda>_. False) (fst sample_first) sample_anchor)))"

definition sample_lines :: anchored where
  "sample_lines = snd (emit_record sample_jsonl ''soc'' None False sample_second (snd (emit_record sample_jsonl ''soc'' None False sample_first sample_stored)))"

text \<open>Two calls store and write their lines in order, and note it in the other order.\<close>

definition sample_raced :: anchored where
  "sample_raced = note_emitted (cl_hash (snd sample_first)) (note_emitted (cl_hash (snd sample_second)) sample_lines)"

definition sample_rec_ok :: "arec \<Rightarrow> bool" where
  "sample_rec_ok r \<longleftrightarrow> r = sample_arec ''casemgmt.list'' [] \<or> r = sample_arec ''casemgmt.close'' ''x''"

lemma store_succeeds:
  assumes "arec_validate tbl r = []" "l = \<lparr>cl_prev = chain_head (an_db s), cl_hash = chain_hash H fmt (chain_head (an_db s)) r\<rparr>"
  shows "snd (store_record H fmt tbl (\<lambda>_. False) r s)
    = s\<lparr>an_db := (an_db s)\<lparr>ad_rows := ad_rows (an_db s) @ [row_of fmt (ad_seq (an_db s) + 1) r l], ad_seq := ad_seq (an_db s) + 1\<rparr>,
         an_stored := an_stored s @ [(r, l)]\<rparr>"
proof -
  have "record_chained H fmt tbl (\<lambda>_. False) r (an_db s)
      = (Inr l, (an_db s)\<lparr>ad_rows := ad_rows (an_db s) @ [row_of fmt (ad_seq (an_db s) + 1) r l], ad_seq := ad_seq (an_db s) + 1\<rparr>)"
    using assms by (simp add: record_chained_Inr)
  then show ?thesis by (simp add: store_record_def)
qed

lemma emit_succeeds:
  "jl_line J (line_of J chain (fst p) (snd p)) = Some buf \<Longrightarrow> fs_open (an_sink s)
     \<Longrightarrow> snd (emit_record J chain None closes p s) = s\<lparr>an_sink := (an_sink s)\<lparr>fs_bytes := fs_bytes (an_sink s) @ buf @ [newline]\<rparr>, an_stored := remove1 p (an_stored s),
           an_written := an_written s @ [cl_hash (snd p)], an_lines := an_lines s @ [line_of J chain (fst p) (snd p)]\<rparr>"
  by (simp add: emit_record_def emit_line_def sink_write_def Let_def)

lemma sample_hashes: "cl_hash (snd sample_first) \<noteq> cl_hash (snd sample_second)" "cl_hash (snd sample_first) \<noteq> []"
  "arec_validate (\<lambda>_. False) (fst sample_first) = []" "arec_validate (\<lambda>_. False) (fst sample_second) = []" "fst sample_first \<noteq> fst sample_second"
proof -
  have h: "length (cl_hash (snd sample_first)) = 64" by (simp add: sample_first_def chain_hash_length sample_digest32)
  then show "cl_hash (snd sample_first) \<noteq> []" by auto
  have "length (canonical sample_fmt (fst sample_first)) = 124" "length (canonical sample_fmt (fst sample_second)) = 126"
    by (simp_all add: sample_first_def sample_second_def canonical_def append_field_def sample_arec_def sample_fmt_def outcome_allowed_def chain_tag_def Let_def)
  then have "length (append_field (canonical sample_fmt (fst sample_first)) genesis_hash) = 132"
    "length (append_field (canonical sample_fmt (fst sample_second)) (cl_hash (snd sample_first))) = 198"
    using h by (simp_all add: append_field_def genesis_hash_def)
  moreover have "char_of (132::nat) \<noteq> (char_of (198::nat) :: char)" using char_of_byte_inject [of 132 198] by auto
  moreover have "cl_hash (snd sample_first) = hex_encode (sample_digest (append_field (canonical sample_fmt (fst sample_first)) genesis_hash))"
    "cl_hash (snd sample_second) = hex_encode (sample_digest (append_field (canonical sample_fmt (fst sample_second)) (cl_hash (snd sample_first))))"
    by (simp_all add: sample_first_def sample_second_def chain_hash_def)
  ultimately show "cl_hash (snd sample_first) \<noteq> cl_hash (snd sample_second)"
    by (metis hex_encode_inject sample_digest_def last_snoc)
qed (code_simp+)

lemma sample_stored_state: "an_stored sample_stored = [sample_first, sample_second]" "an_written sample_stored = []" "an_lines sample_stored = []"
  "an_emitted sample_stored = 0" "fs_open (an_sink sample_stored)"
proof -
  define s1 where "s1 = snd (store_record sample_digest sample_fmt (\<lambda>_. False) (\<lambda>_. False) (fst sample_first) sample_anchor)"
  have "snd sample_first = \<lparr>cl_prev = chain_head (an_db sample_anchor), cl_hash = chain_hash sample_digest sample_fmt (chain_head (an_db sample_anchor)) (fst sample_first)\<rparr>"
    by (simp add: sample_first_def sample_anchor_def chain_head_def empty_adb_def)
  note 1 = store_succeeds [OF sample_hashes(3) this, folded s1_def]
  have h: "chain_head (an_db s1) = cl_hash (snd sample_first)" unfolding 1 by (simp add: chain_head_def row_of_def)
  have "snd sample_second = \<lparr>cl_prev = chain_head (an_db s1), cl_hash = chain_hash sample_digest sample_fmt (chain_head (an_db s1)) (fst sample_second)\<rparr>"
    unfolding h by (simp add: sample_second_def)
  note 2 = store_succeeds [OF sample_hashes(4) this]
  have "an_stored s1 = [sample_first]" "an_written s1 = []" "an_lines s1 = []" "an_emitted s1 = 0" "fs_open (an_sink s1)"
    unfolding 1 by (simp_all add: sample_anchor_def)
  then show "an_stored sample_stored = [sample_first, sample_second]" "an_written sample_stored = []" "an_lines sample_stored = []"
    "an_emitted sample_stored = 0" "fs_open (an_sink sample_stored)"
    unfolding sample_stored_def s1_def [symmetric] 2 by simp_all
qed

lemma sample_lines_state:
  "an_stored (snd (emit_record sample_jsonl ''soc'' None False sample_first sample_stored)) = [sample_second]"
  "an_written sample_lines = [cl_hash (snd sample_first), cl_hash (snd sample_second)]" "map ln_hash (an_lines sample_lines) = an_written sample_lines"
  "an_stored sample_lines = []" "an_emitted sample_lines = 0"
  using sample_stored_state emit_succeeds [of sample_jsonl "''soc''" sample_first _ sample_stored False] sample_hashes(5)
    emit_succeeds [of sample_jsonl "''soc''" sample_second _ "snd (emit_record sample_jsonl ''soc'' None False sample_first sample_stored)" False]
  by (simp_all add: sample_lines_def sample_jsonl_def line_of_def)

lemma sample_raced_runs: "anchor_runs sample_digest sample_fmt (\<lambda>_. False) sample_jsonl ''soc'' sample_rec_ok sample_anchor sample_raced"
proof -
  have "sample_rec_ok (fst sample_first)" "sample_rec_ok (fst sample_second)" by (simp_all add: sample_rec_ok_def sample_first_def sample_second_def)
  moreover have "fresh_anchor sample_anchor" by (simp add: fresh_anchor_def sample_anchor_def)
  ultimately have 1: "anchor_runs sample_digest sample_fmt (\<lambda>_. False) sample_jsonl ''soc'' sample_rec_ok sample_anchor sample_stored"
    using goes_on [OF goes_on [OF boots stores] stores] unfolding sample_stored_def by blast
  have "sample_first \<in> set (an_stored sample_stored)"
    "sample_second \<in> set (an_stored (snd (emit_record sample_jsonl ''soc'' None False sample_first sample_stored)))"
    by (simp_all add: sample_stored_state sample_lines_state)
  from goes_on [OF goes_on [OF 1 emits [OF this(1)]] emits [OF this(2)], of None False]
  have 2: "anchor_runs sample_digest sample_fmt (\<lambda>_. False) sample_jsonl ''soc'' sample_rec_ok sample_anchor sample_lines" unfolding sample_lines_def .
  have "cl_hash (snd sample_second) \<in> set (an_written sample_lines)"
    "cl_hash (snd sample_first) \<in> set (an_written (note_emitted (cl_hash (snd sample_second)) sample_lines))"
    using sample_hashes(1) by (simp_all add: sample_lines_state(2))
  from goes_on [OF goes_on [OF 2 noted [OF this(1)]] noted [OF this(2)]] show ?thesis unfolding sample_raced_def .
qed

lemma sample_raced_state:
  "an_stored sample_raced = []" "an_written sample_raced = []" "an_lines sample_raced \<noteq> []" "an_emitted sample_raced = length (an_lines sample_raced)"
  "an_head sample_raced \<noteq> ln_hash (last (an_lines sample_raced))" "an_head sample_raced \<noteq> []"
proof -
  obtain l1 l2 where l: "an_lines sample_lines = [l1, l2]" "ln_hash l2 = cl_hash (snd sample_second)"
    using sample_lines_state(2,3) by (auto simp: map_eq_Cons_conv)
  show "an_stored sample_raced = []" "an_written sample_raced = []" "an_lines sample_raced \<noteq> []" "an_emitted sample_raced = length (an_lines sample_raced)"
    "an_head sample_raced \<noteq> ln_hash (last (an_lines sample_raced))" "an_head sample_raced \<noteq> []"
    using l sample_hashes(1,2) sample_lines_state(2,4,5) by (simp_all add: sample_raced_def uint64_def)
qed


lemma sample_rec_ok_fits: "sample_rec_ok r \<Longrightarrow> respells sample_fmt sample_parse (a_ts r) \<and> arec_fits sample_fmt r"
  by (auto simp: sample_rec_ok_def sample_arec_def respells_def sample_fmt_def sample_parse_def arec_fits_def outcome_allowed_def)

lemma sample_anchor_trail: "trail_ok sample_digest sample_fmt sample_parse (an_db sample_anchor)"
  by (simp add: trail_ok_def sample_anchor_def empty_adb_def rows_fit_def)


theorem accepted_lines_whole_witness:
  "subseq [''a'', ''c''] (split_on newline (drop 0 (fs_bytes (snd (sink_run [(None, False, ''a''), (Some 2, True, ''bbb''), (None, False, ''c'')] \<lparr>fs_bytes = [], fs_open = True\<rparr>)))))"
proof -
  have "list_all closed_attempt [(None, False, ''a''), (Some 2, True, ''bbb''), (None, False, ''c'')]" by code_simp
  moreover have "fst (sink_run [(None, False, ''a''), (Some 2, True, ''bbb''), (None, False, ''c'')] \<lparr>fs_bytes = [], fs_open = True\<rparr>) = [''a'', ''c'']" by code_simp
  ultimately show ?thesis
    using accepted_lines_whole [OF _ prod.collapse [symmetric], of "[(None, False, ''a''), (Some 2, True, ''bbb''), (None, False, ''c'')]" "\<lparr>fs_bytes = [], fs_open = True\<rparr>"]
    by (simp only: file_sink.simps list.size)
qed

end
