(* ===== verification/Reload_Diff.thy ===== *)
theory Reload_Diff
  imports Naming Quota Audit_Chain
begin

text \<open>
  Model of \<open>internal/reload/reload.go\<close>, which says what a reload of the configuration changes before it is applied, and of the rules \<open>Config.Validate\<close> has for
  roles (\<open>internal/config/config.go\<close>). A Go map is an association list with distinct keys. The values of the keys that are not reloaded are compared as they are; \<open>strconv.Quote\<close> and the
  text of a duration are arguments.
\<close>

section \<open>Roles as the file may have them\<close>

datatype role_config_problem =
    ConfigRole nat "policy_problem list"
  | RoleTwice string
  | MarksNothing string
  | ToolNotNamespaced string string
  | ToolWildcard string string string
  | ToolListedTwice string string

fun config_tool_problems :: "string \<Rightarrow> string list \<Rightarrow> string list \<Rightarrow> role_config_problem list" where
  "config_tool_problems rn granted [] = []"
| "config_tool_problems rn granted (tool # tools) =
     (if trim_space tool = [] then config_tool_problems rn granted tools
      else case split_namespaced tool of
        None \<Rightarrow> ToolNotNamespaced rn tool # config_tool_problems rn granted tools
      | Some (upstream, tool_id) \<Rightarrow>
          if tool_id = grant_all then ToolWildcard rn tool upstream # config_tool_problems rn granted tools
          else (if tool \<in> set granted then [ToolListedTwice rn tool] else []) @ config_tool_problems rn (tool # granted) tools)"

fun config_role_problems :: "nat \<Rightarrow> string list \<Rightarrow> role list \<Rightarrow> role_config_problem list" where
  "config_role_problems i seen [] = []"
| "config_role_problems i seen (r # rs) =
     (if validate_role r \<noteq> [] then [ConfigRole i (validate_role r)] else [])
     @ (if trim_space (r_name r) = [] then config_role_problems (Suc i) seen rs
        else (if r_name r \<in> set seen then [RoleTwice (r_name r)] else [])
          @ (if r_nonread r \<and> r_tools r = [] then [MarksNothing (r_name r)] else [])
          @ config_tool_problems (r_name r) [] (r_tools r)
          @ config_role_problems (Suc i) (r_name r # seen) rs)"

section \<open>What a reload changes\<close>

record role_change =
  rc_role :: string
  rc_added :: bool
  rc_removed :: bool
  rc_gained :: "string list"
  rc_lost :: "string list"
  rc_grants_added :: "string list"
  rc_grants_removed :: "string list"
  rc_nonread_changed :: bool
  rc_nonread :: bool

record group_change =
  gc_group :: string
  gc_from :: string
  gc_to :: string

record quota_change =
  qc_account :: string
  qc_change :: string
  qc_from :: string
  qc_to :: string

definition reach :: "role \<Rightarrow> string list \<Rightarrow> string list" where
  "reach r routed = filter (allows r) routed"

definition grant_set :: "role \<Rightarrow> string list" where
  "grant_set r = r_tools r @ concat (map (\<lambda>(backend, tools). map (\<lambda>t. backend @ CHR ''.'' # t) tools) (r_grants r))"

text \<open>The keys of one set that another lacks, sorted.\<close>

definition only_in :: "string list \<Rightarrow> string list \<Rightarrow> string list" where
  "only_in xs ys = sort (remdups (filter (\<lambda>x. x \<notin> set ys) xs))"

definition last_role :: "role list \<Rightarrow> string \<Rightarrow> role option" where
  "last_role rs n = map_of (map (\<lambda>r. (r_name r, r)) (rev rs)) n"

definition role_change_of :: "role list \<Rightarrow> role list \<Rightarrow> string list \<Rightarrow> string \<Rightarrow> role_change" where
  "role_change_of old new routed n =
     (let before = last_role old n; after = last_role new n;
          b = (case before of Some r \<Rightarrow> r | None \<Rightarrow> zero_role); a = (case after of Some r \<Rightarrow> r | None \<Rightarrow> zero_role);
          rb = (if before = None then [] else reach b routed); ra = (if after = None then [] else reach a routed)
      in \<lparr>rc_role = n, rc_added = (before = None), rc_removed = (after = None), rc_gained = only_in ra rb, rc_lost = only_in rb ra,
          rc_grants_added = only_in (grant_set a) (grant_set b), rc_grants_removed = only_in (grant_set b) (grant_set a),
          rc_nonread_changed = (before \<noteq> None \<and> after \<noteq> None \<and> r_nonread b \<noteq> r_nonread a), rc_nonread = r_nonread a\<rparr>)"

definition role_changed :: "role_change \<Rightarrow> bool" where
  "role_changed ch \<longleftrightarrow> rc_added ch \<or> rc_removed ch \<or> rc_gained ch \<noteq> [] \<or> rc_lost ch \<noteq> [] \<or> rc_grants_added ch \<noteq> [] \<or> rc_grants_removed ch \<noteq> []
     \<or> rc_nonread_changed ch"

definition role_changes :: "role list \<Rightarrow> role list \<Rightarrow> string list \<Rightarrow> role_change list" where
  "role_changes old new routed =
     filter role_changed (map (role_change_of old new routed) (sort (remdups (map r_name old @ map r_name new))))"

definition at_key :: "(string \<times> string) list \<Rightarrow> string \<Rightarrow> string" where
  "at_key m k = (case map_of m k of Some v \<Rightarrow> v | None \<Rightarrow> [])"

definition group_changes :: "(string \<times> string) list \<Rightarrow> (string \<times> string) list \<Rightarrow> group_change list" where
  "group_changes old new =
     map (\<lambda>k. \<lparr>gc_group = k, gc_from = at_key old k, gc_to = at_key new k\<rparr>)
       (filter (\<lambda>k. at_key old k \<noteq> at_key new k) (sort (remdups (map fst old @ map fst new))))"

fun joined :: "string \<Rightarrow> string list \<Rightarrow> string" where
  "joined sep [] = []"
| "joined sep [x] = x"
| "joined sep (x # xs) = x @ sep @ joined sep xs"

definition quota_summary :: "(int \<Rightarrow> string) \<Rightarrow> provider \<Rightarrow> string" where
  "quota_summary dur p = itoa_int (pv_limit p) @ '' per '' @ dur (pv_window p) @ '' on '' @ pv_upstream p @ '': '' @ joined '', '' (sort (pv_tools p))"

definition last_provider :: "provider list \<Rightarrow> string \<Rightarrow> provider option" where
  "last_provider ps n = find (\<lambda>p. pv_name p = n) (rev ps)"

definition quota_changes :: "(int \<Rightarrow> string) \<Rightarrow> provider list \<Rightarrow> provider list \<Rightarrow> quota_change list" where
  "quota_changes dur old new =
     List.map_filter (\<lambda>n. case (last_provider old n, last_provider new n) of
         (None, Some a) \<Rightarrow> Some \<lparr>qc_account = n, qc_change = ''added'', qc_from = [], qc_to = quota_summary dur a\<rparr>
       | (Some b, None) \<Rightarrow> Some \<lparr>qc_account = n, qc_change = ''removed'', qc_from = quota_summary dur b, qc_to = []\<rparr>
       | (Some b, Some a) \<Rightarrow>
           if quota_summary dur a \<noteq> quota_summary dur b
           then Some \<lparr>qc_account = n, qc_change = ''changed'', qc_from = quota_summary dur b, qc_to = quota_summary dur a\<rparr> else None
       | (None, None) \<Rightarrow> None)
       (sort (remdups (map pv_name old @ map pv_name new)))"

text \<open>The keys of the file that a reload does not apply: plain ones, and tables compared key by key.\<close>

datatype 'v setting = Plain 'v | Table "(string \<times> 'v) list"

definition reloadable :: "string list" where "reloadable = [''role'', ''group_to_role'', ''quota'', ''roles_file'']"
definition not_serve_keys :: "string list" where "not_serve_keys = [''signer.key_file'', ''idp'', ''connect'', ''admin'']"

definition not_serve :: "string \<Rightarrow> bool" where
  "not_serve key = list_ex (\<lambda>k. key = k \<or> has_prefix key (k @ ''.'')) not_serve_keys"

fun setting_changes :: "string \<Rightarrow> 'v setting \<Rightarrow> 'v setting \<Rightarrow> string list" where
  "setting_changes key (Table xs) (Table ys) =
     map (\<lambda>((sub, _), _). key @ CHR ''.'' # sub)
       (filter (\<lambda>((sub, x), (_, y)). sub \<noteq> [] \<and> \<not> not_serve (key @ CHR ''.'' # sub) \<and> x \<noteq> y) (zip xs ys))"
| "setting_changes key x y = (if \<not> not_serve key \<and> x \<noteq> y then [key] else [])"

definition not_reloaded :: "(string \<times> 'v setting) list \<Rightarrow> (string \<times> 'v setting) list \<Rightarrow> string list" where
  "not_reloaded old new =
     sort (concat (map (\<lambda>((key, x), (_, y)). if key = [] \<or> key \<in> set reloadable then [] else setting_changes key x y) (zip old new)))"

record 'v config =
  cf_roles :: "role list"
  cf_groups :: "(string \<times> string) list"
  cf_providers :: "provider list"
  cf_free :: "string list"
  cf_rest :: "(string \<times> 'v setting) list"

record changes =
  ch_roles :: "role_change list"
  ch_groups :: "group_change list"
  ch_quota :: "quota_change list"
  ch_free :: bool
  ch_not_reloaded :: "string list"

definition diff_config :: "(int \<Rightarrow> string) \<Rightarrow> 'v config \<Rightarrow> 'v config \<Rightarrow> string list \<Rightarrow> changes" where
  "diff_config dur old new routed =
     \<lparr>ch_roles = role_changes (cf_roles old) (cf_roles new) routed, ch_groups = group_changes (cf_groups old) (cf_groups new),
      ch_quota = quota_changes dur (cf_providers old) (cf_providers new), ch_free = (sort (cf_free old) \<noteq> sort (cf_free new)),
      ch_not_reloaded = not_reloaded (cf_rest old) (cf_rest new)\<rparr>"

definition empty_changes :: "changes \<Rightarrow> bool" where
  "empty_changes c \<longleftrightarrow> ch_roles c = [] \<and> ch_groups c = [] \<and> ch_quota c = [] \<and> \<not> ch_free c"

section \<open>The line on the trail\<close>

definition or_none :: "(string \<Rightarrow> string) \<Rightarrow> string \<Rightarrow> string" where
  "or_none quoted s = (if s = [] then ''(none)'' else quoted s)"

definition role_phrase :: "(string \<Rightarrow> string) \<Rightarrow> role_change \<Rightarrow> string" where
  "role_phrase quoted r =
     ''role '' @ quoted (rc_role r)
     @ (if rc_added r then '' added'' else if rc_removed r then '' removed'' else [])
     @ concat (map (\<lambda>t. '' +'' @ t) (rc_gained r)) @ concat (map (\<lambda>t. '' -'' @ t) (rc_lost r))
     @ (if (rc_grants_added r \<noteq> [] \<or> rc_grants_removed r \<noteq> []) \<and> \<not> rc_added r \<and> \<not> rc_removed r
        then '' grant'' @ concat (map (\<lambda>g. '' +'' @ g) (rc_grants_added r)) @ concat (map (\<lambda>g. '' -'' @ g) (rc_grants_removed r)) else [])
     @ (if rc_nonread_changed r then '' non_read='' @ (if rc_nonread r then ''true'' else ''false'') else [])"

definition change_phrases :: "(string \<Rightarrow> string) \<Rightarrow> changes \<Rightarrow> string list" where
  "change_phrases quoted c =
     (let parts = map (role_phrase quoted) (ch_roles c)
            @ map (\<lambda>g. ''group '' @ quoted (gc_group g) @ '': '' @ or_none quoted (gc_from g) @ '' -> '' @ or_none quoted (gc_to g)) (ch_groups c)
            @ map (\<lambda>q. ''quota '' @ quoted (qc_account q) @ '' '' @ qc_change q) (ch_quota c)
            @ (if ch_free c then [''quota.free_tools changed''] else [])
      in if parts = [] then [''no change to roles, groups or quota''] else parts)"

definition truncation_mark :: string where
  "truncation_mark = '' ... (truncated; the full diff is in the request result)''"

definition shorten :: "nat \<Rightarrow> string \<Rightarrow> string" where
  "shorten most out =
     (if 0 < most \<and> most < length out then take (back_to_start out (most - length truncation_mark)) out @ truncation_mark else out)"

definition changes_summary :: "(string \<Rightarrow> string) \<Rightarrow> changes \<Rightarrow> nat \<Rightarrow> string" where
  "changes_summary quoted c most =
     shorten most (joined ''; '' (change_phrases quoted c)
       @ (if ch_not_reloaded c = [] then [] else ''; NOT applied until restart: '' @ joined '', '' (ch_not_reloaded c)))"

lemma shorten_length:
  assumes "length truncation_mark \<le> most"
  shows "length (shorten most out) \<le> most"
proof -
  have "back_to_start out (most - length truncation_mark) \<le> most - length truncation_mark" using back_to_start_spec by blast
  moreover have "0 < most" using assms by (simp add: truncation_mark_def)
  ultimately show ?thesis using assms by (auto simp: shorten_def min_def)
qed

section \<open>The diff tells who may call what\<close>

text \<open>A role the file may have: \<open>Validate\<close> has nothing to say about it.\<close>

definition file_role :: "role \<Rightarrow> bool" where
  "file_role r \<longleftrightarrow> go_role r \<and> validate_role r = [] \<and> config_tool_problems (r_name r) [] (r_tools r) = []"

lemma config_tools_clean: "config_tool_problems rn granted tools = [] \<Longrightarrow> tool \<in> set tools \<Longrightarrow> trim_space tool \<noteq> []
    \<Longrightarrow> \<exists>u t. split_namespaced tool = Some (u, t) \<and> t \<noteq> grant_all"
  by (induction rn granted tools rule: config_tool_problems.induct) (auto split: if_splits option.splits)

lemma config_roles_clean: "config_role_problems i seen rs = [] \<Longrightarrow> list_all go_role rs \<Longrightarrow> list_all file_role rs \<and> distinct (map r_name rs) \<and> set seen \<inter> r_name ` set rs = {}"
proof (induction i seen rs rule: config_role_problems.induct)
  case (2 i seen r rs)
  then have v: "validate_role r = []" "go_role r" by (auto split: if_splits)
  then have n: "trim_space (r_name r) \<noteq> []" using validate_role_Nil [of r] trimmed_blankD [of "r_name r"] by (auto simp: wf_role_def blank_def)
  with 2 v show ?case by (auto simp: file_role_def split: if_splits)
qed simp

lemma allows_from_grants:
  assumes "file_role r"
  shows "allows r tool \<longleftrightarrow> tool \<in> set (grant_set r) \<or> (\<exists>b rest. tool = namespaced b rest \<and> rest \<noteq> [] \<and> CHR ''.'' \<notin> set b \<and> namespaced b grant_all \<in> set (grant_set r))"
    (is "?a \<longleftrightarrow> ?g \<or> ?w")
proof -
  have wf: "list_all (\<lambda>(b, ids). wf_grant b ids) (r_grants r)" "list_all (\<lambda>t. t \<noteq> [] \<and> trimmed t) (r_tools r)"
    using assms validate_role_Nil [of r] by (auto simp: file_role_def wf_role_def)
  have plain: "CHR ''.'' \<notin> set b" "\<forall>t\<in>set ids. t \<noteq> []" if "(b, ids) \<in> set (r_grants r)" for b ids
    using wf(1) that by (auto simp: wf_grant_def name_separator_def)
  have gs: "t \<in> set (grant_set r) \<longleftrightarrow> t \<in> set (r_tools r) \<or> (\<exists>(b, ids)\<in>set (r_grants r). \<exists>i\<in>set ids. t = namespaced b i)" for t
    by (auto simp: grant_set_def namespaced_def gw_separator_def)
  have no_star: "namespaced b grant_all \<notin> set (r_tools r)" if "CHR ''.'' \<notin> set b" for b
  proof
    assume t: "namespaced b grant_all \<in> set (r_tools r)"
    then have "trim_space (namespaced b grant_all) \<noteq> []" using wf(2) trimmed_blankD by (fastforce simp: blank_def)
    moreover have "config_tool_problems (r_name r) [] (r_tools r) = []" using assms by (simp add: file_role_def)
    ultimately obtain u x where "split_namespaced (namespaced b grant_all) = Some (u, x)" "x \<noteq> grant_all" using config_tools_clean [OF _ t] by blast
    with that show False by (auto simp: split_namespaced_iff namespaced_inject)
  qed
  have a: "?a \<longleftrightarrow> tool \<in> set (r_tools r) \<or> (\<exists>(b, ids)\<in>set (r_grants r). \<exists>rest. tool = namespaced b rest \<and> rest \<noteq> [] \<and> (grant_all \<in> set ids \<or> rest \<in> set ids))"
    by (auto simp: allows_def grants_allow_iff namespaced_def gw_separator_def name_separator_def)
  show ?thesis
  proof
    assume ?a
    then consider "tool \<in> set (r_tools r)" | b ids rest where "(b, ids) \<in> set (r_grants r)" "tool = namespaced b rest" "rest \<noteq> []" "grant_all \<in> set ids \<or> rest \<in> set ids"
      unfolding a by blast
    then show "?g \<or> ?w"
    proof cases
      case (2 b ids rest)
      with plain(1) [OF 2(1)] gs show ?thesis by blast
    qed (use gs in blast)
  next
    assume "?g \<or> ?w"
    then consider "tool \<in> set (r_tools r)" | b ids i where "(b, ids) \<in> set (r_grants r)" "i \<in> set ids" "tool = namespaced b i"
      | b rest where "tool = namespaced b rest" "rest \<noteq> []" "CHR ''.'' \<notin> set b" "namespaced b grant_all \<in> set (grant_set r)"
      unfolding gs by blast
    then show ?a
    proof cases
      case (2 b ids i)
      then have "i \<noteq> []" using plain(2) by blast
      with 2 show ?thesis unfolding a by blast
    next
      case w: (3 b rest)
      then obtain b' ids where g: "(b', ids) \<in> set (r_grants r)" "\<exists>i\<in>set ids. namespaced b grant_all = namespaced b' i" using gs no_star by blast
      with namespaced_inject [OF w(3) plain(1) [OF g(1)]] have "b' = b" "grant_all \<in> set ids" by auto
      with g(1) w(1,2) show ?thesis unfolding a by blast
    qed (simp add: a)
  qed
qed

lemma last_role_distinct:
  assumes "distinct (map r_name rs)"
  shows "last_role rs n = roles_by_name rs n"
proof -
  let ?f = "\<lambda>r. (r_name r, r)"
  have "map_of (map ?f (rev rs)) = map_of (map ?f rs)" using assms by (subst map_of_inject_set) (simp_all add: comp_def rev_map [symmetric])
  then show ?thesis by (simp add: last_role_def roles_by_name_def)
qed

lemma only_in_Nil: "only_in xs ys = [] \<longleftrightarrow> set xs \<subseteq> set ys"
proof -
  have "only_in xs ys = [] \<longleftrightarrow> set (only_in xs ys) = {}" by simp
  also have "\<dots> \<longleftrightarrow> set xs \<subseteq> set ys" by (auto simp: only_in_def)
  finally show ?thesis .
qed

lemma no_role_change:
  assumes "role_changes old new routed = []" "distinct (map r_name old)" "distinct (map r_name new)" "n \<in> r_name ` set old \<union> r_name ` set new"
  shows "\<exists>b a. roles_by_name old n = Some b \<and> roles_by_name new n = Some a \<and> set (grant_set b) = set (grant_set a) \<and> r_nonread b = r_nonread a"
proof -
  have "n \<in> set (sort (remdups (map r_name old @ map r_name new)))" using assms(4) by auto
  with assms(1) have "\<not> role_changed (role_change_of old new routed n)" by (auto simp: role_changes_def filter_empty_conv)
  then show ?thesis
    using last_role_distinct [OF assms(2)] last_role_distinct [OF assms(3)]
    by (auto simp: role_changed_def role_change_of_def Let_def only_in_Nil)
qed

lemma no_group_change:
  assumes "group_changes old new = []" "\<forall>(g, rn)\<in>set old. rn \<noteq> []" "\<forall>(g, rn)\<in>set new. rn \<noteq> []"
  shows "map_of old = map_of new"
proof
  fix k
  have "at_key old k = at_key new k"
  proof (cases "k \<in> fst ` set old \<union> fst ` set new")
    case True
    then have "k \<in> set (sort (remdups (map fst old @ map fst new)))" by auto
    with assms(1) show ?thesis by (auto simp: group_changes_def filter_empty_conv)
  next
    case False
    then show ?thesis using map_of_eq_None_iff [of old k] map_of_eq_None_iff [of new k] by (simp add: at_key_def)
  qed
  moreover have "map_of old k \<noteq> Some []" "map_of new k \<noteq> Some []" using assms(2,3) by (auto dest!: map_of_SomeD)
  ultimately show "map_of old k = map_of new k" by (auto simp: at_key_def split: option.splits)
qed

text \<open>
  C21 (equivalence): a reload that reports nothing lets everyone call what they could. If the diff of two files \<open>Validate\<close> accepts shows no change of a role or a group, then the two policies answer alike whether
  a caller may call a tool, for every caller and every name, also one that no backend serves yet.
\<close>
theorem reload_diff_complete:
  assumes "config_role_problems 0 [] (cf_roles old) = []" "config_role_problems 0 [] (cf_roles new) = []" "list_all go_role (cf_roles old)" "list_all go_role (cf_roles new)"
    and "distinct (map fst (cf_groups old))" "distinct (map fst (cf_groups new))"
    and "new_policy (cf_roles old) (cf_groups old) = Inr p" "new_policy (cf_roles new) (cf_groups new) = Inr q"
    and "ch_roles (diff_config dur old new routed) = []" "ch_groups (diff_config dur old new routed) = []"
  shows "authorize p i tool = authorize q i tool"
proof -
  note co = config_roles_clean [OF assms(1,3)] and cn = config_roles_clean [OF assms(2,4)]
  have named: "\<forall>r\<in>set rs. r_name r \<noteq> []" if "list_all file_role rs" for rs
    using that validate_role_Nil by (auto simp: file_role_def wf_role_def)
  have p: "\<forall>(g, rn)\<in>set (cf_groups old). rn \<in> r_name ` set (cf_roles old)" "p = \<lparr>p_roles = roles_by_name (cf_roles old), p_group_to_role = map_of (cf_groups old)\<rparr>"
    using assms(5,7) by (auto simp: new_policy_Inr_iff)
  have q: "\<forall>(g, rn)\<in>set (cf_groups new). rn \<in> r_name ` set (cf_roles new)" "q = \<lparr>p_roles = roles_by_name (cf_roles new), p_group_to_role = map_of (cf_groups new)\<rparr>"
    using assms(6,8) by (auto simp: new_policy_Inr_iff)
  have "group_changes (cf_groups old) (cf_groups new) = []" using assms(10) by (simp add: diff_config_def)
  moreover have "rn \<noteq> []" if "(g, rn) \<in> set (cf_groups old)" for g rn
    using bspec [OF p(1) that] named [of "cf_roles old"] co by auto
  moreover have "rn \<noteq> []" if "(g, rn) \<in> set (cf_groups new)" for g rn
    using bspec [OF q(1) that] named [of "cf_roles new"] cn by auto
  ultimately have groups: "map_of (cf_groups old) = map_of (cf_groups new)" by (intro no_group_change) auto
  have "allows (role_at p rn) tool = allows (role_at q rn) tool" if "map_of (cf_groups old) g = Some rn" for g rn
  proof -
    have "rn \<in> r_name ` set (cf_roles old) \<union> r_name ` set (cf_roles new)" using p(1) that by (auto dest!: map_of_SomeD)
    then obtain b a where r: "roles_by_name (cf_roles old) rn = Some b" "roles_by_name (cf_roles new) rn = Some a" "set (grant_set b) = set (grant_set a)"
      using no_role_change [of "cf_roles old" "cf_roles new" routed rn] assms(9) co cn by (auto simp: diff_config_def)
    have "file_role b" "file_role a" using roles_by_name_SomeD [OF r(1)] roles_by_name_SomeD [OF r(2)] co cn by auto
    from allows_from_grants [OF this(1)] allows_from_grants [OF this(2)] r show ?thesis by (simp add: role_at_def p(2) q(2))
  qed
  then show ?thesis using groups by (simp add: authorize_iff p(2) q(2)) blast
qed

section \<open>What it does not tell\<close>

definition sample_responder :: "string list \<Rightarrow> (string \<times> string list) list \<Rightarrow> role" where
  "sample_responder tools grants = \<lparr>r_name = ''responder'', r_tools = tools, r_grants = grants, r_nonread = True\<rparr>"

definition sample_file :: "role list \<Rightarrow> unit config" where
  "sample_file roles = \<lparr>cf_roles = roles, cf_groups = [(''ir'', ''responder'')], cf_providers = [], cf_free = [], cf_rest = []\<rparr>"

text \<open>The file before and after: \<open>edr.isolate\<close> moves from the grants of the role to its list of tools.\<close>

definition sample_before :: "unit config" where
  "sample_before = sample_file [sample_responder [''casemgmt.close''] [(''edr'', [''isolate''])]]"

definition sample_after :: "unit config" where
  "sample_after = sample_file [sample_responder [''casemgmt.close'', ''edr.isolate''] []]"

definition sample_responder_id :: identity where
  "sample_responder_id = \<lparr>id_subject = ''ana'', id_name = [], id_groups = [''ir'']\<rparr>"

definition acts :: "unit config \<Rightarrow> bool" where
  "acts c = (case new_policy (cf_roles c) (cf_groups c) of Inr p \<Rightarrow> authorize_nonread p sample_responder_id ''edr.isolate'' | Inl _ \<Rightarrow> False)"


theorem reload_diff_complete_witness:
  "authorize (projr (new_policy (cf_roles sample_before) (cf_groups sample_before))) sample_responder_id ''edr.isolate''
     = authorize (projr (new_policy (cf_roles sample_after) (cf_groups sample_after))) sample_responder_id ''edr.isolate''"
proof -
  have n: "case new_policy (cf_roles sample_before) (cf_groups sample_before) of Inr _ \<Rightarrow> True | Inl _ \<Rightarrow> False"
    "case new_policy (cf_roles sample_after) (cf_groups sample_after) of Inr _ \<Rightarrow> True | Inl _ \<Rightarrow> False" by code_simp+
  then obtain p q where pq: "new_policy (cf_roles sample_before) (cf_groups sample_before) = Inr p" "new_policy (cf_roles sample_after) (cf_groups sample_after) = Inr q"
    by (auto split: sum.splits)
  have c: "config_role_problems 0 [] (cf_roles sample_before) = []" "config_role_problems 0 [] (cf_roles sample_after) = []" "list_all go_role (cf_roles sample_before)"
    "list_all go_role (cf_roles sample_after)" "distinct (map fst (cf_groups sample_before))" "distinct (map fst (cf_groups sample_after))" by code_simp+
  have d: "ch_roles (diff_config (\<lambda>_. []) sample_before sample_after []) = []" "ch_groups (diff_config (\<lambda>_. []) sample_before sample_after []) = []" by code_simp+
  from reload_diff_complete [OF c pq d] show ?thesis by (simp add: pq)
qed

end
