(* ===== verification/Spec2Isabelle.thy ===== *)
theory Spec2Isabelle
  imports Access Blocklist Quarantine_History Quota_Store Audit_Reads Registry Signer Redact Health Naming Schema
    Dispatch_Safety Dispatch_Slots Routes_Safety Fleet_History Egress Rest_Sample
    Process Serve_Tokens Audit_Sink Reload_Diff
begin

text \<open>
  A verification library for Gatte, an MCP gateway for a security operations centre. Analysts' clients call tools of backend servers through one process that authenticates the caller, decides who may
  call what, keeps a tool in quarantine until an operator approved its exact definition, meters third-party budgets, holds the backends' credentials and writes a tamper-evident audit trail.

  \<^bold>\<open>The program and its model.\<close> Each theory models one part of \<open>src/\<close>, in the order in which the parts build on each other. State is a record that the operations take and return, errors are values
  of a sum type, and a statement of the database that fails, a clock, a reply of a backend or a panic is an argument.

  \<^item> \<open>Prelude\<close>, \<open>Gotime\<close>, \<open>Visible\<close>, \<open>Framing\<close>: Go strings as byte lists, instants, UTF-8 and hidden code points (\<open>internal/visible\<close>), the length-prefixed encoding three components hash or
    sign, transactions, and the contract \<open>invariant_kept\<close>.
  \<^item> \<open>Access\<close>, \<open>Blocklist\<close>: roles, policies and every question asked of them (\<open>internal/access/access.go\<close>); the kill switch and its table (\<open>block.go\<close>, \<open>access/sqlite\<close>).
  \<^item> \<open>Verifier\<close>: what is asked of a bearer token and the identity read from it (\<open>internal/access/oidc\<close>).
  \<^item> \<open>Quarantine\<close>, \<open>Quarantine_Store\<close>, \<open>Quarantine_History\<close>: fingerprints, the life of a tool, its store and the histories of both (\<open>internal/quarantine\<close>).
  \<^item> \<open>Quota\<close>, \<open>Quota_Store\<close>: accounts, plans, the gate and the counters (\<open>internal/quota\<close>).
  \<^item> \<open>Audit_Chain\<close>, \<open>Audit_Store\<close>, \<open>Audit_Reads\<close>, \<open>Audit_Sink\<close>: records and their hash chain, the table with its walk, the reads, and the file a SIEM reads with its heartbeat (\<open>internal/audit\<close>).
  \<^item> \<open>Registry\<close>, \<open>Signer\<close>: the contract of an entry and its repository, the signed bytes of an entry (\<open>internal/registry\<close>, \<open>internal/signer\<close>).
  \<^item> \<open>Redact\<close>, \<open>Health\<close>, \<open>Naming\<close>, \<open>Schema\<close>: masking credentials in results, maintenance and liveness, the names clients see, the schemas the gateway accepts (\<open>internal/gateway\<close>, \<open>internal/health\<close>).
  \<^item> \<open>Dispatch\<close> with \<open>Dispatch_Steps\<close>, \<open>Dispatch_Safety\<close>, \<open>Dispatch_Slots\<close>, \<open>Dispatch_Sample\<close>: one call from its first gate to its last row (\<open>endpoint.go\<close>, \<open>resilience.go\<close>, \<open>response.go\<close>).
  \<^item> \<open>Routes\<close>, \<open>Fleet\<close>, \<open>Fleet_Reload\<close> with \<open>Routes_Safety\<close>, \<open>Fleet_Safety\<close>, \<open>Reconcile_Safety\<close>, \<open>Fleet_Rounds\<close>, \<open>Fleet_History\<close>: the routing table, and the rounds \<open>Connect\<close>,
    \<open>Reconcile\<close> and \<open>Refresh\<close>, policy reloads, redials and the shutdown (\<open>endpoint.go\<close>, \<open>reload.go\<close>).
  \<^item> \<open>Reload_Diff\<close>: what a reload is said to change (\<open>internal/reload\<close>) and the rules for roles of a configuration file.
  \<^item> \<open>Egress\<close>, \<open>Rest_Path\<close>, \<open>Rest_Ops\<close>, \<open>Rest_Call\<close>, \<open>Rest_Safety\<close>, \<open>Rest_Sample\<close>: the REST transport (\<open>internal/gateway/resthttp\<close>). \<open>Container\<close>, \<open>Process\<close>: the transports that start
    a process or a container (\<open>gateway/oci\<close>, \<open>gateway/stdio\<close>).
  \<^item> \<open>Serve_Text\<close>, \<open>Front_Limits\<close>, \<open>Serve\<close>, \<open>Serve_Safety\<close>, \<open>Serve_Sample\<close>, \<open>Serve_Tokens\<close>: the HTTP surface (\<open>gateway/httpapi\<close>, \<open>authlimit.go\<close>): the credential and the source of a request,
    the tools its caller is offered, every call, probe and listing in it, \<open>gatte.status\<close>, the ceiling on rejected requests and the memory of listings.

  \<^bold>\<open>How the parts meet.\<close> A request is authenticated by the verifier and the blocklist, gets the tools the policy, the quarantine and the table allow, and each call in it runs \<open>dispatch\<close>, which reads the
  same stores again, charges the quota, writes the trail and sends one message on a connection of the fleet. Rounds of the fleet feed the quarantine with what backends advertise and rebuild the table. The
  inductive relation \<open>service\<close> below puts them together: rounds, reloads, operators' commands and requests in any order, each of them one step. Calls at the same time are modelled where the
  code's own state depends on it, in the slots and in the audit sink; a round is one step, since the source holds a lock over the table and publishes it at once.

  \<^bold>\<open>Interfaces.\<close> \<open>call_policy\<close>, \<open>block_store\<close>, \<open>quota_store\<close>, \<open>audit_recorder\<close>, \<open>prefix_code\<close>, \<open>invariant_kept\<close>, \<open>closable\<close> and \<open>token_verifier\<close> are the contracts one part has with another, each
  interpreted on the model of the part that keeps it.

  \<^bold>\<open>What is shown.\<close> End to end: a message leaves for a backend only because of a verified, unblocked caller whose role covers that tool of that backend, for a tool an operator vetted as it is now
  (\<open>request_sanctioned\<close>, \<open>sent_call_sanctioned\<close>, \<open>sent_call_vetted\<close>); a call past the gates does leave (\<open>open_call_is_sent\<close>); a block reaches tokens already issued. Per call: which rows every end leaves, that
  refusals spend nothing, that listing and dispatch agree. The stores: what a usable tool implies about its history, the bound a budget gives, that trails verify and tampering is reported, what a
  heartbeat pins. The fleet: the table stays sound, an unreadable registry stops service, the exact effect of a reconciliation. The transports: what a request, a command line or a redirect can be made to say, where the
  credential goes, and that it does not come back. Some theorems show where the code falls short: a changed entry that keeps its connection, a reload whose diff is silent about who may act, a heartbeat that lags.

  \<^bold>\<open>Arguments.\<close> The libraries the source calls are arguments, with what is used of them as hypotheses: hash functions (32 bytes; collisions are named in the conclusions), signatures, layouts of time and numbers,
  JSON, URLs, Unicode tables, the MCP and OpenID Connect libraries, the database, the container runtime. The order in which Go ranges over a map is an argument wherever it can be seen.

  \<^bold>\<open>Numbers and loops.\<close> Machine integers keep their width where they can wrap: addresses are words, lengths in hashed bytes are below \<open>2 ^ 64\<close>, the count of emitted lines is taken modulo \<open>2 ^ 64\<close>, memory sizes are held
  below the limit of the code. Floating point is exact rational arithmetic followed by a rounding that is an argument. Differences of instants are exact; Go caps them at 292 years. No definition uses fuel: loops are structural or
  come with a measure, and the walk over redirects ends because the code counts them.

  \<^bold>\<open>Not modelled.\<close> TOML decoding and the rules for single values of the configuration, the command line, the administration service and its console output (which call the operations modelled here), telemetry
  over the network, the OpenAPI import (its output passes the modelled decoder), secrets and identity provider programs, opening and migrating the database file, key files; of the serving surface the checks at
  construction, the rendering of \<open>gatte.status\<close> and of the instructions, the metadata document and log lines; of the gateway \<open>CredentialDrift\<close>, \<open>Backlog\<close> and the persistence of health. They are input and output around the
  decisions modelled, or text nobody decides on.
\<close>

section \<open>From a token to a backend\<close>

text \<open>The role names the tool outright, or grants it, or everything, of that backend.\<close>

definition role_covers :: "role \<Rightarrow> string \<Rightarrow> string \<Rightarrow> bool" where
  "role_covers r backend tool =
     (namespaced backend tool \<in> set (r_tools r)
      \<or> list_ex (\<lambda>(b, ids). b = backend \<and> (grant_all \<in> set ids \<or> tool \<in> set ids)) (r_grants r))"

lemma valid_tool_name_plain: "valid_tool_name n \<Longrightarrow> CHR ''.'' \<notin> set n"
proof
  assume v: "valid_tool_name n" and "CHR ''.'' \<in> set n"
  moreover have "\<not> (CHR ''.'' \<ge> CHR ''a'')" "\<not> (CHR ''.'' \<ge> CHR ''A'')" "\<not> (CHR ''.'' \<ge> CHR ''0'')" by code_simp+
  ultimately show False by (auto simp: valid_tool_name_def list_all_iff split: if_splits)
qed

lemma allows_covers:
  assumes "allows r (namespaced u t)" "CHR ''.'' \<notin> set u" "CHR ''.'' \<notin> set t"
  shows "role_covers r u t"
proof (cases "namespaced u t \<in> set (r_tools r)")
  case False
  then obtain b ids rest where g: "(b, ids) \<in> set (r_grants r)" "namespaced u t = b @ CHR ''.'' # rest"
      "grant_all \<in> set ids \<or> rest \<in> set ids"
    using assms(1) by (auto simp: allows_def grants_allow_iff name_separator_def)
  from g(2) have "u @ CHR ''.'' # t = b @ CHR ''.'' # rest" by (simp add: namespaced_def gw_separator_def)
  then have "b = u \<and> rest = t" using assms(2,3) by (auto simp: append_eq_append_conv2 Cons_eq_append_conv append_eq_Cons_conv)
  with g show ?thesis by (auto simp: role_covers_def list_ex_iff)
qed (simp add: role_covers_def)

lemma route_roles:
  assumes "table_ok S p routes" "map_of routes tool = Some rt" "authorize pol i tool"
  shows "split_namespaced tool = Some (rt_upstream rt, rt_original rt)"
    "list_ex (\<lambda>r. role_covers r (rt_upstream rt) (rt_original rt)) (roles_for pol i)" "declared_in p tool"
proof -
  show "split_namespaced tool = Some (rt_upstream rt, rt_original rt)" by (rule split_table_name [OF assms(1,2)])
  have "(tool, rt) \<in> set routes" using assms(2) by (rule map_of_SomeD)
  then have plain: "CHR ''.'' \<notin> set (rt_upstream rt)" "CHR ''.'' \<notin> set (rt_original rt)" and name: "tool = namespaced (rt_upstream rt) (rt_original rt)"
    and decl: "declared_in p tool"
    using assms(1) valid_tool_name_plain by (auto simp: table_ok_def route_wf_def name_ok_def)
  show "list_ex (\<lambda>r. role_covers r (rt_upstream rt) (rt_original rt)) (roles_for pol i)"
    using assms(3) allows_covers [OF _ plain] unfolding authorize_def name list_ex_iff by blast
  show "declared_in p tool" by (rule decl)
qed

text \<open>The state of a gateway in which a call is sent, and what was sent.\<close>

lemma sent_state:
  assumes "sound_gateway S H g" "dispatch L e c tool args (gt_core g) = (res, core)" "gw_sent core \<noteq> gw_sent (gt_core g)"
  obtains rt up t where "gw_sent core = gw_sent (gt_core g) @ [(up, rt_original rt, args)]" "map_of (gw_routes (gt_core g)) tool = Some rt"
    "map_of (fl_conns (gw_fleet (gt_core g))) (rt_upstream rt) = Some up" "authorize (gw_policy (gt_core g)) (c_identity c) tool"
    "row (gw_quarantine (gt_core g)) (rt_upstream rt) (rt_original rt) = Some t" "usable t"
    "table_ok S (gw_plan (gt_core g)) (gw_routes (gt_core g))"
proof -
  have t_ok: "table_ok S (gw_plan (gt_core g)) (gw_routes (gt_core g))" and slots: "slots_ok (gw_in_use (gt_core g))"
    using assms(1) by (simp_all add: sound_gateway_def gateway_ok_def)
  obtain rt up n s g1 where d: "gates_open e c tool rt (Some up) (gt_core g)" "map_of (gw_routes (gt_core g)) tool = Some rt"
    "map_of (fl_conns (gw_fleet (gt_core g))) (rt_upstream rt) = Some up"
    "acquire (gw_max_calls (gt_core g)) (id_subject (c_identity c)) (gw_in_use (gt_core g)) = Some s"
    "charged L e c tool rt n ((gt_core g)\<lparr>gw_in_use := s\<rparr>) = Go () g1"
    "(res, core) = conclude L e c tool True (free_slot c) (deliver L e c tool args rt (Some up) n g1)"
    by (rule dispatch_sent_cases [OF assms(2) table_ok_named [OF t_ok] slots assms(3)])
  note sent = dispatch_sent_state(4) [OF d(4) slots d(5,6)]
  obtain t where "get_tool (ce_quarantine_fault e) (rt_upstream rt) (rt_original rt) (gw_quarantine (gt_core g)) = Inr t" "usable t"
    using d(1) by (auto simp: gates_open_def admit_route_None)
  then have "row (gw_quarantine (gt_core g)) (rt_upstream rt) (rt_original rt) = Some t" "usable t" by (auto dest: get_tool_row)
  moreover have "authorize (gw_policy (gt_core g)) (c_identity c) tool" using d(1) by (simp add: gates_open_def)
  ultimately show thesis using that [OF sent d(2,3)] t_ok by blast
qed

text \<open>
  C4 (safety): take any gateway, whatever boots, reconciliations, refreshes, calls, policy reloads, redials and operator commands it went through. If a call reaches a backend,
  then exactly one message was sent, on the connection held for that backend; the name the caller used reads as that backend and that tool; one of the caller's roles, under
  the policy in force, names the tool or grants it for that very backend; the quarantine holds the tool as usable; and if the backend has a budget, the plan in force declares the tool.
\<close>
theorem sent_call_sanctioned:
  assumes "fresh_gateway H g0" "gateway_runs g0 ops g" "list_all (op_with S H) ops" "digest32 H"
    and "dispatch L e c tool args (gt_core g) = (res, core)" "gw_sent core \<noteq> gw_sent (gt_core g)"
  shows "\<exists>(rt :: routed) up (t :: tool). gw_sent core = gw_sent (gt_core g) @ [(up, rt_original rt, args)]
    \<and> map_of (fl_conns (gw_fleet (gt_core g))) (rt_upstream rt) = Some up
    \<and> split_namespaced tool = Some (rt_upstream rt, rt_original rt)
    \<and> list_ex (\<lambda>r. role_covers r (rt_upstream rt) (rt_original rt)) (roles_for (gw_policy (gt_core g)) (c_identity c))
    \<and> row (gw_quarantine (gt_core g)) (rt_upstream rt) (rt_original rt) = Some t \<and> usable t
    \<and> (rt_upstream rt \<in> set (budgeted (gw_plan (gt_core g))) \<longrightarrow> is_declared (gw_plan (gt_core g)) tool)"
proof -
  let ?p = "gw_plan (gt_core g)"
  have ok: "sound_gateway S H g" by (rule gateway_runs_ok [OF assms(2) fresh_gateway_ok [OF assms(1)] assms(3,4)])
  obtain rt up t where d: "gw_sent core = gw_sent (gt_core g) @ [(up, rt_original rt, args)]" "map_of (gw_routes (gt_core g)) tool = Some rt"
    "map_of (fl_conns (gw_fleet (gt_core g))) (rt_upstream rt) = Some up" "authorize (gw_policy (gt_core g)) (c_identity c) tool"
    "row (gw_quarantine (gt_core g)) (rt_upstream rt) (rt_original rt) = Some t" "usable t" "table_ok S ?p (gw_routes (gt_core g))"
    by (rule sent_state [OF ok assms(5,6)])
  note rr = route_roles [OF d(7,2,4)]
  have "rt_upstream rt \<in> set (budgeted ?p) \<longrightarrow> is_declared ?p tool" using rr(1,3) by (simp add: declared_in_def)
  then show ?thesis
    using d(1,3,5,6) rr(1,2) by (intro exI [of _ rt] exI [of _ up] exI [of _ t]) simp
qed

text \<open>
  C5 (safety): no call without an operator. Start a gateway on an empty quarantine and run it in any way. When a call reaches a backend, the operations on the quarantine so far
  are a history in which the commands, everything but observations, are exactly the ones operators gave, in their order; and in that history an operator vetted the fingerprint
  the tool now shows, after which no discovery saw another definition of it and nobody withdrew it; a tool that can act was, besides, cleared.
\<close>
theorem sent_call_vetted:
  assumes "fresh_gateway H g0" "gw_quarantine (gt_core g0) = empty_qstore" "gateway_runs g0 ops g" "list_all (op_with S H) ops" "digest32 H"
    and "dispatch L e c tool args (gt_core g) = (res, core)" "gw_sent core \<noteq> gw_sent (gt_core g)"
  shows "\<exists>server name (t :: tool) calls es. split_namespaced tool = Some (server, name)
    \<and> qtrace H calls = (es, gw_quarantine (gt_core g)) \<and> commands calls = commands (vettings ops)
    \<and> row (gw_quarantine (gt_core g)) server name = Some t \<and> settled H es server name (t_observed t)
    \<and> (t_class t \<noteq> class_safe \<longrightarrow> cleared_since es server name (t_observed t))"
proof -
  note fresh = fresh_gateway_ok [OF assms(1)]
  have ok: "sound_gateway S H g" by (rule gateway_runs_ok [OF assms(3) fresh assms(4,5)])
  obtain rt t where d: "map_of (gw_routes (gt_core g)) tool = Some rt"
    "row (gw_quarantine (gt_core g)) (rt_upstream rt) (rt_original rt) = Some t" "usable t"
    "table_ok S (gw_plan (gt_core g)) (gw_routes (gt_core g))"
    by (rule sent_state [OF ok assms(6,7)])
  obtain calls where c: "gw_quarantine (gt_core g) = foldl (qstep H) empty_qstore calls" "commands calls = commands (vettings ops)"
    using run_history [OF assms(3) fresh assms(4,5)] assms(2) by auto
  then obtain es where es: "qtrace H calls = (es, gw_quarantine (gt_core g))" by (metis prod.collapse snd_qtrace)
  have "accounted H es (rt_upstream rt) (rt_original rt) t" by (rule qtrace_accounted [OF assms(5) es d(2)])
  with d(3) have "settled H es (rt_upstream rt) (rt_original rt) (t_observed t)"
    "t_class t \<noteq> class_safe \<longrightarrow> cleared_since es (rt_upstream rt) (rt_original rt) (t_observed t)"
    by (auto simp: accounted_def usable_def approved_as_advertised_def split: if_splits)
  with split_table_name [OF d(4,1)] es c(2) d(2) show ?thesis by blast
qed

lemma open_sends:
  assumes "gates_open e c tool rt (Some up) g" "calm e" "in_use (gw_in_use g) (id_subject (c_identity c)) < gw_max_calls g"
    "fst (quota_answer L e c tool g) = None" "auditable L e ClockAllowed" "id_subject (c_identity c) \<noteq> []" "tool \<noteq> []" "rt_upstream rt \<noteq> []"
    "slots_ok (gw_in_use g)"
  shows "gw_sent (snd (dispatch L e c tool args g)) = gw_sent g @ [(up, rt_original rt, args)]"
proof -
  obtain s n g1 where d: "acquire (gw_max_calls g) (id_subject (c_identity c)) (gw_in_use g) = Some s"
    "charged L e c tool rt n (g\<lparr>gw_in_use := s\<rparr>) = Go () g1"
    "dispatch L e c tool args g = conclude L e c tool True (free_slot c) (deliver L e c tool args rt (Some up) n g1)"
    using dispatch_reaches_backend [OF assms(1-8), of args] by blast
  have "(fst (dispatch L e c tool args g), snd (dispatch L e c tool args g))
      = conclude L e c tool True (free_slot c) (deliver L e c tool args rt (Some up) n g1)" unfolding prod.collapse by (rule d(3))
  from dispatch_sent_state(4) [OF d(1) assms(9) d(2) this] show ?thesis .
qed

text \<open>
  C17 (liveness): a call is not lost. When every gate is open, the caller has a free slot, the budget has room, and the trail can be written, the call does reach the backend that
  serves the tool: exactly one message, with the arguments as they came.
\<close>
theorem open_call_is_sent:
  assumes "gates_open e c tool rt (Some up) g" "calm e" "in_use (gw_in_use g) (id_subject (c_identity c)) < gw_max_calls g"
    "fst (quota_answer L e c tool g) = None" "auditable L e ClockAllowed" "id_subject (c_identity c) \<noteq> []" "tool \<noteq> []" "rt_upstream rt \<noteq> []"
    "slots_ok (gw_in_use g)"
  shows "gw_sent (snd (dispatch L e c tool args g)) = gw_sent g @ [(up, rt_original rt, args)]"
  using assms by (rule open_sends)

section \<open>The service\<close>

text \<open>A gateway with its serving surface: rounds, reloads and operators act on the gateway, and requests go through the surface, in any order.\<close>

inductive service :: "schema_lib \<Rightarrow> digest \<Rightarrow> 'r front_libs \<Rightarrow> gateway \<Rightarrow> front \<Rightarrow> bool" for S H F where
  starts: "fresh_gateway H g \<Longrightarrow> service S H F g \<lparr>fr_gw = gt_core g, fr_limit = new_auth_limiter, fr_listed = []\<rparr>"
| operates: "service S H F g s \<Longrightarrow> gateway_step g op g' \<Longrightarrow> op_with S H op \<Longrightarrow> service S H F g' (s\<lparr>fr_gw := gt_core g'\<rparr>)"
| serves: "service S H F g s \<Longrightarrow> serve_http F E r s = (a, s') \<Longrightarrow> service S H F (g\<lparr>gt_core := fr_gw s'\<rparr>) s'"

lemma sound_ready: "sound_gateway S H g \<Longrightarrow> ready (gt_core g)"
  by (auto simp: sound_gateway_def gateway_ok_def ready_def intro: table_ok_named)

lemma steady_sound: "sound_gateway S H g \<Longrightarrow> steady (gt_core g) core \<Longrightarrow> sound_gateway S H (g\<lparr>gt_core := core\<rparr>)"
  by (auto simp: sound_gateway_def gateway_ok_def steady_def leaves_def)

lemma service_sound: "service S H F g s \<Longrightarrow> digest32 H \<Longrightarrow> sound_gateway S H g \<and> fr_gw s = gt_core g"
proof (induction rule: service.induct)
  case (starts g)
  then show ?case using fresh_gateway_ok by simp
next
  case (operates g s op g')
  then show ?case using gateway_step_ok by simp
next
  case (serves g s E r a s')
  then have "steady (gt_core g) (fr_gw s')" using serve_http_carries(1) [OF serves(2)] sound_ready by metis
  then show ?case using serves steady_sound by simp
qed


text \<open>
  The surface keeps bounded memories. At any moment of the service at most 1024 source addresses and 4096 analysts are remembered, whatever requests arrive.
\<close>
theorem service_memory_bounded:
  assumes "service S H F g s" "\<And>l. set (mc_subjects (hl_machine F) l) = set l"
  shows "length (al_sources (fr_limit s)) \<le> 1024 \<and> length (fr_listed s) \<le> 4096"
proof -
  have "memory_ok s" using assms(1)
  proof (induction rule: service.induct)
    case (starts g)
    show ?case by (simp add: memory_ok_def key_ok_def new_auth_limiter_def)
  next
    case (operates g s op g')
    then show ?case by (simp add: memory_ok_def)
  next
    case (serves g s E r a s')
    then show ?case using serve_http_memory [OF serves(2)] assms(2) by blast
  qed
  then show ?thesis by (simp add: memory_ok_def key_ok_def auth_max_sources_def listed_max_subjects_def)
qed

section \<open>A gateway that boots and forwards a call\<close>

definition sample_approval :: qcall where
  "sample_approval = (\<lambda>_. False, 8, QApprove ''threatintel'' ''lookup_ip'')"

abbreviation sample_served :: gateway where
  "sample_served \<equiv> snd (connect sample_round sample_gateway)"

definition sample_ready :: gateway where
  "sample_ready = sample_served\<lparr>gt_core := (gt_core sample_served)\<lparr>gw_quarantine := qstep sample_digest (gw_quarantine (gt_core sample_served)) sample_approval\<rparr>\<rparr>"

lemma ready_runs: "gateway_runs sample_gateway [Connects sample_round, Vets sample_digest sample_approval] sample_ready"
  using further [OF sample_connects vets, of sample_digest sample_approval] by (simp add: sample_ready_def)

lemma ready_ops: "list_all (op_with sample_schemas sample_digest) [Connects sample_round, Vets sample_digest sample_approval]"
  using sample_round_with by simp

lemma sample_boot:
  "case map_of (boot_table sample_round [sample_registered] sample_gateway) ''threatintel.lookup_ip'' of
     None \<Rightarrow> False
   | Some rt \<Rightarrow> rt_upstream rt = ''threatintel'' \<and> rt_original rt = ''lookup_ip''
       \<and> admit_route (\<lambda>_. False) sample_policy (c_identity sample_caller) ''threatintel.lookup_ip'' rt
            (qstep sample_digest (gw_quarantine (cn_core (booted sample_round [sample_registered] sample_gateway))) sample_approval) = None"
  "map_of (cn_conns (booted sample_round [sample_registered] sample_gateway)) ''threatintel'' = Some 4"
  by code_simp+

lemma ready_gates:
  "\<exists>rt. gates_open sample_env sample_caller ''threatintel.lookup_ip'' rt (Some 4) (gt_core sample_ready) \<and> rt_upstream rt = ''threatintel''
     \<and> rt_original rt = ''lookup_ip''"
  "in_use (gw_in_use (gt_core sample_ready)) (id_subject (c_identity sample_caller)) < gw_max_calls (gt_core sample_ready)"
  "fst (quota_answer sample_libs sample_env sample_caller ''threatintel.lookup_ip'' (gt_core sample_ready)) = None"
  "slots_ok (gw_in_use (gt_core sample_ready))" "gw_sent (gt_core sample_ready) = []"
  "gw_routes (gt_core sample_ready) = boot_table sample_round [sample_registered] sample_gateway"
  "gw_quarantine (gt_core sample_ready) = qstep sample_digest (gw_quarantine (cn_core (booted sample_round [sample_registered] sample_gateway))) sample_approval"
  "gw_policy (gt_core sample_ready) = sample_policy" "gw_blocks (gt_core sample_ready) = sample_bstore" "\<not> gw_suspended (gt_core sample_ready)"
proof -
  have "snd (quota_coverage sample_plan [sample_registered]) = []" by code_simp
  moreover have "\<not> gt_closed sample_gateway" "fv_entries sample_round = Some [sample_registered]"
    by (simp_all add: sample_gateway_def sample_round_def)
  ultimately obtain g' servable dialed rows where
    c: "sample_served = settle sample_round servable (\<lambda>_. False) False dialed rows g'" and
    core: "gt_core g' = (gt_core sample_gateway)\<lparr>gw_fleet := (gw_fleet (gt_core sample_gateway))\<lparr>fl_last_round := fv_round sample_round,
        fl_conns := cn_conns (booted sample_round [sample_registered] sample_gateway)\<rparr>,
       gw_routes := boot_table sample_round [sample_registered] sample_gateway, gw_suspended := False,
       gw_quarantine := gw_quarantine (cn_core (booted sample_round [sample_registered] sample_gateway)),
       gw_creds := gw_creds (cn_core (booted sample_round [sample_registered] sample_gateway))\<rparr>"
    using connect_effect [OF sample_ok sample_round_with(1) sample_digest32] by metis
  have v: "gt_core sample_gateway = sample_gw\<lparr>gw_routes := [], gw_quarantine := empty_qstore, gw_fleet := (gw_fleet sample_gw)\<lparr>fl_conns := []\<rparr>\<rparr>"
    by (simp add: sample_gateway_def)
  note r = sample_ready_def c core v
  from sample_boot(1) obtain rt where rt: "map_of (boot_table sample_round [sample_registered] sample_gateway) ''threatintel.lookup_ip'' = Some rt"
    "rt_upstream rt = ''threatintel''" "rt_original rt = ''lookup_ip''"
    "admit_route (\<lambda>_. False) sample_policy (c_identity sample_caller) ''threatintel.lookup_ip'' rt
       (qstep sample_digest (gw_quarantine (cn_core (booted sample_round [sample_registered] sample_gateway))) sample_approval) = None"
    by (auto split: option.splits)
  have "gates_open sample_env sample_caller ''threatintel.lookup_ip'' rt (Some 4) (gt_core sample_ready)"
    using rt sample_boot(2) sample_gates(1,2)
    by (simp add: gates_open_def r unblocked_def lookup_route_def sample_env_def sample_caller_def sample_gw_def availability_def
        read_maintenance_def)
  with rt show "\<exists>rt. gates_open sample_env sample_caller ''threatintel.lookup_ip'' rt (Some 4) (gt_core sample_ready)
     \<and> rt_upstream rt = ''threatintel'' \<and> rt_original rt = ''lookup_ip''" by blast
  show "in_use (gw_in_use (gt_core sample_ready)) (id_subject (c_identity sample_caller)) < gw_max_calls (gt_core sample_ready)"
    "slots_ok (gw_in_use (gt_core sample_ready))" "gw_sent (gt_core sample_ready) = []"
    "gw_routes (gt_core sample_ready) = boot_table sample_round [sample_registered] sample_gateway"
    "gw_quarantine (gt_core sample_ready) = qstep sample_digest (gw_quarantine (cn_core (booted sample_round [sample_registered] sample_gateway))) sample_approval"
    "gw_policy (gt_core sample_ready) = sample_policy" "gw_blocks (gt_core sample_ready) = sample_bstore" "\<not> gw_suspended (gt_core sample_ready)"
    by (simp_all add: r sample_gw_def in_use_def slots_ok_def)
  show "fst (quota_answer sample_libs sample_env sample_caller ''threatintel.lookup_ip'' (gt_core sample_ready)) = None"
    using sample_gates(4) by (simp add: r sample_libs_def sample_env_def sample_caller_def sample_gw_def)
qed

theorem open_call_is_sent_witness:
  "gw_sent (snd (dispatch sample_libs sample_env sample_caller ''threatintel.lookup_ip'' ''{}'' (gt_core sample_ready))) = [(4, ''lookup_ip'', ''{}'')]"
proof -
  obtain rt where rt: "gates_open sample_env sample_caller ''threatintel.lookup_ip'' rt (Some 4) (gt_core sample_ready)"
    "rt_upstream rt = ''threatintel''" "rt_original rt = ''lookup_ip''" using ready_gates(1) by blast
  have "id_subject (c_identity sample_caller) \<noteq> []" by (simp add: sample_caller_def)
  from open_call_is_sent [OF rt(1) sample_calm(1) ready_gates(2,3) sample_calm(2) this _ _ ready_gates(4), of "''{}''"] rt ready_gates(5)
  show ?thesis by simp
qed

lemma ready_sends:
  "gw_sent (snd (dispatch sample_libs sample_env sample_caller ''threatintel.lookup_ip'' ''{}'' (gt_core sample_ready))) \<noteq> gw_sent (gt_core sample_ready)"
proof -
  obtain rt where rt: "gates_open sample_env sample_caller ''threatintel.lookup_ip'' rt (Some 4) (gt_core sample_ready)"
    "rt_upstream rt = ''threatintel''" using ready_gates(1) by blast
  have n: "id_subject (c_identity sample_caller) \<noteq> []" "''threatintel.lookup_ip'' \<noteq> []" "rt_upstream rt \<noteq> []"
    by (simp_all add: sample_caller_def rt(2))
  from open_sends [OF rt(1) sample_calm(1) ready_gates(2,3) sample_calm(2) n ready_gates(4)] show ?thesis by simp
qed

theorem sent_call_sanctioned_witness:
  "\<exists>(rt :: routed) (t :: tool). split_namespaced ''threatintel.lookup_ip'' = Some (rt_upstream rt, rt_original rt)
     \<and> row (gw_quarantine (gt_core sample_ready)) (rt_upstream rt) (rt_original rt) = Some t \<and> usable t"
  using sent_call_sanctioned [OF sample_fresh ready_runs ready_ops sample_digest32 prod.collapse [symmetric] ready_sends] by blast

theorem sent_call_vetted_witness:
  "\<exists>server name (t :: tool) calls es. split_namespaced ''threatintel.lookup_ip'' = Some (server, name)
     \<and> qtrace sample_digest calls = (es, gw_quarantine (gt_core sample_ready)) \<and> commands calls = [sample_approval]
     \<and> settled sample_digest es server name (t_observed t)"
proof -
  have "gw_quarantine (gt_core sample_gateway) = empty_qstore" by (simp add: sample_gateway_def)
  moreover have "commands (vettings [Connects sample_round, Vets sample_digest sample_approval]) = [sample_approval]"
    by (simp add: commands_def is_observation_def sample_approval_def)
  ultimately show ?thesis
    using sent_call_vetted [OF sample_fresh _ ready_runs ready_ops sample_digest32 prod.collapse [symmetric] ready_sends] by metis
qed

section \<open>A request that reaches a backend\<close>

abbreviation sample_token_env :: call_env where
  "sample_token_env \<equiv> sample_env\<lparr>ce_admitted := Some (id_subject (c_identity sample_caller))\<rparr>"

abbreviation sample_start :: front where
  "sample_start \<equiv> \<lparr>fr_gw = gt_core sample_gateway, fr_limit = new_auth_limiter, fr_listed = []\<rparr>"

abbreviation sample_service :: front where
  "sample_service \<equiv> sample_start\<lparr>fr_gw := gt_core sample_ready\<rparr>"

abbreviation sample_order :: http_request where
  "sample_order \<equiv> sample_request [''Bearer abc''] ''threatintel.lookup_ip''"

lemma sample_service_runs: "service sample_schemas sample_digest sample_front_libs sample_ready sample_service"
proof -
  have "gateway_step sample_gateway (Connects sample_round) sample_served" by (rule connects)
  moreover have "gateway_step sample_served (Vets sample_digest sample_approval) sample_ready"
    using vets [of sample_served sample_digest sample_approval] by (simp add: sample_ready_def)
  ultimately show ?thesis
    using operates [OF operates [OF starts [OF sample_fresh]]] ready_ops by fastforce
qed

lemma list_names_cong:
  "gw_routes g = gw_routes g' \<Longrightarrow> gw_policy g = gw_policy g' \<Longrightarrow> gw_quarantine g = gw_quarantine g' \<Longrightarrow> list_names e i names g = list_names e i names g'"
proof (induction names)
  case (Cons n names)
  show ?case unfolding list_names.simps Cons.IH [OF Cons.prems] Cons.prems ..
qed simp

lemma boot_names:
  "list_names sample_token_env (c_identity sample_caller) (sort (remdups (map fst (boot_table sample_round [sample_registered] sample_gateway))))
     (sample_gw\<lparr>gw_routes := boot_table sample_round [sample_registered] sample_gateway,
        gw_quarantine := qstep sample_digest (gw_quarantine (cn_core (booted sample_round [sample_registered] sample_gateway))) sample_approval\<rparr>)
   = Inr sample_listing"
  by code_simp

lemma ready_lists: "gw_list_tools sample_token_env (c_identity sample_caller) (gt_core sample_ready) = Go (Inr sample_listing) (gt_core sample_ready)"
proof -
  have "list_names sample_token_env (c_identity sample_caller) (sort (remdups (map fst (gw_routes (gt_core sample_ready))))) (gt_core sample_ready) = Inr sample_listing"
    unfolding boot_names [symmetric] ready_gates(6) by (rule list_names_cong) (simp_all add: ready_gates(6-8), simp add: sample_gw_def)
  then show ?thesis
    by (simp add: gw_list_tools_def gw_check_block_def ready_gates(10) del: map_map)
qed

lemma token_gates: "gates_open e c tool rt up g \<Longrightarrow> gates_open (e\<lparr>ce_admitted := Some (id_subject (c_identity c))\<rparr>) c tool rt up g"
  by (auto simp: gates_open_def unblocked_def)

lemma token_calm: "calm sample_token_env" "auditable sample_libs sample_token_env ClockAllowed"
  "fst (quota_answer sample_libs sample_token_env sample_caller ''threatintel.lookup_ip'' (gt_core sample_ready)) = None"
  using sample_calm ready_gates(3) by (simp_all add: calm_def auditable_def)

lemma order_served:
  "serve_http sample_front_libs sample_http_env sample_order sample_service
     = (case handle_all sample_front_libs sample_http_env (id_subject (c_identity sample_caller)) 0 sample_caller sample_listing
          [ToolsCall ''threatintel.lookup_ip'' ''{}''] sample_service of (as, s') \<Rightarrow> (Answers as, s'))"
proof -
  have src: "\<lparr>c_identity = c_identity sample_caller, c_source = source_address (hl_split_host sample_front_libs) sample_order\<rparr> = sample_caller"
    by (simp add: sample_caller_def source_address_def sample_front_libs_def sample_request_def)
  have reg: "register_tools sample_front_libs sample_listing = sample_listing" by code_simp
  have rd: "hl_read sample_front_libs (hr_body sample_order) = [ToolsCall ''threatintel.lookup_ip'' ''{}'']"
    by (simp add: sample_front_libs_def sample_request_def)
  have p: "hr_path sample_order \<notin> set (hl_metadata sample_front_libs)" by code_simp
  have n: "trim_space (id_subject (c_identity sample_caller)) \<noteq> []" by code_simp
  have b: "\<not> ce_ctx (he_admit sample_http_env) CtxBlock" "\<not> ce_panic (he_admit sample_http_env) PanicBlock"
    "blocked (ce_block_fault (he_admit sample_http_env)) (ce_clock (he_admit sample_http_env) ClockBlock) (id_subject (c_identity sample_caller))
       (gw_blocks (fr_gw sample_service)) = Inr False"
    using sample_gates(1) by (simp_all add: sample_http_env_def sample_env_def sample_caller_def ready_gates(9))
  have l: "gw_list_tools ((he_list sample_http_env)\<lparr>ce_admitted := Some (id_subject (c_identity sample_caller))\<rparr>) (c_identity sample_caller) (fr_gw sample_service)
      = Go (Inr sample_listing) (gt_core sample_ready)" using ready_lists by (simp add: sample_http_env_def)
  show ?thesis
    using serve_http_handled [OF p sample_bearer n b l prod.collapse [symmetric]] unfolding src reg rd by (simp add: case_prod_beta)
qed

lemma order_sends: "gw_sent (fr_gw (snd (serve_http sample_front_libs sample_http_env sample_order sample_service))) = [(4, ''lookup_ip'', ''{}'')]"
proof -
  obtain rt where rt: "gates_open sample_env sample_caller ''threatintel.lookup_ip'' rt (Some 4) (gt_core sample_ready)"
    "rt_upstream rt = ''threatintel''" "rt_original rt = ''lookup_ip''" using ready_gates(1) by blast
  have n: "id_subject (c_identity sample_caller) \<noteq> []" "''threatintel.lookup_ip'' \<noteq> []" "rt_upstream rt \<noteq> []"
    by (simp_all add: sample_caller_def rt(2))
  define out where "out = dispatch sample_libs sample_token_env sample_caller ''threatintel.lookup_ip'' ''{}'' (gt_core sample_ready)"
  have sent: "gw_sent (snd out) = [(4, ''lookup_ip'', ''{}'')]"
    using open_sends [OF token_gates [OF rt(1)] token_calm(1) ready_gates(2) token_calm(3,2) n ready_gates(4)] rt(3) ready_gates(5) by (simp add: out_def)
  have served: "''threatintel.lookup_ip'' \<in> set (served_names sample_front_libs sample_listing)" "''threatintel.lookup_ip'' \<noteq> gatte_status_tool" by code_simp+
  have "fr_gw (snd (handle_rpc sample_front_libs sample_token_env False \<lparr>g_ns = 105, g_off = 0\<rparr> sample_caller sample_listing
      (ToolsCall ''threatintel.lookup_ip'' ''{}'') sample_service)) = snd out"
    using served out_def
    by (auto simp: handle_rpc_def dispatch_tool_def sample_front_libs_def split: sum.splits prod.splits option.splits)
  with sent show ?thesis unfolding order_served by (simp add: sample_http_env_def case_prod_beta)
qed


theorem service_memory_bounded_witness: "length (al_sources (fr_limit sample_service)) \<le> 1024"
  using service_memory_bounded [OF sample_service_runs] by (simp add: sample_front_libs_def sample_machine_def)

end
